(* ===== verification/Mahina_Prelude.thy ===== *)
theory Mahina_Prelude
  imports Main "HOL-Library.Word"
begin

text \<open>
  Shared vocabulary of the development: the C types the sources use, C strings and the libc
  string functions that several components call, results that may fail or have undefined
  behaviour, and the generic lemmas the component theories rest on.

  A C string is the list of its characters without the terminating NUL. A buffer that may hold
  a NUL in its middle is a plain character list; \<open>cstr\<close> reads the C string it holds. Functions
  that could read or write outside an object return an \<open>option\<close>, with \<open>None\<close> for the
  out-of-bounds access; functions that report an error return a sum with the error on the left.
\<close>

section \<open>Collections of facts\<close>

named_theorems c_string_simps \<open>rewriting libc string functions on character lists\<close>
named_theorems c_bounds \<open>length bounds of what bounded copies and parsers produce\<close>

section \<open>C types\<close>

type_synonym u8 = "8 word"
type_synonym u16 = "16 word"
type_synonym u32 = "32 word"
type_synonym u64 = "64 word"

text \<open>Signed 32-bit and 64-bit ranges, and the conversion to \<open>int\<close> that keeps the low 32 bits.\<close>

definition in_int32 :: "int \<Rightarrow> bool" where
  "in_int32 i \<longleftrightarrow> - (2 ^ 31) \<le> i \<and> i < 2 ^ 31"

definition in_int64 :: "int \<Rightarrow> bool" where
  "in_int64 i \<longleftrightarrow> - (2 ^ 63) \<le> i \<and> i < 2 ^ 63"

definition to_int32 :: "int \<Rightarrow> int" where
  "to_int32 i = (i + 2 ^ 31) mod 2 ^ 32 - 2 ^ 31"

lemma to_int32_range [simp, intro]: "in_int32 (to_int32 i)"
proof -
  have "0 \<le> (i + 2 ^ 31) mod 2 ^ 32" and "(i + 2 ^ 31) mod 2 ^ 32 < (2 ^ 32 :: int)"
    by simp_all
  then show ?thesis
    unfolding to_int32_def in_int32_def by simp
qed

lemma to_int32_id: "in_int32 i \<Longrightarrow> to_int32 i = i"
  unfolding to_int32_def in_int32_def by simp

section \<open>Results\<close>

text \<open>
  \<open>ub_bind m f\<close> runs \<open>f\<close> on the value of \<open>m\<close>: undefined behaviour and errors of \<open>m\<close> are
  passed on, as an early \<open>return err\<close> does.
\<close>

definition ub_bind :: "('e + 'a) option \<Rightarrow> ('a \<Rightarrow> ('e + 'b) option) \<Rightarrow> ('e + 'b) option" where
  "ub_bind m f = (case m of None \<Rightarrow> None | Some (Inl e) \<Rightarrow> Some (Inl e) | Some (Inr a) \<Rightarrow> f a)"

lemma ub_bind_simps [simp]:
  "ub_bind None f = None"
  "ub_bind (Some (Inl e)) f = Some (Inl e)"
  "ub_bind (Some (Inr a)) f = f a"
  by (simp_all add: ub_bind_def)

lemma ub_bind_eq_Inr:
  "ub_bind m f = Some (Inr b) \<longleftrightarrow> (\<exists>a. m = Some (Inr a) \<and> f a = Some (Inr b))"
  by (auto simp: ub_bind_def split: option.splits sum.splits)

lemma ub_bind_eq_None [simp]:
  "ub_bind m f = None \<longleftrightarrow> m = None \<or> (\<exists>a. m = Some (Inr a) \<and> f a = None)"
  by (auto simp: ub_bind_def split: option.splits sum.splits)

section \<open>C strings\<close>

abbreviation (input) NUL :: char where "NUL \<equiv> CHR 0x00"
abbreviation (input) LF :: char where "LF \<equiv> CHR 0x0A"
abbreviation (input) CR :: char where "CR \<equiv> CHR 0x0D"
abbreviation (input) DQUOTE :: char where "DQUOTE \<equiv> CHR 0x22"
abbreviation (input) BSLASH :: char where "BSLASH \<equiv> CHR 0x5C"

definition isspace :: "char \<Rightarrow> bool" where
  "isspace c \<longleftrightarrow> c = CHR 0x20 \<or> c = CHR 0x09 \<or> c = CHR 0x0A \<or> c = CHR 0x0B \<or> c = CHR 0x0C \<or> c = CHR 0x0D"

definition isdigit :: "char \<Rightarrow> bool" where
  "isdigit c \<longleftrightarrow> 48 \<le> (of_char c :: nat) \<and> (of_char c :: nat) \<le> 57"

definition cstr :: "char list \<Rightarrow> string" where
  "cstr buf = takeWhile (\<lambda>c. c \<noteq> NUL) buf"

text \<open>\<open>strncmp(a, b, n) == 0\<close>: the strings agree up to the first \<open>n\<close> characters.\<close>

definition strncmp_eq :: "nat \<Rightarrow> string \<Rightarrow> string \<Rightarrow> bool" where
  "strncmp_eq n a b \<longleftrightarrow> take n a = take n b"

text \<open>
  What a zero-filled buffer of \<open>n\<close> bytes holds after \<open>strncpy(dst, src, n - 1)\<close> or after
  \<open>snprintf(dst, n, "%s", src)\<close>: the first \<open>n - 1\<close> characters.
\<close>

definition bounded_copy :: "nat \<Rightarrow> string \<Rightarrow> string" where
  "bounded_copy n src = take (n - 1) src"

text \<open>\<open>strchr\<close>: the text before and after the first occurrence of a character.\<close>

fun split_chr :: "char \<Rightarrow> string \<Rightarrow> (string \<times> string) option" where
  "split_chr c [] = None"
| "split_chr c (x # xs) =
     (if x = c then Some ([], xs)
      else map_option (\<lambda>(a, b). (x # a, b)) (split_chr c xs))"

text \<open>\<open>strrchr\<close>: the text before and after the last occurrence of a character.\<close>

definition split_last_chr :: "char \<Rightarrow> string \<Rightarrow> (string \<times> string) option" where
  "split_last_chr c s =
     map_option (\<lambda>(a, b). (rev b, rev a)) (split_chr c (rev s))"

text \<open>\<open>strstr\<close>: the text before and after the first occurrence of a needle.\<close>

fun split_str :: "string \<Rightarrow> string \<Rightarrow> (string \<times> string) option" where
  "split_str n [] = (if n = [] then Some ([], []) else None)"
| "split_str n (x # xs) =
     (if take (length n) (x # xs) = n then Some ([], drop (length n) (x # xs))
      else map_option (\<lambda>(a, b). (x # a, b)) (split_str n xs))"

text \<open>The value of a string of decimal digits.\<close>

definition digits_val :: "string \<Rightarrow> int" where
  "digits_val ds = foldl (\<lambda>a d. 10 * a + (of_char d - 48)) 0 ds"

text \<open>
  \<open>strtoll(s, &end, 10)\<close> and \<open>strtol\<close> (\<open>long\<close> has 64 bits): skip white space, an optional sign,
  digits. \<open>None\<close> when there is no conversion (\<open>end == s\<close>), otherwise the mathematical value and
  the text \<open>end\<close> points to. The value the C function returns is that value clamped to the range
  of the type, with \<open>errno = ERANGE\<close> when it was outside.
\<close>

definition strtoll10 :: "string \<Rightarrow> (int \<times> string) option" where
  "strtoll10 s =
     (let s1 = dropWhile isspace s;
          neg = (s1 \<noteq> [] \<and> hd s1 = CHR ''-'');
          s2 = (if s1 \<noteq> [] \<and> (hd s1 = CHR ''-'' \<or> hd s1 = CHR ''+'') then tl s1 else s1);
          ds = takeWhile isdigit s2
      in if ds = [] then None
         else Some (if neg then - digits_val ds else digits_val ds, dropWhile isdigit s2))"

definition clamp_int64 :: "int \<Rightarrow> int" where
  "clamp_int64 i = max (- (2 ^ 63)) (min (2 ^ 63 - 1) i)"

text \<open>\<open>atoi\<close>: \<open>strtol\<close> converted to \<open>int\<close>.\<close>

definition atoi :: "string \<Rightarrow> int" where
  "atoi s = (case strtoll10 s of None \<Rightarrow> 0 | Some (v, _) \<Rightarrow> to_int32 (clamp_int64 v))"

text \<open>
  The sequence of strings that repeated \<open>fgets(line, n, f)\<close> delivers for the bytes of a file: up
  to \<open>n - 1\<close> bytes, ending after a newline. Each is read as a C string by its user.
\<close>

definition fgets_chunk :: "nat \<Rightarrow> char list \<Rightarrow> char list" where
  "fgets_chunk n buf =
     (let l = takeWhile (\<lambda>c. c \<noteq> LF) buf in
      if length l < n - 1 \<and> length l < length buf then l @ [LF] else take (n - 1) l)"

lemma fgets_chunk_progress: "buf \<noteq> [] \<Longrightarrow> 1 < n \<Longrightarrow> 0 < length (fgets_chunk n buf)"
  by (cases buf) (auto simp: fgets_chunk_def Let_def)

function fgets_chunks :: "nat \<Rightarrow> char list \<Rightarrow> char list list" where
  "fgets_chunks n buf =
     (if buf = [] \<or> n \<le> 1 then []
      else (let c = fgets_chunk n buf in c # fgets_chunks n (drop (length c) buf)))"
  by pat_completeness auto
termination
proof (relation "measure (\<lambda>(n, buf). length buf)", goal_cases)
  case (2 n buf c)
  then show ?case using fgets_chunk_progress [of buf n] by simp
qed simp

declare fgets_chunks.simps [simp del]

text \<open>The digits \<open>%d\<close> and \<open>%u\<close> print.\<close>

fun show_nat :: "nat \<Rightarrow> string" where
  "show_nat n =
     (if n < 10 then [char_of (48 + n)] else show_nat (n div 10) @ [char_of (48 + n mod 10)])"

declare show_nat.simps [simp del]

definition show_int :: "int \<Rightarrow> string" where
  "show_int i = (if i < 0 then CHR ''-'' # show_nat (nat (- i)) else show_nat (nat i))"

section \<open>Lemmas on C strings\<close>

lemma length_cstr_le [c_bounds]: "length (cstr buf) \<le> length buf"
  by (simp add: cstr_def length_takeWhile_le)

lemma cstr_no_NUL [simp]: "NUL \<notin> set (cstr buf)"
  by (auto simp: cstr_def dest: set_takeWhileD)

lemma cstr_id [c_string_simps]: "NUL \<notin> set s \<Longrightarrow> cstr s = s"
  by (auto simp: cstr_def takeWhile_eq_all_conv)

lemma length_bounded_copy [c_bounds]: "0 < n \<Longrightarrow> length (bounded_copy n src) < n"
  by (auto simp: bounded_copy_def)

lemma bounded_copy_id [c_string_simps]: "length src < n \<Longrightarrow> bounded_copy n src = src"
  by (simp add: bounded_copy_def)

lemma strncmp_eq_refl [simp]: "strncmp_eq n a a"
  by (simp add: strncmp_eq_def)

lemma strncmp_eq_iff [c_string_simps]:
  "length a \<le> n \<Longrightarrow> length b \<le> n \<Longrightarrow> strncmp_eq n a b \<longleftrightarrow> a = b"
  by (simp add: strncmp_eq_def)

lemma split_chr_None [c_string_simps]: "split_chr c s = None \<longleftrightarrow> c \<notin> set s"
  by (induction s) auto

lemma split_chr_Some:
  "split_chr c s = Some (a, b) \<longleftrightarrow> s = a @ c # b \<and> c \<notin> set a"
proof (induction s arbitrary: a)
  case Nil
  then show ?case by simp
next
  case (Cons x xs)
  then show ?case by (cases a) auto
qed

lemma split_chr_append [c_string_simps]: "c \<notin> set a \<Longrightarrow> split_chr c (a @ c # b) = Some (a, b)"
  by (simp add: split_chr_Some)

lemma split_last_chr_Some:
  "split_last_chr c s = Some (a, b) \<longleftrightarrow> s = a @ c # b \<and> c \<notin> set b"
proof
  assume "split_last_chr c s = Some (a, b)"
  then have "split_chr c (rev s) = Some (rev b, rev a)"
    by (auto simp: split_last_chr_def)
  then have "rev s = rev b @ c # rev a" and "c \<notin> set b"
    by (auto simp: split_chr_Some)
  then show "s = a @ c # b \<and> c \<notin> set b"
    by (metis append.assoc append_Cons append_Nil rev.simps(2) rev_append rev_rev_ident)
next
  assume "s = a @ c # b \<and> c \<notin> set b"
  then have "split_chr c (rev s) = Some (rev b, rev a)"
    by (simp add: split_chr_Some)
  then show "split_last_chr c s = Some (a, b)"
    by (simp add: split_last_chr_def)
qed

lemma split_str_Some: "split_str n s = Some (a, b) \<Longrightarrow> s = a @ n @ b"
proof (induction s arbitrary: a)
  case Nil
  then show ?case by (simp split: if_splits)
next
  case (Cons x xs)
  show ?case
  proof (cases "take (length n) (x # xs) = n")
    case True
    with Cons.prems have "a = []" and "b = drop (length n) (x # xs)" by simp_all
    with True show ?thesis by (metis append_Nil append_take_drop_id)
  next
    case False
    with Cons.prems obtain a' where "split_str n xs = Some (a', b)" and "a = x # a'"
      by auto
    with Cons.IH show ?thesis by simp
  qed
qed

text \<open>Printing and reading decimal numbers.\<close>

lemma of_char_digit_int: "d < 10 \<Longrightarrow> (of_char (char_of (48 + d :: nat)) :: int) = 48 + int d"
proof -
  assume "d < 10"
  moreover have "(of_char (char_of (48 + d)) :: int) = int ((48 + d) mod 256)"
    by (metis of_char_of of_nat_of_char)
  ultimately show ?thesis by simp
qed

lemma isdigit_char_of [simp]: "d < 10 \<Longrightarrow> isdigit (char_of (48 + d :: nat))"
  by (simp add: isdigit_def)

lemma show_nat_digits: "list_all isdigit (show_nat n)"
proof (induction n rule: show_nat.induct)
  case (1 n)
  then show ?case by (subst show_nat.simps) auto
qed

lemma show_nat_length: "n < 10 ^ k \<Longrightarrow> 0 < k \<Longrightarrow> length (show_nat n) \<le> k"
proof (induction n arbitrary: k rule: show_nat.induct)
  case (1 n)
  show ?case
  proof (cases "n < 10")
    case True
    with "1.prems" show ?thesis by (subst show_nat.simps) simp
  next
    case False
    with "1.prems" obtain j where k: "k = Suc j" "0 < j" by (cases k; cases "k - 1") auto
    with "1.prems" have "n div 10 < 10 ^ j" by (simp add: less_mult_imp_div_less mult.commute)
    with "1.IH" [OF False] k have "length (show_nat (n div 10)) \<le> j" by simp
    with False k show ?thesis by (subst show_nat.simps) simp
  qed
qed

lemma show_nat_not_Nil [simp]: "show_nat n \<noteq> []"
  by (subst show_nat.simps) simp

lemma digits_val_snoc: "digits_val (ds @ [d]) = 10 * digits_val ds + (of_char d - 48)"
  by (simp add: digits_val_def)

lemma digits_val_show_nat [simp]: "digits_val (show_nat n) = int n"
proof (induction n rule: show_nat.induct)
  case (1 n)
  show ?case
  proof (cases "n < 10")
    case True
    then show ?thesis
      by (subst show_nat.simps) (simp add: digits_val_def of_char_digit_int)
  next
    case False
    with 1 have "digits_val (show_nat (n div 10)) = int (n div 10)" by simp
    with False have "digits_val (show_nat n) = 10 * int (n div 10) + int (n mod 10)"
      by (subst show_nat.simps) (simp add: digits_val_snoc of_char_digit_int)
    also have "\<dots> = int n" by presburger
    finally show ?thesis .
  qed
qed

lemma isdigit_not_space: "isdigit c \<Longrightarrow> \<not> isspace c"
  by (auto simp: isdigit_def isspace_def)

lemma strtoll10_show_int [c_string_simps]:
  assumes "rest = [] \<or> \<not> isdigit (hd rest)"
  shows "strtoll10 (show_int i @ rest) = Some (i, rest)"
proof -
  have tw: "takeWhile isdigit (show_nat n @ rest) = show_nat n"
    and dw: "dropWhile isdigit (show_nat n @ rest) = rest" for n
    using assms show_nat_digits [of n]
    by (cases rest; simp add: list_all_iff takeWhile_append dropWhile_append)+
  have c: "\<exists>c cs. show_nat n = c # cs \<and> isdigit c" for n
    using show_nat_digits [of n] by (cases "show_nat n") auto
  have nd: "\<not> isdigit CHR ''-''" "\<not> isdigit CHR ''+''" "\<not> isspace CHR ''-''"
    by (simp_all add: isdigit_def isspace_def)
  show ?thesis
  proof (cases "i < 0")
    case True
    then show ?thesis
      using tw [of "nat (- i)"] dw [of "nat (- i)"] nd
      by (simp add: strtoll10_def show_int_def Let_def)
  next
    case False
    obtain c cs where cs: "show_nat (nat i) = c # cs" "isdigit c" using c by blast
    with nd have "c \<noteq> CHR ''-''" "c \<noteq> CHR ''+''" "\<not> isspace c"
      by (auto dest: isdigit_not_space)
    with False cs show ?thesis
      using tw [of "nat i"] dw [of "nat i"] digits_val_show_nat [of "nat i"]
      by (simp add: strtoll10_def show_int_def Let_def)
  qed
qed

lemma dropWhile_length [c_bounds]: "length (dropWhile P xs) \<le> length xs"
  by (induction xs) auto

section \<open>Searching arrays\<close>

text \<open>The index of the first element with a property: the search loops over arrays.\<close>

fun first_index :: "('a \<Rightarrow> bool) \<Rightarrow> 'a list \<Rightarrow> nat option" where
  "first_index P [] = None"
| "first_index P (x # xs) = (if P x then Some 0 else map_option Suc (first_index P xs))"

lemma first_index_Some:
  "first_index P xs = Some i \<Longrightarrow> i < length xs \<and> P (xs ! i) \<and> (\<forall>j < i. \<not> P (xs ! j))"
proof (induction xs arbitrary: i)
  case Nil
  then show ?case by simp
next
  case (Cons x xs)
  show ?case
  proof (cases "P x")
    case True
    with Cons.prems show ?thesis by simp
  next
    case False
    with Cons.prems obtain k where k: "first_index P xs = Some k" "i = Suc k" by auto
    from Cons.IH [OF k(1)] k(2) False show ?thesis by (auto simp: nth_Cons less_Suc_eq_0_disj)
  qed
qed

lemma first_index_None: "first_index P xs = None \<longleftrightarrow> (\<forall>x \<in> set xs. \<not> P x)"
  by (induction xs) auto

lemma first_index_unique:
  assumes "i < length xs" "P (xs ! i)" "\<And>j. j < length xs \<Longrightarrow> P (xs ! j) \<Longrightarrow> j = i"
  shows "first_index P xs = Some i"
proof (cases "first_index P xs")
  case None
  with assms(1,2) show ?thesis unfolding first_index_None by (meson nth_mem)
next
  case (Some k)
  with assms(3) first_index_Some [OF this] show ?thesis by blast
qed

end
