(* ===== verification/Toml.thy ===== *)
theory Toml
  imports Mahina_Prelude
begin

text \<open>
  The TOML reader of luna-init (\<open>src/luna-init/toml.c\<close>, \<open>toml.h\<close>): the line parser, the value
  parsers, the document loader and the lookup functions. Positions in a C string are modelled by
  the suffix they point to, so \<open>*p\<close> is the head of the suffix and the terminating NUL is the
  empty list. The one place where the source steps over two characters without looking at the
  first (the skip loop of \<open>parse_array_value\<close>) could step over the terminator, so the results
  of the value parsers carry an outer option whose \<open>None\<close> is that out-of-bounds read.
\<close>

section \<open>Data\<close>

datatype toml_error =
    TOML_OK
  | TOML_ERR_INVALID
  | TOML_ERR_OVERFLOW
  | TOML_ERR_NOT_FOUND
  | TOML_ERR_TYPE
  | TOML_ERR_UNSUPPORTED
  | TOML_ERR_IO
  | TOML_ERR_TOO_LARGE

datatype toml_value =
    TOML_STRING string
  | TOML_INTEGER int
  | TOML_BOOLEAN bool
  | TOML_ARRAY "string list"

abbreviation (input) TOML_MAX_KEY_LEN :: nat where "TOML_MAX_KEY_LEN \<equiv> 64"
abbreviation (input) TOML_MAX_STR_LEN :: nat where "TOML_MAX_STR_LEN \<equiv> 256"
abbreviation (input) TOML_MAX_SECTION_LEN :: nat where "TOML_MAX_SECTION_LEN \<equiv> 64"
abbreviation (input) TOML_MAX_ARRAY_ITEMS :: nat where "TOML_MAX_ARRAY_ITEMS \<equiv> 16"
abbreviation (input) TOML_MAX_DOC_BYTES :: nat where "TOML_MAX_DOC_BYTES \<equiv> 65536"
abbreviation (input) TOML_MAX_ENTRIES :: nat where "TOML_MAX_ENTRIES \<equiv> 128"
abbreviation (input) TOML_MAX_ARRAY_TABLES :: nat where "TOML_MAX_ARRAY_TABLES \<equiv> 32"
abbreviation (input) TOML_MAX_LINE_LEN :: nat where "TOML_MAX_LINE_LEN \<equiv> 512"

record toml_entry =
  te_section :: string
  te_key :: string
  te_value :: toml_value
  te_array_table_index :: int

record toml_doc =
  td_entries :: "toml_entry list"
  td_array_tables :: "(string \<times> int) list"

record parse_state =
  ps_cur_section :: string
  ps_cur_is_array_table :: bool
  ps_cur_array_table_entry :: int

section \<open>String helpers\<close>

definition str_trim_inplace :: "string \<Rightarrow> string" where
  "str_trim_inplace s = rev (dropWhile isspace (rev (dropWhile isspace s)))"

text \<open>The copied text and the return code (-1 when the source was truncated).\<close>

definition str_copy_bounded :: "nat \<Rightarrow> string \<Rightarrow> string \<times> int" where
  "str_copy_bounded dst_size src =
     (if length src \<ge> dst_size then (take (dst_size - 1) src, - 1) else (src, 0))"

section \<open>Array-of-tables bookkeeping\<close>

fun find_array_table_from :: "(string \<times> int) list \<Rightarrow> string \<Rightarrow> nat \<Rightarrow> int" where
  "find_array_table_from [] name i = - 1"
| "find_array_table_from ((n, c) # ts) name i =
     (if strncmp_eq TOML_MAX_SECTION_LEN n name then int i
      else find_array_table_from ts name (Suc i))"

definition toml_find_array_table_index :: "toml_doc \<Rightarrow> string \<Rightarrow> int" where
  "toml_find_array_table_index doc name = find_array_table_from (td_array_tables doc) name 0"

definition toml_get_or_create_array_table :: "toml_doc \<Rightarrow> string \<Rightarrow> toml_doc \<times> int" where
  "toml_get_or_create_array_table doc name =
     (let idx = toml_find_array_table_index doc name in
      if idx \<ge> 0 then (doc, idx)
      else if length (td_array_tables doc) \<ge> TOML_MAX_ARRAY_TABLES then (doc, - 1)
      else (doc\<lparr>td_array_tables := td_array_tables doc @
                 [(fst (str_copy_bounded TOML_MAX_SECTION_LEN name), 0)]\<rparr>,
            int (length (td_array_tables doc))))"

section \<open>Value parsers\<close>

text \<open>
  The copy loop of \<open>parse_string_value\<close>: from the suffix \<open>p\<close> points to and the characters
  written so far to the suffix where the loop stops and the characters written.
\<close>

fun parse_string_loop :: "string \<Rightarrow> string \<Rightarrow> string \<times> string" where
  "parse_string_loop [] out = ([], out)"
| "parse_string_loop (c # p) out =
     (if c = DQUOTE \<or> \<not> length out < TOML_MAX_STR_LEN - 1 then (c # p, out)
      else case p of
          [] \<Rightarrow> parse_string_loop p (out @ [c])
        | d # p' \<Rightarrow>
            if c = BSLASH \<and> d = DQUOTE then parse_string_loop p' (out @ [DQUOTE])
            else parse_string_loop p (out @ [c]))"

definition parse_string_value :: "string \<Rightarrow> toml_error + string" where
  "parse_string_value src =
     (case src of
        [] \<Rightarrow> Inl TOML_ERR_INVALID
      | c # p \<Rightarrow>
          if c \<noteq> DQUOTE then Inl TOML_ERR_INVALID
          else (case parse_string_loop p [] of
                  ([], out) \<Rightarrow> Inl TOML_ERR_INVALID
                | (d # p', out) \<Rightarrow> if d \<noteq> DQUOTE then Inl TOML_ERR_OVERFLOW else Inr out))"

text \<open>
  The loop that advances to the closing quote after an array item: a backslash makes it step
  over the next character as well, whatever it is. \<open>None\<close>: it stepped over the terminator.
\<close>

fun skip_to_quote :: "string \<Rightarrow> string option" where
  "skip_to_quote [] = Some []"
| "skip_to_quote (c # p) =
     (if c = DQUOTE then Some (c # p)
      else if c = BSLASH then (case p of [] \<Rightarrow> None | d # p' \<Rightarrow> skip_to_quote p')
      else skip_to_quote p)"

lemma skip_to_quote_length: "skip_to_quote p = Some p' \<Longrightarrow> length p' \<le> length p"
  by (induction p rule: skip_to_quote.induct) (auto split: if_splits list.splits)

definition skip_separators :: "string \<Rightarrow> string" where
  "skip_separators = dropWhile (\<lambda>c. isspace c \<or> c = CHR '','')"

text \<open>The item loop of \<open>parse_array_value\<close>; it returns the items and the suffix it stopped at.\<close>

function parse_array_loop :: "string \<Rightarrow> string list \<Rightarrow> (toml_error + string list \<times> string) option" where
  "parse_array_loop p items =
     (if p = [] then Some (Inr (items, p))
      else case skip_separators p of
          [] \<Rightarrow> Some (Inl TOML_ERR_INVALID)
        | c # q \<Rightarrow>
            if c = CHR '']'' then Some (Inr (items, c # q))
            else if c \<noteq> DQUOTE then Some (Inl TOML_ERR_UNSUPPORTED)
            else if length items \<ge> TOML_MAX_ARRAY_ITEMS then Some (Inl TOML_ERR_OVERFLOW)
            else (case parse_string_value (c # q) of
                    Inl err \<Rightarrow> Some (Inl err)
                  | Inr item \<Rightarrow>
                      (case skip_to_quote q of
                         None \<Rightarrow> None
                       | Some r \<Rightarrow>
                           parse_array_loop (if r \<noteq> [] \<and> hd r = DQUOTE then tl r else r)
                             (items @ [item]))))"
  by pat_completeness auto
termination
proof (relation "measure (\<lambda>(p, items). length p)", goal_cases)
  case 1
  show ?case by simp
next
  case (2 p items c q item r)
  have "length (c # q) \<le> length p"
    using 2(2) dropWhile_length by (metis skip_separators_def)
  moreover have "length r \<le> length q"
    using 2(7) by (rule skip_to_quote_length)
  ultimately show ?case by (auto simp: less_Suc_eq_le)
qed

declare parse_array_loop.simps [simp del]

definition parse_array_value :: "string \<Rightarrow> (toml_error + toml_value) option" where
  "parse_array_value src =
     (case src of
        [] \<Rightarrow> Some (Inl TOML_ERR_INVALID)
      | c # p \<Rightarrow>
          if c \<noteq> CHR ''['' then Some (Inl TOML_ERR_INVALID)
          else ub_bind (parse_array_loop p [])
            (\<lambda>(items, q).
               case q of
                 [] \<Rightarrow> Some (Inl TOML_ERR_INVALID)
               | d # q' \<Rightarrow>
                   if d \<noteq> CHR '']'' then Some (Inl TOML_ERR_INVALID)
                   else if dropWhile isspace q' \<noteq> [] then Some (Inl TOML_ERR_INVALID)
                   else Some (Inr (TOML_ARRAY items))))"

text \<open>\<open>raw[n]\<close> ends a token: the terminator, white space or a comment sign.\<close>

definition token_end :: "string \<Rightarrow> bool" where
  "token_end s \<longleftrightarrow> s = [] \<or> isspace (hd s) \<or> hd s = CHR ''#''"

definition parse_value :: "string \<Rightarrow> (toml_error + toml_value) option" where
  "parse_value raw =
     (if raw \<noteq> [] \<and> hd raw = DQUOTE then Some (map_sum id TOML_STRING (parse_string_value raw))
      else if raw \<noteq> [] \<and> hd raw = CHR ''['' then parse_array_value raw
      else if take 4 raw = ''true'' \<and> token_end (drop 4 raw) then Some (Inr (TOML_BOOLEAN True))
      else if take 5 raw = ''false'' \<and> token_end (drop 5 raw) then Some (Inr (TOML_BOOLEAN False))
      else case strtoll10 raw of
          None \<Rightarrow> Some (Inl TOML_ERR_UNSUPPORTED)
        | Some (iv, end_p) \<Rightarrow>
            if \<not> in_int64 iv then Some (Inl TOML_ERR_UNSUPPORTED)
            else if end_p \<noteq> [] then Some (Inl TOML_ERR_INVALID)
            else Some (Inr (TOML_INTEGER iv)))"

section \<open>Line parser\<close>

text \<open>The comment-stripping loop of \<open>parse_line\<close>: cut at the first \<open>#\<close> outside quotes.\<close>

fun strip_comment :: "bool \<Rightarrow> string \<Rightarrow> string" where
  "strip_comment in_str [] = []"
| "strip_comment in_str (c # s) =
     (let in_str' = (if c = DQUOTE then \<not> in_str else in_str) in
      if \<not> in_str' \<and> c = CHR ''#'' then [] else c # strip_comment in_str' s)"

definition parse_array_table_header ::
  "toml_doc \<Rightarrow> parse_state \<Rightarrow> string \<Rightarrow> (toml_error + toml_doc \<times> parse_state) option" where
  "parse_array_table_header doc st line =
     (case split_str '']]'' (drop 2 line) of
        None \<Rightarrow> Some (Inl TOML_ERR_INVALID)
      | Some (name, _) \<Rightarrow>
          (let (sec, rc) = str_copy_bounded TOML_MAX_SECTION_LEN name in
           if rc < 0 then Some (Inl TOML_ERR_OVERFLOW)
           else (let (doc', ati) = toml_get_or_create_array_table doc name in
                 if ati < 0 then Some (Inl TOML_ERR_OVERFLOW)
                 else (let (n, c) = td_array_tables doc' ! nat ati in
                       Some (Inr (doc'\<lparr>td_array_tables := (td_array_tables doc')[nat ati := (n, c + 1)]\<rparr>,
                                  st\<lparr>ps_cur_section := sec, ps_cur_is_array_table := True,
                                     ps_cur_array_table_entry := c\<rparr>))))))"

definition parse_section_header ::
  "toml_doc \<Rightarrow> parse_state \<Rightarrow> string \<Rightarrow> (toml_error + toml_doc \<times> parse_state) option" where
  "parse_section_header doc st line =
     (case split_chr CHR '']'' (drop 1 line) of
        None \<Rightarrow> Some (Inl TOML_ERR_INVALID)
      | Some (name, _) \<Rightarrow>
          (let (sec, rc) = str_copy_bounded TOML_MAX_SECTION_LEN name in
           if rc < 0 then Some (Inl TOML_ERR_OVERFLOW)
           else Some (Inr (doc, st\<lparr>ps_cur_section := sec, ps_cur_is_array_table := False,
                                   ps_cur_array_table_entry := - 1\<rparr>))))"

definition parse_key_value ::
  "toml_doc \<Rightarrow> parse_state \<Rightarrow> string \<Rightarrow> (toml_error + toml_doc \<times> parse_state) option" where
  "parse_key_value doc st line =
     (case split_chr CHR ''='' line of
        None \<Rightarrow> Some (Inl TOML_ERR_INVALID)
      | Some (lhs, rhs) \<Rightarrow>
          (let (key0, rc1) = str_copy_bounded TOML_MAX_KEY_LEN lhs in
           if rc1 < 0 then Some (Inl TOML_ERR_OVERFLOW)
           else (let key = str_trim_inplace key0;
                     (raw0, rc2) = str_copy_bounded (TOML_MAX_STR_LEN * 2) rhs in
                 if rc2 < 0 then Some (Inl TOML_ERR_OVERFLOW)
                 else (let raw = str_trim_inplace (strip_comment False (str_trim_inplace raw0)) in
                       if length (td_entries doc) \<ge> TOML_MAX_ENTRIES then Some (Inl TOML_ERR_OVERFLOW)
                       else (let (esec, rc3) = str_copy_bounded TOML_MAX_SECTION_LEN (ps_cur_section st);
                                 (ekey, rc4) = str_copy_bounded TOML_MAX_KEY_LEN key in
                             if rc3 < 0 then Some (Inl TOML_ERR_OVERFLOW)
                             else if rc4 < 0 then Some (Inl TOML_ERR_OVERFLOW)
                             else ub_bind (parse_value raw)
                               (\<lambda>v. Some (Inr
                                 (doc\<lparr>td_entries := td_entries doc @
                                    [\<lparr>te_section = esec, te_key = ekey, te_value = v,
                                      te_array_table_index =
                                        (if ps_cur_is_array_table st
                                         then ps_cur_array_table_entry st else - 1)\<rparr>]\<rparr>, st))))))))"

definition parse_line ::
  "toml_doc \<Rightarrow> parse_state \<Rightarrow> string \<Rightarrow> (toml_error + toml_doc \<times> parse_state) option" where
  "parse_line doc st line0 =
     (let line = str_trim_inplace line0 in
      if line = [] \<or> hd line = CHR ''#'' then Some (Inr (doc, st))
      else if take 2 line = ''[['' then parse_array_table_header doc st line
      else if hd line = CHR ''['' then parse_section_header doc st line
      else parse_key_value doc st line)"

section \<open>Loading a document\<close>

text \<open>
  The line loop of \<open>toml_load_buffer\<close> over the bytes that are left: \<open>llen\<close> is checked against
  the line buffer, one carriage return is dropped, and the line is read as a C string.
\<close>

definition line_of_bytes :: "char list \<Rightarrow> string" where
  "line_of_bytes bytes =
     cstr (if bytes \<noteq> [] \<and> last bytes = CR then butlast bytes else bytes)"

function load_lines ::
  "toml_doc \<Rightarrow> parse_state \<Rightarrow> char list \<Rightarrow> (toml_error + toml_doc \<times> parse_state) option" where
  "load_lines doc st buf =
     (if buf = [] then Some (Inr (doc, st))
      else (let bytes = takeWhile (\<lambda>c. c \<noteq> LF) buf;
                rest = drop (Suc (length bytes)) buf in
            if length bytes \<ge> TOML_MAX_LINE_LEN then Some (Inl TOML_ERR_OVERFLOW)
            else ub_bind (parse_line doc st (line_of_bytes bytes))
                   (\<lambda>(doc', st'). load_lines doc' st' rest)))"
  by pat_completeness auto
termination
  by (relation "measure (\<lambda>(doc, st, buf). length buf)") auto

declare load_lines.simps [simp del]

definition empty_doc :: toml_doc where
  "empty_doc = \<lparr>td_entries = [], td_array_tables = []\<rparr>"

definition init_parse_state :: parse_state where
  "init_parse_state =
     \<lparr>ps_cur_section = [], ps_cur_is_array_table = False, ps_cur_array_table_entry = - 1\<rparr>"

text \<open>\<open>calloc_ok\<close>: whether the allocation of the document succeeds.\<close>

definition toml_load_buffer :: "bool \<Rightarrow> char list \<Rightarrow> (toml_error + toml_doc) option" where
  "toml_load_buffer calloc_ok buf =
     (if buf = [] \<or> length buf > TOML_MAX_DOC_BYTES then Some (Inl TOML_ERR_TOO_LARGE)
      else if \<not> calloc_ok then Some (Inl TOML_ERR_IO)
      else ub_bind (load_lines empty_doc init_parse_state buf) (\<lambda>(doc, st). Some (Inr doc)))"

text \<open>
  What the system calls of \<open>toml_load_file\<close> answer for one file: whether \<open>open\<close> succeeds, the
  size \<open>fstat\<close> reports (\<open>None\<close>: it fails), the two allocations, and the bytes \<open>read\<close> delivers
  (\<open>None\<close>: it fails).
\<close>

record file_io =
  io_open :: bool
  io_fstat_size :: "nat option"
  io_calloc_buf :: bool
  io_read :: "char list option"
  io_calloc_doc :: bool

definition toml_load_file :: "file_io \<Rightarrow> (toml_error + toml_doc) option" where
  "toml_load_file io =
     (if \<not> io_open io then Some (Inl TOML_ERR_IO)
      else case io_fstat_size io of
          None \<Rightarrow> Some (Inl TOML_ERR_TOO_LARGE)
        | Some st_size \<Rightarrow>
            if st_size > TOML_MAX_DOC_BYTES then Some (Inl TOML_ERR_TOO_LARGE)
            else if \<not> io_calloc_buf io then Some (Inl TOML_ERR_IO)
            else (case io_read io of
                    None \<Rightarrow> Some (Inl TOML_ERR_IO)
                  | Some bytes \<Rightarrow> toml_load_buffer (io_calloc_doc io) (take st_size bytes)))"

section \<open>Lookup\<close>

fun toml_get_from :: "toml_entry list \<Rightarrow> string \<Rightarrow> string \<Rightarrow> toml_error + toml_value" where
  "toml_get_from [] sec key = Inl TOML_ERR_NOT_FOUND"
| "toml_get_from (e # es) sec key =
     (if te_array_table_index e \<ge> 0 then toml_get_from es sec key
      else if strncmp_eq TOML_MAX_SECTION_LEN (te_section e) sec \<and>
              strncmp_eq TOML_MAX_KEY_LEN (te_key e) key then Inr (te_value e)
      else toml_get_from es sec key)"

text \<open>\<open>section\<close> is optional: \<open>None\<close> is the NULL that stands for top-level keys.\<close>

definition toml_get :: "toml_doc \<Rightarrow> string option \<Rightarrow> string \<Rightarrow> toml_error + toml_value" where
  "toml_get doc sec key =
     toml_get_from (td_entries doc) (case sec of None \<Rightarrow> [] | Some s \<Rightarrow> s) key"

definition toml_get_nested :: "toml_doc \<Rightarrow> string \<Rightarrow> string \<Rightarrow> string \<Rightarrow> toml_error + toml_value" where
  "toml_get_nested doc parent child key =
     (let combined = parent @ ''.'' @ child in
      if length combined \<ge> TOML_MAX_SECTION_LEN then Inl TOML_ERR_OVERFLOW
      else toml_get doc (Some combined) key)"

fun array_table_count_from :: "(string \<times> int) list \<Rightarrow> string \<Rightarrow> int" where
  "array_table_count_from [] sec = 0"
| "array_table_count_from ((n, c) # ts) sec =
     (if strncmp_eq TOML_MAX_SECTION_LEN n sec then c else array_table_count_from ts sec)"

definition toml_array_table_count :: "toml_doc \<Rightarrow> string \<Rightarrow> int" where
  "toml_array_table_count doc sec = array_table_count_from (td_array_tables doc) sec"

fun array_table_get_from :: "toml_entry list \<Rightarrow> string \<Rightarrow> int \<Rightarrow> string \<Rightarrow> toml_error + toml_value" where
  "array_table_get_from [] sec index key = Inl TOML_ERR_NOT_FOUND"
| "array_table_get_from (e # es) sec index key =
     (if te_array_table_index e = index \<and>
         strncmp_eq TOML_MAX_SECTION_LEN (te_section e) sec \<and>
         strncmp_eq TOML_MAX_KEY_LEN (te_key e) key then Inr (te_value e)
      else array_table_get_from es sec index key)"

definition toml_array_table_get :: "toml_doc \<Rightarrow> string \<Rightarrow> int \<Rightarrow> string \<Rightarrow> toml_error + toml_value" where
  "toml_array_table_get doc sec index key =
     (if index < 0 then Inl TOML_ERR_INVALID
      else array_table_get_from (td_entries doc) sec index key)"

text \<open>
  \<open>toml_enumerate_section\<close> calls its callback on every entry of a section in order; the callback
  threads a state, and the number of calls is returned.
\<close>

fun enumerate_from ::
  "toml_entry list \<Rightarrow> string \<Rightarrow> (string \<Rightarrow> toml_value \<Rightarrow> 's \<Rightarrow> 's) \<Rightarrow> 's \<Rightarrow> nat \<Rightarrow> 's \<times> nat" where
  "enumerate_from [] sec cb ud count = (ud, count)"
| "enumerate_from (e # es) sec cb ud count =
     (if te_array_table_index e \<ge> 0 then enumerate_from es sec cb ud count
      else if \<not> strncmp_eq TOML_MAX_SECTION_LEN (te_section e) sec then
        enumerate_from es sec cb ud count
      else enumerate_from es sec cb (cb (te_key e) (te_value e) ud) (Suc count))"

definition toml_enumerate_section ::
  "toml_doc \<Rightarrow> string \<Rightarrow> (string \<Rightarrow> toml_value \<Rightarrow> 's \<Rightarrow> 's) \<Rightarrow> 's \<Rightarrow> 's \<times> nat" where
  "toml_enumerate_section doc sec cb ud = enumerate_from (td_entries doc) sec cb ud 0"

fun toml_strerror :: "toml_error \<Rightarrow> string" where
  "toml_strerror TOML_OK = ''success''"
| "toml_strerror TOML_ERR_INVALID = ''invalid TOML syntax''"
| "toml_strerror TOML_ERR_OVERFLOW = ''value exceeds buffer limit''"
| "toml_strerror TOML_ERR_NOT_FOUND = ''key or section not found''"
| "toml_strerror TOML_ERR_TYPE = ''value type mismatch''"
| "toml_strerror TOML_ERR_UNSUPPORTED = ''unsupported TOML feature''"
| "toml_strerror TOML_ERR_IO = ''file I/O error''"
| "toml_strerror TOML_ERR_TOO_LARGE = ''document exceeds size limit''"

section \<open>Memory safety of the parser\<close>

abbreviation stops_at_quote :: "string \<Rightarrow> string \<Rightarrow> bool" where
  "stops_at_quote q out \<equiv> \<exists>p' out'. parse_string_loop q out = (DQUOTE # p', out')"

lemma parse_string_loop_step:
  assumes "stops_at_quote (c # p) out" and "c \<noteq> DQUOTE"
    and "p = [] \<or> c \<noteq> BSLASH \<or> hd p \<noteq> DQUOTE"
  shows "stops_at_quote p (out @ [c])"
  using assms by (cases p) (auto split: if_splits)

lemma skip_to_quote_defined: "stops_at_quote q out \<Longrightarrow> skip_to_quote q \<noteq> None"
proof (induction q arbitrary: out rule: skip_to_quote.induct)
  case 1
  then show ?case by simp
next
  case (2 c p)
  show ?case
  proof (cases "c = DQUOTE")
    case True
    then show ?thesis by simp
  next
    case notq: False
    show ?thesis
    proof (cases "c = BSLASH")
      case False
      with "2.prems" notq have "stops_at_quote p (out @ [c])"
        by (intro parse_string_loop_step [of c p out]) simp_all
      with "2.IH"(2) notq False have "skip_to_quote p \<noteq> None" by blast
      with notq False show ?thesis by simp
    next
      case bs: True
      show ?thesis
      proof (cases p)
        case Nil
        with "2.prems" bs show ?thesis by (auto split: if_splits)
      next
        case p: (Cons d p')
        have IH: "stops_at_quote p' out' \<Longrightarrow> skip_to_quote p' \<noteq> None" for out'
          using "2.IH"(1) notq bs p by blast
        show ?thesis
        proof (cases "d = DQUOTE")
          case True
          with "2.prems" bs p have "stops_at_quote p' (out @ [DQUOTE])"
            by (auto split: if_splits)
          with IH bs p show ?thesis by simp
        next
          case dq: False
          then have s: "stops_at_quote (d # p') (out @ [c])"
            using "2.prems" bs p notq by (intro parse_string_loop_step [of c "d # p'" out]) simp_all
          have "skip_to_quote p' \<noteq> None"
          proof (cases "d = BSLASH \<and> p' \<noteq> [] \<and> hd p' = DQUOTE")
            case True
            then show ?thesis by (cases p') auto
          next
            case False
            with s dq have "stops_at_quote p' ((out @ [c]) @ [d])"
              by (intro parse_string_loop_step [of d p' "out @ [c]"]) auto
            then show ?thesis by (rule IH)
          qed
          with bs p show ?thesis by simp
        qed
      qed
    qed
  qed
qed

lemma parse_string_value_Inr_iff:
  "parse_string_value (c # q) = Inr item \<longleftrightarrow>
     c = DQUOTE \<and> (\<exists>p'. parse_string_loop q [] = (DQUOTE # p', item))"
  by (auto simp: parse_string_value_def split: prod.splits list.splits if_splits)

lemma parse_array_loop_defined: "parse_array_loop p items \<noteq> None"
proof (induction p items rule: parse_array_loop.induct)
  case (1 p items)
  have "skip_to_quote q \<noteq> None" if "parse_string_value (c # q) = Inr item" for c q item
    using that skip_to_quote_defined by (fastforce simp: parse_string_value_Inr_iff)
  with 1 show ?case
    by (subst parse_array_loop.simps)
      (auto simp del: not_None_eq split: list.splits sum.splits option.splits)
qed

lemma parse_array_value_defined: "parse_array_value src \<noteq> None"
  by (auto simp: parse_array_value_def parse_array_loop_defined simp del: not_None_eq
      split: list.splits)

lemma parse_value_defined: "parse_value raw \<noteq> None"
  by (auto simp: parse_value_def parse_array_value_defined simp del: not_None_eq
      split: option.splits)

lemma parse_line_defined: "parse_line doc st line \<noteq> None"
  by (simp add: parse_line_def parse_array_table_header_def parse_section_header_def
      parse_key_value_def Let_def parse_value_defined del: not_None_eq
      split: option.splits prod.splits)

lemma load_lines_defined: "load_lines doc st buf \<noteq> None"
proof (induction doc st buf rule: load_lines.induct)
  case (1 doc st buf)
  then show ?case
    by (subst load_lines.simps)
      (auto simp: Let_def parse_line_defined simp del: not_None_eq split: prod.splits)
qed

lemma toml_load_buffer_total: "toml_load_buffer calloc_ok buf \<noteq> None"
  by (auto simp: toml_load_buffer_def load_lines_defined simp del: not_None_eq split: prod.splits)

lemma toml_load_file_total: "toml_load_file io \<noteq> None"
  by (auto simp: toml_load_file_def toml_load_buffer_total simp del: not_None_eq split: option.splits)

text \<open>
  C39: no document makes the parser read outside its buffers: every read stays inside the line,
  in particular the loop that steps over escaped characters in an array never passes the
  terminator, because the string it walks over was accepted before.
\<close>

theorem toml_load_file_defined:
  "toml_load_file io \<noteq> None \<and> toml_load_buffer calloc_ok buf \<noteq> None"
  by (simp add: toml_load_file_total toml_load_buffer_total del: not_None_eq)

section \<open>Well-formed documents\<close>

fun value_ok :: "toml_value \<Rightarrow> bool" where
  "value_ok (TOML_STRING s) \<longleftrightarrow> length s < TOML_MAX_STR_LEN"
| "value_ok (TOML_INTEGER i) \<longleftrightarrow> in_int64 i"
| "value_ok (TOML_BOOLEAN b) \<longleftrightarrow> True"
| "value_ok (TOML_ARRAY xs) \<longleftrightarrow>
     length xs \<le> TOML_MAX_ARRAY_ITEMS \<and> list_all (\<lambda>x. length x < TOML_MAX_STR_LEN) xs"

text \<open>\<open>counted ts sec i\<close>: the table list counts more than \<open>i\<close> tables named \<open>sec\<close>.\<close>

definition counted :: "(string \<times> int) list \<Rightarrow> string \<Rightarrow> int \<Rightarrow> bool" where
  "counted ts sec i \<longleftrightarrow> 0 \<le> i \<and> (case map_of ts sec of None \<Rightarrow> False | Some c \<Rightarrow> i < c)"

definition entry_ok :: "(string \<times> int) list \<Rightarrow> toml_entry \<Rightarrow> bool" where
  "entry_ok ts e \<longleftrightarrow>
     length (te_section e) < TOML_MAX_SECTION_LEN \<and> length (te_key e) < TOML_MAX_KEY_LEN \<and>
     value_ok (te_value e) \<and>
     (te_array_table_index e = - 1 \<or> counted ts (te_section e) (te_array_table_index e))"

definition tables_ok :: "(string \<times> int) list \<Rightarrow> bool" where
  "tables_ok ts \<longleftrightarrow>
     length ts \<le> TOML_MAX_ARRAY_TABLES \<and> distinct (map fst ts) \<and>
     list_all (\<lambda>(n, c). length n < TOML_MAX_SECTION_LEN \<and> 0 \<le> c) ts"

definition doc_ok :: "toml_doc \<Rightarrow> bool" where
  "doc_ok doc \<longleftrightarrow>
     length (td_entries doc) \<le> TOML_MAX_ENTRIES \<and> tables_ok (td_array_tables doc) \<and>
     list_all (entry_ok (td_array_tables doc)) (td_entries doc)"

definition parse_state_ok :: "toml_doc \<Rightarrow> parse_state \<Rightarrow> bool" where
  "parse_state_ok doc st \<longleftrightarrow>
     length (ps_cur_section st) < TOML_MAX_SECTION_LEN \<and>
     (ps_cur_is_array_table st \<longrightarrow>
        counted (td_array_tables doc) (ps_cur_section st) (ps_cur_array_table_entry st))"

lemma length_str_trim [c_bounds]: "length (str_trim_inplace s) \<le> length s"
  using dropWhile_length [of isspace s] dropWhile_length [of isspace "rev (dropWhile isspace s)"]
  by (simp add: str_trim_inplace_def)

lemma str_copy_bounded_ok:
  "str_copy_bounded n src = (dst, rc) \<Longrightarrow> \<not> rc < 0 \<Longrightarrow> dst = src \<and> length src < n"
  by (auto simp: str_copy_bounded_def split: if_splits)

lemma parse_string_loop_bound:
  "length out \<le> TOML_MAX_STR_LEN - 1 \<Longrightarrow> parse_string_loop p out = (q, out') \<Longrightarrow>
   length out' \<le> TOML_MAX_STR_LEN - 1"
  by (induction p out rule: parse_string_loop.induct) (auto split: if_splits list.splits)

lemma parse_string_value_bound: "parse_string_value src = Inr s \<Longrightarrow> length s < TOML_MAX_STR_LEN"
  using parse_string_loop_bound [of "[]"]
  by (fastforce simp: parse_string_value_def split: list.splits prod.splits if_splits)

lemma parse_array_loop_bound:
  "parse_array_loop p items = Some (Inr (items', q)) \<Longrightarrow> value_ok (TOML_ARRAY items) \<Longrightarrow>
   value_ok (TOML_ARRAY items')"
proof (induction p items rule: parse_array_loop.induct)
  case (1 p items)
  from "1.prems" show ?case
    by (subst (asm) parse_array_loop.simps)
      (auto split: if_splits list.splits sum.splits option.splits
        dest!: "1.IH" dest: parse_string_value_bound)
qed

lemma parse_value_ok: "parse_value raw = Some (Inr v) \<Longrightarrow> value_ok v"
proof -
  have str: "value_ok w" if "map_sum id TOML_STRING (parse_string_value raw) = Inr w" for w
    using that by (cases "parse_string_value raw") (auto dest: parse_string_value_bound)
  have arr: "value_ok w" if "parse_array_value raw = Some (Inr w)" for w
  proof -
    from that obtain p where raw: "raw = CHR ''['' # p"
      by (cases raw) (auto simp: parse_array_value_def split: if_split_asm)
    with that obtain items q where loop: "parse_array_loop p [] = Some (Inr (items, q))"
      and "(case q of [] \<Rightarrow> Some (Inl TOML_ERR_INVALID)
            | d # q' \<Rightarrow> if d \<noteq> CHR '']'' then Some (Inl TOML_ERR_INVALID)
                else if dropWhile isspace q' \<noteq> [] then Some (Inl TOML_ERR_INVALID)
                else Some (Inr (TOML_ARRAY items))) = Some (Inr w)"
      by (auto simp: parse_array_value_def ub_bind_eq_Inr)
    then have "w = TOML_ARRAY items"
      by (cases q) (simp_all split: if_split_asm)
    then show ?thesis using parse_array_loop_bound [OF loop] by simp
  qed
  assume "parse_value raw = Some (Inr v)"
  then show ?thesis
    by (auto simp: parse_value_def split: if_splits option.splits dest: str arr)
qed

lemma find_array_table_from_Some:
  "find_array_table_from ts name k \<ge> 0 \<Longrightarrow>
   int k \<le> find_array_table_from ts name k \<and>
   nat (find_array_table_from ts name k) - k < length ts \<and>
   strncmp_eq TOML_MAX_SECTION_LEN (fst (ts ! (nat (find_array_table_from ts name k) - k))) name"
proof (induction ts name k rule: find_array_table_from.induct)
  case (2 n c ts name i)
  show ?case
  proof (cases "strncmp_eq TOML_MAX_SECTION_LEN n name")
    case True
    then show ?thesis by simp
  next
    case False
    let ?r = "find_array_table_from ts name (Suc i)"
    from 2 False have r: "int (Suc i) \<le> ?r" "nat ?r - Suc i < length ts"
      "strncmp_eq TOML_MAX_SECTION_LEN (fst (ts ! (nat ?r - Suc i))) name"
      by auto
    then have "nat ?r - i = Suc (nat ?r - Suc i)" by linarith
    with r False show ?thesis by simp
  qed
qed simp

lemma find_array_table_from_None:
  "find_array_table_from ts name k < 0 \<Longrightarrow>
   list_all (\<lambda>(n, c). \<not> strncmp_eq TOML_MAX_SECTION_LEN n name) ts"
  by (induction ts name k rule: find_array_table_from.induct) (auto split: if_splits)

lemma counted_mono:
  assumes "counted ts sec i" and "\<And>c. map_of ts sec = Some c \<Longrightarrow> \<exists>c'\<ge>c. map_of ts' sec = Some c'"
  shows "counted ts' sec i"
  using assms unfolding counted_def by (cases "map_of ts sec") force+

lemma map_of_list_update:
  assumes "distinct (map fst ts)" and "i < length ts" and "fst (ts ! i) = n"
  shows "map_of (ts[i := (n, c)]) = (map_of ts)(n \<mapsto> c)"
  using assms
proof (induction ts arbitrary: i)
  case Nil
  then show ?case by simp
next
  case (Cons t ts)
  show ?case
  proof (cases i)
    case 0
    with Cons.prems show ?thesis by (cases t) (auto simp: fun_eq_iff)
  next
    case (Suc j)
    with Cons.prems have "ts ! j \<in> set ts" by simp
    with Suc Cons.prems have "fst t \<noteq> n" by force
    moreover have "map_of (ts[j := (n, c)]) = (map_of ts)(n \<mapsto> c)"
      using Suc Cons.prems by (intro Cons.IH) simp_all
    ultimately show ?thesis using Suc by (cases t) (auto simp: fun_eq_iff)
  qed
qed

text \<open>Bumping one counter of a well-formed table list.\<close>

lemma tables_ok_bump:
  assumes ok: "tables_ok ts" and i: "i < length ts" and t: "ts ! i = (n, c)"
  defines "ts' \<equiv> ts[i := (n, c + 1)]"
  shows "tables_ok ts'" "counted ts' n c"
    "counted ts sec k \<Longrightarrow> counted ts' sec k"
proof -
  from ok have d: "distinct (map fst ts)"
    and la: "list_all (\<lambda>(n, c). length n < TOML_MAX_SECTION_LEN \<and> 0 \<le> c) ts"
    by (simp_all add: tables_ok_def)
  from la i t have nc: "length n < TOML_MAX_SECTION_LEN" "0 \<le> c"
    by (auto simp: list_all_length dest!: spec [of _ i])
  have m: "map_of ts' = (map_of ts)(n \<mapsto> c + 1)"
    unfolding ts'_def using d i t by (intro map_of_list_update) simp_all
  have f: "map fst ts' = map fst ts"
    unfolding ts'_def using i t by (metis fst_conv list_update_id map_update)
  show "tables_ok ts'"
    using ok la nc i f unfolding tables_ok_def
    by (auto simp: ts'_def list_all_length nth_list_update)
  show "counted ts' n c"
    using m nc by (simp add: counted_def)
  from d i t have mt: "map_of ts n = Some c"
    by (metis map_of_eq_Some_iff nth_mem)
  show "counted ts' sec k" if "counted ts sec k"
    using that by (rule counted_mono) (use m mt in auto)
qed

lemma tables_ok_append:
  assumes "tables_ok ts" and "list_all (\<lambda>(n, c). \<not> strncmp_eq TOML_MAX_SECTION_LEN n name) ts"
    and "length name < TOML_MAX_SECTION_LEN" and "length ts < TOML_MAX_ARRAY_TABLES"
  shows "tables_ok (ts @ [(name, 0)])" "counted ts sec k \<Longrightarrow> counted (ts @ [(name, 0)]) sec k"
proof -
  show "tables_ok (ts @ [(name, 0)])"
    using assms by (auto simp: tables_ok_def list_all_iff)
  show "counted (ts @ [(name, 0)]) sec k" if "counted ts sec k"
    using that by (rule counted_mono) (auto simp: map_add_Some_iff)
qed

lemma get_or_create_ok:
  assumes "tables_ok (td_array_tables doc)" and "length name < TOML_MAX_SECTION_LEN"
    and "toml_get_or_create_array_table doc name = (doc', ati)" and "\<not> ati < 0"
  shows "td_entries doc' = td_entries doc" "tables_ok (td_array_tables doc')"
    "nat ati < length (td_array_tables doc')"
    "fst (td_array_tables doc' ! nat ati) = name"
    "counted (td_array_tables doc) sec k \<Longrightarrow> counted (td_array_tables doc') sec k"
proof -
  let ?ts = "td_array_tables doc"
  let ?f = "find_array_table_from ?ts name 0"
  have "td_entries doc' = td_entries doc \<and> tables_ok (td_array_tables doc') \<and>
    nat ati < length (td_array_tables doc') \<and> fst (td_array_tables doc' ! nat ati) = name \<and>
    (counted ?ts sec k \<longrightarrow> counted (td_array_tables doc') sec k)"
  proof (cases "?f \<ge> 0")
    case True
    with assms have d: "doc' = doc" "ati = ?f"
      by (auto simp: toml_get_or_create_array_table_def toml_find_array_table_index_def)
    have len: "nat ?f < length ?ts" and s: "strncmp_eq TOML_MAX_SECTION_LEN (fst (?ts ! nat ?f)) name"
      using find_array_table_from_Some [OF True] by simp_all
    have "length (fst (?ts ! nat ?f)) < TOML_MAX_SECTION_LEN"
      using assms(1) len by (auto simp: tables_ok_def list_all_length case_prod_beta)
    with s assms(2) have "fst (?ts ! nat ?f) = name" by (simp add: strncmp_eq_iff)
    with d len assms(1) show ?thesis by simp
  next
    case False
    with assms have d: "doc' = doc\<lparr>td_array_tables := ?ts @ [(name, 0)]\<rparr>" "ati = int (length ?ts)"
      and len: "length ?ts < TOML_MAX_ARRAY_TABLES"
      by (auto simp: toml_get_or_create_array_table_def toml_find_array_table_index_def
          str_copy_bounded_def split: if_splits)
    from False have n: "list_all (\<lambda>(n, c). \<not> strncmp_eq TOML_MAX_SECTION_LEN n name) ?ts"
      by (intro find_array_table_from_None [of _ _ 0]) simp
    from d tables_ok_append [OF assms(1) n assms(2) len] show ?thesis by simp
  qed
  then show "td_entries doc' = td_entries doc" "tables_ok (td_array_tables doc')"
    "nat ati < length (td_array_tables doc')" "fst (td_array_tables doc' ! nat ati) = name"
    "counted ?ts sec k \<Longrightarrow> counted (td_array_tables doc') sec k"
    by blast+
qed

lemma entry_ok_mono:
  "entry_ok ts e \<Longrightarrow> (\<And>sec k. counted ts sec k \<Longrightarrow> counted ts' sec k) \<Longrightarrow> entry_ok ts' e"
  by (auto simp: entry_ok_def)

lemma parse_array_table_header_ok:
  assumes "doc_ok doc" and "parse_array_table_header doc st line = Some (Inr (doc', st'))"
  shows "doc_ok doc' \<and> parse_state_ok doc' st'"
proof -
  from assms(2) obtain name docm ati n c where
      len: "length name < TOML_MAX_SECTION_LEN"
    and goc: "toml_get_or_create_array_table doc name = (docm, ati)" and ati: "\<not> ati < 0"
    and nc: "td_array_tables docm ! nat ati = (n, c)"
    and doc': "doc' = docm\<lparr>td_array_tables := (td_array_tables docm)[nat ati := (n, c + 1)]\<rparr>"
    and st': "st' = st\<lparr>ps_cur_section := name, ps_cur_is_array_table := True,
                ps_cur_array_table_entry := c\<rparr>"
    by (auto simp: parse_array_table_header_def Let_def split: option.splits prod.splits if_splits
        dest!: str_copy_bounded_ok)
  from assms(1) have t: "tables_ok (td_array_tables doc)" by (simp add: doc_ok_def)
  note g = get_or_create_ok [OF t len goc ati]
  from g(4) nc have n: "n = name" by simp
  note b = tables_ok_bump [OF g(2,3) nc]
  have "list_all (entry_ok (td_array_tables doc')) (td_entries doc')"
    using assms(1) g(1,5) b(3) doc'
    by (auto simp: doc_ok_def list_all_iff intro: entry_ok_mono)
  with assms(1) g(1) b doc' st' n len show ?thesis
    by (auto simp: doc_ok_def parse_state_ok_def)
qed

lemma parse_key_value_ok:
  assumes "doc_ok doc" and "parse_state_ok doc st"
    and "parse_key_value doc st line = Some (Inr (doc', st'))"
  shows "doc_ok doc' \<and> parse_state_ok doc' st'"
proof -
  from assms(3) obtain key v where
      "length (td_entries doc) < TOML_MAX_ENTRIES" "length key < TOML_MAX_KEY_LEN" "value_ok v"
      "st' = st"
      "doc' = doc\<lparr>td_entries := td_entries doc @
         [\<lparr>te_section = ps_cur_section st, te_key = key, te_value = v,
           te_array_table_index =
             (if ps_cur_is_array_table st then ps_cur_array_table_entry st else - 1)\<rparr>]\<rparr>"
    by (auto simp: parse_key_value_def Let_def ub_bind_eq_Inr not_le
        split: option.splits prod.splits if_splits
        dest!: str_copy_bounded_ok dest: parse_value_ok)
  with assms(1,2) show ?thesis
    by (auto simp: doc_ok_def parse_state_ok_def entry_ok_def)
qed

lemma parse_line_ok:
  assumes "doc_ok doc" and "parse_state_ok doc st"
    and "parse_line doc st line = Some (Inr (doc', st'))"
  shows "doc_ok doc' \<and> parse_state_ok doc' st'"
proof -
  have sec: "doc_ok doc' \<and> parse_state_ok doc' st'"
    if "parse_section_header doc st l = Some (Inr (doc', st'))" for l
    using that assms(1)
    by (auto simp: parse_section_header_def Let_def parse_state_ok_def
        split: option.splits prod.splits if_splits dest!: str_copy_bounded_ok)
  note hdr = parse_array_table_header_ok [OF assms(1)]
  note kv = parse_key_value_ok [OF assms(1,2)]
  from assms(3) show ?thesis
    unfolding parse_line_def Let_def
    by (simp split: if_split_asm) (use assms(1,2) sec hdr kv in blast)+
qed

lemma load_lines_ok:
  "load_lines doc st buf = Some (Inr (doc', st')) \<Longrightarrow> doc_ok doc \<Longrightarrow> parse_state_ok doc st \<Longrightarrow>
   doc_ok doc' \<and> parse_state_ok doc' st'"
proof (induction doc st buf rule: load_lines.induct)
  case (1 doc st buf)
  from "1.prems" show ?case
    by (subst (asm) load_lines.simps)
      (auto simp: Let_def ub_bind_eq_Inr split: if_splits dest!: "1.IH" dest: parse_line_ok)
qed

lemma toml_load_buffer_wf: "toml_load_buffer calloc_ok buf = Some (Inr doc) \<Longrightarrow> doc_ok doc"
  by (auto simp: toml_load_buffer_def ub_bind_eq_Inr empty_doc_def init_parse_state_def doc_ok_def
      tables_ok_def parse_state_ok_def split: if_splits dest!: load_lines_ok)

lemma toml_load_file_wf: "toml_load_file io = Some (Inr doc) \<Longrightarrow> doc_ok doc"
  by (auto simp: toml_load_file_def split: if_splits option.splits intro: toml_load_buffer_wf)

text \<open>
  Every document the loader returns keeps the limits of its fixed-size tables: at most 128
  entries and 32 array tables with distinct names, every section, key, string and array within
  its buffer, every integer a 64-bit value, and the index of every array-table entry below the
  counter of its table.
\<close>

theorem toml_load_buffer_ok: "toml_load_buffer calloc_ok buf = Some (Inr doc) \<Longrightarrow> doc_ok doc"
  by (rule toml_load_buffer_wf)

section \<open>Typed lookup\<close>

text \<open>
  What a client of the document relies on: a value found under any key has the bounds of its
  type. The three lookup functions are three instances.
\<close>

locale typed_lookup =
  fixes ok :: "'d \<Rightarrow> bool"
    and get :: "'d \<Rightarrow> 'k \<Rightarrow> toml_error + toml_value"
  assumes get_ok: "ok d \<Longrightarrow> get d k = Inr v \<Longrightarrow> value_ok v"
begin

lemma string_bound: "ok d \<Longrightarrow> get d k = Inr (TOML_STRING s) \<Longrightarrow> length s < TOML_MAX_STR_LEN"
  by (drule (1) get_ok) simp

lemma integer_bound: "ok d \<Longrightarrow> get d k = Inr (TOML_INTEGER i) \<Longrightarrow> in_int64 i"
  by (drule (1) get_ok) simp

lemma array_bound: "ok d \<Longrightarrow> get d k = Inr (TOML_ARRAY xs) \<Longrightarrow> length xs \<le> TOML_MAX_ARRAY_ITEMS"
  by (drule (1) get_ok) simp

end

lemma toml_get_from_ok: "list_all (entry_ok ts) es \<Longrightarrow> toml_get_from es sec key = Inr v \<Longrightarrow> value_ok v"
  by (induction es) (auto simp: entry_ok_def split: if_splits)

lemma array_table_get_from_ok:
  "list_all (entry_ok ts) es \<Longrightarrow> array_table_get_from es sec i key = Inr v \<Longrightarrow> value_ok v"
  by (induction es) (auto simp: entry_ok_def split: if_splits)

interpretation section_keys: typed_lookup doc_ok "\<lambda>d (sec, key). toml_get d sec key"
  by unfold_locales (auto simp: toml_get_def doc_ok_def dest: toml_get_from_ok split: prod.splits)

interpretation nested_keys: typed_lookup doc_ok "\<lambda>d (p, c, key). toml_get_nested d p c key"
  by unfold_locales
    (auto simp: toml_get_nested_def toml_get_def doc_ok_def Let_def dest: toml_get_from_ok
      split: prod.splits if_splits)

interpretation table_keys: typed_lookup doc_ok "\<lambda>d (sec, i, key). toml_array_table_get d sec i key"
  by unfold_locales
    (auto simp: toml_array_table_get_def doc_ok_def dest: array_table_get_from_ok
      split: prod.splits if_splits)

lemmas toml_eval =
  toml_load_buffer_def load_lines.simps parse_line_def parse_section_header_def
  parse_array_table_header_def toml_get_or_create_array_table_def toml_find_array_table_index_def
  parse_key_value_def Let_def empty_doc_def init_parse_state_def line_of_bytes_def cstr_def
  str_trim_inplace_def isspace_def parse_value_def parse_string_value_def parse_array_value_def
  parse_array_loop.simps skip_separators_def str_copy_bounded_def strtoll10_def isdigit_def
  digits_val_def in_int64_def token_end_def strncmp_eq_def

definition sample_toml :: string where
  "sample_toml = ''[service]'' @ [LF] @ ''name = '' @ [DQUOTE] @ ''x'' @ [DQUOTE, LF] @ ''n = 3'' @ [LF]"

definition sample_doc :: toml_doc where
  "sample_doc = \<lparr>td_entries =
    [\<lparr>te_section = ''service'', te_key = ''name'', te_value = TOML_STRING ''x'', te_array_table_index = - 1\<rparr>,
     \<lparr>te_section = ''service'', te_key = ''n'', te_value = TOML_INTEGER 3, te_array_table_index = - 1\<rparr>],
    td_array_tables = []\<rparr>"

lemma load_sample_toml: "toml_load_buffer True sample_toml = Some (Inr sample_doc)"
  by (simp add: sample_toml_def sample_doc_def toml_eval)

theorem toml_load_buffer_ok_witness:
  "toml_load_buffer True sample_toml = Some (Inr sample_doc) \<and> doc_ok sample_doc"
  using load_sample_toml toml_load_buffer_ok [OF load_sample_toml] by simp

end
