(* ===== verification/Toml_Print.thy ===== *)
theory Toml_Print
  imports Toml
begin

text \<open>
  A printer for TOML documents and the proof that the reader of \<open>src/luna-init/toml.c\<close> reads back
  exactly what was printed. The printer is a specification, not code of the repository: it fixes
  which text stands for which document, \<open>plain_doc\<close> says which documents have such a text within
  the limits of the reader, and \<open>doc_of\<close> is the document the reader must produce.
\<close>

section \<open>Printing documents\<close>

type_synonym toml_pair = "string \<times> toml_value"

record toml_block =
  blk_array :: bool
  blk_name :: string
  blk_pairs :: "toml_pair list"

definition quote_str :: "string \<Rightarrow> string" where
  "quote_str s = DQUOTE # s @ [DQUOTE]"

fun render_rest :: "string list \<Rightarrow> string" where
  "render_rest [] = '']''"
| "render_rest (x # xs) = '', '' @ quote_str x @ render_rest xs"

fun render_items :: "string list \<Rightarrow> string" where
  "render_items [] = '']''"
| "render_items (x # xs) = quote_str x @ render_rest xs"

fun render_value :: "toml_value \<Rightarrow> string" where
  "render_value (TOML_STRING s) = quote_str s"
| "render_value (TOML_INTEGER i) = show_int i"
| "render_value (TOML_BOOLEAN b) = (if b then ''true'' else ''false'')"
| "render_value (TOML_ARRAY xs) = CHR ''['' # render_items xs"

definition render_pair :: "toml_pair \<Rightarrow> string" where
  "render_pair kv = fst kv @ '' = '' @ render_value (snd kv)"

definition render_header :: "toml_block \<Rightarrow> string" where
  "render_header b = (if blk_array b then ''[['' @ blk_name b @ '']]'' else ''['' @ blk_name b @ '']'')"

definition block_lines :: "toml_block \<Rightarrow> string list" where
  "block_lines b = render_header b # map render_pair (blk_pairs b)"

definition doc_lines :: "toml_pair list \<Rightarrow> toml_block list \<Rightarrow> string list" where
  "doc_lines pre bs = map render_pair pre @ concat (map block_lines bs)"

definition render_doc :: "toml_pair list \<Rightarrow> toml_block list \<Rightarrow> string" where
  "render_doc pre bs = concat (map (\<lambda>l. l @ [LF]) (doc_lines pre bs))"

text \<open>The document that a list of blocks stands for.\<close>

definition table_count :: "(string \<times> int) list \<Rightarrow> string \<Rightarrow> int" where
  "table_count ts n = (case map_of ts n of None \<Rightarrow> 0 | Some c \<Rightarrow> c)"

fun bump_table :: "(string \<times> int) list \<Rightarrow> string \<Rightarrow> (string \<times> int) list" where
  "bump_table [] n = [(n, 1)]"
| "bump_table ((m, c) # ts) n = (if m = n then (m, c + 1) # ts else (m, c) # bump_table ts n)"

definition entry_of :: "string \<Rightarrow> int \<Rightarrow> toml_pair \<Rightarrow> toml_entry" where
  "entry_of sec i kv =
     \<lparr>te_section = sec, te_key = fst kv, te_value = snd kv, te_array_table_index = i\<rparr>"

definition add_block :: "toml_doc \<Rightarrow> toml_block \<Rightarrow> toml_doc" where
  "add_block doc b =
     (let i = (if blk_array b then table_count (td_array_tables doc) (blk_name b) else - 1) in
      \<lparr>td_entries = td_entries doc @ map (entry_of (blk_name b) i) (blk_pairs b),
       td_array_tables = (if blk_array b then bump_table (td_array_tables doc) (blk_name b)
                          else td_array_tables doc)\<rparr>)"

definition doc_of :: "toml_pair list \<Rightarrow> toml_block list \<Rightarrow> toml_doc" where
  "doc_of pre bs =
     foldl add_block \<lparr>td_entries = map (entry_of [] (- 1)) pre, td_array_tables = []\<rparr> bs"

text \<open>What can be printed: the strings the grammar of the reader can carry, within its limits.\<close>

definition plain_str :: "string \<Rightarrow> bool" where
  "plain_str s \<longleftrightarrow> length s < TOML_MAX_STR_LEN \<and>
     list_all (\<lambda>c. c \<noteq> DQUOTE \<and> c \<noteq> BSLASH \<and> c \<noteq> LF \<and> c \<noteq> NUL) s"

fun plain_value :: "toml_value \<Rightarrow> bool" where
  "plain_value (TOML_STRING s) \<longleftrightarrow> plain_str s"
| "plain_value (TOML_INTEGER i) \<longleftrightarrow> in_int64 i"
| "plain_value (TOML_BOOLEAN b) \<longleftrightarrow> True"
| "plain_value (TOML_ARRAY xs) \<longleftrightarrow> length xs \<le> TOML_MAX_ARRAY_ITEMS \<and> list_all plain_str xs"

definition plain_pair :: "toml_pair \<Rightarrow> bool" where
  "plain_pair kv \<longleftrightarrow>
     fst kv \<noteq> [] \<and> Suc (length (fst kv)) < TOML_MAX_KEY_LEN \<and>
     hd (fst kv) \<noteq> CHR ''['' \<and> hd (fst kv) \<noteq> CHR ''#'' \<and>
     list_all (\<lambda>c. \<not> isspace c \<and> c \<noteq> CHR ''='' \<and> c \<noteq> NUL) (fst kv) \<and>
     plain_value (snd kv) \<and> length (render_pair kv) < TOML_MAX_LINE_LEN"

definition plain_block :: "toml_block \<Rightarrow> bool" where
  "plain_block b \<longleftrightarrow>
     length (blk_name b) < TOML_MAX_SECTION_LEN \<and>
     (blk_array b \<or> blk_name b = [] \<or> hd (blk_name b) \<noteq> CHR ''['') \<and>
     list_all (\<lambda>c. c \<noteq> CHR '']'' \<and> c \<noteq> LF \<and> c \<noteq> NUL) (blk_name b) \<and>
     list_all plain_pair (blk_pairs b)"

definition plain_doc :: "toml_pair list \<Rightarrow> toml_block list \<Rightarrow> bool" where
  "plain_doc pre bs \<longleftrightarrow>
     list_all plain_pair pre \<and> list_all plain_block bs \<and>
     length (td_entries (doc_of pre bs)) \<le> TOML_MAX_ENTRIES \<and>
     length (td_array_tables (doc_of pre bs)) \<le> TOML_MAX_ARRAY_TABLES \<and>
     render_doc pre bs \<noteq> [] \<and> length (render_doc pre bs) \<le> TOML_MAX_DOC_BYTES"

section \<open>Reading back values\<close>

lemma parse_string_loop_plain:
  "list_all (\<lambda>c. c \<noteq> DQUOTE \<and> c \<noteq> BSLASH) s \<Longrightarrow> length out + length s < TOML_MAX_STR_LEN \<Longrightarrow>
   parse_string_loop (s @ DQUOTE # r) out = (DQUOTE # r, out @ s)"
proof (induction s arbitrary: out)
  case Nil
  then show ?case by simp
next
  case (Cons c s)
  then have "parse_string_loop (s @ DQUOTE # r) (out @ [c]) = (DQUOTE # r, (out @ [c]) @ s)"
    by (intro Cons.IH) simp_all
  with Cons.prems show ?case by (cases "s @ DQUOTE # r") simp_all
qed

lemma plain_str_chars: "plain_str s \<Longrightarrow> list_all (\<lambda>c. c \<noteq> DQUOTE \<and> c \<noteq> BSLASH) s"
  by (auto simp: plain_str_def list_all_iff)

lemma parse_string_value_quote:
  "plain_str s \<Longrightarrow> parse_string_value (DQUOTE # s @ DQUOTE # r) = Inr s"
  using parse_string_loop_plain [of s "[]" r] plain_str_chars [of s]
  by (simp add: parse_string_value_def plain_str_def)

lemma skip_to_quote_plain:
  "list_all (\<lambda>c. c \<noteq> DQUOTE \<and> c \<noteq> BSLASH) s \<Longrightarrow>
   skip_to_quote (s @ DQUOTE # r) = Some (DQUOTE # r)"
  by (induction s) auto

lemma parse_array_loop_item:
  assumes "plain_str x" and "length items < TOML_MAX_ARRAY_ITEMS"
    and "skip_separators p = quote_str x @ r" and "p \<noteq> []"
  shows "parse_array_loop p items = parse_array_loop r (items @ [x])"
  using assms skip_to_quote_plain [OF plain_str_chars [OF assms(1)], of r]
    parse_string_value_quote [OF assms(1), of r]
  by (subst parse_array_loop.simps) (simp add: quote_str_def)

lemma skip_separators_simps [simp]:
  "skip_separators (CHR '','' # s) = skip_separators s"
  "skip_separators (CHR '' '' # s) = skip_separators s"
  "skip_separators (quote_str x @ r) = quote_str x @ r"
  "skip_separators (CHR '']'' # r) = CHR '']'' # r"
  by (simp_all add: skip_separators_def quote_str_def isspace_def)

lemma quote_str_not_Nil: "quote_str x \<noteq> []"
  by (simp add: quote_str_def)

lemma parse_array_loop_end: "parse_array_loop (CHR '']'' # r) items = Some (Inr (items, CHR '']'' # r))"
  by (subst parse_array_loop.simps) simp

lemma parse_array_loop_rest:
  "list_all plain_str xs \<Longrightarrow> length items + length xs \<le> TOML_MAX_ARRAY_ITEMS \<Longrightarrow>
   parse_array_loop (render_rest xs) items = Some (Inr (items @ xs, '']''))"
proof (induction xs arbitrary: items)
  case Nil
  then show ?case by (simp add: parse_array_loop_end)
next
  case (Cons x xs)
  then have "parse_array_loop (render_rest (x # xs)) items =
      parse_array_loop (render_rest xs) (items @ [x])"
    by (intro parse_array_loop_item) simp_all
  with Cons show ?case by simp
qed

lemma parse_array_loop_items:
  "list_all plain_str xs \<Longrightarrow> length xs \<le> TOML_MAX_ARRAY_ITEMS \<Longrightarrow>
   parse_array_loop (render_items xs) [] = Some (Inr (xs, '']''))"
proof (induction xs)
  case Nil
  then show ?case by (simp add: parse_array_loop_end)
next
  case (Cons x xs)
  then have "parse_array_loop (render_items (x # xs)) [] = parse_array_loop (render_rest xs) [x]"
    using parse_array_loop_item [of x "[]" "quote_str x @ render_rest xs" "render_rest xs"]
    by (simp add: quote_str_not_Nil)
  with Cons show ?case by (simp add: parse_array_loop_rest)
qed

lemma show_int_shape:
  obtains c cs where "show_int i = c # cs" "c = CHR ''-'' \<or> isdigit c" "list_all isdigit cs"
proof (cases "i < 0")
  case True
  then show ?thesis
    using that [of "CHR ''-''" "show_nat (nat (- i))"] show_nat_digits [of "nat (- i)"]
    by (simp add: show_int_def)
next
  case False
  then show ?thesis
    using that show_nat_digits [of "nat i"]
    by (cases "show_nat (nat i)") (auto simp: show_int_def)
qed

lemma not_digit [simp]:
  "\<not> isdigit DQUOTE" "\<not> isdigit CHR ''[''" "\<not> isdigit CHR ''t''" "\<not> isdigit CHR ''f''"
  "\<not> isdigit CHR ''#''" "\<not> isdigit CHR '' ''" "\<not> isdigit LF" "\<not> isdigit NUL"
  by (simp_all add: isdigit_def)

lemma parse_value_render: "plain_value v \<Longrightarrow> parse_value (render_value v) = Some (Inr v)"
proof (cases v)
  case (TOML_INTEGER i)
  assume "plain_value v"
  with TOML_INTEGER have "in_int64 i" by simp
  moreover obtain c cs where s: "show_int i = c # cs" "c = CHR ''-'' \<or> isdigit c"
    by (rule show_int_shape)
  then have "c \<noteq> DQUOTE" "c \<noteq> CHR ''[''" "c \<noteq> CHR ''t''" "c \<noteq> CHR ''f''" by auto
  moreover have "strtoll10 (c # cs) = Some (i, [])"
    using strtoll10_show_int [of "[]" i] s by simp
  ultimately show ?thesis using TOML_INTEGER s by (simp add: parse_value_def)
qed (auto simp: parse_value_def quote_str_def parse_string_value_quote parse_array_value_def
    parse_array_loop_items token_end_def)

section \<open>Reading back lines\<close>

lemma str_trim_id: "s = [] \<or> \<not> isspace (hd s) \<and> \<not> isspace (last s) \<Longrightarrow> str_trim_inplace s = s"
proof (induction s rule: rev_induct)
  case Nil
  then show ?case by (simp add: str_trim_inplace_def)
next
  case (snoc c s)
  then show ?case by (cases s) (auto simp: str_trim_inplace_def)
qed

lemma str_trim_space: "isspace c \<Longrightarrow> str_trim_inplace (c # s) = str_trim_inplace s"
  by (simp add: str_trim_inplace_def)

lemma isspace_chars [simp]:
  "isspace CHR '' ''" "isspace LF" "isspace CR" "\<not> isspace NUL" "\<not> isspace DQUOTE" "\<not> isspace CHR ''[''" "\<not> isspace CHR '']''"
  "\<not> isspace CHR ''-''" "\<not> isspace CHR ''#''" "\<not> isspace CHR ''=''"
  by (simp_all add: isspace_def)

lemma strip_comment_text:
  "list_all (\<lambda>c. c \<noteq> DQUOTE \<and> c \<noteq> CHR ''#'') s \<Longrightarrow>
   strip_comment False (s @ r) = s @ strip_comment False r"
  by (induction s) auto

lemma strip_comment_string:
  "list_all (\<lambda>c. c \<noteq> DQUOTE) s \<Longrightarrow>
   strip_comment True (s @ DQUOTE # r) = s @ DQUOTE # strip_comment False r"
  by (induction s) auto

lemma strip_comment_quote:
  "plain_str s \<Longrightarrow> strip_comment False (quote_str s @ r) = quote_str s @ strip_comment False r"
  using strip_comment_string [of s r] by (auto simp: quote_str_def plain_str_def list_all_iff)

lemma strip_comment_rest: "list_all plain_str xs \<Longrightarrow> strip_comment False (render_rest xs) = render_rest xs"
  by (induction xs) (simp_all add: strip_comment_quote)

lemma strip_comment_value:
  assumes "plain_value v"
  shows "strip_comment False (render_value v) = render_value v"
proof (cases v)
  case (TOML_STRING s)
  with assms strip_comment_quote [of s "[]"] show ?thesis by simp
next
  case (TOML_INTEGER i)
  obtain c cs where "show_int i = c # cs" "c = CHR ''-'' \<or> isdigit c" "list_all isdigit cs"
    by (rule show_int_shape)
  then have "list_all (\<lambda>c. c \<noteq> DQUOTE \<and> c \<noteq> CHR ''#'') (show_int i)"
    by (auto simp: list_all_iff)
  with TOML_INTEGER strip_comment_text [of "show_int i" "[]"] show ?thesis by simp
next
  case (TOML_BOOLEAN b)
  then show ?thesis by simp
next
  case (TOML_ARRAY xs)
  with assms show ?thesis
    by (cases xs) (simp_all add: strip_comment_quote strip_comment_rest)
qed

lemma render_rest_last: "render_rest xs \<noteq> [] \<and> last (render_rest xs) = CHR '']''"
  by (induction xs) auto

lemma render_value_ends:
  "render_value v \<noteq> [] \<and> \<not> isspace (hd (render_value v)) \<and> \<not> isspace (last (render_value v))"
proof (cases v)
  case (TOML_INTEGER i)
  obtain c cs where s: "show_int i = c # cs" "c = CHR ''-'' \<or> isdigit c" "list_all isdigit cs"
    by (rule show_int_shape)
  then have "\<not> isspace c" by (auto dest: isdigit_not_space)
  moreover have "\<not> isspace (last cs)" if "cs \<noteq> []"
    using s(3) that by (auto simp: list_all_iff dest: isdigit_not_space)
  ultimately show ?thesis using TOML_INTEGER s by simp
next
  case (TOML_ARRAY xs)
  then show ?thesis using render_rest_last by (cases xs) (simp_all add: quote_str_def)
qed (simp_all add: quote_str_def isspace_def)

lemma render_rest_chars:
  "list_all plain_str xs \<Longrightarrow> LF \<notin> set (render_rest xs) \<and> NUL \<notin> set (render_rest xs)"
  by (induction xs) (auto simp: quote_str_def plain_str_def list_all_iff)

lemma render_value_chars:
  assumes "plain_value v"
  shows "LF \<notin> set (render_value v) \<and> NUL \<notin> set (render_value v)"
proof (cases v)
  case (TOML_INTEGER i)
  obtain c cs where "show_int i = c # cs" "c = CHR ''-'' \<or> isdigit c" "list_all isdigit cs"
    by (rule show_int_shape)
  with TOML_INTEGER show ?thesis by (auto simp: list_all_iff)
next
  case (TOML_ARRAY xs)
  with assms show ?thesis
    using render_rest_chars [of "tl xs"]
    by (cases xs) (auto simp: quote_str_def plain_str_def list_all_iff)
qed (use assms in \<open>auto simp: quote_str_def plain_str_def list_all_iff\<close>)

text \<open>A line the loader hands to \<open>parse_line\<close> unchanged.\<close>

definition line_ok :: "string \<Rightarrow> bool" where
  "line_ok l \<longleftrightarrow> l \<noteq> [] \<and> \<not> isspace (hd l) \<and> \<not> isspace (last l) \<and> LF \<notin> set l \<and> NUL \<notin> set l \<and>
     length l < TOML_MAX_LINE_LEN"

lemma line_ok_line_of_bytes: "line_ok l \<Longrightarrow> line_of_bytes l = l"
  by (auto simp: line_of_bytes_def line_ok_def cstr_id)

lemma load_lines_line:
  assumes "line_ok l"
  shows "load_lines doc st (l @ LF # rest) =
    ub_bind (parse_line doc st l) (\<lambda>(doc', st'). load_lines doc' st' rest)"
proof -
  have "takeWhile (\<lambda>c. c \<noteq> LF) (l @ LF # rest) = l"
    using assms by (induction l) (auto simp: line_ok_def takeWhile_append)
  with assms show ?thesis
    by (subst load_lines.simps) (simp add: Let_def line_ok_line_of_bytes line_ok_def [of l])
qed

lemma line_ok_pair: "plain_pair kv \<Longrightarrow> line_ok (render_pair kv)"
proof -
  assume p: "plain_pair kv"
  then have k: "fst kv \<noteq> []" "\<not> isspace (hd (fst kv))" "LF \<notin> set (fst kv)" "NUL \<notin> set (fst kv)"
    and v: "plain_value (snd kv)" and len: "length (render_pair kv) < TOML_MAX_LINE_LEN"
    unfolding plain_pair_def list_all_iff using hd_in_set isspace_chars by blast+
  have "render_pair kv \<noteq> []" "hd (render_pair kv) = hd (fst kv)"
    "last (render_pair kv) = last (render_value (snd kv))"
    "set (render_pair kv) = set (fst kv) \<union> {CHR '' '', CHR ''=''} \<union> set (render_value (snd kv))"
    using k(1) render_value_ends [of "snd kv"] by (auto simp: render_pair_def)
  with k len render_value_ends [of "snd kv"] render_value_chars [OF v] show ?thesis
    by (simp add: line_ok_def)
qed

lemma line_ok_header: "plain_block b \<Longrightarrow> line_ok (render_header b)"
  by (auto simp: plain_block_def line_ok_def render_header_def list_all_iff)

lemma str_trim_key: "plain_pair kv \<Longrightarrow> str_trim_inplace (fst kv @ '' '') = fst kv"
proof -
  assume p: "plain_pair kv"
  then have "str_trim_inplace (fst kv) = fst kv"
    by (intro str_trim_id) (auto simp: plain_pair_def list_all_iff)
  moreover have "\<not> isspace (hd (fst kv))" "fst kv \<noteq> []"
    using p by (auto simp: plain_pair_def list_all_iff)
  then have "dropWhile isspace (fst kv @ '' '') = fst kv @ '' ''" "dropWhile isspace (fst kv) = fst kv"
    by (cases "fst kv"; simp)+
  ultimately show ?thesis by (simp add: str_trim_inplace_def)
qed

lemma parse_key_value_render:
  assumes p: "plain_pair kv" and len: "length (td_entries doc) < TOML_MAX_ENTRIES"
    and sec: "length (ps_cur_section st) < TOML_MAX_SECTION_LEN"
  shows "parse_key_value doc st (render_pair kv) =
    Some (Inr (doc\<lparr>td_entries := td_entries doc @
      [entry_of (ps_cur_section st)
         (if ps_cur_is_array_table st then ps_cur_array_table_entry st else - 1) kv]\<rparr>, st))"
proof -
  let ?v = "render_value (snd kv)"
  have "split_chr CHR ''='' (render_pair kv) = Some (fst kv @ '' '', '' '' @ ?v)"
    using p by (auto simp: render_pair_def plain_pair_def list_all_iff split_chr_Some)
  moreover have "str_trim_inplace ('' '' @ ?v) = ?v" "str_trim_inplace ?v = ?v"
    using render_value_ends [of "snd kv"] by (simp_all add: str_trim_space str_trim_id)
  moreover have "strip_comment False ?v = ?v" "parse_value ?v = Some (Inr (snd kv))"
    using p by (auto simp: plain_pair_def strip_comment_value parse_value_render)
  moreover have "length (fst kv @ '' '') < TOML_MAX_KEY_LEN" "length ('' '' @ ?v) < TOML_MAX_STR_LEN * 2"
    using p by (auto simp: plain_pair_def render_pair_def)
  ultimately show ?thesis
    using str_trim_key [OF p] len sec
    by (simp add: parse_key_value_def Let_def str_copy_bounded_def entry_of_def)
qed

lemma parse_line_pair:
  assumes "plain_pair kv"
  shows "parse_line doc st (render_pair kv) = parse_key_value doc st (render_pair kv)"
proof -
  have "str_trim_inplace (render_pair kv) = render_pair kv"
    using line_ok_pair [OF assms] by (auto simp: line_ok_def str_trim_id)
  moreover obtain c cs where "render_pair kv = c # cs" "c \<noteq> CHR ''[''" "c \<noteq> CHR ''#''"
    using assms by (cases "fst kv") (auto simp: plain_pair_def render_pair_def)
  ultimately show ?thesis by (simp add: parse_line_def)
qed

section \<open>Reading back documents\<close>

abbreviation with_lf :: "string list \<Rightarrow> string" where
  "with_lf ls \<equiv> concat (map (\<lambda>l. l @ [LF]) ls)"

definition names_short :: "toml_doc \<Rightarrow> bool" where
  "names_short doc \<longleftrightarrow> list_all (\<lambda>(n, c). length n < TOML_MAX_SECTION_LEN) (td_array_tables doc)"

lemma bump_not_found:
  assumes "find_array_table_from ts name k < 0" and "length name < TOML_MAX_SECTION_LEN"
    and "list_all (\<lambda>(n, c). length n < TOML_MAX_SECTION_LEN) ts"
  shows "bump_table ts name = ts @ [(name, 1)]" "table_count ts name = 0"
proof -
  from assms have "list_all (\<lambda>(n, c). n \<noteq> name) ts"
    using find_array_table_from_None [OF assms(1)] by (auto simp: list_all_iff)
  then show "bump_table ts name = ts @ [(name, 1)]" "table_count ts name = 0"
    by (induction ts) (auto simp: table_count_def)
qed

lemma bump_found:
  assumes "find_array_table_from ts name k \<ge> 0" and "length name < TOML_MAX_SECTION_LEN"
    and "list_all (\<lambda>(n, c). length n < TOML_MAX_SECTION_LEN) ts"
  defines "i \<equiv> nat (find_array_table_from ts name k) - k"
  shows "bump_table ts name = ts[i := (name, snd (ts ! i) + 1)] \<and> table_count ts name = snd (ts ! i)"
  using assms(1,2,3) unfolding i_def
proof (induction ts name k rule: find_array_table_from.induct)
  case (2 n c ts name i)
  show ?case
  proof (cases "n = name")
    case True
    then show ?thesis by (simp add: table_count_def)
  next
    case False
    with "2.prems" have ne: "\<not> strncmp_eq TOML_MAX_SECTION_LEN n name"
      by (simp add: strncmp_eq_iff)
    let ?r = "find_array_table_from ts name (Suc i)"
    from "2.prems" ne have r: "?r \<ge> 0" by simp
    then have "nat ?r - i = Suc (nat ?r - Suc i)"
      using find_array_table_from_Some [OF r] by linarith
    with 2 ne False r show ?thesis by (simp add: table_count_def)
  qed
qed simp

lemma bump_names_short:
  assumes "list_all (\<lambda>(n, c). length n < TOML_MAX_SECTION_LEN) ts" "length name < TOML_MAX_SECTION_LEN"
  shows "list_all (\<lambda>(n, c). length n < TOML_MAX_SECTION_LEN) (bump_table ts name)"
  using assms by (induction ts name rule: bump_table.induct) auto

lemma bump_table_length: "length ts \<le> length (bump_table ts name)"
  by (induction ts name rule: bump_table.induct) auto

lemma split_str_name: "CHR '']'' \<notin> set name \<Longrightarrow> split_str '']]'' (name @ '']]'') = Some (name, [])"
proof (induction name)
  case (Cons c name)
  then show ?case by (cases "c = CHR '']''") (auto simp: take_Cons')
qed simp

lemma parse_line_section:
  assumes b: "plain_block b" and na: "\<not> blk_array b"
  shows "parse_line doc st (render_header b) =
    Some (Inr (doc, st\<lparr>ps_cur_section := blk_name b, ps_cur_is_array_table := False,
                      ps_cur_array_table_entry := - 1\<rparr>))"
proof -
  have hdr: "render_header b = CHR ''['' # blk_name b @ '']''"
    using na by (simp add: render_header_def)
  have "str_trim_inplace (render_header b) = render_header b"
    using line_ok_header [OF b] by (auto simp: line_ok_def str_trim_id)
  moreover have "take 2 (render_header b) \<noteq> ''[[''"
    using b na hdr by (cases "blk_name b") (auto simp: plain_block_def take_Cons')
  moreover have "split_chr CHR '']'' (blk_name b @ '']'') = Some (blk_name b, [])"
    using b by (auto simp: plain_block_def list_all_iff split_chr_Some)
  ultimately show ?thesis
    using b by (simp add: parse_line_def parse_section_header_def hdr Let_def str_copy_bounded_def plain_block_def)
qed

lemma parse_line_array_table:
  assumes b: "plain_block b" and na: "blk_array b" and ns: "names_short doc"
    and len: "length (bump_table (td_array_tables doc) (blk_name b)) \<le> TOML_MAX_ARRAY_TABLES"
  shows "parse_line doc st (render_header b) =
    Some (Inr (doc\<lparr>td_array_tables := bump_table (td_array_tables doc) (blk_name b)\<rparr>,
      st\<lparr>ps_cur_section := blk_name b, ps_cur_is_array_table := True,
         ps_cur_array_table_entry := table_count (td_array_tables doc) (blk_name b)\<rparr>))"
proof -
  let ?n = "blk_name b" and ?ts = "td_array_tables doc"
  let ?f = "find_array_table_from ?ts ?n 0"
  have hdr: "render_header b = ''[['' @ ?n @ '']]''"
    using na by (simp add: render_header_def)
  have trim: "str_trim_inplace (render_header b) = render_header b"
    using line_ok_header [OF b] by (auto simp: line_ok_def str_trim_id)
  have name: "length ?n < TOML_MAX_SECTION_LEN" "CHR '']'' \<notin> set ?n"
    using b by (auto simp: plain_block_def list_all_iff)
  have header: "parse_line doc st (render_header b) = parse_array_table_header doc st (''[['' @ ?n @ '']]'')"
    using trim by (simp add: parse_line_def hdr)
  show ?thesis
  proof (cases "?f \<ge> 0")
    case True
    note f = find_array_table_from_Some [OF True]
    have "fst (?ts ! nat ?f) = ?n"
      using f name ns by (auto simp: names_short_def list_all_length case_prod_beta strncmp_eq_iff)
    moreover note bump_found [OF True name(1)]
    ultimately show ?thesis
      using True ns name f unfolding header
      by (auto simp: parse_array_table_header_def split_str_name str_copy_bounded_def Let_def
          toml_get_or_create_array_table_def toml_find_array_table_index_def names_short_def
          case_prod_beta)
  next
    case False
    then have neg: "?f < 0" by simp
    note bump = bump_not_found [OF neg name(1)]
    then show ?thesis
      using False ns name len unfolding header
      by (simp add: parse_array_table_header_def split_str_name str_copy_bounded_def Let_def
          toml_get_or_create_array_table_def toml_find_array_table_index_def names_short_def
          list_update_append nth_append)
  qed
qed

lemma load_lines_pairs:
  assumes "list_all plain_pair kvs" and "length (td_entries doc) + length kvs \<le> TOML_MAX_ENTRIES"
    and "length (ps_cur_section st) < TOML_MAX_SECTION_LEN"
  shows "load_lines doc st (with_lf (map render_pair kvs) @ rest) =
    load_lines (doc\<lparr>td_entries := td_entries doc @ map (entry_of (ps_cur_section st)
      (if ps_cur_is_array_table st then ps_cur_array_table_entry st else - 1)) kvs\<rparr>) st rest"
  using assms
proof (induction kvs arbitrary: doc)
  case Nil
  then show ?case by simp
next
  case (Cons kv kvs)
  then have kv: "plain_pair kv" "length (td_entries doc) < TOML_MAX_ENTRIES" by simp_all
  show ?case
    using Cons.IH Cons.prems
      load_lines_line [OF line_ok_pair [OF kv(1)], of doc st "with_lf (map render_pair kvs) @ rest"]
    by (simp add: parse_line_pair [OF kv(1)] parse_key_value_render [OF kv Cons.prems(3)])
qed

lemma update_entries:
  "doc\<lparr>td_entries := es\<rparr> = \<lparr>td_entries = es, td_array_tables = td_array_tables doc\<rparr>"
  by (cases doc) simp

lemma load_lines_block:
  assumes b: "plain_block b" and ns: "names_short doc"
    and "length (td_entries (add_block doc b)) \<le> TOML_MAX_ENTRIES"
    and "length (td_array_tables (add_block doc b)) \<le> TOML_MAX_ARRAY_TABLES"
  shows "\<exists>st'. load_lines doc st (with_lf (block_lines b) @ rest) = load_lines (add_block doc b) st' rest"
proof -
  have sec: "length (blk_name b) < TOML_MAX_SECTION_LEN" and kvs: "list_all plain_pair (blk_pairs b)"
    using b by (simp_all add: plain_block_def)
  note step = load_lines_line [OF line_ok_header [OF b], of doc st
      "with_lf (map render_pair (blk_pairs b)) @ rest"]
  note pairs = load_lines_pairs [OF kvs]
  show ?thesis
  proof (cases "blk_array b")
    case True
    with assms(3,4) step sec show ?thesis
      by (simp add: block_lines_def parse_line_array_table [OF b True ns] add_block_def pairs Let_def update_entries del: map_map)
        blast
  next
    case False
    with assms(3,4) step sec show ?thesis
      by (simp add: block_lines_def parse_line_section [OF b False] add_block_def pairs Let_def update_entries del: map_map)
        blast
  qed
qed

lemma add_block_lengths:
  "length (td_entries doc) \<le> length (td_entries (foldl add_block doc bs))"
  "length (td_array_tables doc) \<le> length (td_array_tables (foldl add_block doc bs))"
proof (induction bs arbitrary: doc)
  case (Cons b bs)
  {
    case 1
    show ?case using Cons(1) [of "add_block doc b"] by (simp add: add_block_def Let_def)
  next
    case 2
    show ?case using Cons(2) [of "add_block doc b"] bump_table_length [of "td_array_tables doc" "blk_name b"]
      by (simp add: add_block_def Let_def split: if_splits)
  }
qed simp_all

lemma add_block_names_short: "plain_block b \<Longrightarrow> names_short doc \<Longrightarrow> names_short (add_block doc b)"
  by (simp add: names_short_def add_block_def Let_def plain_block_def bump_names_short)

lemma load_lines_blocks:
  assumes "list_all plain_block bs" and "names_short doc"
    and "length (td_entries (foldl add_block doc bs)) \<le> TOML_MAX_ENTRIES"
    and "length (td_array_tables (foldl add_block doc bs)) \<le> TOML_MAX_ARRAY_TABLES"
  shows "\<exists>st'. load_lines doc st (with_lf (concat (map block_lines bs))) =
    Some (Inr (foldl add_block doc bs, st'))"
  using assms
proof (induction bs arbitrary: doc st)
  case Nil
  then show ?case by (simp add: load_lines.simps)
next
  case (Cons b bs)
  then obtain st1 where "load_lines doc st (with_lf (block_lines b) @ with_lf (concat (map block_lines bs))) =
      load_lines (add_block doc b) st1 (with_lf (concat (map block_lines bs)))"
    using load_lines_block [of b doc st "with_lf (concat (map block_lines bs))"]
      add_block_lengths [of "add_block doc b" bs] by auto
  moreover obtain st2 where "load_lines (add_block doc b) st1 (with_lf (concat (map block_lines bs))) =
      Some (Inr (foldl add_block (add_block doc b) bs, st2))"
    using Cons.IH [of "add_block doc b" st1] Cons.prems add_block_names_short by auto
  ultimately show ?case by simp
qed

lemma toml_load_printed:
  assumes "plain_doc pre bs"
  shows "toml_load_buffer True (render_doc pre bs) = Some (Inr (doc_of pre bs))"
proof -
  let ?d = "\<lparr>td_entries = map (entry_of [] (- 1)) pre, td_array_tables = []\<rparr>"
  from assms have p: "list_all plain_pair pre" "list_all plain_block bs"
    "length (td_entries (foldl add_block ?d bs)) \<le> TOML_MAX_ENTRIES"
    "length (td_array_tables (foldl add_block ?d bs)) \<le> TOML_MAX_ARRAY_TABLES"
    by (simp_all add: plain_doc_def doc_of_def)
  then have "length pre \<le> TOML_MAX_ENTRIES" using add_block_lengths(1) [of ?d bs] by simp
  then have "load_lines empty_doc init_parse_state (render_doc pre bs) =
      load_lines ?d init_parse_state (with_lf (concat (map block_lines bs)))"
    using load_lines_pairs [OF p(1), of empty_doc init_parse_state]
    by (simp add: render_doc_def doc_lines_def empty_doc_def init_parse_state_def)
  moreover obtain st where "load_lines ?d init_parse_state (with_lf (concat (map block_lines bs))) =
      Some (Inr (doc_of pre bs, st))"
    using load_lines_blocks [OF p(2) _ p(3,4)] by (auto simp: names_short_def doc_of_def)
  ultimately show ?thesis
    using assms by (simp add: toml_load_buffer_def plain_doc_def)
qed

text \<open>
  C10: loading the printed text of any document within the limits of the reader gives back that
  document: sections, array tables with their running index and counters, keys, strings,
  integers, booleans and arrays.
\<close>

theorem toml_load_render:
  "plain_doc pre bs \<Longrightarrow> toml_load_buffer True (render_doc pre bs) = Some (Inr (doc_of pre bs))"
  by (rule toml_load_printed)

definition sample_block :: toml_block where
  "sample_block = \<lparr>blk_array = True, blk_name = ''mount'',
     blk_pairs = [(''dev'', TOML_STRING ''proc # x''), (''opts'', TOML_ARRAY [''ro'', ''nosuid''])]\<rparr>"

theorem toml_load_render_witness:
  "toml_load_buffer True (render_doc [(''n'', TOML_INTEGER (- 12))] [sample_block]) =
     Some (Inr (doc_of [(''n'', TOML_INTEGER (- 12))] [sample_block]))"
  by (rule toml_load_render)
    (simp add: plain_doc_def plain_pair_def plain_block_def sample_block_def doc_of_def add_block_def Let_def
      render_doc_def doc_lines_def block_lines_def render_header_def render_pair_def plain_str_def
      quote_str_def show_int_def show_nat.simps isspace_def in_int64_def)

end
