(* ===== verification/Service.thy ===== *)
theory Service
  imports Toml
begin

text \<open>
  Service definitions (\<open>src/luna-init/service.c\<close>, \<open>service.h\<close>): the service record, the parser
  that fills it from a TOML document, the directory scanner that builds the service table, and
  the lookups. The table \<open>g_services[0 .. g_service_count)\<close> is a list of records. The loops that
  fill \<open>after\<close> and \<open>before\<close> store at most eight names but set the counters to the length of the
  array in the file, so both are kept: the stored names and the counter. Reading a slot that the
  array does not have is \<open>None\<close> (\<open>dep_slot\<close>).
\<close>

section \<open>Data\<close>

datatype service_state =
    SERVICE_STATE_PENDING
  | SERVICE_STATE_STARTING
  | SERVICE_STATE_RUNNING
  | SERVICE_STATE_DEGRADED
  | SERVICE_STATE_STOPPING
  | SERVICE_STATE_STOPPED
  | SERVICE_STATE_FAILED

datatype restart_policy = RESTART_NEVER | RESTART_ALWAYS | RESTART_ON_FAILURE

datatype ready_method = READY_NONE | READY_FILE | READY_SOCKET | READY_HTTP | READY_SIGNAL

abbreviation (input) SERVICE_MAX_COUNT :: nat where "SERVICE_MAX_COUNT \<equiv> 32"
abbreviation (input) SERVICE_MAX_NAME_LEN :: nat where "SERVICE_MAX_NAME_LEN \<equiv> 64"
abbreviation (input) SERVICE_MAX_BINARY_LEN :: nat where "SERVICE_MAX_BINARY_LEN \<equiv> 256"
abbreviation (input) SERVICE_MAX_ARGS :: nat where "SERVICE_MAX_ARGS \<equiv> 16"
abbreviation (input) SERVICE_MAX_ARG_LEN :: nat where "SERVICE_MAX_ARG_LEN \<equiv> 256"
abbreviation (input) SERVICE_MAX_DEPS :: nat where "SERVICE_MAX_DEPS \<equiv> 8"
abbreviation (input) SERVICE_MAX_ENV_VARS :: nat where "SERVICE_MAX_ENV_VARS \<equiv> 8"
abbreviation (input) SERVICE_MAX_ENV_LEN :: nat where "SERVICE_MAX_ENV_LEN \<equiv> 256"
abbreviation (input) SERVICE_MAX_READY_PATH :: nat where "SERVICE_MAX_READY_PATH \<equiv> 256"

abbreviation (input) SIGHUP :: int where "SIGHUP \<equiv> 1"
abbreviation (input) SIGQUIT :: int where "SIGQUIT \<equiv> 3"
abbreviation (input) SIGKILL :: int where "SIGKILL \<equiv> 9"
abbreviation (input) SIGTERM :: int where "SIGTERM \<equiv> 15"

record service =
  sv_name :: string
  sv_binary :: string
  sv_description :: string
  sv_args :: "string list"
  sv_arg_count :: nat
  sv_workdir :: string
  sv_env :: "(string \<times> string) list"
  sv_run_user :: string
  sv_run_group :: string
  sv_after :: "string list"
  sv_after_count :: nat
  sv_before :: "string list"
  sv_before_count :: nat
  sv_restart_policy :: restart_policy
  sv_restart_attempts :: int
  sv_restart_delay_ms :: int
  sv_ready_method :: ready_method
  sv_ready_path :: string
  sv_ready_timeout_ms :: int
  sv_stop_signal :: int
  sv_stop_timeout_ms :: int
  sv_state :: service_state
  sv_pid :: int
  sv_restart_count :: int
  sv_start_time_ms :: int
  sv_stop_time_ms :: int
  sv_scheduled_start_ms :: int
  sv_dep_indices :: "nat list"

text \<open>Reading \<open>after[a]\<close> or \<open>before[b]\<close>: \<open>None\<close> outside the eight slots of the array.\<close>

definition dep_slot :: "string list \<Rightarrow> nat \<Rightarrow> string option" where
  "dep_slot slots a =
     (if a < SERVICE_MAX_DEPS then Some (if a < length slots then slots ! a else []) else None)"

section \<open>Helpers\<close>

definition parse_restart_policy :: "string \<Rightarrow> restart_policy" where
  "parse_restart_policy s =
     (if s = ''always'' then RESTART_ALWAYS
      else if s = ''on-failure'' then RESTART_ON_FAILURE
      else RESTART_NEVER)"

definition parse_ready_method :: "string \<Rightarrow> ready_method" where
  "parse_ready_method s =
     (if s = ''file'' then READY_FILE
      else if s = ''socket'' then READY_SOCKET
      else if s = ''http'' then READY_HTTP
      else if s = ''signal'' then READY_SIGNAL
      else READY_NONE)"

definition env_cb :: "string \<Rightarrow> toml_value \<Rightarrow> service \<Rightarrow> service" where
  "env_cb key val svc =
     (case val of
        TOML_STRING s \<Rightarrow>
          if length (sv_env svc) \<ge> SERVICE_MAX_ENV_VARS then svc
          else svc\<lparr>sv_env := sv_env svc @
                     [(bounded_copy SERVICE_MAX_ENV_LEN key, bounded_copy SERVICE_MAX_ENV_LEN s)]\<rparr>
      | _ \<Rightarrow> svc)"

definition parse_signal_name :: "string \<Rightarrow> int" where
  "parse_signal_name s =
     (if s = ''SIGTERM'' then SIGTERM
      else if s = ''SIGKILL'' then SIGKILL
      else if s = ''SIGHUP'' then SIGHUP
      else if s = ''SIGQUIT'' then SIGQUIT
      else SIGTERM)"

section \<open>Single service file parser\<close>

text \<open>\<open>GET_STR\<close>, \<open>GET_INT\<close> and the array reads: the value when the key has the right type.\<close>

definition GET_STR :: "toml_doc \<Rightarrow> string \<Rightarrow> string \<Rightarrow> nat \<Rightarrow> string option" where
  "GET_STR doc sec key n =
     (case toml_get doc (Some sec) key of
        Inr (TOML_STRING s) \<Rightarrow> Some (bounded_copy n s)
      | _ \<Rightarrow> None)"

definition GET_INT :: "toml_doc \<Rightarrow> string \<Rightarrow> string \<Rightarrow> int \<Rightarrow> int" where
  "GET_INT doc sec key dst =
     (case toml_get doc (Some sec) key of
        Inr (TOML_INTEGER i) \<Rightarrow> to_int32 i
      | _ \<Rightarrow> dst)"

definition get_array :: "toml_error + toml_value \<Rightarrow> string list option" where
  "get_array r = (case r of Inr (TOML_ARRAY xs) \<Rightarrow> Some xs | _ \<Rightarrow> None)"

definition get_nested_str :: "toml_doc \<Rightarrow> string \<Rightarrow> string \<Rightarrow> string \<Rightarrow> nat \<Rightarrow> string \<Rightarrow> string" where
  "get_nested_str doc parent child key n dflt =
     (case toml_get_nested doc parent child key of
        Inr (TOML_STRING s) \<Rightarrow> bounded_copy n s
      | _ \<Rightarrow> dflt)"

text \<open>The defaults of a zeroed record.\<close>

definition init_service :: service where
  "init_service =
     \<lparr>sv_name = [], sv_binary = [], sv_description = [], sv_args = [], sv_arg_count = 0,
      sv_workdir = [], sv_env = [], sv_run_user = [], sv_run_group = [],
      sv_after = [], sv_after_count = 0, sv_before = [], sv_before_count = 0,
      sv_restart_policy = RESTART_ON_FAILURE, sv_restart_attempts = 3, sv_restart_delay_ms = 1000,
      sv_ready_method = READY_NONE, sv_ready_path = [], sv_ready_timeout_ms = 5000,
      sv_stop_signal = SIGTERM, sv_stop_timeout_ms = 3000,
      sv_state = SERVICE_STATE_PENDING, sv_pid = 0, sv_restart_count = 0, sv_start_time_ms = 0,
      sv_stop_time_ms = 0, sv_scheduled_start_ms = 0, sv_dep_indices = []\<rparr>"

definition load_deps :: "toml_doc \<Rightarrow> service \<Rightarrow> service" where
  "load_deps doc out0 =
     (let out1 = (case get_array (toml_get_nested doc ''service'' ''depends'' ''after'') of
                    None \<Rightarrow> out0
                  | Some xs \<Rightarrow> out0\<lparr>sv_after_count := length xs,
                      sv_after := map (bounded_copy SERVICE_MAX_NAME_LEN) (take SERVICE_MAX_DEPS xs)\<rparr>)
      in case get_array (toml_get_nested doc ''service'' ''depends'' ''before'') of
           None \<Rightarrow> out1
         | Some xs \<Rightarrow> out1\<lparr>sv_before_count := length xs,
             sv_before := map (bounded_copy SERVICE_MAX_NAME_LEN) (take SERVICE_MAX_DEPS xs)\<rparr>)"

definition load_args :: "toml_doc \<Rightarrow> service \<Rightarrow> service" where
  "load_args doc out =
     (case get_array (toml_get doc (Some ''service'') ''args'') of
        None \<Rightarrow> out
      | Some xs \<Rightarrow> out\<lparr>sv_arg_count := length xs,
          sv_args := map (bounded_copy SERVICE_MAX_ARG_LEN) (take SERVICE_MAX_ARGS xs)\<rparr>)"

definition load_policies :: "toml_doc \<Rightarrow> service \<Rightarrow> service" where
  "load_policies doc out = out\<lparr>
     sv_restart_policy :=
       parse_restart_policy (get_nested_str doc ''service'' ''restart'' ''policy'' 32 ''on-failure''),
     sv_restart_attempts := GET_INT doc ''service.restart'' ''attempts'' (sv_restart_attempts out),
     sv_restart_delay_ms := GET_INT doc ''service.restart'' ''delay_ms'' (sv_restart_delay_ms out),
     sv_ready_method :=
       parse_ready_method (get_nested_str doc ''service'' ''ready'' ''method'' 32 ''none''),
     sv_ready_path := (case GET_STR doc ''service.ready'' ''path'' SERVICE_MAX_READY_PATH of
                         None \<Rightarrow> sv_ready_path out | Some s \<Rightarrow> s),
     sv_ready_timeout_ms := GET_INT doc ''service.ready'' ''timeout_ms'' (sv_ready_timeout_ms out),
     sv_stop_signal :=
       parse_signal_name (get_nested_str doc ''service'' ''stop'' ''signal'' 16 ''SIGTERM''),
     sv_stop_timeout_ms := GET_INT doc ''service.stop'' ''timeout_ms'' (sv_stop_timeout_ms out)\<rparr>"

text \<open>The part of \<open>service_load_one\<close> after the document is loaded; \<open>None\<close> is its \<open>return -1\<close>.\<close>

definition service_of_doc :: "toml_doc \<Rightarrow> service option" where
  "service_of_doc doc =
     (case GET_STR doc ''service'' ''name'' SERVICE_MAX_NAME_LEN of
        None \<Rightarrow> None
      | Some name \<Rightarrow>
          (case GET_STR doc ''service'' ''binary'' SERVICE_MAX_BINARY_LEN of
             None \<Rightarrow> None
           | Some binary \<Rightarrow>
               (let opt = (\<lambda>sec key n. case GET_STR doc sec key n of None \<Rightarrow> [] | Some s \<Rightarrow> s);
                    out1 = init_service\<lparr>sv_name := name, sv_binary := binary,
                             sv_description := opt ''service'' ''description'' 256,
                             sv_workdir := opt ''service'' ''workdir'' 256\<rparr>;
                    out2 = (load_args doc out1)\<lparr>sv_run_user := opt ''service.identity'' ''user'' 64,
                             sv_run_group := opt ''service.identity'' ''group'' 64\<rparr>;
                    out3 = load_policies doc (load_deps doc out2)
                in Some (fst (toml_enumerate_section doc ''service.env'' env_cb out3)))))"

definition service_load_one :: "file_io \<Rightarrow> (unit + service) option" where
  "service_load_one io =
     (case toml_load_file io of
        None \<Rightarrow> None
      | Some (Inl err) \<Rightarrow> Some (Inl ())
      | Some (Inr doc) \<Rightarrow>
          Some (case service_of_doc doc of None \<Rightarrow> Inl () | Some svc \<Rightarrow> Inr svc))"

section \<open>Directory scanner\<close>

definition is_toml_name :: "string \<Rightarrow> bool" where
  "is_toml_name name \<longleftrightarrow> \<not> length name < 6 \<and> drop (length name - 5) name = ''.toml''"

text \<open>
  The \<open>readdir\<close> loop. A directory is the list of its entries in the order \<open>readdir\<close> delivers
  them, each with what reading that file answers.
\<close>

fun load_entries :: "(string \<times> file_io) list \<Rightarrow> service list \<Rightarrow> service list option" where
  "load_entries [] tbl = Some tbl"
| "load_entries ((name, io) # ents) tbl =
     (if \<not> is_toml_name name then load_entries ents tbl
      else if length tbl \<ge> SERVICE_MAX_COUNT then Some tbl
      else case service_load_one io of
          None \<Rightarrow> None
        | Some (Inl _) \<Rightarrow> load_entries ents tbl
        | Some (Inr svc) \<Rightarrow>
            if list_ex (\<lambda>s. sv_name s = sv_name svc) tbl then load_entries ents tbl
            else load_entries ents (tbl @ [svc]))"

text \<open>The new table and the return code; a directory that cannot be opened leaves the table.\<close>

definition service_load_all ::
  "(string \<times> file_io) list option \<Rightarrow> service list \<Rightarrow> (service list \<times> int) option" where
  "service_load_all dir tbl =
     (case dir of
        None \<Rightarrow> Some (tbl, - 1)
      | Some ents \<Rightarrow> map_option (\<lambda>t. (t, int (length t))) (load_entries ents []))"

section \<open>Lookup\<close>

text \<open>The functions return a pointer into the table; the model returns its index.\<close>

fun find_index_from :: "(service \<Rightarrow> bool) \<Rightarrow> service list \<Rightarrow> nat \<Rightarrow> nat option" where
  "find_index_from P [] i = None"
| "find_index_from P (s # ss) i = (if P s then Some i else find_index_from P ss (Suc i))"

definition service_find :: "service list \<Rightarrow> string \<Rightarrow> nat option" where
  "service_find tbl name = find_index_from (\<lambda>s. sv_name s = name) tbl 0"

definition service_find_by_pid :: "service list \<Rightarrow> int \<Rightarrow> nat option" where
  "service_find_by_pid tbl pid =
     (if pid \<le> 0 then None else find_index_from (\<lambda>s. sv_pid s = pid) tbl 0)"

fun service_state_name :: "service_state \<Rightarrow> string" where
  "service_state_name SERVICE_STATE_PENDING = ''PENDING''"
| "service_state_name SERVICE_STATE_STARTING = ''STARTING''"
| "service_state_name SERVICE_STATE_RUNNING = ''RUNNING''"
| "service_state_name SERVICE_STATE_DEGRADED = ''DEGRADED''"
| "service_state_name SERVICE_STATE_STOPPING = ''STOPPING''"
| "service_state_name SERVICE_STATE_STOPPED = ''STOPPED''"
| "service_state_name SERVICE_STATE_FAILED = ''FAILED''"

section \<open>Well-formed services\<close>

definition deps_ok :: "string list \<Rightarrow> nat \<Rightarrow> bool" where
  "deps_ok slots n \<longleftrightarrow>
     length slots = min n SERVICE_MAX_DEPS \<and> n \<le> TOML_MAX_ARRAY_ITEMS \<and>
     list_all (\<lambda>s. length s < SERVICE_MAX_NAME_LEN) slots"

definition service_ok :: "service \<Rightarrow> bool" where
  "service_ok s \<longleftrightarrow>
     length (sv_name s) < SERVICE_MAX_NAME_LEN \<and> length (sv_binary s) < SERVICE_MAX_BINARY_LEN \<and>
     length (sv_description s) < 256 \<and> length (sv_workdir s) < 256 \<and>
     length (sv_args s) = sv_arg_count s \<and> sv_arg_count s \<le> SERVICE_MAX_ARGS \<and>
     list_all (\<lambda>a. length a < SERVICE_MAX_ARG_LEN) (sv_args s) \<and>
     length (sv_env s) \<le> SERVICE_MAX_ENV_VARS \<and>
     list_all (\<lambda>(k, v). length k < SERVICE_MAX_ENV_LEN \<and> length v < SERVICE_MAX_ENV_LEN) (sv_env s) \<and>
     length (sv_run_user s) < 64 \<and> length (sv_run_group s) < 64 \<and>
     deps_ok (sv_after s) (sv_after_count s) \<and> deps_ok (sv_before s) (sv_before_count s) \<and>
     in_int32 (sv_restart_attempts s) \<and> in_int32 (sv_restart_delay_ms s) \<and>
     length (sv_ready_path s) < SERVICE_MAX_READY_PATH \<and> in_int32 (sv_ready_timeout_ms s) \<and>
     sv_stop_signal s \<in> {SIGHUP, SIGQUIT, SIGKILL, SIGTERM} \<and> in_int32 (sv_stop_timeout_ms s) \<and>
     length (sv_dep_indices s) \<le> SERVICE_MAX_DEPS"

text \<open>A service that no process runs: the runtime fields of a freshly parsed record.\<close>

definition service_fresh :: "service \<Rightarrow> bool" where
  "service_fresh s \<longleftrightarrow> sv_state s = SERVICE_STATE_PENDING \<and> sv_pid s = 0 \<and> sv_restart_count s = 0"

definition table_ok :: "service list \<Rightarrow> bool" where
  "table_ok tbl \<longleftrightarrow>
     length tbl \<le> SERVICE_MAX_COUNT \<and> distinct (map sv_name tbl) \<and> list_all service_ok tbl"

lemma init_service_ok: "service_ok init_service" "service_fresh init_service"
  by (simp_all add: service_ok_def init_service_def deps_ok_def service_fresh_def in_int32_def)

lemma GET_STR_bound: "GET_STR doc sec key n = Some s \<Longrightarrow> 0 < n \<Longrightarrow> length s < n"
  by (auto simp: GET_STR_def length_bounded_copy split: sum.splits toml_value.splits)

lemma GET_INT_range: "in_int32 dst \<Longrightarrow> in_int32 (GET_INT doc sec key dst)"
  by (auto simp: GET_INT_def split: sum.splits toml_value.splits)

lemma get_array_bound:
  assumes "doc_ok doc"
  shows "get_array (toml_get doc sec key) = Some xs \<Longrightarrow> length xs \<le> TOML_MAX_ARRAY_ITEMS"
    and "get_array (toml_get_nested doc p c key) = Some xs \<Longrightarrow> length xs \<le> TOML_MAX_ARRAY_ITEMS"
  using section_keys.array_bound [OF assms, of "(sec, key)"]
    nested_keys.array_bound [OF assms, of "(p, c, key)"]
  by (auto simp: get_array_def split: sum.splits toml_value.splits)

lemma bounded_copies:
  "0 < n \<Longrightarrow> list_all (\<lambda>s. length s < n) (map (bounded_copy n) xs)"
  by (simp add: list_all_iff length_bounded_copy)

lemma load_args_ok:
  assumes "doc_ok doc" and "service_ok s" and "service_fresh s"
  shows "service_ok (load_args doc s) \<and> service_fresh (load_args doc s)"
  using assms get_array_bound(1) [OF assms(1), of "Some ''service''" "''args''"]
  by (auto simp: load_args_def service_ok_def service_fresh_def bounded_copies split: option.splits)

lemma load_deps_ok:
  assumes "doc_ok doc" and "service_ok s" and "service_fresh s"
  shows "service_ok (load_deps doc s) \<and> service_fresh (load_deps doc s)"
  using assms get_array_bound(2) [OF assms(1), of "''service''" "''depends''"]
  by (auto simp: load_deps_def service_ok_def service_fresh_def deps_ok_def bounded_copies Let_def
      split: option.splits)

lemma load_policies_ok:
  assumes "service_ok s" and "service_fresh s"
  shows "service_ok (load_policies doc s) \<and> service_fresh (load_policies doc s)"
  using assms
  by (auto simp: load_policies_def service_ok_def service_fresh_def GET_INT_range parse_signal_name_def
      dest: GET_STR_bound split: option.splits)

lemma env_cb_ok:
  "service_ok s \<Longrightarrow> service_fresh s \<Longrightarrow> service_ok (env_cb k v s) \<and> service_fresh (env_cb k v s)"
  by (auto simp: env_cb_def service_ok_def service_fresh_def length_bounded_copy
      split: toml_value.splits)

lemma enumerate_env_ok:
  "service_ok s \<and> service_fresh s \<Longrightarrow>
   service_ok (fst (enumerate_from es sec env_cb s n)) \<and>
   service_fresh (fst (enumerate_from es sec env_cb s n))"
  by (induction es arbitrary: s n) (simp_all add: env_cb_ok)

lemma service_of_doc_ok:
  assumes "doc_ok doc" and "service_of_doc doc = Some s"
  shows "service_ok s \<and> service_fresh s"
proof -
  let ?opt = "\<lambda>sec key n. case GET_STR doc sec key n of None \<Rightarrow> [] | Some s \<Rightarrow> s"
  have opt: "length (?opt sec key n) < n" if "0 < n" for sec key n
    using that by (auto dest: GET_STR_bound split: option.splits)
  from assms(2) obtain name binary where
      n: "GET_STR doc ''service'' ''name'' SERVICE_MAX_NAME_LEN = Some name"
    and b: "GET_STR doc ''service'' ''binary'' SERVICE_MAX_BINARY_LEN = Some binary"
    by (auto simp: service_of_doc_def split: option.splits)
  let ?s1 = "init_service\<lparr>sv_name := name, sv_binary := binary,
      sv_description := ?opt ''service'' ''description'' 256,
      sv_workdir := ?opt ''service'' ''workdir'' 256\<rparr>"
  let ?s2 = "(load_args doc ?s1)\<lparr>sv_run_user := ?opt ''service.identity'' ''user'' 64,
      sv_run_group := ?opt ''service.identity'' ''group'' 64\<rparr>"
  have "service_ok ?s1 \<and> service_fresh ?s1"
    using init_service_ok GET_STR_bound [OF n] GET_STR_bound [OF b] opt [of 256]
    by (simp add: service_ok_def service_fresh_def)
  then have "service_ok (load_args doc ?s1) \<and> service_fresh (load_args doc ?s1)"
    using load_args_ok assms(1) by blast
  then have "service_ok ?s2 \<and> service_fresh ?s2"
    using opt [of 64] by (simp add: service_ok_def service_fresh_def)
  then have "service_ok (load_policies doc (load_deps doc ?s2)) \<and>
      service_fresh (load_policies doc (load_deps doc ?s2))"
    using load_deps_ok load_policies_ok assms(1) by blast
  note enumerate_env_ok [OF this, of "td_entries doc" "''service.env''" 0]
  moreover have "s = fst (enumerate_from (td_entries doc) ''service.env'' env_cb
        (load_policies doc (load_deps doc ?s2)) 0)"
    using assms(2) n b by (simp add: service_of_doc_def toml_enumerate_section_def Let_def)
  ultimately show ?thesis by simp
qed

lemma service_load_one_ok: "service_load_one io = Some (Inr s) \<Longrightarrow> service_ok s \<and> service_fresh s"
  by (auto simp: service_load_one_def split: option.splits sum.splits
      dest: toml_load_file_wf service_of_doc_ok)

lemma service_load_one_total: "service_load_one io \<noteq> None"
  using toml_load_file_total [of io] by (auto simp: service_load_one_def split: option.splits sum.splits)

lemma load_entries_ok:
  "load_entries ents tbl = Some t \<Longrightarrow> table_ok tbl \<Longrightarrow> list_all service_fresh tbl \<Longrightarrow>
   table_ok t \<and> list_all service_fresh t"
proof (induction ents tbl rule: load_entries.induct)
  case (2 name io ents tbl)
  have add: "table_ok (tbl @ [svc]) \<and> list_all service_fresh (tbl @ [svc])"
    if "service_load_one io = Some (Inr svc)" "\<not> list_ex (\<lambda>s. sv_name s = sv_name svc) tbl"
      "length tbl < SERVICE_MAX_COUNT" for svc
    using that "2.prems"(2,3) service_load_one_ok [OF that(1)]
    by (auto simp: table_ok_def list_ex_iff)
  from "2.prems"(1) "2.IH" "2.prems"(2,3) add show ?case
    by (auto split: if_splits option.splits sum.splits)
qed simp

lemma load_entries_total: "load_entries ents tbl \<noteq> None"
  by (induction ents tbl rule: load_entries.induct)
    (auto simp: service_load_one_total simp del: not_None_eq split: option.splits sum.splits)

text \<open>The names that the service definitions of a directory declare.\<close>

definition definition_names :: "(string \<times> file_io) list \<Rightarrow> string set" where
  "definition_names ents =
     {sv_name s |name io s.
        (name, io) \<in> set ents \<and> is_toml_name name \<and> service_load_one io = Some (Inr s)}"

lemma definition_names_simps [simp]:
  "definition_names [] = {}"
  "definition_names ((name, io) # ents) =
     (case service_load_one io of
        Some (Inr s) \<Rightarrow>
          if is_toml_name name then insert (sv_name s) (definition_names ents) else definition_names ents
      | _ \<Rightarrow> definition_names ents)"
  by (auto simp: definition_names_def split: option.splits sum.splits)

lemma load_entries_names:
  "load_entries ents tbl = Some t \<Longrightarrow> length tbl \<le> SERVICE_MAX_COUNT \<Longrightarrow>
   sv_name ` set tbl \<subseteq> sv_name ` set t \<and>
   sv_name ` set t \<subseteq> sv_name ` set tbl \<union> definition_names ents \<and>
   (length t = SERVICE_MAX_COUNT \<or> definition_names ents \<subseteq> sv_name ` set t)"
proof (induction ents tbl rule: load_entries.induct)
  case (2 name io ents tbl)
  have dup: "n \<in> sv_name ` set t"
    if "list_ex (\<lambda>s. sv_name s = n) tbl" "sv_name ` set tbl \<subseteq> sv_name ` set t" for n
    using that by (auto simp: list_ex_iff)
  from "2.prems" "2.IH" show ?case
    by (auto dest: dup split: if_splits option.splits sum.splits)
qed simp

text \<open>
  C12: for every directory the scanner ends with a table of at most 32 services with pairwise
  distinct names and every field within its buffer or integer type. The names of the table are
  names that definition files of the directory declare, and unless the table is full every
  declared name is in it.
\<close>

theorem service_load_all_ok:
  "\<exists>t. service_load_all (Some ents) tbl = Some (t, int (length t)) \<and> table_ok t \<and>
       sv_name ` set t \<subseteq> definition_names ents \<and>
       (length t = SERVICE_MAX_COUNT \<or> sv_name ` set t = definition_names ents)"
proof -
  obtain t where t: "load_entries ents [] = Some t"
    using load_entries_total [of ents "[]"] by auto
  moreover have "table_ok t" using load_entries_ok [OF t] by (simp add: table_ok_def)
  moreover note load_entries_names [OF t]
  ultimately show ?thesis by (auto simp: service_load_all_def)
qed

section \<open>Looking services up\<close>

text \<open>The contract of a table that is searched by name.\<close>

locale name_lookup =
  fixes find :: "'t \<Rightarrow> string \<Rightarrow> nat option"
    and names :: "'t \<Rightarrow> string list"
  assumes find_Some: "find t n = Some i \<Longrightarrow> i < length (names t) \<and> names t ! i = n"
    and find_None: "find t n = None \<Longrightarrow> n \<notin> set (names t)"
begin

lemma find_iff:
  assumes "distinct (names t)"
  shows "find t n = Some i \<longleftrightarrow> i < length (names t) \<and> names t ! i = n"
proof
  show "find t n = Some i \<Longrightarrow> i < length (names t) \<and> names t ! i = n" by (rule find_Some)
next
  assume i: "i < length (names t) \<and> names t ! i = n"
  then obtain j where j: "find t n = Some j" using find_None [of t n] nth_mem by (cases "find t n") auto
  then have "j < length (names t)" "names t ! j = n" using find_Some by blast+
  with i assms have "i = j" using nth_eq_iff_index_eq by blast
  with j show "find t n = Some i" by simp
qed

lemma find_mem: "(\<exists>i. find t n = Some i) \<longleftrightarrow> n \<in> set (names t)"
  using find_Some [of t n] find_None [of t n] by (cases "find t n") (auto simp: in_set_conv_nth)

end

lemma find_index_from_Some:
  "find_index_from P ss k = Some i \<Longrightarrow>
   k \<le> i \<and> i - k < length ss \<and> P (ss ! (i - k)) \<and> (\<forall>j < i - k. \<not> P (ss ! j))"
proof (induction ss arbitrary: k)
  case (Cons s ss)
  show ?case
  proof (cases "P s")
    case True
    with Cons.prems show ?thesis by simp
  next
    case False
    with Cons.prems have "find_index_from P ss (Suc k) = Some i" by simp
    note IH = Cons.IH [OF this]
    then have "i - k = Suc (i - Suc k)" by auto
    with IH False show ?thesis by (auto simp: less_Suc_eq_0_disj)
  qed
qed simp

lemma find_index_from_None: "find_index_from P ss k = None \<longleftrightarrow> list_all (\<lambda>s. \<not> P s) ss"
  by (induction ss arbitrary: k) auto

interpretation service_names: name_lookup service_find "map sv_name"
proof
  show "service_find t n = Some i \<Longrightarrow> i < length (map sv_name t) \<and> map sv_name t ! i = n" for t n i
    by (auto simp: service_find_def dest!: find_index_from_Some)
  show "service_find t n = None \<Longrightarrow> n \<notin> set (map sv_name t)" for t n
    by (auto simp: service_find_def find_index_from_None list_all_iff)
qed

lemma service_find_Some: "service_find tbl n = Some i \<Longrightarrow> i < length tbl \<and> sv_name (tbl ! i) = n"
  using service_names.find_Some [of tbl n i] by auto

lemma service_find_by_pid_Some:
  "service_find_by_pid tbl pid = Some i \<Longrightarrow> 0 < pid \<and> i < length tbl \<and> sv_pid (tbl ! i) = pid"
  by (auto simp: service_find_by_pid_def split: if_splits dest!: find_index_from_Some)

end
