(* ===== verification/Depgraph.thy ===== *)
theory Depgraph
  imports Service
begin

text \<open>
  The dependency graph of luna-init (\<open>src/luna-init/depgraph.c\<close>): resolving the \<open>after\<close> and
  \<open>before\<close> names to an adjacency matrix with in-degrees, and Kahn's algorithm for the cycle check
  and the start order. The matrix is a function, the FIFO queue of indices is the list of the
  entries between \<open>q_head\<close> and \<open>q_tail\<close>. Reading an \<open>after\<close> or \<open>before\<close> slot outside the array is
  \<open>None\<close>. Global state that a failing call leaves behind is returned with the code -1, because
  the reload path of \<open>main.c\<close> ignores that code.
\<close>

section \<open>The graph\<close>

record depgraph =
  dg_edge :: "nat \<Rightarrow> nat \<Rightarrow> bool"
  dg_indegree :: "nat \<Rightarrow> int"

definition empty_graph :: depgraph where
  "empty_graph = \<lparr>dg_edge = (\<lambda>i j. False), dg_indegree = (\<lambda>i. 0)\<rparr>"

definition add_edge :: "nat \<Rightarrow> nat \<Rightarrow> depgraph \<Rightarrow> depgraph" where
  "add_edge i j g =
     (if dg_edge g i j then g
      else \<lparr>dg_edge = (dg_edge g)(i := (dg_edge g i)(j := True)),
            dg_indegree = (dg_indegree g)(j := dg_indegree g j + 1)\<rparr>)"

section \<open>Building the graph\<close>

text \<open>The \<open>after\<close> loop of one service: the slots it reads, the graph and the resolved indices.\<close>

fun build_after ::
  "service list \<Rightarrow> nat \<Rightarrow> string option list \<Rightarrow> depgraph \<Rightarrow> nat list \<Rightarrow>
   ((depgraph \<times> nat list) \<times> int) option" where
  "build_after tbl i [] g deps = Some ((g, deps), 0)"
| "build_after tbl i (None # rs) g deps = None"
| "build_after tbl i (Some name # rs) g deps =
     (case service_find tbl name of
        None \<Rightarrow> Some ((g, deps), - 1)
      | Some dep_idx \<Rightarrow>
          build_after tbl i rs (add_edge dep_idx i g)
            (if length deps < SERVICE_MAX_DEPS then deps @ [dep_idx] else deps))"

fun build_before ::
  "service list \<Rightarrow> nat \<Rightarrow> string option list \<Rightarrow> depgraph \<Rightarrow> (depgraph \<times> int) option" where
  "build_before tbl i [] g = Some (g, 0)"
| "build_before tbl i (None # rs) g = None"
| "build_before tbl i (Some name # rs) g =
     (case service_find tbl name of
        None \<Rightarrow> Some (g, - 1)
      | Some target_idx \<Rightarrow> build_before tbl i rs (add_edge i target_idx g))"

definition after_slots :: "service \<Rightarrow> string option list" where
  "after_slots svc = map (dep_slot (sv_after svc)) [0..<sv_after_count svc]"

definition before_slots :: "service \<Rightarrow> string option list" where
  "before_slots svc = map (dep_slot (sv_before svc)) [0..<sv_before_count svc]"

fun build_loop ::
  "nat list \<Rightarrow> depgraph \<Rightarrow> service list \<Rightarrow> ((depgraph \<times> service list) \<times> int) option" where
  "build_loop [] g tbl = Some ((g, tbl), 0)"
| "build_loop (i # is) g tbl =
     (case build_after tbl i (after_slots (tbl ! i)) g [] of
        None \<Rightarrow> None
      | Some ((g1, deps), rc1) \<Rightarrow>
          (let tbl1 = tbl[i := (tbl ! i)\<lparr>sv_dep_indices := deps\<rparr>] in
           if rc1 < 0 then Some ((g1, tbl1), - 1)
           else (case build_before tbl1 i (before_slots (tbl1 ! i)) g1 of
                   None \<Rightarrow> None
                 | Some (g2, rc2) \<Rightarrow>
                     if rc2 < 0 then Some ((g2, tbl1), - 1) else build_loop is g2 tbl1)))"

section \<open>Kahn's algorithm\<close>

text \<open>One iteration of the successor loop: the decremented in-degrees and the queue.\<close>

definition visit :: "depgraph \<Rightarrow> nat \<Rightarrow> (nat \<Rightarrow> int) \<times> nat list \<Rightarrow> nat \<Rightarrow> (nat \<Rightarrow> int) \<times> nat list" where
  "visit g node = (\<lambda>(indegree, queue) j.
     if \<not> dg_edge g node j then (indegree, queue)
     else (let d = indegree j - 1 in
           (indegree(j := d), if d = 0 then queue @ [j] else queue)))"

lemma visit_fold:
  "distinct js \<Longrightarrow>
   foldl (visit g node) (indegree, queue) js =
     ((\<lambda>j. if j \<in> set js \<and> dg_edge g node j then indegree j - 1 else indegree j),
      queue @ filter (\<lambda>j. dg_edge g node j \<and> indegree j = 1) js)"
proof (induction js arbitrary: indegree queue)
  case Nil
  then show ?case by simp
next
  case (Cons j js)
  then have nj: "j \<notin> set js" and d: "distinct js" by simp_all
  have f: "filter (\<lambda>k. dg_edge g node k \<and> (indegree(j := c)) k = 1) js =
      filter (\<lambda>k. dg_edge g node k \<and> indegree k = 1) js" for c
    using nj by (intro filter_cong) auto
  show ?case
    using nj Cons.IH [OF d] f [of "indegree j - 1"]
    by (auto simp: visit_def Let_def fun_eq_iff)
qed

function kahn_loop ::
  "depgraph \<Rightarrow> nat \<Rightarrow> nat list \<Rightarrow> (nat \<Rightarrow> int) \<Rightarrow> nat list \<Rightarrow> nat list \<times> (nat \<Rightarrow> int)" where
  "kahn_loop g n queue indegree out =
     (case queue of
        [] \<Rightarrow> (out, indegree)
      | node # rest \<Rightarrow>
          (case foldl (visit g node) (indegree, rest) [0..<n] of
             (indegree', queue') \<Rightarrow> kahn_loop g n queue' indegree' (out @ [node])))"
  by pat_completeness auto
termination
proof (relation "measure (\<lambda>(g, n, queue, indegree, out). length queue + card {j. j < n \<and> indegree j > 0})",
    goal_cases)
  case 1
  show ?case by simp
next
  case (2 g n queue indegree out node rest indegree' queue')
  let ?new = "filter (\<lambda>j. dg_edge g node j \<and> indegree j = 1) [0..<n]"
  let ?P = "{j. j < n \<and> indegree j > 0}" and ?P' = "{j. j < n \<and> indegree' j > 0}"
  from 2(2) have i': "indegree' = (\<lambda>j. if j \<in> set [0..<n] \<and> dg_edge g node j then indegree j - 1 else indegree j)"
    and q': "queue' = rest @ ?new"
    using visit_fold [of "[0..<n]" g node indegree rest] by simp_all
  have "card (set ?new) = length ?new" by (rule distinct_card) simp
  then have "card ?P' + length ?new = card (?P' \<union> set ?new)"
    by (subst card_Un_disjoint) (auto simp: i')
  also have "\<dots> \<le> card ?P"
    by (rule card_mono) (auto simp: i' split: if_splits)
  finally show ?case using 2(1) q' by simp
qed

declare kahn_loop.simps [simp del]

definition kahn :: "depgraph \<Rightarrow> nat \<Rightarrow> nat list \<times> (nat \<Rightarrow> int)" where
  "kahn g n = kahn_loop g n (filter (\<lambda>i. dg_indegree g i = 0) [0..<n]) (dg_indegree g) []"

definition depgraph_has_cycle :: "depgraph \<Rightarrow> nat \<Rightarrow> bool" where
  "depgraph_has_cycle g n \<longleftrightarrow> length (fst (kahn g n)) \<noteq> n"

definition depgraph_build :: "service list \<Rightarrow> ((depgraph \<times> service list) \<times> int) option" where
  "depgraph_build tbl =
     (case build_loop [0..<length tbl] empty_graph tbl of
        None \<Rightarrow> None
      | Some ((g, tbl'), rc) \<Rightarrow>
          if rc < 0 then Some ((g, tbl'), - 1)
          else if depgraph_has_cycle g (length tbl') then Some ((g, tbl'), - 1)
          else Some ((g, tbl'), 0))"

text \<open>The order written to \<open>out_order\<close>; \<open>None\<close> is the return code -1.\<close>

definition depgraph_topo_sort :: "depgraph \<Rightarrow> nat \<Rightarrow> nat \<Rightarrow> nat list option" where
  "depgraph_topo_sort g n max_count =
     (if max_count < n then None
      else (let out = fst (kahn g n) in if length out \<noteq> n then None else Some out))"

section \<open>Correctness of Kahn's algorithm\<close>

definition edges :: "depgraph \<Rightarrow> (nat \<times> nat) set" where
  "edges g = {(i, j). dg_edge g i j}"

text \<open>The in-degrees count the edges, and edges join services of the table.\<close>

definition graph_ok :: "depgraph \<Rightarrow> nat \<Rightarrow> bool" where
  "graph_ok g n \<longleftrightarrow>
     edges g \<subseteq> {..<n} \<times> {..<n} \<and> (\<forall>j. dg_indegree g j = int (card {i. dg_edge g i j}))"

lemma graph_ok_edge: "graph_ok g n \<Longrightarrow> dg_edge g i j \<Longrightarrow> i < n \<and> j < n"
  by (auto simp: graph_ok_def edges_def)

text \<open>
  The loop invariant: nothing is emitted twice, the current in-degree of a service counts its
  predecessors that are not emitted yet, a service is queued or emitted exactly when that count
  is zero, and every emitted service has all its predecessors before it.
\<close>

definition kahn_inv :: "depgraph \<Rightarrow> nat \<Rightarrow> nat list \<Rightarrow> (nat \<Rightarrow> int) \<Rightarrow> nat list \<Rightarrow> bool" where
  "kahn_inv g n queue indegree out \<longleftrightarrow>
     distinct (out @ queue) \<and>
     (\<forall>j. j \<in> set (out @ queue) \<longleftrightarrow> j < n \<and> indegree j = 0) \<and>
     (\<forall>j. indegree j = int (card {i. dg_edge g i j \<and> i \<notin> set out})) \<and>
     (\<forall>k < length out. \<forall>i. dg_edge g i (out ! k) \<longrightarrow> i \<in> set (take k out))"

lemma kahn_inv_init:
  "graph_ok g n \<Longrightarrow> kahn_inv g n (filter (\<lambda>i. dg_indegree g i = 0) [0..<n]) (dg_indegree g) []"
  by (auto simp: kahn_inv_def graph_ok_def)

lemma finite_preds: "graph_ok g n \<Longrightarrow> finite {i. dg_edge g i j \<and> P i}"
  by (rule finite_subset [of _ "{..<n}"]) (auto dest: graph_ok_edge)

lemma kahn_inv_step:
  assumes ok: "graph_ok g n" and inv: "kahn_inv g n (node # rest) indegree out"
  defines "new \<equiv> filter (\<lambda>j. dg_edge g node j \<and> indegree j = 1) [0..<n]"
    and "indegree' \<equiv> (\<lambda>j. if j \<in> set [0..<n] \<and> dg_edge g node j then indegree j - 1 else indegree j)"
  shows "kahn_inv g n (rest @ new) indegree' (out @ [node])"
proof -
  from inv have d: "distinct (out @ node # rest)"
    and mem: "\<And>j. j \<in> set (out @ node # rest) \<longleftrightarrow> j < n \<and> indegree j = 0"
    and cnt: "\<And>j. indegree j = int (card {i. dg_edge g i j \<and> i \<notin> set out})"
    and resp: "\<forall>k < length out. \<forall>i. dg_edge g i (out ! k) \<longrightarrow> i \<in> set (take k out)"
    by (simp_all add: kahn_inv_def)
  have i': "indegree' j = (if dg_edge g node j then indegree j - 1 else indegree j)" for j
    using graph_ok_edge [OF ok, of node j] by (auto simp: indegree'_def)
  have preds: "i \<in> set out" if "j \<in> set (out @ node # rest)" "dg_edge g i j" for i j
  proof -
    from that(1) mem cnt have "card {i. dg_edge g i j \<and> i \<notin> set out} = 0" by simp
    with finite_preds [OF ok] that(2) show ?thesis by simp
  qed
  have out_no: "node \<notin> set out" using d by auto
  have cnt': "indegree' j = int (card {i. dg_edge g i j \<and> i \<notin> set (out @ [node])})" for j
  proof (cases "dg_edge g node j")
    case True
    have "{i. dg_edge g i j \<and> i \<notin> set out} =
        insert node {i. dg_edge g i j \<and> i \<notin> set (out @ [node])}"
      using True out_no by auto
    then have "card {i. dg_edge g i j \<and> i \<notin> set out} =
        Suc (card {i. dg_edge g i j \<and> i \<notin> set (out @ [node])})"
      using finite_preds [OF ok, of j] by simp
    with True i' cnt show ?thesis by simp
  next
    case False
    then have "{i. dg_edge g i j \<and> i \<notin> set out} = {i. dg_edge g i j \<and> i \<notin> set (out @ [node])}"
      by auto
    with False i' cnt show ?thesis by simp
  qed
  have noedge: "\<not> dg_edge g node j" if "j \<in> set (out @ node # rest)" for j
    using preds [OF that] out_no by blast
  have new: "j \<in> set new \<longleftrightarrow> dg_edge g node j \<and> indegree j = 1" for j
    using graph_ok_edge [OF ok, of node j] by (auto simp: new_def)
  have "distinct ((out @ [node]) @ rest @ new)"
    using d noedge by (auto simp: new) (auto simp: new_def)
  moreover have "j \<in> set ((out @ [node]) @ rest @ new) \<longleftrightarrow> j < n \<and> indegree' j = 0" for j
    using mem [of j] noedge [of j] graph_ok_edge [OF ok, of node j] by (auto simp: new i')
  moreover have "i \<in> set (take k (out @ [node]))"
    if "k < length (out @ [node])" "dg_edge g i ((out @ [node]) ! k)" for k i
    using that resp preds [of node] by (cases "k = length out") (auto simp: nth_append)
  ultimately show ?thesis using cnt' by (simp add: kahn_inv_def)
qed

lemma kahn_loop_inv:
  "graph_ok g n \<Longrightarrow> kahn_inv g n queue indegree out \<Longrightarrow>
   kahn_loop g n queue indegree out = (out', indegree') \<Longrightarrow> kahn_inv g n [] indegree' out'"
proof (induction g n queue indegree out rule: kahn_loop.induct)
  case (1 g n queue indegree out)
  show ?case
  proof (cases queue)
    case Nil
    with "1.prems" show ?thesis by (simp add: kahn_loop.simps [of g n "[]"])
  next
    case (Cons node rest)
    let ?s = "foldl (visit g node) (indegree, rest) [0..<n]"
    have "kahn_inv g n (snd ?s) (fst ?s) (out @ [node])"
      using kahn_inv_step "1.prems"(1,2) Cons visit_fold [of "[0..<n]" g node indegree rest] by simp
    moreover have "kahn_loop g n (snd ?s) (fst ?s) (out @ [node]) = (out', indegree')"
      using "1.prems"(3) Cons by (simp add: kahn_loop.simps [of g n "node # rest"] case_prod_beta)
    ultimately show ?thesis
      using "1.IH" [OF Cons, of "fst ?s" "snd ?s"] "1.prems"(1) by (simp add: prod_eq_iff)
  qed
qed

definition order_respects :: "depgraph \<Rightarrow> nat list \<Rightarrow> bool" where
  "order_respects g order \<longleftrightarrow> (\<forall>k < length order. \<forall>i. dg_edge g i (order ! k) \<longrightarrow> i \<in> set (take k order))"

text \<open>A topological order of the services \<open>0 .. n - 1\<close>.\<close>

definition topo_order :: "depgraph \<Rightarrow> nat \<Rightarrow> nat list \<Rightarrow> bool" where
  "topo_order g n order \<longleftrightarrow> distinct order \<and> set order = {..<n} \<and> order_respects g order"

lemma kahn_facts:
  assumes "graph_ok g n"
  shows "distinct (fst (kahn g n))" "order_respects g (fst (kahn g n))"
    "j \<in> set (fst (kahn g n)) \<longleftrightarrow> j < n \<and> card {i. dg_edge g i j \<and> i \<notin> set (fst (kahn g n))} = 0"
proof -
  obtain out indegree where k: "kahn g n = (out, indegree)" by (cases "kahn g n")
  then have inv: "kahn_inv g n [] indegree out"
    using kahn_loop_inv [OF assms kahn_inv_init [OF assms]] by (simp add: kahn_def)
  then show "distinct (fst (kahn g n))" "order_respects g (fst (kahn g n))"
    unfolding k by (simp_all add: kahn_inv_def order_respects_def)
  have "j \<in> set out \<longleftrightarrow> j < n \<and> indegree j = 0"
    and "indegree j = int (card {i. dg_edge g i j \<and> i \<notin> set out})"
    using inv unfolding kahn_inv_def append_Nil2 by blast+
  then show "j \<in> set (fst (kahn g n)) \<longleftrightarrow>
      j < n \<and> card {i. dg_edge g i j \<and> i \<notin> set (fst (kahn g n))} = 0"
    unfolding k fst_conv by linarith
qed

lemma kahn_bounded: "graph_ok g n \<Longrightarrow> set (fst (kahn g n)) \<subseteq> {..<n} \<and> length (fst (kahn g n)) \<le> n"
proof -
  assume ok: "graph_ok g n"
  then have "set (fst (kahn g n)) \<subseteq> {..<n}" using kahn_facts(3) by blast
  moreover from this have "card (set (fst (kahn g n))) \<le> card {..<n}" by (intro card_mono) simp_all
  ultimately show ?thesis using kahn_facts(1) [OF ok] by (simp add: distinct_card)
qed

lemma order_respects_pos:
  assumes "distinct order" and "order_respects g order"
    and "dg_edge g (order ! a) (order ! b)" and "a < length order" and "b < length order"
  shows "a < b"
proof -
  from assms have "order ! a \<in> set (take b order)" by (simp add: order_respects_def)
  then obtain c where "c < b" "order ! c = order ! a" by (auto simp: in_set_conv_nth)
  with assms show ?thesis using nth_eq_iff_index_eq by fastforce
qed

lemma topo_order_acyclic:
  assumes ok: "graph_ok g n" and t: "topo_order g n order"
  shows "acyclic (edges g)"
proof -
  let ?pos = "\<lambda>i. THE k. k < length order \<and> order ! k = i"
  have pos: "?pos (order ! k) = k" if "k < length order" for k
    using t that nth_eq_iff_index_eq by (intro the_equality) (auto simp: topo_order_def)
  have "edges g \<subseteq> inv_image less_than ?pos"
  proof (rule subrelI)
    fix i j assume "(i, j) \<in> edges g"
    then have e: "dg_edge g i j" by (simp add: edges_def)
    then have "i \<in> set order" "j \<in> set order"
      using t graph_ok_edge [OF ok] by (auto simp: topo_order_def)
    then obtain a b where "a < length order" "b < length order" "i = order ! a" "j = order ! b"
      by (auto simp: in_set_conv_nth)
    with e t order_respects_pos pos show "(i, j) \<in> inv_image less_than ?pos"
      by (auto simp: topo_order_def)
  qed
  then have "wf (edges g)" by (rule wf_subset [OF wf_inv_image [OF wf_less_than]])
  then show ?thesis by (rule wf_acyclic)
qed

lemma kahn_complete:
  assumes ok: "graph_ok g n" and a: "acyclic (edges g)"
  shows "topo_order g n (fst (kahn g n))"
proof -
  let ?out = "fst (kahn g n)"
  have "finite (edges g)"
    using ok finite_subset [of "edges g" "{..<n} \<times> {..<n}"] by (simp add: graph_ok_def)
  with a have wf: "wf (edges g)" using finite_acyclic_wf by blast
  have all: "j \<in> set ?out" if "j < n" for j
  proof (rule ccontr)
    assume "j \<notin> set ?out"
    with that obtain m where m: "m \<in> {j. j < n \<and> j \<notin> set ?out}"
      and min: "\<And>i. (i, m) \<in> edges g \<Longrightarrow> i \<notin> {j. j < n \<and> j \<notin> set ?out}"
      using wfE_min [OF wf, of j "{j. j < n \<and> j \<notin> set ?out}"] by blast
    from min have "{i. dg_edge g i m \<and> i \<notin> set ?out} = {}"
      using graph_ok_edge [OF ok] by (auto simp: edges_def)
    with m kahn_facts(3) [OF ok, of m] show False by simp
  qed
  then show ?thesis
    using kahn_facts(1,2) [OF ok] kahn_bounded [OF ok] by (auto simp: topo_order_def)
qed

lemma topo_order_length: "topo_order g n order \<Longrightarrow> length order = n"
  by (metis card_lessThan distinct_card topo_order_def)

lemma kahn_full:
  assumes "graph_ok g n"
  shows "length (fst (kahn g n)) = n \<longleftrightarrow> topo_order g n (fst (kahn g n))"
proof
  assume "length (fst (kahn g n)) = n"
  then have "set (fst (kahn g n)) = {..<n}"
    using kahn_bounded [OF assms] kahn_facts(1) [OF assms]
    by (metis card_lessThan card_subset_eq distinct_card finite_lessThan)
  with kahn_facts(1,2) [OF assms] show "topo_order g n (fst (kahn g n))"
    by (simp add: topo_order_def)
qed (rule topo_order_length)

lemma depgraph_has_cycle_iff: "graph_ok g n \<Longrightarrow> depgraph_has_cycle g n \<longleftrightarrow> \<not> acyclic (edges g)"
  using kahn_full kahn_complete topo_order_acyclic unfolding depgraph_has_cycle_def by blast

lemma depgraph_topo_sort_Some:
  "graph_ok g n \<Longrightarrow> depgraph_topo_sort g n m = Some order \<Longrightarrow> topo_order g n order"
  using kahn_full by (auto simp: depgraph_topo_sort_def Let_def split: if_splits)

lemma depgraph_topo_sort_iff:
  "graph_ok g n \<Longrightarrow> n \<le> m \<Longrightarrow> (\<exists>order. depgraph_topo_sort g n m = Some order) \<longleftrightarrow> acyclic (edges g)"
  using depgraph_has_cycle_iff by (auto simp: depgraph_topo_sort_def depgraph_has_cycle_def Let_def)

section \<open>Correctness of the construction\<close>

lemma edges_add_edge: "edges (add_edge i j g) = insert (i, j) (edges g)"
  by (auto simp: edges_def add_edge_def split: if_splits)

lemma graph_ok_empty: "graph_ok empty_graph n"
  by (simp add: graph_ok_def empty_graph_def edges_def)

lemma graph_ok_add_edge:
  assumes ok: "graph_ok g n" and "i < n" and "j < n"
  shows "graph_ok (add_edge i j g) n"
proof (cases "dg_edge g i j")
  case True
  with ok show ?thesis by (simp add: add_edge_def)
next
  case False
  have "{k. dg_edge (add_edge i j g) k j} = insert i {k. dg_edge g k j}"
    using False by (auto simp: add_edge_def)
  moreover have "finite {k. dg_edge g k j}"
    using finite_preds [OF ok, of j "\<lambda>_. True"] by simp
  ultimately have "card {k. dg_edge (add_edge i j g) k j} = Suc (card {k. dg_edge g k j})"
    using False by simp
  moreover have "{k. dg_edge (add_edge i j g) k j'} = {k. dg_edge g k j'}" if "j' \<noteq> j" for j'
    using that by (auto simp: add_edge_def)
  moreover have "edges (add_edge i j g) \<subseteq> {..<n} \<times> {..<n}"
    using assms by (simp add: edges_add_edge graph_ok_def)
  ultimately show ?thesis
    using ok False by (auto simp: graph_ok_def add_edge_def)
qed

text \<open>The services a list of slots names.\<close>

definition named :: "service list \<Rightarrow> string option list \<Rightarrow> nat set" where
  "named tbl rs = {d. \<exists>name. Some name \<in> set rs \<and> service_find tbl name = Some d}"

lemma named_simps [simp]:
  "named tbl [] = {}"
  "service_find tbl name = Some d \<Longrightarrow> named tbl (Some name # rs) = insert d (named tbl rs)"
  by (auto simp: named_def)

lemma build_after_ok:
  assumes "build_after tbl i rs g deps = Some ((g', deps'), rc)" and "graph_ok g (length tbl)"
    and "i < length tbl" and "length deps \<le> SERVICE_MAX_DEPS" and "list_all (\<lambda>d. d < length tbl) deps"
  shows "graph_ok g' (length tbl) \<and> list_all (\<lambda>d. d < length tbl) deps' \<and>
    length deps' \<le> SERVICE_MAX_DEPS \<and>
    (rc = 0 \<and> edges g' = edges g \<union> {(d, i) | d. d \<in> named tbl rs} \<and>
       deps' = take SERVICE_MAX_DEPS (deps @ map (\<lambda>r. the (service_find tbl (the r))) rs) \<or>
     rc = - 1)"
  using assms
proof (induction tbl i rs g deps rule: build_after.induct)
  case (3 tbl i name rs g deps)
  show ?case
  proof (cases "service_find tbl name")
    case None
    with 3 show ?thesis by auto
  next
    case (Some d)
    with service_find_Some have d: "d < length tbl" by blast
    let ?deps = "if length deps < SERVICE_MAX_DEPS then deps @ [d] else deps"
    have g: "graph_ok (add_edge d i g) (length tbl)"
      using "3.prems" d by (intro graph_ok_add_edge)
    have "build_after tbl i rs (add_edge d i g) ?deps = Some ((g', deps'), rc)"
      using "3.prems"(1) Some by simp
    from "3.IH" [OF Some this g "3.prems"(3)] "3.prems"(4,5) d
    have "graph_ok g' (length tbl) \<and> list_all (\<lambda>d. d < length tbl) deps' \<and>
      length deps' \<le> SERVICE_MAX_DEPS \<and>
      (rc = 0 \<and> edges g' = edges (add_edge d i g) \<union> {(d, i) | d. d \<in> named tbl rs} \<and>
         deps' = take SERVICE_MAX_DEPS (?deps @ map (\<lambda>r. the (service_find tbl (the r))) rs) \<or>
       rc = - 1)"
      by auto
    moreover have "take SERVICE_MAX_DEPS (?deps @ xs) = take SERVICE_MAX_DEPS (deps @ d # xs)" for xs
      using "3.prems"(4) by (auto simp: take_Cons')
    ultimately show ?thesis
      using Some by (auto simp: edges_add_edge)
  qed
qed auto

lemma build_before_ok:
  assumes "build_before tbl i rs g = Some (g', rc)" and "graph_ok g (length tbl)" and "i < length tbl"
  shows "graph_ok g' (length tbl) \<and>
    (rc = 0 \<and> edges g' = edges g \<union> {(i, d) | d. d \<in> named tbl rs} \<or> rc = - 1)"
  using assms
proof (induction tbl i rs g rule: build_before.induct)
  case (3 tbl i name rs g)
  show ?case
  proof (cases "service_find tbl name")
    case None
    with 3 show ?thesis by auto
  next
    case (Some d)
    with service_find_Some have "d < length tbl" by blast
    then have "graph_ok (add_edge i d g) (length tbl)"
      using "3.prems" by (intro graph_ok_add_edge)
    with 3 Some show ?thesis by (auto simp: edges_add_edge)
  qed
qed auto

text \<open>The construction changes nothing of a service but its resolved dependencies.\<close>

abbreviation strip_deps :: "service \<Rightarrow> service" where
  "strip_deps s \<equiv> s\<lparr>sv_dep_indices := []\<rparr>"

lemma strip_deps_fields:
  assumes "strip_deps s = strip_deps s'"
  shows "sv_name s = sv_name s'" "after_slots s = after_slots s'" "before_slots s = before_slots s'"
  using arg_cong [OF assms, of sv_name] arg_cong [OF assms, of sv_after]
    arg_cong [OF assms, of sv_after_count] arg_cong [OF assms, of sv_before]
    arg_cong [OF assms, of sv_before_count]
  by (simp_all add: after_slots_def before_slots_def)

lemma find_index_from_names:
  "map sv_name t = map sv_name t' \<Longrightarrow>
   find_index_from (\<lambda>s. sv_name s = n) t k = find_index_from (\<lambda>s. sv_name s = n) t' k"
proof (induction t arbitrary: t' k)
  case (Cons s t)
  then show ?case by (cases t') auto
qed simp

lemma strip_deps_find:
  assumes "map strip_deps t = map strip_deps t'"
  shows "service_find t = service_find t'"
proof -
  have "map sv_name t = map (sv_name \<circ> strip_deps) t" by simp
  also have "\<dots> = map (sv_name \<circ> strip_deps) t'" using assms by (metis map_map)
  finally have "map sv_name t = map sv_name t'" by simp
  then show ?thesis
    unfolding service_find_def by (intro ext find_index_from_names)
qed

definition declared :: "service list \<Rightarrow> nat \<Rightarrow> (nat \<times> nat) set" where
  "declared tbl i =
     {(d, i) | d. d \<in> named tbl (after_slots (tbl ! i))} \<union>
     {(i, d) | d. d \<in> named tbl (before_slots (tbl ! i))}"

lemma declared_strip:
  assumes "map strip_deps t = map strip_deps t'" and "i < length t"
  shows "declared t i = declared t' i"
proof -
  from assms have "strip_deps (t ! i) = strip_deps (t' ! i)"
    by (metis length_map nth_map)
  from strip_deps_fields [OF this] strip_deps_find [OF assms(1)] show ?thesis
    by (simp add: declared_def named_def)
qed

definition resolved_deps :: "service list \<Rightarrow> nat \<Rightarrow> nat list" where
  "resolved_deps tbl i =
     take SERVICE_MAX_DEPS (map (\<lambda>r. the (service_find tbl (the r))) (after_slots (tbl ! i)))"

lemma resolved_deps_strip:
  assumes "map strip_deps t = map strip_deps t'" and "i < length t"
  shows "resolved_deps t i = resolved_deps t' i"
proof -
  from assms have "strip_deps (t ! i) = strip_deps (t' ! i)"
    by (metis length_map nth_map)
  from strip_deps_fields [OF this] strip_deps_find [OF assms(1)] show ?thesis
    by (simp add: resolved_deps_def)
qed

definition deps_valid :: "service list \<Rightarrow> bool" where
  "deps_valid tbl \<longleftrightarrow>
     list_all (\<lambda>s. length (sv_dep_indices s) \<le> SERVICE_MAX_DEPS \<and>
                   list_all (\<lambda>d. d < length tbl) (sv_dep_indices s)) tbl"

text \<open>One service of the loop: its \<open>after\<close> list, then its \<open>before\<close> list.\<close>

lemma build_one_after:
  assumes a: "build_after tbl i (after_slots (tbl ! i)) g [] = Some ((g1, deps), rc1)"
    and g: "graph_ok g (length tbl)" and i: "i < length tbl" and v: "deps_valid tbl"
  defines "tbl1 \<equiv> tbl[i := (tbl ! i)\<lparr>sv_dep_indices := deps\<rparr>]"
  shows "map strip_deps tbl1 = map strip_deps tbl" "deps_valid tbl1" "graph_ok g1 (length tbl)"
    "\<not> rc1 < 0 \<Longrightarrow> rc1 = 0 \<and> deps = resolved_deps tbl i \<and>
       edges g1 = edges g \<union> {(d, i) | d. d \<in> named tbl (after_slots (tbl ! i))}"
proof -
  note after = build_after_ok [OF a g i]
  show "map strip_deps tbl1 = map strip_deps tbl"
    using i by (simp add: tbl1_def map_update list_update_same_conv)
  show "deps_valid tbl1"
    using v after i by (auto simp: tbl1_def deps_valid_def list_all_length nth_list_update)
  show "graph_ok g1 (length tbl)" using after by auto
  show "\<not> rc1 < 0 \<Longrightarrow> rc1 = 0 \<and> deps = resolved_deps tbl i \<and>
       edges g1 = edges g \<union> {(d, i) | d. d \<in> named tbl (after_slots (tbl ! i))}"
    using after by (auto simp: resolved_deps_def)
qed

lemma build_one_before:
  assumes a: "build_after tbl i (after_slots (tbl ! i)) g [] = Some ((g1, deps), rc1)" "\<not> rc1 < 0"
    and g: "graph_ok g (length tbl)" and i: "i < length tbl" and v: "deps_valid tbl"
  defines "tbl1 \<equiv> tbl[i := (tbl ! i)\<lparr>sv_dep_indices := deps\<rparr>]"
  assumes b: "build_before tbl1 i (before_slots (tbl1 ! i)) g1 = Some (g2, rc2)"
  shows "graph_ok g2 (length tbl)" "\<not> rc2 < 0 \<Longrightarrow> edges g2 = edges g \<union> declared tbl i"
proof -
  note one = build_one_after [OF a(1) g i v, folded tbl1_def]
  have slots: "before_slots (tbl1 ! i) = before_slots (tbl ! i)" using i by (simp add: tbl1_def before_slots_def)
  note before = build_before_ok [OF b]
  show "graph_ok g2 (length tbl)" using before one(3) i by (simp add: tbl1_def)
  show "\<not> rc2 < 0 \<Longrightarrow> edges g2 = edges g \<union> declared tbl i"
    using before one(3,4) a(2) i slots strip_deps_find [OF one(1)] by (auto simp: tbl1_def declared_def named_def)
qed

lemma build_loop_ok:
  assumes "build_loop is g tbl = Some ((g', tbl'), rc)" and "graph_ok g (length tbl)"
    and "list_all (\<lambda>i. i < length tbl) is" and "distinct is" and "deps_valid tbl"
  shows "map strip_deps tbl' = map strip_deps tbl \<and> graph_ok g' (length tbl) \<and> deps_valid tbl' \<and>
    (rc = 0 \<and> edges g' = edges g \<union> (\<Union>i \<in> set is. declared tbl i) \<and>
       (\<forall>i < length tbl. sv_dep_indices (tbl' ! i) =
          (if i \<in> set is then resolved_deps tbl i else sv_dep_indices (tbl ! i))) \<or>
     rc = - 1)"
  using assms
proof (induction "is" g tbl rule: build_loop.induct)
  case (1 g tbl)
  then show ?case by auto
next
  case (2 i "is" g tbl)
  let ?n = "length tbl"
  from "2.prems" have i: "i < ?n" and is_ok: "list_all (\<lambda>i. i < ?n) is" "distinct is" "i \<notin> set is"
    by auto
  from "2.prems"(1) obtain g1 deps rc1 where
    a: "build_after tbl i (after_slots (tbl ! i)) g [] = Some ((g1, deps), rc1)"
    by (auto split: option.splits)
  let ?tbl1 = "tbl[i := (tbl ! i)\<lparr>sv_dep_indices := deps\<rparr>]"
  note one = build_one_after [OF a "2.prems"(2) i "2.prems"(5)]
  show ?case
  proof (cases "rc1 < 0")
    case True
    with "2.prems"(1) a have "g' = g1" "tbl' = ?tbl1" "rc = - 1" by (simp_all add: Let_def)
    with one show ?thesis by simp
  next
    case False
    from "2.prems"(1) a False obtain g2 rc2 where
      b: "build_before ?tbl1 i (before_slots (?tbl1 ! i)) g1 = Some (g2, rc2)"
      by (auto simp: Let_def split: option.splits)
    note two = build_one_before [OF a False "2.prems"(2) i "2.prems"(5) b]
    show ?thesis
    proof (cases "rc2 < 0")
      case True
      with "2.prems"(1) a b False have "g' = g2" "tbl' = ?tbl1" "rc = - 1" by (simp_all add: Let_def)
      with one two show ?thesis by simp
    next
      case rc2: False
      have rest: "build_loop is g2 ?tbl1 = Some ((g', tbl'), rc)"
        using "2.prems"(1) a b False rc2 by (simp add: Let_def)
      note IH = "2.IH" [OF a refl refl refl False b refl rc2 rest _ _ is_ok(2) one(2)]
      have dcl: "declared ?tbl1 j = declared tbl j" "resolved_deps ?tbl1 j = resolved_deps tbl j" if "j < ?n" for j
        using declared_strip [OF one(1)] resolved_deps_strip [OF one(1)] that by simp_all
      have "(\<Union>j \<in> set is. declared ?tbl1 j) = (\<Union>j \<in> set is. declared tbl j)"
        using is_ok(1) dcl by (intro SUP_cong) (auto simp: list_all_iff)
      with IH one(1) one(4) [OF False] two(1) two(2) [OF rc2] dcl is_ok i show ?thesis
        by (auto simp: nth_list_update)
    qed
  qed
qed

lemma build_after_rc:
  "build_after tbl i rs g deps = Some (x, rc) \<Longrightarrow>
   (rc = 0 \<or> rc = - 1) \<and>
   (rc = 0 \<longleftrightarrow> (\<forall>name. Some name \<in> set rs \<longrightarrow> service_find tbl name \<noteq> None))"
  by (induction tbl i rs g deps rule: build_after.induct) (auto split: option.splits)

lemma build_before_rc:
  "build_before tbl i rs g = Some (x, rc) \<Longrightarrow>
   (rc = 0 \<or> rc = - 1) \<and>
   (rc = 0 \<longleftrightarrow> (\<forall>name. Some name \<in> set rs \<longrightarrow> service_find tbl name \<noteq> None))"
  by (induction tbl i rs g rule: build_before.induct) (auto split: option.splits)

text \<open>Every name a service refers to is the name of a service of the table.\<close>

definition refs_resolve :: "service list \<Rightarrow> nat \<Rightarrow> bool" where
  "refs_resolve tbl i \<longleftrightarrow>
     (\<forall>name. Some name \<in> set (after_slots (tbl ! i)) \<union> set (before_slots (tbl ! i)) \<longrightarrow>
        name \<in> set (map sv_name tbl))"

lemma refs_resolve_find:
  "refs_resolve tbl i \<longleftrightarrow>
     (\<forall>name. Some name \<in> set (after_slots (tbl ! i)) \<longrightarrow> service_find tbl name \<noteq> None) \<and>
     (\<forall>name. Some name \<in> set (before_slots (tbl ! i)) \<longrightarrow> service_find tbl name \<noteq> None)"
  using service_names.find_mem [of tbl] unfolding refs_resolve_def by (metis Un_iff not_None_eq)

lemma refs_resolve_strip:
  assumes "map strip_deps t = map strip_deps t'" and "i < length t"
  shows "refs_resolve t i = refs_resolve t' i"
proof -
  from assms have "strip_deps (t ! i) = strip_deps (t' ! i)"
    by (metis length_map nth_map)
  from strip_deps_fields [OF this] strip_deps_find [OF assms(1)] show ?thesis
    by (simp add: refs_resolve_find)
qed

lemma build_loop_rc:
  assumes "build_loop is g tbl = Some ((g', tbl'), rc)" and "list_all (\<lambda>i. i < length tbl) is"
  shows "rc = 0 \<longleftrightarrow> list_all (refs_resolve tbl) is"
  using assms
proof (induction "is" g tbl rule: build_loop.induct)
  case (2 i "is" g tbl)
  from "2.prems" have i: "i < length tbl" by simp
  from "2.prems"(1) obtain g1 deps rc1 where
    a: "build_after tbl i (after_slots (tbl ! i)) g [] = Some ((g1, deps), rc1)"
    by (auto split: option.splits)
  let ?tbl1 = "tbl[i := (tbl ! i)\<lparr>sv_dep_indices := deps\<rparr>]"
  have strip1: "map strip_deps ?tbl1 = map strip_deps tbl"
    using i by (simp add: map_update list_update_same_conv)
  have slots: "before_slots (?tbl1 ! i) = before_slots (tbl ! i)"
    using i by (simp add: before_slots_def)
  note rc1 = build_after_rc [OF a]
  show ?case
  proof (cases "rc1 < 0")
    case True
    with "2.prems"(1) a rc1 show ?thesis by (auto simp: Let_def refs_resolve_find)
  next
    case False
    with "2.prems"(1) a obtain g2 rc2 where
      b: "build_before ?tbl1 i (before_slots (?tbl1 ! i)) g1 = Some (g2, rc2)"
      by (auto simp: Let_def split: option.splits)
    note rc2 = build_before_rc [OF b, unfolded slots strip_deps_find [OF strip1]]
    show ?thesis
    proof (cases "rc2 < 0")
      case True
      with "2.prems"(1) a b False rc2 show ?thesis by (auto simp: Let_def refs_resolve_find)
    next
      case nz: False
      then have rest: "build_loop is g2 ?tbl1 = Some ((g', tbl'), rc)"
        using "2.prems"(1) a b False by (simp add: Let_def)
      have "list_all (refs_resolve ?tbl1) is = list_all (refs_resolve tbl) is"
        using "2.prems"(2) refs_resolve_strip [OF strip1] by (auto simp: list_all_iff)
      moreover have "refs_resolve tbl i"
        using rc1 rc2 False nz by (auto simp: refs_resolve_find)
      moreover have "rc = 0 \<longleftrightarrow> list_all (refs_resolve ?tbl1) is"
        using "2.IH" [OF a refl refl refl False b refl nz rest] "2.prems"(2) by simp
      ultimately show ?thesis by simp
    qed
  qed
qed simp

section \<open>What the graph means\<close>

text \<open>Service \<open>i\<close> has to start before service \<open>j\<close>, as the two service files declare it.\<close>

definition must_precede :: "service list \<Rightarrow> nat \<Rightarrow> nat \<Rightarrow> bool" where
  "must_precede tbl i j \<longleftrightarrow> i < length tbl \<and> j < length tbl \<and>
     (Some (sv_name (tbl ! i)) \<in> set (after_slots (tbl ! j)) \<or>
      Some (sv_name (tbl ! j)) \<in> set (before_slots (tbl ! i)))"

lemma named_iff:
  "distinct (map sv_name tbl) \<Longrightarrow>
   d \<in> named tbl rs \<longleftrightarrow> d < length tbl \<and> Some (sv_name (tbl ! d)) \<in> set rs"
  using service_names.find_iff [of tbl] by (auto simp: named_def)

lemma declared_must_precede:
  "distinct (map sv_name tbl) \<Longrightarrow>
   (\<Union>k \<in> set [0..<length tbl]. declared tbl k) = {(i, j). must_precede tbl i j}"
  by (auto simp: declared_def named_iff must_precede_def)

lemma deps_valid_empty: "list_all (\<lambda>s. sv_dep_indices s = []) tbl \<Longrightarrow> deps_valid tbl"
  by (auto simp: deps_valid_def list_all_iff)

lemma table_ok_strip:
  assumes "map strip_deps t' = map strip_deps t" and "table_ok t" and "deps_valid t'"
  shows "table_ok t'"
proof -
  from assms(1) have len: "length t' = length t" by (metis length_map)
  have at: "strip_deps (t' ! i) = strip_deps (t ! i)" if "i < length t" for i
    using assms(1) that len by (metis nth_map)
  have "map sv_name t' = map sv_name t"
    using len strip_deps_fields(1) [OF at] by (auto simp: list_eq_iff_nth_eq)
  moreover have "service_ok (t' ! i)" if "i < length t" for i
  proof -
    have "service_ok (strip_deps (t ! i))" using assms(2) that by (auto simp: table_ok_def list_all_length service_ok_def)
    then have "service_ok (strip_deps (t' ! i))" using at [OF that] by simp
    moreover have "length (sv_dep_indices (t' ! i)) \<le> SERVICE_MAX_DEPS"
      using assms(3) that len by (simp add: deps_valid_def list_all_length)
    ultimately show ?thesis by (simp add: service_ok_def)
  qed
  ultimately show ?thesis using assms(2) len by (simp add: table_ok_def list_all_length)
qed

lemma depgraph_build_facts:
  assumes "table_ok tbl" and "deps_valid tbl" and "depgraph_build tbl = Some ((g, tbl'), rc)"
  shows "map strip_deps tbl' = map strip_deps tbl" "graph_ok g (length tbl')" "deps_valid tbl'"
    "rc = 0 \<longleftrightarrow> list_all (refs_resolve tbl) [0..<length tbl] \<and> acyclic {(i, j). must_precede tbl i j}"
    "rc = 0 \<Longrightarrow> edges g = {(i, j). must_precede tbl i j}"
    "rc = 0 \<Longrightarrow> i < length tbl \<Longrightarrow> sv_dep_indices (tbl' ! i) = resolved_deps tbl i"
proof -
  let ?n = "length tbl"
  from assms(1) have dist: "distinct (map sv_name tbl)" by (simp add: table_ok_def)
  from assms(3) obtain rc1 where l: "build_loop [0..<?n] empty_graph tbl = Some ((g, tbl'), rc1)"
    and rc: "rc = (if rc1 < 0 \<or> depgraph_has_cycle g (length tbl') then - 1 else 0)"
    by (auto simp: depgraph_build_def split: option.splits if_splits)
  note f = build_loop_ok [OF l graph_ok_empty _ _ assms(2)]
  have len: "length tbl' = ?n" using f by (metis length_map list_all_iff atLeastLessThan_iff set_upt distinct_upt)
  show "map strip_deps tbl' = map strip_deps tbl" "graph_ok g (length tbl')" "deps_valid tbl'"
    using f len by (simp_all add: list_all_iff)
  have e: "edges g = {(i, j). must_precede tbl i j}" if "rc1 = 0"
    using f that declared_must_precede [OF dist] by (simp add: list_all_iff empty_graph_def edges_def)
  have r: "rc1 = 0 \<longleftrightarrow> list_all (refs_resolve tbl) [0..<?n]" "rc1 = 0 \<or> rc1 = - 1"
    using build_loop_rc [OF l] f by (auto simp: list_all_iff)
  show "rc = 0 \<longleftrightarrow> list_all (refs_resolve tbl) [0..<?n] \<and> acyclic {(i, j). must_precede tbl i j}"
    using r e rc depgraph_has_cycle_iff [OF \<open>graph_ok g (length tbl')\<close>] by auto
  show "rc = 0 \<Longrightarrow> edges g = {(i, j). must_precede tbl i j}"
    using r e rc by (auto split: if_splits)
  show "rc = 0 \<Longrightarrow> i < ?n \<Longrightarrow> sv_dep_indices (tbl' ! i) = resolved_deps tbl i"
    using r f rc by (auto simp: list_all_iff split: if_splits)
qed

lemma build_after_total: "None \<notin> set rs \<Longrightarrow> build_after tbl i rs g deps \<noteq> None"
  by (induction tbl i rs g deps rule: build_after.induct) (auto simp del: not_None_eq split: option.splits)

lemma build_before_total: "None \<notin> set rs \<Longrightarrow> build_before tbl i rs g \<noteq> None"
  by (induction tbl i rs g rule: build_before.induct) (auto simp del: not_None_eq split: option.splits)

text \<open>At most eight declared dependencies in each direction.\<close>

definition few_deps :: "service \<Rightarrow> bool" where
  "few_deps s \<longleftrightarrow> sv_after_count s \<le> SERVICE_MAX_DEPS \<and> sv_before_count s \<le> SERVICE_MAX_DEPS"

lemma few_deps_slots: "few_deps s \<Longrightarrow> None \<notin> set (after_slots s) \<and> None \<notin> set (before_slots s)"
  by (auto simp: few_deps_def after_slots_def before_slots_def dep_slot_def)

lemma build_loop_total:
  "list_all few_deps tbl \<Longrightarrow> list_all (\<lambda>i. i < length tbl) is \<Longrightarrow> build_loop is g tbl \<noteq> None"
proof (induction "is" g tbl rule: build_loop.induct)
  case (2 i "is" g tbl)
  from "2.prems" have i: "i < length tbl" and few: "few_deps (tbl ! i)" by (simp_all add: list_all_iff)
  have "build_after tbl i (after_slots (tbl ! i)) g [] \<noteq> None"
    using few_deps_slots [OF few] by (intro build_after_total) simp
  then obtain g1 deps rc1 where
    a: "build_after tbl i (after_slots (tbl ! i)) g [] = Some ((g1, deps), rc1)" by auto
  let ?tbl1 = "tbl[i := (tbl ! i)\<lparr>sv_dep_indices := deps\<rparr>]"
  have "few_deps (?tbl1 ! i)" using few i by (simp add: few_deps_def)
  then have "build_before ?tbl1 i (before_slots (?tbl1 ! i)) g1 \<noteq> None"
    using few_deps_slots by (intro build_before_total) blast
  then obtain g2 rc2 where
    b: "build_before ?tbl1 i (before_slots (?tbl1 ! i)) g1 = Some (g2, rc2)" by auto
  have few1: "list_all few_deps ?tbl1"
    using "2.prems"(1) few
    by (auto simp: list_all_iff few_deps_def dest!: set_update_subset_insert [THEN subsetD])
  show ?case
    using "2.IH" [OF a refl refl refl _ b refl _ few1] "2.prems"(2) a b by (auto simp: Let_def)
qed simp

text \<open>
  C11: the dependency check accepts a service table exactly when every name in an \<open>after\<close> or
  \<open>before\<close> list is the name of a service and the declared order has no cycle; it then stores in
  every service the indices of the services it waits for.
\<close>

theorem depgraph_build_correct:
  assumes "table_ok tbl" and "deps_valid tbl" and "depgraph_build tbl = Some ((g, tbl'), rc)"
  shows "(rc = 0 \<longleftrightarrow>
            list_all (refs_resolve tbl) [0..<length tbl] \<and> acyclic {(i, j). must_precede tbl i j}) \<and>
         (rc = 0 \<longrightarrow> tbl' = map (\<lambda>i. (tbl ! i)\<lparr>sv_dep_indices := resolved_deps tbl i\<rparr>) [0..<length tbl])"
proof -
  note f = depgraph_build_facts [OF assms]
  from f(1) have len: "length tbl' = length tbl" by (metis length_map)
  have "tbl' ! i = (tbl ! i)\<lparr>sv_dep_indices := resolved_deps tbl i\<rparr>" if "rc = 0" "i < length tbl" for i
  proof -
    from f(1) that(2) have "strip_deps (tbl' ! i) = strip_deps (tbl ! i)" using len by (metis nth_map)
    with f(6) [OF that] show ?thesis by (cases "tbl ! i"; cases "tbl' ! i") simp
  qed
  with f(4) len show ?thesis by (auto intro!: nth_equalityI)
qed

text \<open>
  C2: after a successful check the start order exists, contains every service exactly once and
  puts every service behind all the services that have to start before it.
\<close>

theorem start_order_correct:
  assumes "table_ok tbl" and "deps_valid tbl" and "depgraph_build tbl = Some ((g, tbl'), 0)"
  shows "\<exists>order. depgraph_topo_sort g (length tbl') SERVICE_MAX_COUNT = Some order \<and>
           distinct order \<and> set order = {..<length tbl} \<and>
           (\<forall>a b. a < length order \<and> b < length order \<and> must_precede tbl (order ! a) (order ! b) \<longrightarrow> a < b)"
proof -
  note f = depgraph_build_facts [OF assms]
  from f(1) have len: "length tbl' = length tbl" by (metis length_map)
  have "acyclic (edges g)" using f(4,5) by simp
  then obtain order where o: "depgraph_topo_sort g (length tbl') SERVICE_MAX_COUNT = Some order"
    using depgraph_topo_sort_iff [OF f(2)] assms(1) len by (auto simp: table_ok_def)
  note t = depgraph_topo_sort_Some [OF f(2) o]
  have "dg_edge g i j \<longleftrightarrow> must_precede tbl i j" for i j
    using f(5) by (auto simp: edges_def)
  with t order_respects_pos len o show ?thesis
    by (auto simp: topo_order_def)
qed

text \<open>
  With at most eight names in every \<open>after\<close> and \<open>before\<close> list the check stays inside the
  arrays of the service record.
\<close>

theorem depgraph_build_safe: "list_all few_deps tbl \<Longrightarrow> depgraph_build tbl \<noteq> None"
  using build_loop_total [of tbl "[0..<length tbl]" empty_graph]
  by (auto simp: depgraph_build_def list_all_iff split: option.splits)

section \<open>Concrete tables\<close>

definition sample_service :: "string \<Rightarrow> string list \<Rightarrow> nat \<Rightarrow> service" where
  "sample_service name deps n =
     init_service\<lparr>sv_name := name, sv_binary := ''/bin/x'', sv_after := deps, sv_after_count := n\<rparr>"

definition sample_table :: "service list" where
  "sample_table = [sample_service ''b'' [''a''] 1, sample_service ''a'' [] 0]"

lemmas depgraph_eval =
  sample_service_def init_service_def depgraph_build_def empty_graph_def
  after_slots_def before_slots_def dep_slot_def service_find_def add_edge_def
  depgraph_has_cycle_def kahn_def kahn_loop.simps visit_def Let_def upt_rec

lemma sample_table_ok: "table_ok sample_table" "deps_valid sample_table" "list_all few_deps sample_table"
  by (simp_all add: table_ok_def service_ok_def deps_ok_def deps_valid_def sample_table_def
      sample_service_def init_service_def in_int32_def few_deps_def)

lemma sample_build:
  "\<exists>g. depgraph_build sample_table =
     Some ((g, [(sample_table ! 0)\<lparr>sv_dep_indices := [1]\<rparr>, sample_table ! 1]), 0)"
  by (simp add: sample_table_def depgraph_eval)

theorem depgraph_build_correct_witness:
  "list_all (refs_resolve sample_table) [0..<length sample_table] \<and>
   acyclic {(i, j). must_precede sample_table i j}"
  using sample_build depgraph_build_correct [OF sample_table_ok(1,2)] by blast

theorem start_order_correct_witness:
  "\<exists>g tbl' order. depgraph_build sample_table = Some ((g, tbl'), 0) \<and>
     depgraph_topo_sort g (length tbl') SERVICE_MAX_COUNT = Some order \<and> set order = {..<length sample_table}"
  using sample_build start_order_correct [OF sample_table_ok(1,2)] by blast

theorem depgraph_build_safe_witness: "depgraph_build sample_table \<noteq> None"
  by (rule depgraph_build_safe [OF sample_table_ok(3)])

end
