(* ===== verification/Service_Files.thy ===== *)
theory Service_Files
  imports Toml_Print Depgraph
begin

text \<open>
  Service files end to end: the text of a service file, written the way the files under
  \<open>etc/luna/services\<close> are, goes through the TOML reader and the service parser and gives the
  service it describes.
\<close>

section \<open>The text of a service\<close>

fun policy_name :: "restart_policy \<Rightarrow> string" where
  "policy_name RESTART_NEVER = ''never''"
| "policy_name RESTART_ALWAYS = ''always''"
| "policy_name RESTART_ON_FAILURE = ''on-failure''"

fun method_name :: "ready_method \<Rightarrow> string" where
  "method_name READY_NONE = ''none''"
| "method_name READY_FILE = ''file''"
| "method_name READY_SOCKET = ''socket''"
| "method_name READY_HTTP = ''http''"
| "method_name READY_SIGNAL = ''signal''"

definition signal_name :: "int \<Rightarrow> string" where
  "signal_name n =
     (if n = SIGKILL then ''SIGKILL'' else if n = SIGHUP then ''SIGHUP''
      else if n = SIGQUIT then ''SIGQUIT'' else ''SIGTERM'')"

definition plain_section :: "string \<Rightarrow> toml_pair list \<Rightarrow> toml_block" where
  "plain_section name kvs = \<lparr>blk_array = False, blk_name = name, blk_pairs = kvs\<rparr>"

definition service_blocks :: "service \<Rightarrow> toml_block list" where
  "service_blocks s =
     [plain_section ''service''
        [(''name'', TOML_STRING (sv_name s)), (''binary'', TOML_STRING (sv_binary s)),
         (''description'', TOML_STRING (sv_description s)),
         (''workdir'', TOML_STRING (sv_workdir s)), (''args'', TOML_ARRAY (sv_args s))],
      plain_section ''service.identity''
        [(''user'', TOML_STRING (sv_run_user s)), (''group'', TOML_STRING (sv_run_group s))],
      plain_section ''service.depends''
        [(''after'', TOML_ARRAY (sv_after s)), (''before'', TOML_ARRAY (sv_before s))],
      plain_section ''service.restart''
        [(''policy'', TOML_STRING (policy_name (sv_restart_policy s))),
         (''attempts'', TOML_INTEGER (sv_restart_attempts s)),
         (''delay_ms'', TOML_INTEGER (sv_restart_delay_ms s))],
      plain_section ''service.ready''
        [(''method'', TOML_STRING (method_name (sv_ready_method s))),
         (''path'', TOML_STRING (sv_ready_path s)),
         (''timeout_ms'', TOML_INTEGER (sv_ready_timeout_ms s))],
      plain_section ''service.stop''
        [(''signal'', TOML_STRING (signal_name (sv_stop_signal s))),
         (''timeout_ms'', TOML_INTEGER (sv_stop_timeout_ms s))],
      plain_section ''service.env'' (map (\<lambda>(k, v). (k, TOML_STRING v)) (sv_env s))]"

text \<open>A file whose bytes all arrive in one \<open>read\<close>.\<close>

definition readable_file :: "string \<Rightarrow> file_io" where
  "readable_file bytes = \<lparr>io_open = True, io_fstat_size = Some (length bytes), io_calloc_buf = True,
     io_read = Some bytes, io_calloc_doc = True\<rparr>"

text \<open>The runtime fields of a record that only the file determines.\<close>

definition no_runtime :: "service \<Rightarrow> bool" where
  "no_runtime s \<longleftrightarrow>
     sv_state s = SERVICE_STATE_PENDING \<and> sv_pid s = 0 \<and> sv_restart_count s = 0 \<and>
     sv_start_time_ms s = 0 \<and> sv_stop_time_ms s = 0 \<and> sv_scheduled_start_ms s = 0 \<and>
     sv_dep_indices s = []"

section \<open>Reading it back\<close>

lemma parse_names:
  "parse_restart_policy (bounded_copy 32 (policy_name p)) = p"
  "parse_ready_method (bounded_copy 32 (method_name m)) = m"
  "n \<in> {SIGHUP, SIGQUIT, SIGKILL, SIGTERM} \<Longrightarrow> parse_signal_name (bounded_copy 16 (signal_name n)) = n"
proof -
  show "parse_restart_policy (bounded_copy 32 (policy_name p)) = p"
    by (cases p) (simp_all add: bounded_copy_def parse_restart_policy_def)
  show "parse_ready_method (bounded_copy 32 (method_name m)) = m"
    by (cases m) (simp_all add: bounded_copy_def parse_ready_method_def)
  show "n \<in> {SIGHUP, SIGQUIT, SIGKILL, SIGTERM} \<Longrightarrow>
      parse_signal_name (bounded_copy 16 (signal_name n)) = n"
    by (auto simp: bounded_copy_def parse_signal_name_def signal_name_def)
qed

lemma enumerate_env:
  assumes "length (sv_env s) + length env \<le> SERVICE_MAX_ENV_VARS"
    and "list_all (\<lambda>(k, v). length k < SERVICE_MAX_ENV_LEN \<and> length v < SERVICE_MAX_ENV_LEN) env"
  shows "fst (enumerate_from
      (map (entry_of sec (- 1)) (map (\<lambda>(k, v). (k, TOML_STRING v)) env)) sec env_cb s n) =
    s\<lparr>sv_env := sv_env s @ env\<rparr>"
  using assms
proof (induction env arbitrary: s n)
  case (Cons kv env)
  obtain k v where "kv = (k, v)" by (cases kv)
  with Cons show ?case by (simp add: entry_of_def env_cb_def bounded_copy_id)
qed simp

lemma copies_id: "list_all (\<lambda>a. length a < n) xs \<Longrightarrow> map (bounded_copy n) xs = xs"
  by (induction xs) (simp_all add: bounded_copy_id)

lemma service_doc_entries:
  "td_entries (doc_of [] (service_blocks s)) =
     concat (map (\<lambda>b. map (entry_of (blk_name b) (- 1)) (blk_pairs b)) (service_blocks s))"
  by (simp add: doc_of_def service_blocks_def plain_section_def add_block_def Let_def)

lemma service_doc_get:
  fixes s
  defines "d \<equiv> doc_of [] (service_blocks s)"
  shows "toml_get d (Some ''service'') ''name'' = Inr (TOML_STRING (sv_name s))"
    "toml_get d (Some ''service'') ''binary'' = Inr (TOML_STRING (sv_binary s))"
    "toml_get d (Some ''service'') ''description'' = Inr (TOML_STRING (sv_description s))"
    "toml_get d (Some ''service'') ''workdir'' = Inr (TOML_STRING (sv_workdir s))"
    "toml_get d (Some ''service'') ''args'' = Inr (TOML_ARRAY (sv_args s))"
    "toml_get d (Some ''service.identity'') ''user'' = Inr (TOML_STRING (sv_run_user s))"
    "toml_get d (Some ''service.identity'') ''group'' = Inr (TOML_STRING (sv_run_group s))"
    "toml_get_nested d ''service'' ''depends'' ''after'' = Inr (TOML_ARRAY (sv_after s))"
    "toml_get_nested d ''service'' ''depends'' ''before'' = Inr (TOML_ARRAY (sv_before s))"
    "toml_get_nested d ''service'' ''restart'' ''policy'' =
       Inr (TOML_STRING (policy_name (sv_restart_policy s)))"
    "toml_get d (Some ''service.restart'') ''attempts'' = Inr (TOML_INTEGER (sv_restart_attempts s))"
    "toml_get d (Some ''service.restart'') ''delay_ms'' = Inr (TOML_INTEGER (sv_restart_delay_ms s))"
    "toml_get_nested d ''service'' ''ready'' ''method'' =
       Inr (TOML_STRING (method_name (sv_ready_method s)))"
    "toml_get d (Some ''service.ready'') ''path'' = Inr (TOML_STRING (sv_ready_path s))"
    "toml_get d (Some ''service.ready'') ''timeout_ms'' = Inr (TOML_INTEGER (sv_ready_timeout_ms s))"
    "toml_get_nested d ''service'' ''stop'' ''signal'' =
       Inr (TOML_STRING (signal_name (sv_stop_signal s)))"
    "toml_get d (Some ''service.stop'') ''timeout_ms'' = Inr (TOML_INTEGER (sv_stop_timeout_ms s))"
  by (simp_all add: d_def toml_get_def toml_get_nested_def doc_of_def add_block_def service_blocks_def
      plain_section_def entry_of_def strncmp_eq_def Let_def)

lemma service_doc_env:
  assumes "service_ok s" and "sv_env t = []"
  shows "fst (toml_enumerate_section (doc_of [] (service_blocks s)) ''service.env'' env_cb t) =
    t\<lparr>sv_env := sv_env s\<rparr>"
proof -
  have skip: "enumerate_from (es @ fs) ''service.env'' env_cb t 0 =
      enumerate_from fs ''service.env'' env_cb t 0"
    if "list_all (\<lambda>e. \<not> strncmp_eq TOML_MAX_SECTION_LEN (te_section e) ''service.env'') es" for es fs
    using that by (induction es) auto
  have init: "list_all (\<lambda>e. \<not> strncmp_eq TOML_MAX_SECTION_LEN (te_section e) ''service.env'')
      (concat (map (\<lambda>b. map (entry_of (blk_name b) (- 1)) (blk_pairs b)) (butlast (service_blocks s))))"
    by (simp add: service_blocks_def plain_section_def entry_of_def strncmp_eq_def)
  have split: "service_blocks s = butlast (service_blocks s) @
      [plain_section ''service.env'' (map (\<lambda>(k, v). (k, TOML_STRING v)) (sv_env s))]"
    by (simp add: service_blocks_def)
  have "toml_enumerate_section (doc_of [] (service_blocks s)) ''service.env'' env_cb t =
      enumerate_from (map (entry_of ''service.env'' (- 1)) (map (\<lambda>(k, v). (k, TOML_STRING v)) (sv_env s)))
        ''service.env'' env_cb t 0"
    unfolding toml_enumerate_section_def service_doc_entries
    by (subst split, simp only: map_append concat_append skip [OF init])
      (simp add: plain_section_def)
  then show ?thesis
    using assms enumerate_env [of t "sv_env s" "''service.env''" 0] by (simp add: service_ok_def)
qed

lemma service_of_doc_blocks:
  assumes ok: "service_ok s" and few: "few_deps s" and rt: "no_runtime s"
  shows "service_of_doc (doc_of [] (service_blocks s)) = Some s"
proof -
  let ?d = "doc_of [] (service_blocks s)"
  note g = service_doc_get [of s]
  have len: "length (sv_after s) = sv_after_count s" "length (sv_before s) = sv_before_count s"
    "length (sv_args s) = sv_arg_count s" "sv_arg_count s \<le> SERVICE_MAX_ARGS"
    using ok few by (auto simp: service_ok_def deps_ok_def few_deps_def)
  have cp: "map (bounded_copy SERVICE_MAX_NAME_LEN) (sv_after s) = sv_after s"
    "map (bounded_copy SERVICE_MAX_NAME_LEN) (sv_before s) = sv_before s"
    "map (bounded_copy SERVICE_MAX_ARG_LEN) (sv_args s) = sv_args s"
    using ok by (auto simp: service_ok_def deps_ok_def intro: copies_id)
  have few': "sv_after_count s \<le> SERVICE_MAX_DEPS" "sv_before_count s \<le> SERVICE_MAX_DEPS"
    using few by (auto simp: few_deps_def)
  have args: "load_args ?d t = t\<lparr>sv_arg_count := sv_arg_count s, sv_args := sv_args s\<rparr>" for t
    by (simp add: load_args_def get_array_def g cp len)
  have deps: "load_deps ?d t = t\<lparr>sv_after_count := sv_after_count s, sv_after := sv_after s,
      sv_before_count := sv_before_count s, sv_before := sv_before s\<rparr>" for t
    by (simp add: load_deps_def get_array_def g cp len few')
  have pol: "load_policies ?d t = t\<lparr>sv_restart_policy := sv_restart_policy s,
      sv_restart_attempts := sv_restart_attempts s, sv_restart_delay_ms := sv_restart_delay_ms s,
      sv_ready_method := sv_ready_method s, sv_ready_path := sv_ready_path s,
      sv_ready_timeout_ms := sv_ready_timeout_ms s, sv_stop_signal := sv_stop_signal s,
      sv_stop_timeout_ms := sv_stop_timeout_ms s\<rparr>" for t
    using ok parse_names(3) [of "sv_stop_signal s"]
    by (simp add: load_policies_def get_nested_str_def GET_STR_def GET_INT_def g parse_names(1,2)
        service_ok_def to_int32_id bounded_copy_id)
  show ?thesis
    using ok rt service_doc_env [OF ok]
    by (simp add: service_of_doc_def GET_STR_def g args deps pol bounded_copy_id service_ok_def Let_def
        init_service_def no_runtime_def)
qed

lemma service_load_one_printed:
  assumes "plain_doc [] (service_blocks s)"
  shows "service_load_one (readable_file (render_doc [] (service_blocks s))) =
    Some (case service_of_doc (doc_of [] (service_blocks s)) of None \<Rightarrow> Inl () | Some s' \<Rightarrow> Inr s')"
  using assms toml_load_printed [OF assms]
  by (simp add: service_load_one_def toml_load_file_def readable_file_def plain_doc_def)

text \<open>
  C18: a service file read back gives the service it was written for: every field of the record,
  defaults and limits included, for every service whose strings the file format can carry and
  that names at most eight dependencies in each direction.
\<close>

theorem service_file_roundtrip:
  assumes "service_ok s" and "few_deps s" and "no_runtime s" and "plain_doc [] (service_blocks s)"
  shows "service_load_one (readable_file (render_doc [] (service_blocks s))) = Some (Inr s)"
  using service_load_one_printed [OF assms(4)] service_of_doc_blocks [OF assms(1-3)] by simp

definition sample_config :: service where
  "sample_config = init_service\<lparr>sv_name := ''net'', sv_binary := ''/bin/net'', sv_args := [''-q''],
     sv_arg_count := 1, sv_after := [''log''], sv_after_count := 1, sv_env := [(''LANG'', ''C'')],
     sv_restart_policy := RESTART_ALWAYS, sv_ready_method := READY_SOCKET, sv_stop_signal := SIGHUP\<rparr>"

lemmas print_eval =
  plain_doc_def plain_pair_def plain_block_def doc_of_def add_block_def Let_def render_doc_def
  doc_lines_def block_lines_def render_header_def render_pair_def plain_str_def quote_str_def
  show_int_def show_nat.simps isspace_def in_int64_def service_blocks_def plain_section_def
  init_service_def signal_name_def

lemma sample_config_plain: "plain_doc [] (service_blocks sample_config)"
  by (simp add: sample_config_def print_eval)

lemma sample_config_ok: "service_ok sample_config" "few_deps sample_config" "no_runtime sample_config"
  by (simp_all add: sample_config_def init_service_def service_ok_def deps_ok_def few_deps_def
      no_runtime_def in_int32_def)

theorem service_file_roundtrip_witness:
  "service_load_one (readable_file (render_doc [] (service_blocks sample_config))) =
     Some (Inr sample_config)"
  by (rule service_file_roundtrip [OF sample_config_ok sample_config_plain])

text \<open>A service that names nine dependencies.\<close>

definition nine_blocks :: "toml_block list" where
  "nine_blocks =
     [plain_section ''service'' [(''name'', TOML_STRING ''a''), (''binary'', TOML_STRING ''x'')],
      plain_section ''service.depends'' [(''after'', TOML_ARRAY [''a'', ''a'', ''a'', ''a'', ''a'', ''a'', ''a'', ''a'', ''a''])]]"

lemma nine_blocks_plain: "plain_doc [] nine_blocks"
  by (simp add: nine_blocks_def print_eval)

lemma nine_blocks_service:
  "service_of_doc (doc_of [] nine_blocks) =
     Some (init_service\<lparr>sv_name := ''a'', sv_binary := ''x'', sv_after := [''a'', ''a'', ''a'', ''a'', ''a'', ''a'', ''a'', ''a''],
                       sv_after_count := 9\<rparr>)"
  by (simp add: nine_blocks_def service_of_doc_def GET_STR_def GET_INT_def get_nested_str_def get_array_def
      load_args_def load_deps_def load_policies_def toml_get_def toml_get_nested_def
      toml_enumerate_section_def doc_of_def add_block_def plain_section_def entry_of_def strncmp_eq_def
      Let_def bounded_copy_def init_service_def parse_restart_policy_def parse_ready_method_def
      parse_signal_name_def)

lemma nine_deps_overrun:
  "depgraph_build [init_service\<lparr>sv_name := ''a'', sv_binary := ''x'', sv_after := [''a'', ''a'', ''a'', ''a'', ''a'', ''a'', ''a'', ''a''],
                   sv_after_count := 9\<rparr>] = None"
  by (simp add: depgraph_eval)

text \<open>
  A service file with nine names in its \<open>after\<close> list is accepted by the loader, and building
  the dependency graph then reads \<open>after[8]\<close>, outside the array of eight names.
\<close>

theorem nine_deps_out_of_bounds:
  "\<exists>ents tbl. service_load_all (Some ents) [] = Some (tbl, 1) \<and> table_ok tbl \<and> depgraph_build tbl = None"
proof -
  let ?svc = "init_service\<lparr>sv_name := ''a'', sv_binary := ''x'', sv_after := [''a'', ''a'', ''a'', ''a'', ''a'', ''a'', ''a'', ''a''],
                   sv_after_count := 9\<rparr>"
  let ?ents = "[(''a.toml'', readable_file (render_doc [] nine_blocks))]"
  have "service_load_one (readable_file (render_doc [] nine_blocks)) = Some (Inr ?svc)"
    using toml_load_printed [OF nine_blocks_plain] nine_blocks_plain nine_blocks_service
    by (simp add: service_load_one_def toml_load_file_def readable_file_def plain_doc_def)
  then have l: "service_load_all (Some ?ents) [] = Some ([?svc], 1)"
    by (simp add: service_load_all_def is_toml_name_def)
  then have "table_ok [?svc]"
    using load_entries_ok [of ?ents "[]" "[?svc]"] by (auto simp: service_load_all_def table_ok_def)
  with l nine_deps_overrun show ?thesis by blast
qed

end
