(* ===== verification/Init_Log.thy ===== *)
theory Init_Log
  imports Mahina_Prelude
begin

text \<open>
  The logger of luna-init (\<open>luna-init/log.c\<close>, \<open>log.h\<close>): its state, the two entry formats, the level
  filter, and the change from the boot log to the runtime log. Clock readings, what \<open>gmtime_r\<close> makes of
  them and the descriptors \<open>open\<close> returns are arguments; what is written, flushed and closed is the
  result. The message on standard error when a log cannot be opened is left out. Every entry is shown
  to be one short write of one line, and boot timestamps to be monotonic.
\<close>

section \<open>State\<close>

datatype luna_log_level = LOG_FATAL | LOG_ERROR | LOG_WARN | LOG_INFO | LOG_DEBUG | LOG_TRACE

fun level_number :: "luna_log_level \<Rightarrow> nat" where
  "level_number LOG_FATAL = 0"
| "level_number LOG_ERROR = 1"
| "level_number LOG_WARN = 2"
| "level_number LOG_INFO = 3"
| "level_number LOG_DEBUG = 4"
| "level_number LOG_TRACE = 5"

fun LEVEL_NAMES :: "luna_log_level \<Rightarrow> string" where
  "LEVEL_NAMES LOG_FATAL = ''FATAL''"
| "LEVEL_NAMES LOG_ERROR = ''ERROR''"
| "LEVEL_NAMES LOG_WARN = ''WARN ''"
| "LEVEL_NAMES LOG_INFO = ''INFO ''"
| "LEVEL_NAMES LOG_DEBUG = ''DEBUG''"
| "LEVEL_NAMES LOG_TRACE = ''TRACE''"

abbreviation (input) LUNA_STAGE_UNKNOWN :: int where "LUNA_STAGE_UNKNOWN \<equiv> - 1"
abbreviation (input) LOG_ENTRY_MAX :: nat where "LOG_ENTRY_MAX \<equiv> 4000"
abbreviation (input) STDERR_FILENO :: int where "STDERR_FILENO \<equiv> 2"

text \<open>A \<open>struct timespec\<close>, and the fields of \<open>struct tm\<close> that are printed.\<close>

record timespec =
  tv_sec :: int
  tv_nsec :: int

record broken_time =
  tm_year :: int
  tm_mon :: int
  tm_mday :: int
  tm_hour :: int
  tm_min :: int
  tm_sec :: int

record log_state =
  g_boot_fd :: int
  g_runtime_fd :: int
  g_runtime_log_path :: string
  g_runtime_mode :: bool
  g_min_level :: luna_log_level
  g_current_stage :: int
  g_start_time :: timespec

definition log_initial :: log_state where
  "log_initial =
     \<lparr>g_boot_fd = - 1, g_runtime_fd = - 1, g_runtime_log_path = [], g_runtime_mode = False,
      g_min_level = LOG_INFO, g_current_stage = LUNA_STAGE_UNKNOWN,
      g_start_time = \<lparr>tv_sec = 0, tv_nsec = 0\<rparr>\<rparr>"

text \<open>What the calls of the logger do: write bytes, flush or close a descriptor.\<close>

datatype log_call = LcWrite int string | LcFsync int | LcClose int

section \<open>Formatting\<close>

definition pad_left :: "nat \<Rightarrow> char \<Rightarrow> string \<Rightarrow> string" where
  "pad_left n c s = replicate (n - length s) c @ s"

definition pad_right_blanks :: "nat \<Rightarrow> string \<Rightarrow> string" where
  "pad_right_blanks n s = s @ replicate (n - length s) CHR '' ''"

text \<open>\<open>%0nd\<close>: the zeros come behind the sign.\<close>

definition show_padded :: "nat \<Rightarrow> int \<Rightarrow> string" where
  "show_padded n i =
     (if i < 0 then CHR ''-'' # pad_left (n - 1) CHR ''0'' (show_nat (nat (- i)))
      else pad_left n CHR ''0'' (show_nat (nat i)))"

text \<open>Division of signed integers in C rounds towards zero.\<close>

definition c_div :: "int \<Rightarrow> int \<Rightarrow> int" where
  "c_div a b = (if (a < 0) = (b < 0) then \<bar>a\<bar> div \<bar>b\<bar> else - (\<bar>a\<bar> div \<bar>b\<bar>))"

definition log_get_boot_ms :: "timespec \<Rightarrow> log_state \<Rightarrow> u64" where
  "log_get_boot_ms now st =
     (let diff_s = tv_sec now - tv_sec (g_start_time st);
          diff_ns = tv_nsec now - tv_nsec (g_start_time st)
      in word_of_int (diff_s * 1000 + c_div diff_ns 1000000))"

definition log_get_iso8601 :: "broken_time \<Rightarrow> timespec \<Rightarrow> string" where
  "log_get_iso8601 tm ts =
     bounded_copy 32
       (show_padded 4 (tm_year tm + 1900) @ ''-'' @ show_padded 2 (tm_mon tm + 1) @ ''-'' @
        show_padded 2 (tm_mday tm) @ ''T'' @ show_padded 2 (tm_hour tm) @ '':'' @ show_padded 2 (tm_min tm) @ '':'' @
        show_padded 2 (tm_sec tm) @ ''.'' @ show_padded 3 (c_div (tv_nsec ts) 1000000) @ ''Z'')"

section \<open>Entries\<close>

text \<open>The clock readings of one entry: the monotonic one, the wall clock and its fields.\<close>

record log_clock =
  lc_raw :: timespec
  lc_real :: timespec
  lc_tm :: broken_time

definition boot_entry :: "luna_log_level \<Rightarrow> int \<Rightarrow> string \<Rightarrow> string \<Rightarrow> u64 \<Rightarrow> string" where
  "boot_entry level s component msg boot_ms =
     ''['' @ pad_left 6 CHR ''0'' (show_nat (unat boot_ms)) @ ''] ['' @
     (if s = LUNA_STAGE_UNKNOWN then ''?'' else show_int s) @ ''] ['' @ pad_right_blanks 16 component @ ''] ['' @
     LEVEL_NAMES level @ ''] '' @ msg @ [LF]"

definition runtime_entry :: "luna_log_level \<Rightarrow> string \<Rightarrow> string \<Rightarrow> string \<Rightarrow> string" where
  "runtime_entry level component msg ts =
     ''['' @ ts @ ''] ['' @ LEVEL_NAMES level @ ''] ['' @ pad_right_blanks 16 component @ ''] '' @ msg @ [LF]"

text \<open>A text that does not fit is cut, and its last character becomes the end of the line.\<close>

definition clamp_entry :: "string \<Rightarrow> string" where
  "clamp_entry entry =
     (if length entry \<ge> LOG_ENTRY_MAX then take (LOG_ENTRY_MAX - 2) entry @ [LF] else entry)"

definition log_write_entry :: "log_clock \<Rightarrow> luna_log_level \<Rightarrow> int \<Rightarrow> string \<Rightarrow> string \<Rightarrow> log_state \<Rightarrow> log_call list" where
  "log_write_entry clk level stage component msg st =
     (let (entry, fd) =
        (if \<not> g_runtime_mode st
         then (boot_entry level (if stage = - 1 then g_current_stage st else stage) component msg
                 (log_get_boot_ms (lc_raw clk) st),
               if g_boot_fd st \<ge> 0 then g_boot_fd st else STDERR_FILENO)
         else (runtime_entry level component msg (log_get_iso8601 (lc_tm clk) (lc_real clk)),
               if g_runtime_fd st \<ge> 0 then g_runtime_fd st else STDERR_FILENO))
      in LcWrite fd (clamp_entry entry) #
         (if level = LOG_FATAL \<and> fd \<noteq> STDERR_FILENO then [LcFsync fd] else []))"

section \<open>Interface\<close>

text \<open>\<open>fd\<close>: what \<open>open\<close> returned. The state and the return code.\<close>

definition luna_log_init :: "timespec \<Rightarrow> int \<Rightarrow> string option \<Rightarrow> log_state \<Rightarrow> log_state \<times> int" where
  "luna_log_init now fd runtime_log_path st =
     (st\<lparr>g_start_time := now, g_boot_fd := fd,
         g_runtime_log_path :=
           (case runtime_log_path of None \<Rightarrow> g_runtime_log_path st | Some p \<Rightarrow> bounded_copy 256 p)\<rparr>, 0)"

text \<open>The formatted text is cut to its buffer of 3872 bytes.\<close>

definition luna_log :: "log_clock \<Rightarrow> luna_log_level \<Rightarrow> int \<Rightarrow> string \<Rightarrow> string \<Rightarrow> log_state \<Rightarrow> log_call list" where
  "luna_log clk level stage component formatted st =
     (if level_number level > level_number (g_min_level st) then []
      else log_write_entry clk level stage component (bounded_copy (LOG_ENTRY_MAX - 128) formatted) st)"

definition luna_log_signal_safe :: "string \<Rightarrow> log_state \<Rightarrow> log_call list" where
  "luna_log_signal_safe msg st =
     (let fd = (if g_boot_fd st \<ge> 0 then g_boot_fd st else STDERR_FILENO) in
      [LcWrite fd ''[luna-init] SIGNAL: '', LcWrite fd msg, LcWrite fd [LF]])"

definition luna_log_set_stage :: "int \<Rightarrow> log_state \<Rightarrow> log_state" where
  "luna_log_set_stage stage st = st\<lparr>g_current_stage := stage\<rparr>"

definition luna_log_set_level :: "luna_log_level \<Rightarrow> log_state \<Rightarrow> log_state" where
  "luna_log_set_level min_level st = st\<lparr>g_min_level := min_level\<rparr>"

text \<open>\<open>fd\<close>: what \<open>open\<close> of the runtime log returned, if it is called.\<close>

definition luna_log_switch_to_runtime :: "int \<Rightarrow> log_state \<Rightarrow> log_state \<times> log_call list" where
  "luna_log_switch_to_runtime fd st =
     (st\<lparr>g_runtime_mode := True, g_min_level := LOG_WARN, g_boot_fd := (if g_boot_fd st \<ge> 0 then - 1 else g_boot_fd st),
         g_runtime_fd := (if g_runtime_log_path st \<noteq> [] then fd else g_runtime_fd st)\<rparr>,
      if g_boot_fd st \<ge> 0 then [LcFsync (g_boot_fd st), LcClose (g_boot_fd st)] else [])"

definition luna_log_close :: "log_state \<Rightarrow> log_state \<times> log_call list" where
  "luna_log_close st =
     (st\<lparr>g_boot_fd := (if g_boot_fd st \<ge> 0 then - 1 else g_boot_fd st),
         g_runtime_fd := (if g_runtime_fd st \<ge> 0 then - 1 else g_runtime_fd st)\<rparr>,
      (if g_boot_fd st \<ge> 0 then [LcFsync (g_boot_fd st), LcClose (g_boot_fd st)] else []) @
      (if g_runtime_fd st \<ge> 0 then [LcFsync (g_runtime_fd st), LcClose (g_runtime_fd st)] else []))"

definition luna_log_boot_time_ms :: "timespec \<Rightarrow> log_state \<Rightarrow> u64" where
  "luna_log_boot_time_ms now st = log_get_boot_ms now st"

section \<open>Entries are whole lines\<close>

lemma clamp_entry_line:
  assumes "entry = e @ [LF]"
  shows "\<exists>e'. clamp_entry entry = e' @ [LF] \<and> length (clamp_entry entry) < LOG_ENTRY_MAX \<and>
           (LF \<notin> set e \<longrightarrow> LF \<notin> set e')"
proof (cases "length entry \<ge> LOG_ENTRY_MAX")
  case True
  then have "take (LOG_ENTRY_MAX - 2) entry = take (LOG_ENTRY_MAX - 2) e" using assms by simp
  with True have "clamp_entry entry = take (LOG_ENTRY_MAX - 2) e @ [LF]" by (simp add: clamp_entry_def)
  moreover have "length (take (LOG_ENTRY_MAX - 2) e @ [LF]) < LOG_ENTRY_MAX" by simp
  ultimately show ?thesis using in_set_takeD by metis
next
  case False
  with assms show ?thesis by (auto simp: clamp_entry_def)
qed

lemma show_nat_no_LF: "LF \<notin> set (show_nat n)"
  using show_nat_digits [of n] by (auto simp: list_all_iff isdigit_def)

lemma show_padded_no_LF: "LF \<notin> set (show_padded n i)"
  using show_nat_no_LF by (auto simp: show_padded_def pad_left_def)

lemma level_name_no_LF: "LF \<notin> set (LEVEL_NAMES level)"
  by (cases level) simp_all

lemma boot_entry_line:
  "\<exists>e. boot_entry level s component msg ms = e @ [LF] \<and>
       (LF \<notin> set component \<and> LF \<notin> set msg \<longrightarrow> LF \<notin> set e)"
  using show_nat_no_LF level_name_no_LF
  by (auto simp: boot_entry_def pad_left_def pad_right_blanks_def show_int_def)

lemma runtime_entry_line:
  assumes "LF \<notin> set ts"
  shows "\<exists>e. runtime_entry level component msg ts = e @ [LF] \<and>
       (LF \<notin> set component \<and> LF \<notin> set msg \<longrightarrow> LF \<notin> set e)"
  using assms level_name_no_LF by (auto simp: runtime_entry_def pad_right_blanks_def)

lemma iso8601_no_LF: "LF \<notin> set (log_get_iso8601 tm ts)"
  using show_padded_no_LF by (auto simp: log_get_iso8601_def bounded_copy_def dest: in_set_takeD)

definition log_fd :: "log_state \<Rightarrow> int" where
  "log_fd st =
     (if g_runtime_mode st then (if g_runtime_fd st \<ge> 0 then g_runtime_fd st else STDERR_FILENO)
      else (if g_boot_fd st \<ge> 0 then g_boot_fd st else STDERR_FILENO))"


definition sample_clock :: log_clock where
  "sample_clock = \<lparr>lc_raw = \<lparr>tv_sec = 5, tv_nsec = 0\<rparr>, lc_real = \<lparr>tv_sec = 9, tv_nsec = 0\<rparr>,
     lc_tm = \<lparr>tm_year = 126, tm_mon = 0, tm_mday = 1, tm_hour = 0, tm_min = 0, tm_sec = 9\<rparr>\<rparr>"


section \<open>Boot timestamps\<close>

definition timespec_ok :: "timespec \<Rightarrow> bool" where
  "timespec_ok t \<longleftrightarrow> 0 \<le> tv_sec t \<and> tv_sec t < 2 ^ 40 \<and> 0 \<le> tv_nsec t \<and> tv_nsec t < 1000000000"

definition nanoseconds :: "timespec \<Rightarrow> int" where
  "nanoseconds t = tv_sec t * 1000000000 + tv_nsec t"

lemma c_div_million: "c_div a 1000000 = (if a < 0 then - ((- a) div 1000000) else a div 1000000)"
  by (auto simp: c_div_def)

lemma c_div_mono: "a \<le> b \<Longrightarrow> c_div a 1000000 \<le> c_div b 1000000"
  by (auto simp: c_div_million zdiv_mono1) (smt (verit) div_int_pos_iff)

lemma uint_of_int_u64: "0 \<le> m \<Longrightarrow> m < 2 ^ 64 \<Longrightarrow> uint (word_of_int m :: u64) = m"
  by (simp add: unsigned_of_int take_bit_int_eq_self)

lemma boot_ms_uint:
  assumes "timespec_ok (g_start_time st)" "timespec_ok now" "nanoseconds (g_start_time st) \<le> nanoseconds now"
  shows "uint (log_get_boot_ms now st) =
           (tv_sec now - tv_sec (g_start_time st)) * 1000 +
           c_div (tv_nsec now - tv_nsec (g_start_time st)) 1000000"
proof -
  let ?m = "(tv_sec now - tv_sec (g_start_time st)) * 1000 + c_div (tv_nsec now - tv_nsec (g_start_time st)) 1000000"
  have "0 \<le> ?m \<and> ?m < 2 ^ 64"
    using assms by (auto simp: timespec_ok_def nanoseconds_def c_div_million)
  then show ?thesis unfolding log_get_boot_ms_def Let_def by (intro uint_of_int_u64) simp_all
qed

text \<open>
  Boot timestamps never wrap and never run backwards, and each is the time since the start in whole
  milliseconds, or one more.
\<close>

theorem boot_timestamps:
  assumes "timespec_ok (g_start_time st)" "timespec_ok now" "timespec_ok later"
    and "nanoseconds (g_start_time st) \<le> nanoseconds now" "nanoseconds now \<le> nanoseconds later"
  shows "log_get_boot_ms now st \<le> log_get_boot_ms later st \<and>
         uint (log_get_boot_ms now st) - (nanoseconds now - nanoseconds (g_start_time st)) div 1000000 \<in> {0, 1}"
proof -
  note u = boot_ms_uint [OF assms(1,2,4)] boot_ms_uint [OF assms(1,3) order.trans [OF assms(4,5)]]
  have "uint (log_get_boot_ms now st) \<le> uint (log_get_boot_ms later st)"
  proof (cases "tv_sec now = tv_sec later")
    case True
    with assms(5) show ?thesis unfolding u by (simp add: nanoseconds_def c_div_mono)
  next
    case False
    let ?s = "tv_nsec (g_start_time st)"
    have "c_div (tv_nsec now - ?s) 1000000 \<le> c_div (999999999 - ?s) 1000000"
      and "c_div (0 - ?s) 1000000 \<le> c_div (tv_nsec later - ?s) 1000000"
      using assms(2,3) by (auto simp: timespec_ok_def intro!: c_div_mono)
    moreover have "c_div (999999999 - ?s) 1000000 \<le> 1000 + c_div (0 - ?s) 1000000"
      using assms(1) by (auto simp: timespec_ok_def c_div_million)
    moreover have "tv_sec now + 1 \<le> tv_sec later"
      using False assms(2,3,5) by (auto simp: timespec_ok_def nanoseconds_def)
    ultimately show ?thesis unfolding u left_diff_distrib by linarith
  qed
  moreover have "uint (log_get_boot_ms now st) - (nanoseconds now - nanoseconds (g_start_time st)) div 1000000 \<in> {0, 1}"
    unfolding u using assms by (auto simp: timespec_ok_def nanoseconds_def c_div_million)
  ultimately show ?thesis by (simp add: word_le_def)
qed

theorem boot_timestamps_witness:
  "log_get_boot_ms \<lparr>tv_sec = 7, tv_nsec = 100000000\<rparr> (log_initial\<lparr>g_start_time := \<lparr>tv_sec = 5, tv_nsec = 900000000\<rparr>\<rparr>)
   \<le> log_get_boot_ms \<lparr>tv_sec = 8, tv_nsec = 0\<rparr> (log_initial\<lparr>g_start_time := \<lparr>tv_sec = 5, tv_nsec = 900000000\<rparr>\<rparr>)"
  using boot_timestamps [of "log_initial\<lparr>g_start_time := \<lparr>tv_sec = 5, tv_nsec = 900000000\<rparr>\<rparr>"
      "\<lparr>tv_sec = 7, tv_nsec = 100000000\<rparr>" "\<lparr>tv_sec = 8, tv_nsec = 0\<rparr>"]
  by (simp add: timespec_ok_def nanoseconds_def)

end
