(* ===== verification/Supervisor.thy ===== *)
theory Supervisor
  imports Service_Files
begin

text \<open>
  The service supervisor of luna-init (\<open>src/luna-init/supervisor.c\<close>): readiness probes, spawning
  with the privilege drop in the child, the pump that polls and starts services, the manual start
  and stop operations, and the exit callback with the restart policy.

  What the kernel answers is an input: a record per operation holds the clock readings, the
  results of \<open>stat\<close>, \<open>fork\<close>, \<open>connect\<close> and so on, one per service where the operation visits
  several. Log lines and the cgroup files are output only and have no counterpart.
\<close>

section \<open>State\<close>

record supervisor =
  sup_services :: "service list"
  sup_graph :: depgraph
  sup_signal_ready :: "nat \<Rightarrow> bool"

definition upd_service :: "nat \<Rightarrow> (service \<Rightarrow> service) \<Rightarrow> supervisor \<Rightarrow> supervisor" where
  "upd_service i f sv = sv\<lparr>sup_services := (sup_services sv)[i := f (sup_services sv ! i)]\<rparr>"

definition supervisor_signal_ready :: "int \<Rightarrow> supervisor \<Rightarrow> supervisor" where
  "supervisor_signal_ready pid sv =
     (case find_index_from (\<lambda>s. sv_pid s = pid) (sup_services sv) 0 of
        None \<Rightarrow> sv
      | Some i \<Rightarrow> sv\<lparr>sup_signal_ready := (sup_signal_ready sv)(i := True)\<rparr>)"

section \<open>Readiness polling\<close>

datatype connect_result = Connect_ok | Connect_in_progress | Connect_failed

record probe_io =
  pi_now :: int
  pi_stat :: "string \<Rightarrow> bool"
  pi_unix_socket :: bool
  pi_unix_connect :: "string \<Rightarrow> bool"
  pi_inet_pton :: "string \<Rightarrow> bool"
  pi_inet_socket :: bool
  pi_inet_connect :: "string \<Rightarrow> int \<Rightarrow> connect_result"
  pi_select_write :: bool
  pi_so_error :: int
  pi_select_read :: bool
  pi_recv :: "char list"

text \<open>Host and port of an HTTP probe.\<close>

definition parse_http_target :: "string \<Rightarrow> string \<times> int" where
  "parse_http_target path =
     (let p = (if take 7 path = ''http://'' then drop 7 path
               else if take 8 path = ''https://'' then drop 8 path else path);
          host_port = take 255 (takeWhile (\<lambda>c. c \<noteq> CHR ''/'') p);
          (host, port) =
            (case split_last_chr CHR '':'' host_port of
               Some (h, rest) \<Rightarrow> (take 127 h, atoi rest)
             | None \<Rightarrow> (if host_port \<noteq> [] then take 127 host_port else ''localhost'', 80))
      in (host, if port \<le> 0 \<or> port > 65535 then 80 else port))"

definition http_probe :: "probe_io \<Rightarrow> string \<Rightarrow> bool" where
  "http_probe io path =
     (let (host, port) = parse_http_target path;
          ip = (if host = ''localhost'' \<or> host = [] then ''127.0.0.1'' else host)
      in if \<not> pi_inet_pton io ip then False
         else if \<not> pi_inet_socket io then False
         else case pi_inet_connect io ip port of
             Connect_ok \<Rightarrow> True
           | Connect_failed \<Rightarrow> False
           | Connect_in_progress \<Rightarrow>
               pi_select_write io \<and> pi_so_error io = 0 \<and> pi_select_read io \<and>
               pi_recv io \<noteq> [] \<and> take 6 (pi_recv io) = ''HTTP/1'')"

definition supervisor_check_ready :: "probe_io \<Rightarrow> supervisor \<Rightarrow> nat \<Rightarrow> int \<Rightarrow> bool" where
  "supervisor_check_ready io sv i start_ms =
     (let svc = sup_services sv ! i; elapsed = pi_now io - start_ms in
      if elapsed > sv_ready_timeout_ms svc then False
      else case sv_ready_method svc of
          READY_NONE \<Rightarrow> True
        | READY_FILE \<Rightarrow> pi_stat io (sv_ready_path svc)
        | READY_SOCKET \<Rightarrow> pi_unix_socket io \<and> pi_unix_connect io (bounded_copy 108 (sv_ready_path svc))
        | READY_HTTP \<Rightarrow> http_probe io (sv_ready_path svc)
        | READY_SIGNAL \<Rightarrow> sup_signal_ready sv i)"

section \<open>Service spawning\<close>

text \<open>
  The lookup of an id in \<open>/etc/passwd\<close> or \<open>/etc/group\<close> (\<open>None\<close>: the file cannot be opened): the
  third field of the first line that starts with the name and a colon. \<open>(uid_t)-1\<close> is the
  largest 32-bit value.
\<close>

fun lookup_id :: "string \<Rightarrow> string list \<Rightarrow> u32" where
  "lookup_id name [] = - 1"
| "lookup_id name (line # lines) =
     (if take (length name) line = name \<and> drop (length name) line \<noteq> [] \<and>
         line ! length name = CHR '':''
      then case split_chr CHR '':'' (drop (Suc (length name)) line) of
          Some (_, rest) \<Rightarrow>
            (case strtoll10 rest of None \<Rightarrow> 0 | Some (v, _) \<Rightarrow> word_of_int (clamp_int64 v))
        | None \<Rightarrow> lookup_id name lines
      else lookup_id name lines)"

definition parse_id :: "string option \<Rightarrow> string \<Rightarrow> u32" where
  "parse_id file name_or_id =
     (if name_or_id = [] then - 1
      else case strtoll10 name_or_id of
          Some (v, []) \<Rightarrow> word_of_int (clamp_int64 v)
        | _ \<Rightarrow> (case file of
                  None \<Rightarrow> - 1
                | Some bytes \<Rightarrow> lookup_id name_or_id (map cstr (fgets_chunks 256 bytes))))"

definition parse_uid :: "string option \<Rightarrow> string \<Rightarrow> u32" where
  "parse_uid passwd name_or_id = parse_id passwd name_or_id"

definition parse_gid :: "string option \<Rightarrow> string \<Rightarrow> u32" where
  "parse_gid grp name_or_id = parse_id grp name_or_id"

text \<open>The system calls of the child, in the order it makes them.\<close>

datatype child_action =
    Setgid u32
  | Setgroups_none
  | Setuid u32
  | Chdir string
  | Execve string "string list" "string list"
  | Exit int

record child_io =
  ci_passwd :: "string option"
  ci_group :: "string option"
  ci_setgid :: "u32 \<Rightarrow> bool"
  ci_setgroups :: bool
  ci_setuid :: "u32 \<Rightarrow> bool"
  ci_execve :: bool

text \<open>The calls of one identity block and whether the child goes on after it.\<close>

definition drop_group :: "child_io \<Rightarrow> service \<Rightarrow> child_action list \<times> bool" where
  "drop_group io svc =
     (if sv_run_group svc = [] then ([], True)
      else (let gid = parse_gid (ci_group io) (sv_run_group svc) in
            if gid = - 1 then ([Exit 127], False)
            else if \<not> ci_setgid io gid then ([Setgid gid, Exit 127], False)
            else if \<not> ci_setgroups io then ([Setgid gid, Setgroups_none, Exit 127], False)
            else ([Setgid gid, Setgroups_none], True)))"

definition drop_user :: "child_io \<Rightarrow> service \<Rightarrow> child_action list \<times> bool" where
  "drop_user io svc =
     (if sv_run_user svc = [] then ([], True)
      else (let uid = parse_uid (ci_passwd io) (sv_run_user svc) in
            if uid = - 1 then ([Exit 127], False)
            else if \<not> ci_setuid io uid then ([Setuid uid, Exit 127], False)
            else ([Setuid uid], True)))"

definition child_argv :: "service \<Rightarrow> string list" where
  "child_argv svc = sv_binary svc # take (sv_arg_count svc) (sv_args svc)"

definition child_envp :: "service \<Rightarrow> string list" where
  "child_envp svc =
     ''PATH=/usr/bin:/usr/sbin:/bin:/sbin'' #
     map (\<lambda>(k, v). bounded_copy (SERVICE_MAX_ENV_LEN * 2) (k @ ''='' @ v)) (sv_env svc)"

definition spawn_child :: "child_io \<Rightarrow> service \<Rightarrow> child_action list" where
  "spawn_child io svc =
     (case drop_group io svc of
        (as1, False) \<Rightarrow> as1
      | (as1, True) \<Rightarrow>
          (case drop_user io svc of
             (as2, False) \<Rightarrow> as1 @ as2
           | (as2, True) \<Rightarrow>
               as1 @ as2 @
               (if sv_workdir svc \<noteq> [] then [Chdir (sv_workdir svc)] else []) @
               [Execve (sv_binary svc) (child_argv svc) (child_envp svc)] @
               (if ci_execve io then [] else [Exit 127])))"

record spawn_io =
  si_binary_exists :: "string \<Rightarrow> bool"
  si_fork :: int
  si_now :: int

text \<open>The parent's side: the service record and the return value.\<close>

definition spawn_service :: "spawn_io \<Rightarrow> service \<Rightarrow> service \<times> int" where
  "spawn_service io svc =
     (if \<not> si_binary_exists io (sv_binary svc) then (svc\<lparr>sv_state := SERVICE_STATE_DEGRADED\<rparr>, - 1)
      else if si_fork io < 0 then (svc, - 1)
      else (svc\<lparr>sv_pid := si_fork io, sv_state := SERVICE_STATE_STARTING,
                sv_start_time_ms := si_now io\<rparr>, si_fork io))"

section \<open>The pump\<close>

record pump_io =
  pm_now :: int
  pm_probe :: "nat \<Rightarrow> probe_io"
  pm_spawn :: "nat \<Rightarrow> spawn_io"

definition poll_service :: "pump_io \<Rightarrow> supervisor \<Rightarrow> nat \<Rightarrow> supervisor" where
  "poll_service io sv i =
     (let svc = sup_services sv ! i; start = sv_start_time_ms svc in
      if sv_state svc \<noteq> SERVICE_STATE_STARTING then sv
      else if sv_ready_method svc = READY_NONE then
        upd_service i (\<lambda>s. s\<lparr>sv_state := SERVICE_STATE_RUNNING\<rparr>) sv
      else if supervisor_check_ready (pm_probe io i) sv i start then
        upd_service i (\<lambda>s. s\<lparr>sv_state := SERVICE_STATE_RUNNING\<rparr>) sv
      else if pm_now io - start \<ge> sv_ready_timeout_ms svc then
        upd_service i (\<lambda>s. s\<lparr>sv_state := SERVICE_STATE_DEGRADED\<rparr>) sv
      else sv)"

definition dep_satisfied :: "service list \<Rightarrow> nat \<Rightarrow> bool" where
  "dep_satisfied tbl d \<longleftrightarrow>
     (d < length tbl \<longrightarrow>
        sv_state (tbl ! d) = SERVICE_STATE_RUNNING \<or> sv_state (tbl ! d) = SERVICE_STATE_DEGRADED)"

definition start_service :: "pump_io \<Rightarrow> supervisor \<Rightarrow> nat \<Rightarrow> supervisor" where
  "start_service io sv i =
     (let svc = sup_services sv ! i in
      if sv_state svc \<noteq> SERVICE_STATE_PENDING then sv
      else if pm_now io < sv_scheduled_start_ms svc then sv
      else if \<not> list_all (dep_satisfied (sup_services sv)) (sv_dep_indices svc) then sv
      else (case spawn_service (pm_spawn io i) svc of
              (svc', pid) \<Rightarrow>
                upd_service i (\<lambda>_. if pid < 0 \<and> sv_state svc' \<noteq> SERVICE_STATE_DEGRADED
                                  then svc'\<lparr>sv_state := SERVICE_STATE_DEGRADED\<rparr> else svc') sv))"

definition supervisor_pump :: "pump_io \<Rightarrow> supervisor \<Rightarrow> supervisor" where
  "supervisor_pump io sv =
     (let n = length (sup_services sv);
          sv1 = foldl (poll_service io) sv [0..<n]
      in case depgraph_topo_sort (sup_graph sv1) n SERVICE_MAX_COUNT of
           None \<Rightarrow> sv1
         | Some order \<Rightarrow> foldl (start_service io) sv1 order)"

definition blocked_by_stopped :: "service list \<Rightarrow> service \<Rightarrow> bool" where
  "blocked_by_stopped tbl svc \<longleftrightarrow>
     list_ex (\<lambda>d. d < length tbl \<and> sv_state (tbl ! d) = SERVICE_STATE_STOPPED) (sv_dep_indices svc)"

definition supervisor_is_boot_complete :: "supervisor \<Rightarrow> bool" where
  "supervisor_is_boot_complete sv \<longleftrightarrow>
     list_all (\<lambda>svc. (sv_state svc = SERVICE_STATE_PENDING \<or> sv_state svc = SERVICE_STATE_STARTING) \<longrightarrow>
                 blocked_by_stopped (sup_services sv) svc)
       (sup_services sv)"

section \<open>Public operations\<close>

definition reset_for_boot :: "service \<Rightarrow> service" where
  "reset_for_boot svc =
     (let s = svc\<lparr>sv_scheduled_start_ms := 0\<rparr> in
      if sv_name svc = ''lgp-compositor'' then s\<lparr>sv_state := SERVICE_STATE_STOPPED\<rparr>
      else if sv_state svc \<noteq> SERVICE_STATE_DEGRADED then s\<lparr>sv_state := SERVICE_STATE_PENDING\<rparr>
      else s)"

definition supervisor_start_all :: "pump_io \<Rightarrow> supervisor \<Rightarrow> supervisor" where
  "supervisor_start_all io sv =
     supervisor_pump io (sv\<lparr>sup_services := map reset_for_boot (sup_services sv)\<rparr>)"

definition supervisor_start_one :: "pump_io \<Rightarrow> string \<Rightarrow> supervisor \<Rightarrow> supervisor \<times> int" where
  "supervisor_start_one io name sv =
     (case service_find (sup_services sv) name of
        None \<Rightarrow> (sv, - 1)
      | Some i \<Rightarrow>
          (let svc = sup_services sv ! i in
           if sv_state svc = SERVICE_STATE_RUNNING \<or> sv_state svc = SERVICE_STATE_STARTING then (sv, 0)
           else (let sv' = supervisor_pump io
                       (upd_service i (\<lambda>s. s\<lparr>sv_state := SERVICE_STATE_PENDING, sv_restart_count := 0,
                                             sv_scheduled_start_ms := 0\<rparr>) sv);
                     st = sv_state (sup_services sv' ! i)
                 in (sv', if st = SERVICE_STATE_DEGRADED \<or> st = SERVICE_STATE_FAILED then - 1 else 0))))"

text \<open>
  The wait loop of \<open>supervisor_stop_one\<close>. The \<open>k\<close>-th iteration reads the clock and then calls
  \<open>waitpid\<close>, which reports the exit of the process, that it is gone, or nothing yet. The result
  says whether the process ended before the timeout; \<open>None\<close> is a loop that never ends.
\<close>

datatype wait_result = Wait_exited | Wait_gone | Wait_running

partial_function (option) stop_wait ::
  "(nat \<Rightarrow> int) \<Rightarrow> (nat \<Rightarrow> wait_result) \<Rightarrow> int \<Rightarrow> int \<Rightarrow> nat \<Rightarrow> bool option" where
  "stop_wait clock wait start timeout k =
     (if clock k - start < timeout
      then (case wait k of
              Wait_exited \<Rightarrow> Some True
            | Wait_gone \<Rightarrow> Some True
            | Wait_running \<Rightarrow> stop_wait clock wait start timeout (Suc k))
      else Some False)"

record stop_io =
  st_start :: int
  st_clock :: "nat \<Rightarrow> int"
  st_wait :: "nat \<Rightarrow> wait_result"

text \<open>The new state and the signals sent, as pairs of process and signal.\<close>

definition supervisor_stop_one ::
  "stop_io \<Rightarrow> string \<Rightarrow> supervisor \<Rightarrow> (supervisor \<times> (int \<times> int) list) option" where
  "supervisor_stop_one io name sv =
     (case service_find (sup_services sv) name of
        None \<Rightarrow> Some (sv, [])
      | Some i \<Rightarrow>
          (let svc = sup_services sv ! i in
           if sv_pid svc \<le> 0 then Some (sv, [])
           else map_option
             (\<lambda>ended.
                (upd_service i (\<lambda>s. s\<lparr>sv_state := SERVICE_STATE_STOPPED, sv_pid := 0\<rparr>) sv,
                 (sv_pid svc, sv_stop_signal svc) # (if ended then [] else [(sv_pid svc, SIGKILL)])))
             (stop_wait (st_clock io) (st_wait io) (st_start io) (sv_stop_timeout_ms svc) 0)))"

section \<open>Exit callback\<close>

definition should_restart :: "restart_policy \<Rightarrow> int \<Rightarrow> bool \<Rightarrow> bool" where
  "should_restart policy exit_code by_signal =
     (case policy of
        RESTART_ALWAYS \<Rightarrow> True
      | RESTART_ON_FAILURE \<Rightarrow> exit_code \<noteq> 0 \<or> by_signal
      | RESTART_NEVER \<Rightarrow> False)"

text \<open>The record of the service after its process ended; \<open>t1\<close> and \<open>t2\<close> are the two clock readings.\<close>

definition service_on_exit :: "int \<Rightarrow> bool \<Rightarrow> int \<Rightarrow> int \<Rightarrow> service \<Rightarrow> service" where
  "service_on_exit exit_code by_signal t1 t2 svc0 =
     (let svc = svc0\<lparr>sv_pid := 0, sv_stop_time_ms := t1\<rparr> in
      if sv_state svc = SERVICE_STATE_STOPPING \<or> sv_state svc = SERVICE_STATE_STOPPED then
        svc\<lparr>sv_state := SERVICE_STATE_STOPPED\<rparr>
      else if \<not> should_restart (sv_restart_policy svc) exit_code by_signal then
        svc\<lparr>sv_state := SERVICE_STATE_STOPPED\<rparr>
      else (let svc1 = svc\<lparr>sv_restart_count := sv_restart_count svc + 1\<rparr> in
            if sv_restart_count svc1 > sv_restart_attempts svc1 then
              svc1\<lparr>sv_state := SERVICE_STATE_DEGRADED\<rparr>
            else svc1\<lparr>sv_state := SERVICE_STATE_PENDING,
                      sv_scheduled_start_ms := t2 + sv_restart_delay_ms svc1\<rparr>))"

definition reaper_on_exit :: "int \<Rightarrow> int \<Rightarrow> bool \<Rightarrow> int \<Rightarrow> int \<Rightarrow> supervisor \<Rightarrow> supervisor" where
  "reaper_on_exit pid exit_code by_signal t1 t2 sv =
     (case service_find_by_pid (sup_services sv) pid of
        None \<Rightarrow> sv
      | Some i \<Rightarrow> upd_service i (service_on_exit exit_code by_signal t1 t2) sv)"

section \<open>What one pump does to a service\<close>

lemma upd_service_simps [simp]:
  "length (sup_services (upd_service i f sv)) = length (sup_services sv)"
  "sup_graph (upd_service i f sv) = sup_graph sv"
  "sup_signal_ready (upd_service i f sv) = sup_signal_ready sv"
  "i < length (sup_services sv) \<Longrightarrow>
   sup_services (upd_service i f sv) ! j =
     (if j = i then f (sup_services sv ! i) else sup_services sv ! j)"
  by (auto simp: upd_service_def)

lemma poll_service_simps [simp]:
  "length (sup_services (poll_service io sv i)) = length (sup_services sv)"
  "sup_graph (poll_service io sv i) = sup_graph sv"
  "sup_signal_ready (poll_service io sv i) = sup_signal_ready sv"
  by (simp_all add: poll_service_def Let_def)

lemma start_service_simps [simp]:
  "length (sup_services (start_service io sv i)) = length (sup_services sv)"
  "sup_graph (start_service io sv i) = sup_graph sv"
  "sup_signal_ready (start_service io sv i) = sup_signal_ready sv"
  by (simp_all add: start_service_def Let_def split: prod.splits)

text \<open>Polling visits every service once and looks at nothing but that service and its flag.\<close>

lemma poll_service_other: "j \<noteq> i \<Longrightarrow> sup_services (poll_service io sv i) ! j = sup_services sv ! j"
  by (simp add: poll_service_def upd_service_def Let_def)

lemma poll_service_local:
  assumes "sup_services sv ! i = sup_services sv' ! i" and "sup_signal_ready sv = sup_signal_ready sv'"
    and "i < length (sup_services sv)" and "i < length (sup_services sv')"
  shows "sup_services (poll_service io sv i) ! i = sup_services (poll_service io sv' i) ! i"
proof -
  have "supervisor_check_ready (pm_probe io i) sv i t = supervisor_check_ready (pm_probe io i) sv' i t" for t
    using assms(1,2) by (simp add: supervisor_check_ready_def cong: ready_method.case_cong)
  with assms show ?thesis by (simp add: poll_service_def Let_def)
qed

lemma poll_fold:
  assumes "distinct is" and "list_all (\<lambda>i. i < length (sup_services sv)) is"
  shows "length (sup_services (foldl (poll_service io) sv is)) = length (sup_services sv) \<and>
    sup_graph (foldl (poll_service io) sv is) = sup_graph sv \<and>
    (\<forall>j. sup_services (foldl (poll_service io) sv is) ! j =
       (if j \<in> set is then sup_services (poll_service io sv j) ! j else sup_services sv ! j))"
  using assms
proof (induction "is" arbitrary: sv)
  case (Cons i "is")
  let ?sv = "poll_service io sv i"
  from Cons have IH: "length (sup_services (foldl (poll_service io) ?sv is)) = length (sup_services sv)"
    "sup_graph (foldl (poll_service io) ?sv is) = sup_graph sv"
    "sup_services (foldl (poll_service io) ?sv is) ! j =
       (if j \<in> set is then sup_services (poll_service io ?sv j) ! j else sup_services ?sv ! j)" for j
    using Cons.IH [of ?sv] by simp_all
  have "sup_services (poll_service io ?sv j) ! j = sup_services (poll_service io sv j) ! j"
    if "j \<in> set is" for j
  proof -
    have "j \<noteq> i" "j < length (sup_services sv)" using that Cons.prems by (auto simp: list_all_iff)
    then show ?thesis by (intro poll_service_local) (simp_all add: poll_service_other)
  qed
  with IH Cons.prems(1) show ?case by (auto simp: poll_service_other)
qed simp

text \<open>The three things a start attempt can do to the service it visits.\<close>

definition start_result :: "pump_io \<Rightarrow> nat \<Rightarrow> service \<Rightarrow> service" where
  "start_result io i svc =
     (if \<not> si_binary_exists (pm_spawn io i) (sv_binary svc) \<or> si_fork (pm_spawn io i) < 0
      then svc\<lparr>sv_state := SERVICE_STATE_DEGRADED\<rparr>
      else svc\<lparr>sv_pid := si_fork (pm_spawn io i), sv_state := SERVICE_STATE_STARTING,
               sv_start_time_ms := si_now (pm_spawn io i)\<rparr>)"

definition may_start :: "pump_io \<Rightarrow> service list \<Rightarrow> service \<Rightarrow> bool" where
  "may_start io tbl svc \<longleftrightarrow>
     sv_state svc = SERVICE_STATE_PENDING \<and> sv_scheduled_start_ms svc \<le> pm_now io \<and>
     list_all (dep_satisfied tbl) (sv_dep_indices svc)"

lemma start_service_eq:
  "start_service io sv i =
     (if may_start io (sup_services sv) (sup_services sv ! i)
      then upd_service i (start_result io i) sv else sv)"
  by (auto simp: start_service_def may_start_def start_result_def spawn_service_def upd_service_def Let_def)

lemma start_result_state:
  "sv_state (start_result io i svc) \<in> {SERVICE_STATE_STARTING, SERVICE_STATE_DEGRADED}"
  "sv_dep_indices (start_result io i svc) = sv_dep_indices svc"
  by (simp_all add: start_result_def)

lemma dep_satisfied_upd:
  assumes "dep_satisfied (sup_services sv) d" and "sv_state (sup_services sv ! i) = SERVICE_STATE_PENDING"
    and "i < length (sup_services sv)"
  shows "dep_satisfied (sup_services (upd_service i f sv)) d"
  using assms by (auto simp: dep_satisfied_def)

text \<open>
  The start loop: a service is either left alone or was allowed to start, with every dependency
  satisfied then and still at the end; a service whose dependencies are satisfied from the
  beginning is not left pending.
\<close>

lemma start_fold:
  fixes io sv
  assumes "distinct is" and "list_all (\<lambda>i. i < length (sup_services sv)) is"
  defines "sv' \<equiv> foldl (start_service io) sv is"
  shows "length (sup_services sv') = length (sup_services sv) \<and> sup_graph sv' = sup_graph sv \<and>
    (\<forall>d. dep_satisfied (sup_services sv) d \<longrightarrow> dep_satisfied (sup_services sv') d) \<and>
    (\<forall>j. sup_services sv' ! j = sup_services sv ! j \<or>
         j \<in> set is \<and> may_start io (sup_services sv') (sup_services sv ! j) \<and>
         sup_services sv' ! j = start_result io j (sup_services sv ! j)) \<and>
    (\<forall>j \<in> set is. may_start io (sup_services sv) (sup_services sv ! j) \<longrightarrow>
         sup_services sv' ! j = start_result io j (sup_services sv ! j))"
  using assms(1,2) unfolding sv'_def
proof (induction "is" arbitrary: sv)
  case (Cons i "is")
  let ?s = "start_service io sv i" and ?e = "foldl (start_service io) (start_service io sv i) is"
  have i: "i < length (sup_services sv)" "i \<notin> set is" using Cons.prems by simp_all
  have dep: "dep_satisfied (sup_services ?s) d" if "dep_satisfied (sup_services sv) d" for d
    using that dep_satisfied_upd [OF that _ i(1)] by (auto simp: start_service_eq may_start_def)
  have other: "sup_services ?s ! j = sup_services sv ! j" if "j \<noteq> i" for j
    using that i by (simp add: start_service_eq)
  have IH: "length (sup_services ?e) = length (sup_services sv)" "sup_graph ?e = sup_graph sv"
    "\<And>d. dep_satisfied (sup_services ?s) d \<Longrightarrow> dep_satisfied (sup_services ?e) d"
    "\<And>j. sup_services ?e ! j = sup_services ?s ! j \<or>
         j \<in> set is \<and> may_start io (sup_services ?e) (sup_services ?s ! j) \<and>
         sup_services ?e ! j = start_result io j (sup_services ?s ! j)"
    "\<And>j. j \<in> set is \<Longrightarrow> may_start io (sup_services ?s) (sup_services ?s ! j) \<Longrightarrow>
         sup_services ?e ! j = start_result io j (sup_services ?s ! j)"
    using Cons.IH [of ?s] Cons.prems by simp_all
  have mono: "may_start io (sup_services ?e) svc" if "may_start io (sup_services sv) svc" for svc
    using that dep IH(3) by (auto simp: may_start_def list_all_iff)
  have mono1: "may_start io (sup_services ?s) svc" if "may_start io (sup_services sv) svc" for svc
    using that dep by (auto simp: may_start_def list_all_iff)
  have own: "sup_services ?e ! i = sup_services ?s ! i" using IH(4) [of i] i(2) by simp
  have own_s: "sup_services ?s ! i =
      (if may_start io (sup_services sv) (sup_services sv ! i)
       then start_result io i (sup_services sv ! i) else sup_services sv ! i)"
    using i by (simp add: start_service_eq)
  have "sup_services ?e ! j = sup_services sv ! j \<or>
         j \<in> set (i # is) \<and> may_start io (sup_services ?e) (sup_services sv ! j) \<and>
         sup_services ?e ! j = start_result io j (sup_services sv ! j)" for j
    using IH(4) [of j] other [of j] own own_s mono by (cases "j = i") auto
  moreover have "sup_services ?e ! j = start_result io j (sup_services sv ! j)"
    if "j \<in> set (i # is)" "may_start io (sup_services sv) (sup_services sv ! j)" for j
    using that IH(5) [of j] other [of j] own own_s mono1 [OF that(2)] by (cases "j = i") auto
  ultimately show ?case using IH(1-3) dep by auto
qed simp

definition sup_ok :: "supervisor \<Rightarrow> bool" where
  "sup_ok sv \<longleftrightarrow> table_ok (sup_services sv) \<and> deps_valid (sup_services sv) \<and>
     graph_ok (sup_graph sv) (length (sup_services sv))"

lemma poll_service_cases:
  fixes io sv i
  assumes "i < length (sup_services sv)"
  defines "s \<equiv> sup_services sv ! i" and "s' \<equiv> sup_services (poll_service io sv i) ! i"
  shows "s' = s \<or> sv_state s = SERVICE_STATE_STARTING \<and>
           (s' = s\<lparr>sv_state := SERVICE_STATE_RUNNING\<rparr> \<or> s' = s\<lparr>sv_state := SERVICE_STATE_DEGRADED\<rparr>)"
    and "sv_state s = SERVICE_STATE_STARTING \<Longrightarrow> pm_now io - sv_start_time_ms s \<ge> sv_ready_timeout_ms s \<Longrightarrow>
         sv_state s' \<noteq> SERVICE_STATE_STARTING"
  using assms(1) by (auto simp: s_def s'_def poll_service_def Let_def)

lemma pump_unfold:
  assumes ok: "sup_ok sv"
  obtains sv1 where
    "\<And>i. i < length (sup_services sv) \<Longrightarrow> sup_services sv1 ! i = sup_services (poll_service io sv i) ! i"
    "length (sup_services sv1) = length (sup_services sv)" "sup_graph sv1 = sup_graph sv"
    "supervisor_pump io sv = sv1 \<and>
       depgraph_topo_sort (sup_graph sv) (length (sup_services sv)) SERVICE_MAX_COUNT = None \<or>
     (\<exists>order. depgraph_topo_sort (sup_graph sv) (length (sup_services sv)) SERVICE_MAX_COUNT = Some order \<and>
        supervisor_pump io sv = foldl (start_service io) sv1 order \<and>
        distinct order \<and> set order = {..<length (sup_services sv)})"
proof -
  let ?n = "length (sup_services sv)"
  let ?sv1 = "foldl (poll_service io) sv [0..<?n]"
  note p = poll_fold [of "[0..<?n]" sv io]
  have len: "length (sup_services ?sv1) = ?n" and gr: "sup_graph ?sv1 = sup_graph sv"
    and at: "\<And>i. i < ?n \<Longrightarrow> sup_services ?sv1 ! i = sup_services (poll_service io sv i) ! i"
    using p by (simp_all add: list_all_iff)
  have "graph_ok (sup_graph sv) ?n" using ok by (simp add: sup_ok_def)
  with len gr at show ?thesis
    using that [of ?sv1] depgraph_topo_sort_Some [of "sup_graph sv" ?n SERVICE_MAX_COUNT]
    by (cases "depgraph_topo_sort (sup_graph sv) ?n SERVICE_MAX_COUNT")
      (auto simp: supervisor_pump_def Let_def topo_order_def)
qed

text \<open>Starting the services in some order, after each was polled: the effect on one of them.\<close>

lemma pump_sorted:
  assumes i: "i < length (sup_services sv)" and len: "length (sup_services sv1) = length (sup_services sv)"
    and at: "\<And>j. j < length (sup_services sv) \<Longrightarrow> sup_services sv1 ! j = sup_services (poll_service io sv j) ! j"
    and o: "distinct order" "set order \<subseteq> {..<length (sup_services sv)}"
  defines "s \<equiv> sup_services sv ! i"
  defines "tbl' \<equiv> sup_services (foldl (start_service io) sv1 order)"
  shows "length tbl' = length (sup_services sv)" "sup_graph (foldl (start_service io) sv1 order) = sup_graph sv1"
    "tbl' ! i = s \<or>
     sv_state s = SERVICE_STATE_STARTING \<and>
       (tbl' ! i = s\<lparr>sv_state := SERVICE_STATE_RUNNING\<rparr> \<or> tbl' ! i = s\<lparr>sv_state := SERVICE_STATE_DEGRADED\<rparr>) \<or>
     may_start io tbl' s \<and> tbl' ! i = start_result io i s"
    "sv_state s = SERVICE_STATE_STARTING \<Longrightarrow> pm_now io - sv_start_time_ms s \<ge> sv_ready_timeout_ms s \<Longrightarrow>
     sv_state (tbl' ! i) \<noteq> SERVICE_STATE_STARTING"
    "may_start io (sup_services sv) s \<Longrightarrow> i \<in> set order \<Longrightarrow> tbl' ! i = start_result io i s"
proof -
  note poll = poll_service_cases [OF i, of io, folded s_def at [OF i]]
  note f = start_fold [of order sv1 io, folded tbl'_def]
  have la: "list_all (\<lambda>i. i < length (sup_services sv1)) order" using o len by (auto simp: list_all_iff)
  show "length tbl' = length (sup_services sv)" "sup_graph (foldl (start_service io) sv1 order) = sup_graph sv1"
    using f [OF o(1) la] len by simp_all
  have f2: "tbl' ! i = sup_services sv1 ! i \<or>
      may_start io tbl' (sup_services sv1 ! i) \<and> tbl' ! i = start_result io i (sup_services sv1 ! i)"
    using f [OF o(1) la] by blast
  have pend: "sup_services sv1 ! i = s"
    if "sv_state (sup_services sv1 ! i) = SERVICE_STATE_PENDING \<or> sv_state s = SERVICE_STATE_PENDING"
    using poll(1) that by auto
  have started: "sup_services sv1 ! i = s" if "may_start io tbl' (sup_services sv1 ! i)"
    using that by (intro pend) (simp add: may_start_def)
  show "tbl' ! i = s \<or> sv_state s = SERVICE_STATE_STARTING \<and>
       (tbl' ! i = s\<lparr>sv_state := SERVICE_STATE_RUNNING\<rparr> \<or> tbl' ! i = s\<lparr>sv_state := SERVICE_STATE_DEGRADED\<rparr>) \<or>
     may_start io tbl' s \<and> tbl' ! i = start_result io i s"
    using f2 poll(1) started by metis
  show "sv_state s = SERVICE_STATE_STARTING \<Longrightarrow> pm_now io - sv_start_time_ms s \<ge> sv_ready_timeout_ms s \<Longrightarrow>
     sv_state (tbl' ! i) \<noteq> SERVICE_STATE_STARTING"
    using poll f2 by (auto simp: may_start_def)
  have dep1: "dep_satisfied (sup_services sv1) d" if "dep_satisfied (sup_services sv) d" for d
    using that poll_service_cases(1) [of d sv io] at [of d] len by (auto simp: dep_satisfied_def)
  assume m: "may_start io (sup_services sv) s" and io: "i \<in> set order"
  then have "sup_services sv1 ! i = s" by (intro pend) (simp add: may_start_def)
  moreover have "may_start io (sup_services sv1) s" using m dep1 by (auto simp: may_start_def list_all_iff)
  ultimately show "tbl' ! i = start_result io i s" using f [OF o(1) la] io by auto
qed

text \<open>The effect of a pump on one service.\<close>

lemma pump_cases:
  fixes io sv i
  assumes ok: "sup_ok sv" and i: "i < length (sup_services sv)"
  defines "s \<equiv> sup_services sv ! i"
  defines "tbl' \<equiv> sup_services (supervisor_pump io sv)"
  shows "length tbl' = length (sup_services sv)" "sup_graph (supervisor_pump io sv) = sup_graph sv"
    "tbl' ! i = s \<or>
     sv_state s = SERVICE_STATE_STARTING \<and>
       (tbl' ! i = s\<lparr>sv_state := SERVICE_STATE_RUNNING\<rparr> \<or> tbl' ! i = s\<lparr>sv_state := SERVICE_STATE_DEGRADED\<rparr>) \<or>
     may_start io tbl' s \<and> tbl' ! i = start_result io i s"
    "sv_state s = SERVICE_STATE_STARTING \<Longrightarrow> pm_now io - sv_start_time_ms s \<ge> sv_ready_timeout_ms s \<Longrightarrow>
     sv_state (tbl' ! i) \<noteq> SERVICE_STATE_STARTING"
    "may_start io (sup_services sv) s \<Longrightarrow> acyclic (edges (sup_graph sv)) \<Longrightarrow>
     tbl' ! i = start_result io i s"
proof -
  let ?n = "length (sup_services sv)"
  have sort: "graph_ok (sup_graph sv) ?n" "?n \<le> SERVICE_MAX_COUNT"
    using ok by (auto simp: sup_ok_def table_ok_def)
  obtain sv1 order where at: "\<And>i. i < ?n \<Longrightarrow> sup_services sv1 ! i = sup_services (poll_service io sv i) ! i"
    and len: "length (sup_services sv1) = ?n" and gr: "sup_graph sv1 = sup_graph sv"
    and p: "supervisor_pump io sv = foldl (start_service io) sv1 order"
    and o: "distinct order" "set order \<subseteq> {..<?n}" "acyclic (edges (sup_graph sv)) \<Longrightarrow> set order = {..<?n}"
  proof (rule pump_unfold [OF ok, of io], elim disjE exE conjE)
    fix sv1 assume "depgraph_topo_sort (sup_graph sv) ?n SERVICE_MAX_COUNT = None"
      "length (sup_services sv1) = ?n" "sup_graph sv1 = sup_graph sv" "supervisor_pump io sv = sv1"
      "\<And>i. i < ?n \<Longrightarrow> sup_services sv1 ! i = sup_services (poll_service io sv i) ! i"
    then show ?thesis using that [of sv1 "[]"] depgraph_topo_sort_iff [OF sort] by simp
  qed (use that in blast)
  note c = pump_sorted [OF i len at o(1,2), folded p s_def, folded tbl'_def]
  show "length tbl' = ?n" "sup_graph (supervisor_pump io sv) = sup_graph sv"
    "tbl' ! i = s \<or> sv_state s = SERVICE_STATE_STARTING \<and>
       (tbl' ! i = s\<lparr>sv_state := SERVICE_STATE_RUNNING\<rparr> \<or> tbl' ! i = s\<lparr>sv_state := SERVICE_STATE_DEGRADED\<rparr>) \<or>
     may_start io tbl' s \<and> tbl' ! i = start_result io i s"
    "sv_state s = SERVICE_STATE_STARTING \<Longrightarrow> pm_now io - sv_start_time_ms s \<ge> sv_ready_timeout_ms s \<Longrightarrow>
     sv_state (tbl' ! i) \<noteq> SERVICE_STATE_STARTING"
    using c(1-4) gr by simp_all
  show "may_start io (sup_services sv) s \<Longrightarrow> acyclic (edges (sup_graph sv)) \<Longrightarrow> tbl' ! i = start_result io i s"
    using c(5) o(3) i by simp
qed

section \<open>Invariants of the supervisor\<close>

text \<open>The part of a service record that the supervisor never writes.\<close>

definition config :: "service \<Rightarrow> service" where
  "config s = s\<lparr>sv_state := SERVICE_STATE_PENDING, sv_pid := 0, sv_restart_count := 0,
     sv_start_time_ms := 0, sv_stop_time_ms := 0, sv_scheduled_start_ms := 0\<rparr>"

lemma config_upd [simp]:
  "config (s\<lparr>sv_state := x\<rparr>) = config s" "config (s\<lparr>sv_pid := p\<rparr>) = config s"
  "config (s\<lparr>sv_restart_count := c\<rparr>) = config s" "config (s\<lparr>sv_start_time_ms := t\<rparr>) = config s"
  "config (s\<lparr>sv_stop_time_ms := t\<rparr>) = config s" "config (s\<lparr>sv_scheduled_start_ms := t\<rparr>) = config s"
  by (simp_all add: config_def)

lemma config_fields:
  assumes "config s = config s'"
  shows "service_ok s = service_ok s'" "sv_name s = sv_name s'" "sv_dep_indices s = sv_dep_indices s'"
    "sv_restart_attempts s = sv_restart_attempts s'"
proof -
  have "service_ok s = service_ok (config s)" for s by (simp add: service_ok_def config_def)
  with assms show "service_ok s = service_ok s'" by metis
  have "sv_name s = sv_name (config s)" "sv_dep_indices s = sv_dep_indices (config s)"
    "sv_restart_attempts s = sv_restart_attempts (config s)" for s
    by (simp_all add: config_def)
  with assms show "sv_name s = sv_name s'" "sv_dep_indices s = sv_dep_indices s'"
    "sv_restart_attempts s = sv_restart_attempts s'"
    by metis+
qed

definition same_config :: "service list \<Rightarrow> service list \<Rightarrow> bool" where
  "same_config t t' \<longleftrightarrow> map config t = map config t'"

lemma same_config_nth:
  "same_config t t' \<longleftrightarrow> length t = length t' \<and> (\<forall>i < length t. config (t ! i) = config (t' ! i))"
  by (auto simp: same_config_def list_eq_iff_nth_eq)

lemma same_config_ok:
  assumes "same_config t t'"
  shows "table_ok t = table_ok t'" "deps_valid t = deps_valid t'"
proof -
  from assms have len: "length t = length t'" and c: "\<And>i. i < length t \<Longrightarrow> config (t ! i) = config (t' ! i)"
    by (auto simp: same_config_nth)
  note f = config_fields [OF c]
  have "map sv_name t = map sv_name t'"
    using len f(2) by (auto simp: list_eq_iff_nth_eq)
  moreover have "list_all service_ok t = list_all service_ok t'"
    using len f(1) by (auto simp: list_all_length)
  ultimately show "table_ok t = table_ok t'" using len by (simp add: table_ok_def)
  show "deps_valid t = deps_valid t'"
    using len f(3) by (auto simp: deps_valid_def list_all_length)
qed

lemma sup_ok_config:
  assumes "sup_ok sv" and "same_config (sup_services sv') (sup_services sv)" and "sup_graph sv' = sup_graph sv"
  shows "sup_ok sv'"
  using assms same_config_ok [OF assms(2)] by (auto simp: sup_ok_def same_config_nth)

text \<open>
  The restart counter stays within the allowed attempts; it exceeds them only in a service that
  is out of service for good: degraded and without a process.
\<close>

definition restarts_bounded :: "service \<Rightarrow> bool" where
  "restarts_bounded s \<longleftrightarrow> 0 \<le> sv_restart_count s \<and>
     (sv_restart_count s \<le> max 0 (sv_restart_attempts s) \<or>
      sv_state s = SERVICE_STATE_DEGRADED \<and> sv_pid s = 0)"

lemma start_result_config [simp]: "config (start_result io i s) = config s"
  by (simp add: start_result_def)

lemma start_result_bounded:
  "restarts_bounded s \<Longrightarrow> sv_state s = SERVICE_STATE_PENDING \<Longrightarrow> restarts_bounded (start_result io i s)"
  by (auto simp: restarts_bounded_def start_result_def)

definition sup_inv :: "supervisor \<Rightarrow> bool" where
  "sup_inv sv \<longleftrightarrow> sup_ok sv \<and> list_all restarts_bounded (sup_services sv)"

lemma sup_invI:
  assumes "sup_ok sv" and "length (sup_services sv') = length (sup_services sv)"
    and "sup_graph sv' = sup_graph sv"
    and "\<And>i. i < length (sup_services sv) \<Longrightarrow>
      config (sup_services sv' ! i) = config (sup_services sv ! i) \<and> restarts_bounded (sup_services sv' ! i)"
  shows "sup_inv sv'"
proof -
  have "same_config (sup_services sv') (sup_services sv)" using assms by (simp add: same_config_nth)
  with assms show ?thesis by (auto simp: sup_inv_def list_all_length intro: sup_ok_config)
qed

lemma sup_inv_upd:
  assumes "sup_inv sv" and "i < length (sup_services sv)" and "config (f (sup_services sv ! i)) = config (sup_services sv ! i)"
    and "restarts_bounded (f (sup_services sv ! i))"
  shows "sup_inv (upd_service i f sv)"
  using assms by (intro sup_invI [of sv]) (auto simp: sup_inv_def list_all_length)

lemma pump_inv: "sup_inv sv \<Longrightarrow> sup_inv (supervisor_pump io sv)"
proof (cases "sup_services sv = []")
  case True
  assume inv: "sup_inv sv"
  then obtain sv1 where "supervisor_pump io sv = sv1 \<or> supervisor_pump io sv = foldl (start_service io) sv1 []"
    "length (sup_services sv1) = 0" "sup_graph sv1 = sup_graph sv"
    using pump_unfold [of sv io] True by (auto simp: sup_inv_def)
  then have "sup_services (supervisor_pump io sv) = []" "sup_graph (supervisor_pump io sv) = sup_graph sv" by auto
  with True inv show ?thesis by (intro sup_invI [of sv]) (auto simp: sup_inv_def)
next
  case False
  assume inv: "sup_inv sv"
  then have ok: "sup_ok sv" by (simp add: sup_inv_def)
  from False have 0: "0 < length (sup_services sv)" by simp
  note p = pump_cases [OF ok]
  show ?thesis
  proof (rule sup_invI [OF ok])
    show "length (sup_services (supervisor_pump io sv)) = length (sup_services sv)"
      "sup_graph (supervisor_pump io sv) = sup_graph sv"
      using p(1,2) [OF 0] by simp_all
    fix i assume i: "i < length (sup_services sv)"
    with inv have "restarts_bounded (sup_services sv ! i)" by (simp add: sup_inv_def list_all_length)
    with p(3) [OF i, of io] start_result_bounded [of "sup_services sv ! i" io i]
    show "config (sup_services (supervisor_pump io sv) ! i) = config (sup_services sv ! i) \<and>
        restarts_bounded (sup_services (supervisor_pump io sv) ! i)"
      by (elim disjE conjE) (simp_all add: may_start_def, simp_all add: restarts_bounded_def)
  qed
qed

lemma start_one_inv:
  assumes "sup_inv sv" and "supervisor_start_one io name sv = (sv', rc)"
  shows "sup_inv sv'"
proof -
  have "sup_inv (supervisor_pump io (upd_service i (\<lambda>s. s\<lparr>sv_state := SERVICE_STATE_PENDING,
      sv_restart_count := 0, sv_scheduled_start_ms := 0\<rparr>) sv))"
    if "service_find (sup_services sv) name = Some i" for i
    using assms(1) service_find_Some [OF that]
    by (intro pump_inv sup_inv_upd) (auto simp: restarts_bounded_def)
  with assms show ?thesis
    by (auto simp: supervisor_start_one_def Let_def split: option.splits if_splits)
qed

lemma stop_one_inv:
  assumes inv: "sup_inv sv" and stop: "supervisor_stop_one io name sv = Some (sv', kills)"
  shows "sup_inv sv'"
proof (cases "service_find (sup_services sv) name")
  case None
  with assms show ?thesis by (simp add: supervisor_stop_one_def)
next
  case (Some i)
  with service_find_Some have i: "i < length (sup_services sv)" by blast
  let ?f = "\<lambda>s. s\<lparr>sv_state := SERVICE_STATE_STOPPED, sv_pid := 0\<rparr>"
  show ?thesis
  proof (cases "sv_pid (sup_services sv ! i) \<le> 0")
    case True
    with Some assms show ?thesis by (simp add: supervisor_stop_one_def Let_def)
  next
    case False
    with Some stop have sv': "sv' = upd_service i ?f sv"
      by (auto simp: supervisor_stop_one_def Let_def)
    have "restarts_bounded (sup_services sv ! i)" using inv i by (simp add: sup_inv_def list_all_length)
    with False have "restarts_bounded (?f (sup_services sv ! i))" by (auto simp: restarts_bounded_def)
    with sv' inv i show ?thesis by (auto intro!: sup_inv_upd)
  qed
qed

lemma service_on_exit_facts:
  "config (service_on_exit code sig t1 t2 s) = config s"
  "sv_pid (service_on_exit code sig t1 t2 s) = 0"
  "restarts_bounded s \<Longrightarrow> sv_pid s > 0 \<Longrightarrow> restarts_bounded (service_on_exit code sig t1 t2 s)"
  by (auto simp: service_on_exit_def Let_def restarts_bounded_def)

lemma reaper_inv:
  assumes "sup_inv sv"
  shows "sup_inv (reaper_on_exit pid code sig t1 t2 sv)"
proof (cases "service_find_by_pid (sup_services sv) pid")
  case None
  with assms show ?thesis by (simp add: reaper_on_exit_def)
next
  case (Some i)
  from service_find_by_pid_Some [OF this] assms
  have "sup_inv (upd_service i (service_on_exit code sig t1 t2) sv)"
    by (intro sup_inv_upd) (auto simp: sup_inv_def list_all_length service_on_exit_facts)
  with Some show ?thesis by (simp add: reaper_on_exit_def)
qed

lemma signal_ready_inv: "sup_inv sv \<Longrightarrow> sup_inv (supervisor_signal_ready pid sv)"
  by (auto simp: supervisor_signal_ready_def sup_inv_def sup_ok_def split: option.splits)

section \<open>Runs of the supervisor\<close>

text \<open>
  The steps the event loop of \<open>main.c\<close> and the control socket make: a pump, a readiness signal,
  the exit of a process, a manual start or stop, and a reload of the service directory.
\<close>

inductive sup_step :: "supervisor \<Rightarrow> supervisor \<Rightarrow> bool" where
  step_pump: "sup_step sv (supervisor_pump io sv)"
| step_signal: "sup_step sv (supervisor_signal_ready pid sv)"
| step_exit: "sup_step sv (reaper_on_exit pid code sig t1 t2 sv)"
| step_start: "supervisor_start_one io name sv = (sv', rc) \<Longrightarrow> sup_step sv sv'"
| step_stop: "supervisor_stop_one sio name sv = Some (sv', kills) \<Longrightarrow> sup_step sv sv'"
| step_reload:
    "service_load_all dir (sup_services sv) = Some (tbl, rc) \<Longrightarrow>
     depgraph_build tbl = Some ((g, tbl'), rc') \<Longrightarrow>
     sup_step sv (sv\<lparr>sup_services := tbl', sup_graph := g\<rparr>)"

inductive sup_run :: "supervisor \<Rightarrow> bool" where
  run_boot:
    "service_load_all (Some ents) [] = Some (tbl, rc) \<Longrightarrow>
     depgraph_build tbl = Some ((g, tbl'), 0) \<Longrightarrow>
     sup_run (supervisor_start_all io
       \<lparr>sup_services = tbl', sup_graph = g, sup_signal_ready = (\<lambda>i. False)\<rparr>)"
| run_step: "sup_run sv \<Longrightarrow> sup_step sv sv' \<Longrightarrow> sup_run sv'"

lemma load_all_fresh:
  assumes "service_load_all (Some ents) old = Some (tbl, rc)"
  shows "table_ok tbl" "list_all service_fresh tbl"
proof -
  from assms have "load_entries ents [] = Some tbl" by (auto simp: service_load_all_def)
  from load_entries_ok [OF this] show "table_ok tbl" "list_all service_fresh tbl"
    by (simp_all add: table_ok_def)
qed

text \<open>The records a fresh load and the graph construction leave.\<close>

lemma load_entries_deps:
  "load_entries ents tbl = Some t \<Longrightarrow> list_all (\<lambda>s. sv_dep_indices s = []) tbl \<Longrightarrow>
   list_all (\<lambda>s. sv_dep_indices s = []) t"
proof (induction ents tbl rule: load_entries.induct)
  case (2 name io ents tbl)
  have "sv_dep_indices svc = []" if "service_load_one io = Some (Inr svc)" for svc
  proof -
    have env: "sv_dep_indices (fst (enumerate_from es sec env_cb s n)) = sv_dep_indices s" for es sec s n
    proof (induction es arbitrary: s n)
      case (Cons e es)
      have "sv_dep_indices (env_cb k v s) = sv_dep_indices s" for k v
        by (simp add: env_cb_def split: toml_value.splits)
      with Cons show ?case by simp
    qed simp
    have "sv_dep_indices (load_deps d s) = sv_dep_indices s" "sv_dep_indices (load_args d s) = sv_dep_indices s"
      "sv_dep_indices (load_policies d s) = sv_dep_indices s" for d s
      by (auto simp: load_deps_def load_args_def load_policies_def Let_def split: option.splits)
    with env that show ?thesis
      by (auto simp: service_load_one_def service_of_doc_def toml_enumerate_section_def init_service_def Let_def
          split: option.splits sum.splits)
  qed
  with 2 show ?case by (auto split: if_splits option.splits sum.splits)
qed simp

lemma build_inv:
  assumes load: "service_load_all (Some ents) old = Some (tbl, rc)"
    and build: "depgraph_build tbl = Some ((g, tbl'), rc')"
  shows "sup_inv \<lparr>sup_services = tbl', sup_graph = g, sup_signal_ready = flags\<rparr>"
    "list_all service_fresh tbl'"
proof -
  note f = load_all_fresh [OF load]
  have "deps_valid tbl"
    using load load_entries_deps [of ents "[]" tbl]
    by (auto simp: service_load_all_def intro: deps_valid_empty)
  note b = depgraph_build_facts [OF f(1) this build]
  have len: "length tbl' = length tbl" using b(1) by (metis length_map)
  have at: "strip_deps (tbl' ! i) = strip_deps (tbl ! i)" if "i < length tbl" for i
    using b(1) that len by (metis nth_map)
  have fr: "service_fresh (tbl' ! i)" if "i < length tbl" for i
    using f(2) at [OF that] that
    by (cases "tbl' ! i"; cases "tbl ! i") (auto simp: service_fresh_def list_all_length dest!: spec [of _ i])
  then show fresh: "list_all service_fresh tbl'" using len by (simp add: list_all_length)
  have "sup_ok \<lparr>sup_services = tbl', sup_graph = g, sup_signal_ready = flags\<rparr>"
    using table_ok_strip [OF b(1) f(1) b(3)] b(2,3) by (simp add: sup_ok_def)
  with fresh show "sup_inv \<lparr>sup_services = tbl', sup_graph = g, sup_signal_ready = flags\<rparr>"
    by (auto simp: sup_inv_def service_fresh_def restarts_bounded_def list_all_iff)
qed

lemma reset_for_boot_facts:
  "config (reset_for_boot s) = config s"
  "service_fresh s \<Longrightarrow> restarts_bounded (reset_for_boot s)"
  by (auto simp: reset_for_boot_def service_fresh_def restarts_bounded_def Let_def)

lemma start_all_inv:
  assumes "sup_ok sv" and "list_all service_fresh (sup_services sv)"
  shows "sup_inv (supervisor_start_all io sv)"
  unfolding supervisor_start_all_def
  using assms
  by (intro pump_inv sup_invI [of sv]) (auto simp: reset_for_boot_facts list_all_length)

text \<open>A reload that cannot open the directory only rebuilds the graph.\<close>

lemma rebuild_inv:
  assumes "sup_inv sv" and "depgraph_build (sup_services sv) = Some ((g, tbl'), rc)"
  shows "sup_inv (sv\<lparr>sup_services := tbl', sup_graph := g\<rparr>)"
proof -
  from assms(1) have ok: "table_ok (sup_services sv)" "deps_valid (sup_services sv)"
    by (simp_all add: sup_inv_def sup_ok_def)
  note b = depgraph_build_facts [OF ok assms(2)]
  have len: "length tbl' = length (sup_services sv)" using b(1) by (metis length_map)
  have "restarts_bounded (tbl' ! i)" if "i < length tbl'" for i
  proof -
    from b(1) that len have "strip_deps (tbl' ! i) = strip_deps (sup_services sv ! i)" by (metis nth_map)
    moreover have "restarts_bounded (strip_deps s) = restarts_bounded s" for s
      by (simp add: restarts_bounded_def)
    moreover have "restarts_bounded (sup_services sv ! i)"
      using assms(1) that len by (simp add: sup_inv_def list_all_length)
    ultimately show ?thesis by metis
  qed
  with table_ok_strip [OF b(1) ok(1) b(3)] b(2,3) show ?thesis
    by (simp add: sup_inv_def sup_ok_def list_all_length)
qed

lemma sup_step_inv: "sup_step sv sv' \<Longrightarrow> sup_inv sv \<Longrightarrow> sup_inv sv'"
proof (induction rule: sup_step.induct)
  case (step_reload dir sv tbl rc g tbl' rc')
  show ?case
  proof (cases dir)
    case None
    with step_reload show ?thesis by (simp add: service_load_all_def rebuild_inv)
  next
    case (Some ents)
    with step_reload show ?thesis
      using build_inv(1) [of ents "sup_services sv" tbl rc g tbl' rc' "sup_signal_ready sv"]
      by (cases sv) simp
  qed
qed (auto intro: pump_inv signal_ready_inv reaper_inv start_one_inv stop_one_inv)

lemma sup_run_inv: "sup_run sv \<Longrightarrow> sup_inv sv"
proof (induction rule: sup_run.induct)
  case (run_boot ents tbl rc g tbl' io)
  show ?case
    using build_inv(1) [OF run_boot(1,2), of "\<lambda>i. False"] build_inv(2) [OF run_boot(1,2)]
    by (intro start_all_inv) (auto simp: sup_inv_def)
qed (auto intro: sup_step_inv)

section \<open>Properties of the supervisor\<close>

text \<open>
  C6: a pump starts only pending services whose restart delay is over, and only when every service
  they wait for is running (or given up as degraded) at the end of the pump as well; the process
  recorded is the one that was forked.
\<close>

theorem pump_starts_after_dependencies:
  assumes "sup_ok sv" and "i < length (sup_services sv)"
    and "sv_state (sup_services sv ! i) \<noteq> SERVICE_STATE_STARTING"
    and "sv_state (sup_services (supervisor_pump io sv) ! i) = SERVICE_STATE_STARTING"
  shows "sv_state (sup_services sv ! i) = SERVICE_STATE_PENDING \<and>
    sv_scheduled_start_ms (sup_services sv ! i) \<le> pm_now io \<and>
    sv_pid (sup_services (supervisor_pump io sv) ! i) = si_fork (pm_spawn io i) \<and>
    (\<forall>d \<in> set (sv_dep_indices (sup_services sv ! i)).
       sv_state (sup_services (supervisor_pump io sv) ! d) \<in>
         {SERVICE_STATE_RUNNING, SERVICE_STATE_DEGRADED})"
proof -
  let ?s = "sup_services sv ! i" and ?tbl = "sup_services (supervisor_pump io sv)"
  note p = pump_cases [OF assms(1,2), of io]
  from p(3) assms(3,4) have m: "may_start io ?tbl ?s" and r: "?tbl ! i = start_result io i ?s" by auto
  have "d < length ?tbl" if "d \<in> set (sv_dep_indices ?s)" for d
  proof -
    have "?s \<in> set (sup_services sv)" using assms(2) by simp
    with that assms(1) p(1) show ?thesis by (auto simp: sup_ok_def deps_valid_def list_all_iff)
  qed
  with m have "\<forall>d \<in> set (sv_dep_indices ?s). sv_state (?tbl ! d) \<in> {SERVICE_STATE_RUNNING, SERVICE_STATE_DEGRADED}"
    by (auto simp: may_start_def dep_satisfied_def list_all_iff)
  moreover have "sv_pid (?tbl ! i) = si_fork (pm_spawn io i)"
    using r assms(4) by (auto simp: start_result_def split: if_splits)
  ultimately show ?thesis using m by (simp add: may_start_def)
qed

text \<open>
  C3: in every state the supervisor can reach, by any interleaving of pumps, signals, process
  exits, manual starts and stops and reloads, the service table and the dependency graph are
  well formed, and no service has been restarted more often than its \<open>attempts\<close> allow since it was
  last started by hand: beyond them it is degraded and has no process.
\<close>

theorem supervisor_run_invariant:
  assumes "sup_run sv"
  shows "table_ok (sup_services sv) \<and> deps_valid (sup_services sv) \<and>
    graph_ok (sup_graph sv) (length (sup_services sv)) \<and> list_all restarts_bounded (sup_services sv)"
  using sup_run_inv [OF assms] by (simp add: sup_inv_def sup_ok_def)

lemma stop_wait_eq:
  assumes "timeout \<le> clock m - start" and "\<And>j. j < m \<Longrightarrow> clock j - start < timeout" and "k \<le> m"
  shows "stop_wait clock wait start timeout k = Some (\<exists>j. k \<le> j \<and> j < m \<and> wait j \<noteq> Wait_running)"
  using assms(3)
proof (induction "m - k" arbitrary: k)
  case 0
  with assms(1) show ?case by (subst stop_wait.simps) auto
next
  case (Suc d)
  then have k: "k < m" by simp
  have IH: "stop_wait clock wait start timeout (Suc k) =
      Some (\<exists>j. Suc k \<le> j \<and> j < m \<and> wait j \<noteq> Wait_running)"
    using Suc by (intro Suc.hyps(1)) simp_all
  have "(\<exists>j. k \<le> j \<and> j < m \<and> wait j \<noteq> Wait_running) \<longleftrightarrow>
      wait k \<noteq> Wait_running \<or> (\<exists>j. Suc k \<le> j \<and> j < m \<and> wait j \<noteq> Wait_running)"
    using k by (metis Suc_leD Suc_leI le_neq_implies_less order_refl)
  with IH assms(2) [OF k] show ?case
    by (subst stop_wait.simps) (auto split: wait_result.splits)
qed

lemma stop_one_eq:
  assumes "service_find (sup_services sv) name = Some i" and "0 < sv_pid (sup_services sv ! i)"
    and "\<exists>k. sv_stop_timeout_ms (sup_services sv ! i) \<le> st_clock io k - st_start io"
  shows "supervisor_stop_one io name sv = Some
    (upd_service i (\<lambda>s. s\<lparr>sv_state := SERVICE_STATE_STOPPED, sv_pid := 0\<rparr>) sv,
     (sv_pid (sup_services sv ! i), sv_stop_signal (sup_services sv ! i)) #
       (if \<forall>j < (LEAST k. sv_stop_timeout_ms (sup_services sv ! i) \<le> st_clock io k - st_start io).
             st_wait io j = Wait_running
        then [(sv_pid (sup_services sv ! i), SIGKILL)] else []))"
proof -
  let ?s = "sup_services sv ! i"
  let ?P = "\<lambda>k. sv_stop_timeout_ms ?s \<le> st_clock io k - st_start io"
  let ?m = "LEAST k. ?P k"
  have "?P ?m" using assms(3) by (rule LeastI_ex)
  moreover have "st_clock io j - st_start io < sv_stop_timeout_ms ?s" if "j < ?m" for j
    using not_less_Least [OF that] by simp
  ultimately have w: "stop_wait (st_clock io) (st_wait io) (st_start io) (sv_stop_timeout_ms ?s) 0 =
      Some (\<exists>j. 0 \<le> j \<and> j < ?m \<and> st_wait io j \<noteq> Wait_running)"
    by (intro stop_wait_eq) simp_all
  show ?thesis
    using assms(1,2) w by (auto simp: supervisor_stop_one_def Let_def)
qed

text \<open>
  C21: stopping a running service ends, as soon as the clock passes the stop timeout: the service is
  then stopped and has no process, its stop signal was sent to its process, and SIGKILL follows
  exactly when the process was still running at every poll before the timeout.
\<close>

theorem stop_one_stops:
  assumes "service_find (sup_services sv) name = Some i" and "0 < sv_pid (sup_services sv ! i)"
    and "\<exists>k. sv_stop_timeout_ms (sup_services sv ! i) \<le> st_clock io k - st_start io"
  shows "supervisor_stop_one io name sv = Some
    (upd_service i (\<lambda>s. s\<lparr>sv_state := SERVICE_STATE_STOPPED, sv_pid := 0\<rparr>) sv,
     (sv_pid (sup_services sv ! i), sv_stop_signal (sup_services sv ! i)) #
       (if \<forall>j < (LEAST k. sv_stop_timeout_ms (sup_services sv ! i) \<le> st_clock io k - st_start io).
             st_wait io j = Wait_running
        then [(sv_pid (sup_services sv ! i), SIGKILL)] else []))"
  using assms by (rule stop_one_eq)

text \<open>The identity changes of a child that reaches \<open>execve\<close>.\<close>

lemma drop_group_go:
  "drop_group io svc = (as, True) \<Longrightarrow>
   as = (if sv_run_group svc = [] then []
         else [Setgid (parse_gid (ci_group io) (sv_run_group svc)), Setgroups_none]) \<and>
   (sv_run_group svc \<noteq> [] \<longrightarrow> parse_gid (ci_group io) (sv_run_group svc) \<noteq> - 1 \<and>
      ci_setgid io (parse_gid (ci_group io) (sv_run_group svc)) \<and> ci_setgroups io)"
  by (auto simp: drop_group_def Let_def split: if_splits)

lemma drop_user_go:
  "drop_user io svc = (as, True) \<Longrightarrow>
   as = (if sv_run_user svc = [] then [] else [Setuid (parse_uid (ci_passwd io) (sv_run_user svc))]) \<and>
   (sv_run_user svc \<noteq> [] \<longrightarrow> parse_uid (ci_passwd io) (sv_run_user svc) \<noteq> - 1 \<and>
      ci_setuid io (parse_uid (ci_passwd io) (sv_run_user svc)))"
  by (auto simp: drop_user_def Let_def split: if_splits)

lemma drop_stop:
  "drop_group io svc = (as, False) \<Longrightarrow> Execve b a e \<notin> set as"
  "drop_user io svc = (as, False) \<Longrightarrow> Execve b a e \<notin> set as"
  by (auto simp: drop_group_def drop_user_def Let_def split: if_splits)

text \<open>
  C22: a child executes the service binary only after it has taken on the configured identity: the
  group is resolved and set and the supplementary groups are cleared, then the user is resolved
  and set, each call having succeeded, in this order, and nothing else comes between them and
  \<open>execve\<close> but the change of directory. With no group configured nothing is done about groups.
\<close>

theorem spawn_child_drops_privileges:
  assumes "Execve b a e \<in> set (spawn_child io svc)"
  shows "\<exists>post. spawn_child io svc =
      (if sv_run_group svc = [] then []
       else [Setgid (parse_gid (ci_group io) (sv_run_group svc)), Setgroups_none]) @
      (if sv_run_user svc = [] then [] else [Setuid (parse_uid (ci_passwd io) (sv_run_user svc))]) @
      (if sv_workdir svc = [] then [] else [Chdir (sv_workdir svc)]) @
      Execve (sv_binary svc) (child_argv svc) (child_envp svc) # post \<and>
    (sv_run_group svc \<noteq> [] \<longrightarrow> ci_setgroups io \<and> ci_setgid io (parse_gid (ci_group io) (sv_run_group svc)) \<and>
       parse_gid (ci_group io) (sv_run_group svc) \<noteq> - 1) \<and>
    (sv_run_user svc \<noteq> [] \<longrightarrow> ci_setuid io (parse_uid (ci_passwd io) (sv_run_user svc)) \<and>
       parse_uid (ci_passwd io) (sv_run_user svc) \<noteq> - 1)"
proof -
  obtain as1 ok1 as2 ok2 where g: "drop_group io svc = (as1, ok1)" and u: "drop_user io svc = (as2, ok2)"
    by (cases "drop_group io svc"; cases "drop_user io svc")
  have ok1
    using assms g drop_stop(1) by (auto simp: spawn_child_def split: bool.splits)
  moreover from this have ok2
    using assms g u drop_stop(2) [of io svc as2 b a e] drop_group_go [of io svc as1]
    by (auto simp: spawn_child_def split: bool.splits if_splits)
  ultimately show ?thesis
    using g u drop_group_go [of io svc as1] drop_user_go [of io svc as2]
    by (auto simp: spawn_child_def)
qed

section \<open>Boot progress\<close>

fun pumps :: "(nat \<Rightarrow> pump_io) \<Rightarrow> nat \<Rightarrow> supervisor \<Rightarrow> supervisor" where
  "pumps ios 0 sv = sv"
| "pumps ios (Suc k) sv = supervisor_pump (ios k) (pumps ios k sv)"

lemma pumps_add: "pumps ios (a + b) sv = pumps (\<lambda>k. ios (a + k)) b (pumps ios a sv)"
  by (induction b) simp_all

lemma pump_frame:
  assumes "sup_ok sv"
  shows "length (sup_services (supervisor_pump io sv)) = length (sup_services sv)"
    "sup_graph (supervisor_pump io sv) = sup_graph sv"
    "sup_signal_ready (supervisor_pump io sv) = sup_signal_ready sv"
proof -
  have p: "length (sup_services (foldl (poll_service io) sv is)) = length (sup_services sv) \<and>
      sup_graph (foldl (poll_service io) sv is) = sup_graph sv \<and>
      sup_signal_ready (foldl (poll_service io) sv is) = sup_signal_ready sv" for sv "is"
    by (induction "is" arbitrary: sv) simp_all
  have s: "length (sup_services (foldl (start_service io) sv is)) = length (sup_services sv) \<and>
      sup_graph (foldl (start_service io) sv is) = sup_graph sv \<and>
      sup_signal_ready (foldl (start_service io) sv is) = sup_signal_ready sv" for sv "is"
    by (induction "is" arbitrary: sv) simp_all
  show "length (sup_services (supervisor_pump io sv)) = length (sup_services sv)"
    "sup_graph (supervisor_pump io sv) = sup_graph sv"
    "sup_signal_ready (supervisor_pump io sv) = sup_signal_ready sv"
    by (simp_all add: supervisor_pump_def Let_def p s split: option.splits)
qed

lemma pump_config:
  assumes "sup_ok sv"
  shows "same_config (sup_services (supervisor_pump io sv)) (sup_services sv)"
  unfolding same_config_nth
proof (intro conjI allI impI)
  show "length (sup_services (supervisor_pump io sv)) = length (sup_services sv)"
    by (rule pump_frame [OF assms])
  fix i assume "i < length (sup_services (supervisor_pump io sv))"
  then have i: "i < length (sup_services sv)" by (simp add: pump_frame [OF assms])
  from pump_cases(3) [OF assms i, of io]
  show "config (sup_services (supervisor_pump io sv) ! i) = config (sup_services sv ! i)" by auto
qed

lemma pump_ok: "sup_ok sv \<Longrightarrow> sup_ok (supervisor_pump io sv)"
  using sup_ok_config [OF _ pump_config pump_frame(2)] by blast

text \<open>How many state changes a service has ahead of it before it is settled.\<close>

fun state_weight :: "service_state \<Rightarrow> nat" where
  "state_weight SERVICE_STATE_PENDING = 2"
| "state_weight SERVICE_STATE_STARTING = 1"
| "state_weight _ = 0"

abbreviation weight :: "service \<Rightarrow> nat" where
  "weight s \<equiv> state_weight (sv_state s)"

definition settled :: "service \<Rightarrow> bool" where
  "settled s \<longleftrightarrow> sv_state s = SERVICE_STATE_RUNNING \<or> sv_state s = SERVICE_STATE_DEGRADED"

text \<open>
  The progress of a set \<open>F\<close> of services that wait for each other only. The dependency graph is
  acyclic and has an edge for every dependency.
\<close>

definition total_weight :: "nat set \<Rightarrow> supervisor \<Rightarrow> nat" where
  "total_weight F sv = (\<Sum>i \<in> F. weight (sup_services sv ! i))"

definition booting :: "nat set \<Rightarrow> supervisor \<Rightarrow> bool" where
  "booting F sv \<longleftrightarrow> sup_ok sv \<and> acyclic (edges (sup_graph sv)) \<and> F \<subseteq> {..<length (sup_services sv)} \<and>
     (\<forall>i \<in> F. (weight (sup_services sv ! i) > 0 \<or> settled (sup_services sv ! i)) \<and>
        (\<forall>d \<in> set (sv_dep_indices (sup_services sv ! i)). d \<in> F \<and> dg_edge (sup_graph sv) d i))"

lemma booting_D:
  assumes "booting F sv"
  shows "sup_ok sv" "acyclic (edges (sup_graph sv))" "i \<in> F \<Longrightarrow> i < length (sup_services sv)" "finite F"
  using assms finite_subset [of F "{..<length (sup_services sv)}"] by (auto simp: booting_def)

lemma pump_weight:
  fixes io sv i
  assumes "sup_ok sv" and "i < length (sup_services sv)"
  defines "s' \<equiv> sup_services (supervisor_pump io sv) ! i"
  shows "weight s' \<le> weight (sup_services sv ! i)"
    "weight s' = weight (sup_services sv ! i) \<Longrightarrow> s' = sup_services sv ! i"
    "weight (sup_services sv ! i) > 0 \<or> settled (sup_services sv ! i) \<Longrightarrow> weight s' > 0 \<or> settled s'"
  using pump_cases(3) [OF assms(1,2), of io] start_result_state(1) [of io i "sup_services sv ! i"]
  by (auto simp: s'_def may_start_def settled_def)

lemma pump_booting:
  assumes b: "booting F sv"
  shows "booting F (supervisor_pump io sv)"
proof -
  note ok = booting_D(1) [OF b]
  have dep: "sv_dep_indices (sup_services (supervisor_pump io sv) ! i) = sv_dep_indices (sup_services sv ! i)"
    if "i < length (sup_services sv)" for i
    using pump_config [OF ok, of io] that by (intro config_fields(3)) (simp add: same_config_nth)
  with b show ?thesis
    using pump_frame [OF ok, of io] pump_ok [OF ok, of io] pump_weight(3) [OF ok, of _ io] booting_D(3) [OF b]
    unfolding booting_def by auto
qed

lemma pump_total_weight:
  assumes b: "booting F sv"
  shows "total_weight F (supervisor_pump io sv) \<le> total_weight F sv"
    "i \<in> F \<Longrightarrow> sup_services (supervisor_pump io sv) ! i \<noteq> sup_services sv ! i \<Longrightarrow>
     total_weight F (supervisor_pump io sv) < total_weight F sv"
proof -
  note pw = pump_weight(1,2) [OF booting_D(1) [OF b] booting_D(3) [OF b]]
  show "total_weight F (supervisor_pump io sv) \<le> total_weight F sv"
    unfolding total_weight_def using pw(1) by (rule sum_mono)
  show "total_weight F (supervisor_pump io sv) < total_weight F sv"
    if "i \<in> F" "sup_services (supervisor_pump io sv) ! i \<noteq> sup_services sv ! i"
  proof -
    have "weight (sup_services (supervisor_pump io sv) ! i) < weight (sup_services sv ! i)"
      using pw [OF that(1), of io] that(2) by linarith
    with pw(1) that(1) booting_D(4) [OF b] show ?thesis
      unfolding total_weight_def by (intro sum_strict_mono_ex1) auto
  qed
qed

text \<open>While a service is unsettled, a pump behind all timeouts and delays settles or starts one.\<close>

definition overdue :: "nat set \<Rightarrow> supervisor \<Rightarrow> int \<Rightarrow> bool" where
  "overdue F sv now \<longleftrightarrow>
     (\<forall>i \<in> F. sv_start_time_ms (sup_services sv ! i) + sv_ready_timeout_ms (sup_services sv ! i) \<le> now \<and>
        sv_scheduled_start_ms (sup_services sv ! i) \<le> now)"

lemma overdue_eventually:
  assumes "finite F" shows "\<exists>t. \<forall>now \<ge> t. overdue F sv now"
proof -
  let ?T = "(\<lambda>i. max (sv_start_time_ms (sup_services sv ! i) + sv_ready_timeout_ms (sup_services sv ! i))
      (sv_scheduled_start_ms (sup_services sv ! i))) ` F"
  have "overdue F sv now" if "Max (insert 0 ?T) \<le> now" for now
    using that assms by (auto simp: overdue_def)
  then show ?thesis by blast
qed

lemma pending_first:
  assumes b: "booting F sv" and j: "j \<in> F" "sv_state (sup_services sv ! j) = SERVICE_STATE_PENDING"
    and none: "\<forall>i \<in> F. sv_state (sup_services sv ! i) \<noteq> SERVICE_STATE_STARTING"
  shows "\<exists>m \<in> F. sv_state (sup_services sv ! m) = SERVICE_STATE_PENDING \<and>
    list_all (dep_satisfied (sup_services sv)) (sv_dep_indices (sup_services sv ! m))"
proof -
  let ?E = "edges (sup_graph sv)" and ?n = "length (sup_services sv)"
  let ?P = "{i \<in> F. sv_state (sup_services sv ! i) = SERVICE_STATE_PENDING}"
  have "finite ?E"
    using booting_D(1) [OF b] finite_subset [of ?E "{..<?n} \<times> {..<?n}"] by (simp add: sup_ok_def graph_ok_def)
  then have "wf ?E" using booting_D(2) [OF b] finite_acyclic_wf by blast
  with j obtain m where m: "m \<in> ?P" and min: "\<And>d. (d, m) \<in> ?E \<Longrightarrow> d \<notin> ?P"
    using wfE_min [of ?E j ?P] by blast
  have "dep_satisfied (sup_services sv) d" if "d \<in> set (sv_dep_indices (sup_services sv ! m))" for d
  proof -
    have d: "(d, m) \<in> ?E" "d \<in> F" using b m that by (auto simp: booting_def edges_def)
    then have "d \<notin> ?P" by (intro min)
    moreover have "weight (sup_services sv ! d) > 0 \<or> settled (sup_services sv ! d)"
      using b d(2) by (simp add: booting_def)
    ultimately show ?thesis
      using none d(2) by (cases "sv_state (sup_services sv ! d)") (auto simp: dep_satisfied_def settled_def)
  qed
  with m show ?thesis by (auto simp: list_all_iff)
qed

lemma booting_progress:
  assumes b: "booting F sv" and w: "total_weight F sv > 0" and late: "overdue F sv (pm_now io)"
  shows "total_weight F (supervisor_pump io sv) < total_weight F sv"
proof (cases "\<exists>i \<in> F. sv_state (sup_services sv ! i) = SERVICE_STATE_STARTING")
  case True
  then obtain i where i: "i \<in> F" and st: "sv_state (sup_services sv ! i) = SERVICE_STATE_STARTING" by blast
  have "sv_state (sup_services (supervisor_pump io sv) ! i) \<noteq> sv_state (sup_services sv ! i)"
    using pump_cases(4) [OF booting_D(1) [OF b] booting_D(3) [OF b i] st, of io] late i st by (simp add: overdue_def algebra_simps)
  then show ?thesis using pump_total_weight(2) [OF b i, of io] by force
next
  case False
  from w obtain j where j: "j \<in> F" "weight (sup_services sv ! j) > 0"
    unfolding total_weight_def by (metis not_gr_zero sum.neutral)
  with False have "sv_state (sup_services sv ! j) = SERVICE_STATE_PENDING"
    by (cases "sv_state (sup_services sv ! j)") auto
  with pending_first [OF b j(1)] False obtain m where m: "m \<in> F"
    "sv_state (sup_services sv ! m) = SERVICE_STATE_PENDING"
    "list_all (dep_satisfied (sup_services sv)) (sv_dep_indices (sup_services sv ! m))" by blast
  then have "may_start io (sup_services sv) (sup_services sv ! m)" using late by (simp add: may_start_def overdue_def)
  with pump_cases(5) [OF booting_D(1) [OF b] booting_D(3) [OF b m(1)]] booting_D(2) [OF b]
  have "sup_services (supervisor_pump io sv) ! m = start_result io m (sup_services sv ! m)" by blast
  moreover have "start_result io m (sup_services sv ! m) \<noteq> sup_services sv ! m"
    using start_result_state(1) [of io m "sup_services sv ! m"] m by auto
  ultimately show ?thesis using pump_total_weight(2) [OF b m(1), of io] by simp
qed

lemma pumps_booting:
  assumes "booting F sv"
  shows "booting F (pumps ios k sv)" "total_weight F (pumps ios k sv) \<le> total_weight F sv"
    "total_weight F (pumps ios k sv) = total_weight F sv \<Longrightarrow> i \<in> F \<Longrightarrow>
     sup_services (pumps ios k sv) ! i = sup_services sv ! i"
proof (induction k)
  case (Suc k)
  note p = pump_total_weight [OF Suc(1), where io = "ios k"]
  show "booting F (pumps ios (Suc k) sv)" using pump_booting [OF Suc(1)] by simp
  show "total_weight F (pumps ios (Suc k) sv) \<le> total_weight F sv" using p(1) Suc(2) by simp
  show "sup_services (pumps ios (Suc k) sv) ! i = sup_services sv ! i"
    if e: "total_weight F (pumps ios (Suc k) sv) = total_weight F sv" "i \<in> F"
  proof -
    from e p(1) Suc(2) have "total_weight F (pumps ios k sv) = total_weight F sv" by simp
    with Suc(3) e p(2) [of i] show ?thesis by fastforce
  qed
qed (use assms in simp_all)

definition clock_advances :: "(nat \<Rightarrow> pump_io) \<Rightarrow> bool" where
  "clock_advances ios \<longleftrightarrow> (\<forall>t. \<exists>k. \<forall>j \<ge> k. t \<le> pm_now (ios j))"

lemma clock_advances_shift: "clock_advances ios \<Longrightarrow> clock_advances (\<lambda>k. ios (a + k))"
  unfolding clock_advances_def by (meson le_add2 le_trans)

lemma booting_settles:
  "booting F sv \<Longrightarrow> clock_advances ios \<Longrightarrow> \<exists>k. total_weight F (pumps ios k sv) = 0"
proof (induction "total_weight F sv" arbitrary: sv ios rule: less_induct)
  case less
  note b = less.prems(1)
  show ?case
  proof (cases "total_weight F sv = 0")
    case True
    then show ?thesis by (intro exI [of _ 0]) simp
  next
    case False
    obtain t where t: "\<And>now. t \<le> now \<Longrightarrow> overdue F sv now"
      using overdue_eventually [OF booting_D(4) [OF b]] by blast
    obtain k where k: "t \<le> pm_now (ios k)" using less.prems(2) unfolding clock_advances_def by blast
    note bk = pumps_booting [OF b, of ios k]
    have "total_weight F (pumps ios (Suc k) sv) < total_weight F sv"
    proof (cases "total_weight F (pumps ios k sv) = total_weight F sv")
      case True
      then have "overdue F (pumps ios k sv) (pm_now (ios k))" using bk(3) t [OF k] by (simp add: overdue_def)
      with booting_progress [OF bk(1)] True False show ?thesis by simp
    next
      case False
      with bk(2) pump_total_weight(1) [OF bk(1), of "ios k"] show ?thesis by simp
    qed
    then obtain j where "total_weight F (pumps (\<lambda>i. ios (Suc k + i)) j (pumps ios (Suc k) sv)) = 0"
      using less.hyps [of "pumps ios (Suc k) sv" "\<lambda>i. ios (Suc k + i)"] pumps_booting(1) [OF b]
        clock_advances_shift [OF less.prems(2)] by blast
    then show ?thesis by (metis pumps_add)
  qed
qed

lemma booting_settled:
  assumes "booting F sv" "total_weight F sv = 0" "i \<in> F"
  shows "settled (sup_services sv ! i)"
proof -
  have "weight (sup_services sv ! i) = 0" using assms(2,3) booting_D(4) [OF assms(1)] by (simp add: total_weight_def)
  with assms(1,3) show ?thesis by (auto simp: booting_def)
qed

text \<open>
  The services that a boot holds back: those that wait, directly or through others, for one that is
  stopped. Pumps leave the stopped services and those behind them as they are.
\<close>

definition waits_for :: "service list \<Rightarrow> (nat \<times> nat) set" where
  "waits_for tbl = {(d, i). i < length tbl \<and> d < length tbl \<and> d \<in> set (sv_dep_indices (tbl ! i))}"

definition held_back :: "service list \<Rightarrow> nat \<Rightarrow> bool" where
  "held_back tbl i \<longleftrightarrow> (\<exists>c. sv_name (tbl ! c) = ''lgp-compositor'' \<and> (c, i) \<in> (waits_for tbl)\<^sup>+)"

definition holding :: "service list \<Rightarrow> supervisor \<Rightarrow> bool" where
  "holding tbl sv \<longleftrightarrow> sup_ok sv \<and> length (sup_services sv) = length tbl \<and>
     (\<forall>i < length tbl. sv_dep_indices (sup_services sv ! i) = sv_dep_indices (tbl ! i) \<and>
        (if sv_name (tbl ! i) = ''lgp-compositor'' then sv_state (sup_services sv ! i) = SERVICE_STATE_STOPPED
         else (held_back tbl i \<longrightarrow> sv_state (sup_services sv ! i) = SERVICE_STATE_PENDING) \<and>
              sv_state (sup_services sv ! i) \<noteq> SERVICE_STATE_STOPPED))"

lemma unsatisfied_stays:
  assumes "sup_ok sv" "i < length (sup_services sv)" "sv_state (sup_services sv ! i) \<noteq> SERVICE_STATE_STARTING"
    and "d \<in> set (sv_dep_indices (sup_services sv ! i))" "\<not> dep_satisfied (sup_services (supervisor_pump io sv)) d"
  shows "sup_services (supervisor_pump io sv) ! i = sup_services sv ! i"
  using pump_cases(3) [OF assms(1,2), of io] assms(3-5) by (auto simp: may_start_def list_all_iff)

lemma pump_holding:
  assumes h: "holding tbl sv"
  shows "holding tbl (supervisor_pump io sv)"
proof -
  let ?t = "sup_services (supervisor_pump io sv)" and ?s = "sup_services sv"
  have ok: "sup_ok sv" and len: "length ?s = length tbl" using h by (simp_all add: holding_def)
  have dep: "sv_dep_indices (?t ! i) = sv_dep_indices (?s ! i)" if "i < length tbl" for i
    using pump_config [OF ok, of io] that len by (intro config_fields(3)) (simp add: same_config_nth)
  have comp: "?t ! c = ?s ! c" if "c < length tbl" "sv_name (tbl ! c) = ''lgp-compositor''" for c
    using pump_cases(3) [OF ok, of c io] that h len by (auto simp: holding_def may_start_def)
  have step: "?t ! i = ?s ! i" if "(d, i) \<in> waits_for tbl" "?t ! d = ?s ! d"
      "sv_state (?s ! d) \<in> {SERVICE_STATE_STOPPED, SERVICE_STATE_PENDING}"
      "sv_state (?s ! i) \<in> {SERVICE_STATE_STOPPED, SERVICE_STATE_PENDING}" for d i
    using that h len pump_frame(1) [OF ok, of io]
    by (intro unsatisfied_stays [OF ok, of _ d]) (auto simp: waits_for_def holding_def dep_satisfied_def)
  have st: "sv_state (?s ! i) \<in> {SERVICE_STATE_STOPPED, SERVICE_STATE_PENDING}"
    if "held_back tbl i \<or> sv_name (tbl ! i) = ''lgp-compositor''" "i < length tbl" for i
    using h that by (auto simp: holding_def split: if_splits)
  have held: "?t ! i = ?s ! i" if "(c, i) \<in> (waits_for tbl)\<^sup>+" "sv_name (tbl ! c) = ''lgp-compositor''" for c i
    using that(1)
  proof (induction rule: trancl_induct)
    case (base i)
    with that(2) comp [of c] st [of c] st [of i] step [of c i] show ?case
      by (auto simp: held_back_def waits_for_def)
  next
    case (step i j)
    have "held_back tbl i" "held_back tbl j" using step.hyps that(2) unfolding held_back_def by (meson trancl.simps)+
    with step.hyps(2) step.IH st [of i] st [of j] show ?case
      by (intro \<open>\<And>d i. \<lbrakk>(d, i) \<in> waits_for tbl; ?t ! d = ?s ! d;
        sv_state (?s ! d) \<in> {SERVICE_STATE_STOPPED, SERVICE_STATE_PENDING};
        sv_state (?s ! i) \<in> {SERVICE_STATE_STOPPED, SERVICE_STATE_PENDING}\<rbrakk> \<Longrightarrow> ?t ! i = ?s ! i\<close> [of i j])
        (auto simp: waits_for_def)
  qed
  have "sv_state (?t ! i) \<noteq> SERVICE_STATE_STOPPED" if "i < length tbl" "sv_state (?s ! i) \<noteq> SERVICE_STATE_STOPPED" for i
    using pump_cases(3) [OF ok, of i io] that len start_result_state(1) [of io i "?s ! i"] by auto
  moreover have "?t ! i = ?s ! i" if "i < length tbl" "held_back tbl i" for i
    using that held by (auto simp: held_back_def)
  ultimately show ?thesis
    using h comp dep pump_ok [OF ok, of io] pump_frame(1) [OF ok, of io] len
    unfolding holding_def by (auto split: if_splits)
qed

lemma pumps_holding: "holding tbl sv \<Longrightarrow> holding tbl (pumps ios k sv)"
  by (induction k) (simp_all add: pump_holding)

text \<open>The state after a successful load of a directory.\<close>

lemma resolved_deps_precede:
  assumes "list_all few_deps tbl" and "i < length tbl" and "refs_resolve tbl i"
    and "d \<in> set (resolved_deps tbl i)"
  shows "must_precede tbl d i"
proof -
  from assms(4) obtain r where r: "r \<in> set (after_slots (tbl ! i))" "d = the (service_find tbl (the r))"
    by (auto simp: resolved_deps_def dest!: in_set_takeD)
  have "few_deps (tbl ! i)" using assms(1,2) by (simp add: list_all_length)
  then have "None \<notin> set (after_slots (tbl ! i))" using few_deps_slots by blast
  with r(1) have "r \<noteq> None" by metis
  then obtain name where n: "r = Some name" by auto
  with r(1) assms(3) have "service_find tbl name \<noteq> None" by (auto simp: refs_resolve_find)
  with r(2) n have "service_find tbl name = Some d" by auto
  from service_find_Some [OF this] r(1) n assms(2) show ?thesis by (auto simp: must_precede_def)
qed

lemma boot_start:
  assumes load: "service_load_all (Some ents) [] = Some (tbl, rc)" and few: "list_all few_deps tbl"
    and build: "depgraph_build tbl = Some ((g, tbl'), 0)"
  defines "sv \<equiv> \<lparr>sup_services = map reset_for_boot tbl', sup_graph = g, sup_signal_ready = (\<lambda>i. False)\<rparr>"
  shows "sup_ok sv" "acyclic (edges g)" "length tbl' = length tbl"
    "i < length tbl \<Longrightarrow> sv_state (sup_services sv ! i) =
       (if sv_name (tbl' ! i) = ''lgp-compositor'' then SERVICE_STATE_STOPPED else SERVICE_STATE_PENDING)"
    "i < length tbl \<Longrightarrow> sv_dep_indices (sup_services sv ! i) = sv_dep_indices (tbl' ! i)"
    "i < length tbl \<Longrightarrow> d \<in> set (sv_dep_indices (tbl' ! i)) \<Longrightarrow> dg_edge g d i \<and> d < length tbl"
proof -
  note fr = load_all_fresh [OF load]
  have dv: "deps_valid tbl"
    using load load_entries_deps [of ents "[]" tbl]
    by (auto simp: service_load_all_def intro: deps_valid_empty)
  note b = depgraph_build_facts [OF fr(1) dv build]
  show len: "length tbl' = length tbl" using b(1) by (metis length_map)
  show ok: "sup_ok sv"
    unfolding sv_def using build_inv(1) [OF load build, of "\<lambda>i. False"] reset_for_boot_facts(1)
    by (auto simp: sup_inv_def intro!: sup_ok_config [of "\<lparr>sup_services = tbl', sup_graph = g, sup_signal_ready = (\<lambda>i. False)\<rparr>"]
        simp: same_config_nth)
  show "acyclic (edges g)" using b(4,5) by simp
  show "sv_state (sup_services sv ! i) =
      (if sv_name (tbl' ! i) = ''lgp-compositor'' then SERVICE_STATE_STOPPED else SERVICE_STATE_PENDING)" if "i < length tbl"
    using build_inv(2) [OF load build] that len
    by (auto simp: sv_def reset_for_boot_def service_fresh_def list_all_length Let_def)
  show dep: "sv_dep_indices (sup_services sv ! i) = sv_dep_indices (tbl' ! i)" if "i < length tbl"
    using config_fields(3) [OF reset_for_boot_facts(1)] that len by (simp add: sv_def)
  show "dg_edge g d i \<and> d < length tbl" if "i < length tbl" "d \<in> set (sv_dep_indices (tbl' ! i))"
  proof -
    have "refs_resolve tbl i" using b(4) that(1) by (simp add: list_all_iff)
    then have "must_precede tbl d i" using resolved_deps_precede [OF few that(1)] that(2) b(6) [OF refl that(1)] by simp
    with b(5) have "dg_edge g d i" by (auto simp: edges_def)
    with ok len show ?thesis by (auto simp: sup_ok_def graph_ok_def edges_def sv_def)
  qed
qed

lemma boot_state:
  fixes io :: pump_io
  assumes load: "service_load_all (Some ents) [] = Some (tbl, rc)" and few: "list_all few_deps tbl"
    and build: "depgraph_build tbl = Some ((g, tbl'), 0)"
  defines "sv \<equiv> supervisor_start_all io \<lparr>sup_services = tbl', sup_graph = g, sup_signal_ready = (\<lambda>i. False)\<rparr>"
    and "F \<equiv> {i. i < length tbl' \<and> sv_name (tbl' ! i) \<noteq> ''lgp-compositor'' \<and> \<not> held_back tbl' i}"
  shows "holding tbl' sv" "booting F sv"
proof -
  let ?sv = "\<lparr>sup_services = map reset_for_boot tbl', sup_graph = g, sup_signal_ready = (\<lambda>i. False)\<rparr>"
  note s = boot_start [OF load few build]
  have "holding tbl' ?sv" using s(1,3-5) unfolding holding_def by auto
  then show "holding tbl' sv" by (simp add: sv_def supervisor_start_all_def pump_holding)
  have "d \<in> F" if "i \<in> F" "d \<in> set (sv_dep_indices (tbl' ! i))" for i d
  proof -
    have w: "(d, i) \<in> waits_for tbl'" using that s(3,6) by (auto simp: F_def waits_for_def)
    have "sv_name (tbl' ! d) \<noteq> ''lgp-compositor''" using that(1) w by (auto simp: F_def held_back_def)
    moreover have "\<not> held_back tbl' d" using that(1) w by (auto simp: F_def held_back_def) (meson trancl.simps)
    ultimately show ?thesis using w by (auto simp: F_def waits_for_def)
  qed
  moreover have "weight (sup_services ?sv ! i) > 0" if "i \<in> F" for i
    using that s(3) s(4) [of i] by (simp add: F_def)
  moreover have "sv_dep_indices (sup_services ?sv ! i) = sv_dep_indices (tbl' ! i)"
    "d \<in> set (sv_dep_indices (tbl' ! i)) \<Longrightarrow> dg_edge g d i" if "i \<in> F" for i d
    using that s(3) s(5) [of i] s(6) [of i d] by (simp_all add: F_def)
  moreover have "F \<subseteq> {..<length (sup_services ?sv)}" by (auto simp: F_def)
  ultimately have "booting F ?sv" using s(1,2) unfolding booting_def by simp
  then show "booting F sv" by (simp add: sv_def supervisor_start_all_def pump_booting)
qed

text \<open>
  C20: what a boot reaches. For every service directory that passes the dependency check, with at
  most eight dependencies per list, whatever the probes, forks and binaries answer, if the
  supervisor is pumped again and again while the clock advances and no process exits: after
  finitely many pumps every service that is not lgp-compositor and does not wait for it, directly
  or through others, is running or degraded; lgp-compositor itself is still stopped and the
  services behind it are pending. If those behind it all wait for it directly, as in the services
  shipped with the system, \<open>supervisor_is_boot_complete\<close> holds then.
\<close>

theorem boot_completes:
  assumes "service_load_all (Some ents) [] = Some (tbl, rc)" and "list_all few_deps tbl"
    and "depgraph_build tbl = Some ((g, tbl'), 0)" and "clock_advances ios"
  shows "\<exists>k. let sv = pumps ios k (supervisor_start_all io
      \<lparr>sup_services = tbl', sup_graph = g, sup_signal_ready = (\<lambda>i. False)\<rparr>)
    in (\<forall>i < length tbl'.
          if sv_name (tbl' ! i) = ''lgp-compositor'' then sv_state (sup_services sv ! i) = SERVICE_STATE_STOPPED
          else if held_back tbl' i then sv_state (sup_services sv ! i) = SERVICE_STATE_PENDING
          else settled (sup_services sv ! i)) \<and>
       ((\<forall>i < length tbl'. held_back tbl' i \<longrightarrow>
           (\<exists>d \<in> set (sv_dep_indices (tbl' ! i)). d < length tbl' \<and> sv_name (tbl' ! d) = ''lgp-compositor'')) \<longrightarrow>
        supervisor_is_boot_complete sv)"
proof -
  let ?F = "{i. i < length tbl' \<and> sv_name (tbl' ! i) \<noteq> ''lgp-compositor'' \<and> \<not> held_back tbl' i}"
  let ?sv = "supervisor_start_all io \<lparr>sup_services = tbl', sup_graph = g, sup_signal_ready = (\<lambda>i. False)\<rparr>"
  note b = boot_state [OF assms(1-3), where io = io]
  obtain k where k: "total_weight ?F (pumps ios k ?sv) = 0" using booting_settles [OF b(2) assms(4)] by blast
  note h = pumps_holding [OF b(1), of ios k]
  have "settled (sup_services (pumps ios k ?sv) ! i)" if "i \<in> ?F" for i
    using booting_settled [OF pumps_booting(1) [OF b(2)] k that] .
  then have st: "\<forall>i < length tbl'.
      if sv_name (tbl' ! i) = ''lgp-compositor'' then sv_state (sup_services (pumps ios k ?sv) ! i) = SERVICE_STATE_STOPPED
      else if held_back tbl' i then sv_state (sup_services (pumps ios k ?sv) ! i) = SERVICE_STATE_PENDING
      else settled (sup_services (pumps ios k ?sv) ! i)"
    using h by (auto simp: holding_def split: if_splits)
  have "supervisor_is_boot_complete (pumps ios k ?sv)"
    if "\<forall>i < length tbl'. held_back tbl' i \<longrightarrow>
      (\<exists>d \<in> set (sv_dep_indices (tbl' ! i)). d < length tbl' \<and> sv_name (tbl' ! d) = ''lgp-compositor'')"
    unfolding supervisor_is_boot_complete_def list_all_length
  proof (intro allI impI)
    let ?t = "sup_services (pumps ios k ?sv)"
    fix i assume i: "i < length ?t" and p: "sv_state (?t ! i) = SERVICE_STATE_PENDING \<or> sv_state (?t ! i) = SERVICE_STATE_STARTING"
    have l: "length ?t = length tbl'" "sv_dep_indices (?t ! i) = sv_dep_indices (tbl' ! i)"
      using h i by (simp_all add: holding_def)
    with i st p have "held_back tbl' i" by (auto simp: settled_def split: if_splits)
    with that i l obtain d where d: "d \<in> set (sv_dep_indices (tbl' ! i))" "d < length tbl'" "sv_name (tbl' ! d) = ''lgp-compositor''"
      by auto
    with st have "sv_state (?t ! d) = SERVICE_STATE_STOPPED" by auto
    with d l show "blocked_by_stopped ?t (?t ! i)" by (auto simp: blocked_by_stopped_def list_ex_iff)
  qed
  with st show ?thesis unfolding Let_def by blast
qed

text \<open>
  A service that waits for a service that itself waits for a stopped one keeps the boot from
  completing for ever: the exemption in \<open>supervisor_is_boot_complete\<close> looks at direct
  dependencies only, and pumps alone never start a service behind a stopped one.
\<close>

theorem boot_blocked_transitively:
  assumes "sup_ok sv" and "a < length (sup_services sv)" and "b < length (sup_services sv)"
    and "c < length (sup_services sv)"
    and "sv_state (sup_services sv ! a) = SERVICE_STATE_STOPPED"
    and "sv_state (sup_services sv ! b) = SERVICE_STATE_PENDING" and "a \<in> set (sv_dep_indices (sup_services sv ! b))"
    and "sv_state (sup_services sv ! c) = SERVICE_STATE_PENDING" and "sv_dep_indices (sup_services sv ! c) = [b]"
  shows "\<not> supervisor_is_boot_complete (pumps ios k sv)"
proof -
  have inv: "sup_ok (pumps ios k sv) \<and> length (sup_services (pumps ios k sv)) = length (sup_services sv) \<and>
    sup_services (pumps ios k sv) ! a = sup_services sv ! a \<and>
    sup_services (pumps ios k sv) ! b = sup_services sv ! b \<and>
    sup_services (pumps ios k sv) ! c = sup_services sv ! c"
  proof (induction k)
    case 0
    show ?case using assms(1) by simp
  next
    case (Suc k)
    let ?p = "pumps ios k sv" and ?q = "supervisor_pump (ios k) (pumps ios k sv)"
    have ok: "sup_ok ?p" and len: "length (sup_services ?p) = length (sup_services sv)" using Suc by simp_all
    note p = pump_cases(3) [OF ok, of _ "ios k", unfolded len]
    have a: "sup_services ?q ! a = sup_services sv ! a"
      using p [OF assms(2)] Suc assms(5) by (auto simp: may_start_def)
    have b: "sup_services ?q ! b = sup_services sv ! b"
      using p [OF assms(3)] Suc assms(6,7) a assms(2,5) pump_frame(1) [OF ok] len
      by (auto simp: may_start_def list_all_iff dep_satisfied_def)
    have "sup_services ?q ! c = sup_services sv ! c"
      using p [OF assms(4)] Suc assms(8,9) b assms(3,6) pump_frame(1) [OF ok] len
      by (auto simp: may_start_def list_all_iff dep_satisfied_def)
    with a b ok len pump_ok pump_frame(1) [OF ok] show ?case by simp
  qed
  then show ?thesis
    using assms(3,4,6,8,9)
    by (auto simp: supervisor_is_boot_complete_def list_all_length blocked_by_stopped_def)
qed

section \<open>Concrete runs\<close>

definition sample_probe :: probe_io where
  "sample_probe = \<lparr>pi_now = 0, pi_stat = (\<lambda>p. True), pi_unix_socket = True, pi_unix_connect = (\<lambda>p. True),
     pi_inet_pton = (\<lambda>h. True), pi_inet_socket = True, pi_inet_connect = (\<lambda>h p. Connect_ok),
     pi_select_write = True, pi_so_error = 0, pi_select_read = True, pi_recv = []\<rparr>"

definition sample_io :: "int \<Rightarrow> int \<Rightarrow> pump_io" where
  "sample_io now pid = \<lparr>pm_now = now, pm_probe = (\<lambda>i. sample_probe),
     pm_spawn = (\<lambda>i. \<lparr>si_binary_exists = (\<lambda>b. True), si_fork = pid + int i, si_now = now\<rparr>)\<rparr>"

definition sample_sup :: "service_state \<Rightarrow> service_state \<Rightarrow> supervisor" where
  "sample_sup st0 st1 =
     \<lparr>sup_services = [(sample_service ''b'' [''a''] 1)\<lparr>sv_dep_indices := [1], sv_state := st0\<rparr>,
                     (sample_service ''a'' [] 0)\<lparr>sv_state := st1\<rparr>],
      sup_graph = add_edge 1 0 empty_graph, sup_signal_ready = (\<lambda>i. False)\<rparr>"

lemmas supervisor_eval =
  sample_sup_def sample_io_def sample_probe_def supervisor_pump_def depgraph_topo_sort_def poll_service_def
  start_service_def spawn_service_def dep_satisfied_def upd_service_def depgraph_eval

lemma sample_sup_ok: "sup_ok (sample_sup st0 st1)"
  using graph_ok_add_edge [OF graph_ok_empty, of 1 2 0]
  by (simp add: sup_ok_def sample_sup_def table_ok_def service_ok_def deps_ok_def deps_valid_def
      sample_service_def init_service_def in_int32_def numeral_2_eq_2)

theorem pump_starts_after_dependencies_witness:
  "sv_scheduled_start_ms (sup_services (sample_sup SERVICE_STATE_PENDING SERVICE_STATE_STARTING) ! 0) \<le> 5 \<and>
   sv_pid (sup_services (supervisor_pump (sample_io 5 42)
     (sample_sup SERVICE_STATE_PENDING SERVICE_STATE_STARTING)) ! 0) = 42"
proof -
  let ?sv = "sample_sup SERVICE_STATE_PENDING SERVICE_STATE_STARTING" and ?io = "sample_io 5 42"
  have "0 < length (sup_services ?sv)" "sv_state (sup_services ?sv ! 0) \<noteq> SERVICE_STATE_STARTING"
    by (simp_all add: sample_sup_def sample_service_def)
  moreover have "sv_state (sup_services (supervisor_pump ?io ?sv) ! 0) = SERVICE_STATE_STARTING"
    by (simp add: supervisor_eval)
  ultimately show ?thesis
    using pump_starts_after_dependencies [OF sample_sup_ok, of 0 _ _ ?io] by (simp add: sample_io_def)
qed

definition solo :: service where
  "solo = init_service\<lparr>sv_name := ''log'', sv_binary := ''/bin/log'', sv_ready_method := READY_FILE\<rparr>"

definition solo_dir :: "(string \<times> file_io) list" where
  "solo_dir = [(''log.toml'', readable_file (render_doc [] (service_blocks solo)))]"

lemma solo_boot:
  "service_load_all (Some solo_dir) [] = Some ([solo], 1)"
  "depgraph_build [solo] = Some ((empty_graph, [solo]), 0)"
  "list_all few_deps [solo]" "list_all (\<lambda>s. sv_name s \<noteq> ''lgp-compositor'') [solo]"
proof -
  have "plain_doc [] (service_blocks solo)" by (simp add: solo_def print_eval)
  moreover have "service_ok solo" "few_deps solo" "no_runtime solo"
    by (simp_all add: solo_def init_service_def service_ok_def deps_ok_def few_deps_def no_runtime_def in_int32_def)
  ultimately have "service_load_one (readable_file (render_doc [] (service_blocks solo))) = Some (Inr solo)"
    by (simp add: service_load_one_printed service_of_doc_blocks)
  then show "service_load_all (Some solo_dir) [] = Some ([solo], 1)"
    by (simp add: service_load_all_def solo_dir_def is_toml_name_def)
  show "depgraph_build [solo] = Some ((empty_graph, [solo]), 0)"
  proof -
    have "\<not> depgraph_has_cycle empty_graph n" for n
      using depgraph_has_cycle_iff [OF graph_ok_empty] by (simp add: edges_def empty_graph_def acyclic_def)
    then show ?thesis
      by (simp add: depgraph_build_def after_slots_def before_slots_def solo_def init_service_def)
  qed
  show "list_all few_deps [solo]" "list_all (\<lambda>s. sv_name s \<noteq> ''lgp-compositor'') [solo]"
    by (simp_all add: solo_def few_deps_def init_service_def)
qed

abbreviation solo_sup :: supervisor where
  "solo_sup \<equiv> \<lparr>sup_services = [solo], sup_graph = empty_graph, sup_signal_ready = (\<lambda>i. False)\<rparr>"

theorem supervisor_run_invariant_witness:
  "list_all restarts_bounded (sup_services
     (reaper_on_exit 1 3 False 10 11 (supervisor_start_all (sample_io 0 1) solo_sup)))"
  using supervisor_run_invariant
    [OF sup_run.run_step [OF sup_run.run_boot [OF solo_boot(1,2)] sup_step.step_exit]] by blast

definition sample_stop :: stop_io where
  "sample_stop = \<lparr>st_start = 0, st_clock = (\<lambda>k. 20 * int k), st_wait = (\<lambda>k. if k < 3 then Wait_running else Wait_exited)\<rparr>"

theorem stop_one_stops_witness:
  "let sv = upd_service 1 (\<lambda>s. s\<lparr>sv_pid := 7\<rparr>) (sample_sup SERVICE_STATE_RUNNING SERVICE_STATE_RUNNING) in
   \<exists>kills. supervisor_stop_one sample_stop ''a'' sv =
     Some (upd_service 1 (\<lambda>s. s\<lparr>sv_state := SERVICE_STATE_STOPPED, sv_pid := 0\<rparr>) sv, kills)"
proof -
  let ?sv = "upd_service 1 (\<lambda>s. s\<lparr>sv_pid := 7\<rparr>) (sample_sup SERVICE_STATE_RUNNING SERVICE_STATE_RUNNING)"
  have "service_find (sup_services ?sv) ''a'' = Some 1" "0 < sv_pid (sup_services ?sv ! 1)"
    by (simp_all add: sample_sup_def sample_service_def service_find_def upd_service_def init_service_def)
  moreover have "sv_stop_timeout_ms (sup_services ?sv ! 1) \<le> st_clock sample_stop 150 - st_start sample_stop"
    by (simp add: sample_sup_def sample_service_def sample_stop_def upd_service_def init_service_def)
  ultimately show ?thesis
    unfolding Let_def using stop_one_stops [of ?sv "''a''" 1 sample_stop] by blast
qed

definition sample_child :: child_io where
  "sample_child = \<lparr>ci_passwd = Some (''luna:x:1000:1000::/:/bin/sh'' @ [LF]), ci_group = None,
     ci_setgid = (\<lambda>g. True), ci_setgroups = True, ci_setuid = (\<lambda>u. True), ci_execve = True\<rparr>"

theorem spawn_child_drops_privileges_witness:
  "parse_uid (ci_passwd sample_child) ''luna'' \<noteq> - 1 \<and>
   Setuid 1000 \<in> set (spawn_child sample_child ((sample_service ''a'' [] 0)\<lparr>sv_run_user := ''luna''\<rparr>))"
proof -
  let ?s = "(sample_service ''a'' [] 0)\<lparr>sv_run_user := ''luna''\<rparr>"
  have c: "spawn_child sample_child ?s = [Setuid 1000, Execve ''/bin/x'' (child_argv ?s) (child_envp ?s)]"
    by (simp add: spawn_child_def drop_group_def drop_user_def sample_child_def sample_service_def
        init_service_def parse_uid_def parse_id_def strtoll10_def isspace_def isdigit_def fgets_chunks.simps
        fgets_chunk_def cstr_def digits_val_def clamp_int64_def Let_def)
  then have "Execve ''/bin/x'' (child_argv ?s) (child_envp ?s) \<in> set (spawn_child sample_child ?s)" by simp
  from spawn_child_drops_privileges [OF this] c show ?thesis by (simp add: sample_service_def)
qed

text \<open>A compositor and a shell that waits for it.\<close>

definition compositor :: service where
  "compositor = init_service\<lparr>sv_name := ''lgp-compositor'', sv_binary := ''/bin/lgp''\<rparr>"

definition shell :: service where
  "shell = init_service\<lparr>sv_name := ''luna-shell'', sv_binary := ''/bin/sh'', sv_after := [''lgp-compositor''], sv_after_count := 1\<rparr>"

definition desktop :: "service list" where
  "desktop = [compositor, shell\<lparr>sv_dep_indices := [0]\<rparr>]"

definition desktop_dir :: "(string \<times> file_io) list" where
  "desktop_dir = [(''lgp.toml'', readable_file (render_doc [] (service_blocks compositor))),
     (''shell.toml'', readable_file (render_doc [] (service_blocks shell)))]"

lemma desktop_boot:
  "service_load_all (Some desktop_dir) [] = Some ([compositor, shell], 2)"
  "list_all few_deps [compositor, shell]"
  "depgraph_build [compositor, shell] = Some ((add_edge 0 1 empty_graph, desktop), 0)"
proof -
  have "plain_doc [] (service_blocks compositor)" "plain_doc [] (service_blocks shell)"
    by (simp_all add: compositor_def shell_def print_eval)
  moreover have "service_ok s" "few_deps s" "no_runtime s" if "s = compositor \<or> s = shell" for s
    using that by (auto simp: compositor_def shell_def init_service_def service_ok_def deps_ok_def few_deps_def
        no_runtime_def in_int32_def)
  ultimately have "service_load_one (readable_file (render_doc [] (service_blocks s))) = Some (Inr s)"
    if "s = compositor \<or> s = shell" for s
    using that by (auto simp: service_load_one_printed service_of_doc_blocks)
  then show "service_load_all (Some desktop_dir) [] = Some ([compositor, shell], 2)"
    by (simp add: service_load_all_def desktop_dir_def is_toml_name_def compositor_def shell_def)
  show "list_all few_deps [compositor, shell]" by (simp add: compositor_def shell_def few_deps_def init_service_def)
  show "depgraph_build [compositor, shell] = Some ((add_edge 0 1 empty_graph, desktop), 0)"
    by (simp add: compositor_def shell_def desktop_def init_service_def depgraph_eval)
qed

lemma desktop_held:
  "held_back desktop 1" "held_back desktop i \<Longrightarrow> i < length desktop \<Longrightarrow> 0 \<in> set (sv_dep_indices (desktop ! i))"
  "sv_name (desktop ! 0) = ''lgp-compositor''" "0 < length desktop"
proof -
  have w: "waits_for desktop = {(0, 1)}"
    by (auto simp: waits_for_def desktop_def compositor_def init_service_def less_Suc_eq)
  then show "held_back desktop 1"
    unfolding held_back_def by (intro exI [of _ 0]) (auto simp: desktop_def compositor_def)
  show "0 \<in> set (sv_dep_indices (desktop ! i))" if "held_back desktop i" "i < length desktop"
  proof -
    from that(1) obtain c where "(c, i) \<in> {(0, 1)}\<^sup>+" unfolding held_back_def w by blast
    then have "i = 1" by (blast dest: tranclD2)
    then show ?thesis by (simp add: desktop_def)
  qed
qed (simp_all add: desktop_def compositor_def)

theorem boot_completes_witness:
  "\<exists>k. let sv = pumps (\<lambda>k. sample_io (100 * int k) 50) k (supervisor_start_all (sample_io 0 1)
         \<lparr>sup_services = desktop, sup_graph = add_edge 0 1 empty_graph, sup_signal_ready = (\<lambda>i. False)\<rparr>)
     in supervisor_is_boot_complete sv \<and> sv_state (sup_services sv ! 1) = SERVICE_STATE_PENDING"
proof -
  let ?sv = "\<lambda>k. pumps (\<lambda>k. sample_io (100 * int k) 50) k (supervisor_start_all (sample_io 0 1)
      \<lparr>sup_services = desktop, sup_graph = add_edge 0 1 empty_graph, sup_signal_ready = (\<lambda>i. False)\<rparr>)"
  have "clock_advances (\<lambda>k. sample_io (100 * int k) 50)"
    unfolding clock_advances_def sample_io_def
  proof (intro allI exI impI)
    fix t j assume "nat t \<le> j"
    then show "t \<le> pm_now \<lparr>pm_now = 100 * int j, pm_probe = (\<lambda>i. sample_probe),
        pm_spawn = (\<lambda>i. \<lparr>si_binary_exists = (\<lambda>b. True), si_fork = 50 + int i, si_now = 100 * int j\<rparr>)\<rparr>"
      by simp
  qed
  note c = boot_completes [OF desktop_boot this, of "sample_io 0 1", unfolded Let_def]
  have "\<forall>i < length desktop. held_back desktop i \<longrightarrow>
      (\<exists>d \<in> set (sv_dep_indices (desktop ! i)). d < length desktop \<and> sv_name (desktop ! d) = ''lgp-compositor'')"
    using desktop_held(2-4) by blast
  moreover have "1 < length desktop" "sv_name (desktop ! 1) \<noteq> ''lgp-compositor''"
    by (simp_all add: desktop_def shell_def)
  ultimately have "\<exists>k. supervisor_is_boot_complete (?sv k) \<and> sv_state (sup_services (?sv k) ! 1) = SERVICE_STATE_PENDING"
    using c desktop_held(1) by metis
  then show ?thesis unfolding Let_def .
qed

definition blocked_sup :: supervisor where
  "blocked_sup = \<lparr>sup_services = [(sample_service ''lgp-compositor'' [] 0)\<lparr>sv_state := SERVICE_STATE_STOPPED\<rparr>,
      (sample_service ''shell'' [''lgp-compositor''] 1)\<lparr>sv_dep_indices := [0]\<rparr>,
      (sample_service ''panel'' [''shell''] 1)\<lparr>sv_dep_indices := [1]\<rparr>],
     sup_graph = add_edge 1 2 (add_edge 0 1 empty_graph), sup_signal_ready = (\<lambda>i. False)\<rparr>"

theorem boot_blocked_transitively_witness:
  "\<forall>k. \<not> supervisor_is_boot_complete (pumps (\<lambda>k. sample_io (100 * int k) 50) k blocked_sup)"
proof -
  have "graph_ok (add_edge 1 2 (add_edge 0 1 empty_graph)) 3"
    by (intro graph_ok_add_edge graph_ok_empty) simp_all
  then have "sup_ok blocked_sup"
    by (simp add: sup_ok_def blocked_sup_def table_ok_def service_ok_def deps_ok_def deps_valid_def
        sample_service_def init_service_def in_int32_def numeral_3_eq_3)
  from boot_blocked_transitively [OF this, of 0 1 2] show ?thesis
    by (simp add: blocked_sup_def sample_service_def init_service_def)
qed

text \<open>
  Starting by hand a service that is degraded because it was late, while its process still
  runs, forks a second process and forgets the first: no service of the table has the old
  process any more, so neither a stop nor the exit callback will ever reach it.
\<close>

theorem start_one_forgets_process:
  "let sv = upd_service 1 (\<lambda>s. s\<lparr>sv_pid := 7\<rparr>) (sample_sup SERVICE_STATE_PENDING SERVICE_STATE_DEGRADED);
       sv' = fst (supervisor_start_one (sample_io 5 42) ''a'' sv)
   in service_find_by_pid (sup_services sv) 7 = Some 1 \<and>
      sv_state (sup_services sv' ! 1) = SERVICE_STATE_STARTING \<and> sv_pid (sup_services sv' ! 1) = 43 \<and>
      service_find_by_pid (sup_services sv') 7 = None"
  by (simp add: supervisor_start_one_def service_find_by_pid_def supervisor_eval)

end
