(* ===== verification/Init_Control.thy ===== *)
theory Init_Control
  imports Supervisor
begin

text \<open>
  The rest of luna-init's control flow: the JSON control socket (\<open>ctl.c\<close>), signal dispatch
  (\<open>signal.c\<close>), the reaper (\<open>reaper.c\<close>), the shutdown sequence (\<open>shutdown.c\<close>) and the event loop of
  \<open>main.c\<close>. A handler returns the new supervisor state with everything it sends: the byte strings
  written to the client and the signals sent to processes. \<open>None\<close> is an access outside a buffer,
  or a stop that never ends.
\<close>

section \<open>JSON helpers\<close>

abbreviation (input) BUF_SIZE :: nat where "BUF_SIZE \<equiv> 4096"

text \<open>The loop of \<open>json_str_escape\<close>: \<open>out\<close> characters are written, the rest is still to be read.\<close>

fun json_escape_loop :: "nat \<Rightarrow> string \<Rightarrow> string \<Rightarrow> string" where
  "json_escape_loop dst_size [] out = out"
| "json_escape_loop dst_size (c # src) out =
     (if length out + 4 < dst_size
      then json_escape_loop dst_size src
             (if c = DQUOTE \<or> c = BSLASH then out @ [BSLASH, c] else out @ [c])
      else out)"

definition json_str_escape :: "nat \<Rightarrow> string \<Rightarrow> string" where
  "json_str_escape dst_size src = json_escape_loop dst_size src []"

definition json_get_field :: "string \<Rightarrow> string \<Rightarrow> nat \<Rightarrow> string option" where
  "json_get_field json field out_size =
     (let needle = bounded_copy 64 ([DQUOTE] @ field @ [DQUOTE] @ '':'') in
      case split_str needle json of
        None \<Rightarrow> None
      | Some (_, p) \<Rightarrow>
          (case dropWhile (\<lambda>c. c = CHR '' '') p of
             [] \<Rightarrow> None
           | c # q \<Rightarrow>
               if c \<noteq> DQUOTE then None
               else Some (take (out_size - 1) (takeWhile (\<lambda>c. c \<noteq> DQUOTE) q))))"

text \<open>A quoted string literal of the source, with backquotes for its double quotes.\<close>

definition jq :: "string \<Rightarrow> string" where
  "jq s = map (\<lambda>c. if c = CHR 0x60 then DQUOTE else c) s"

text \<open>\<open>write(fd, literal, n)\<close>: the literal is followed by its terminating NUL.\<close>

definition write_literal :: "string \<Rightarrow> nat \<Rightarrow> char list" where
  "write_literal lit n = take n (lit @ [NUL])"

section \<open>Command handlers\<close>

text \<open>
  \<open>len += snprintf(resp + len, sizeof(resp) - len, ...)\<close>: the length counts the whole text, only
  what fits is stored. Once the length is beyond the buffer the next call writes outside it.
\<close>

definition append_fmt :: "nat \<Rightarrow> string \<Rightarrow> string option \<Rightarrow> string option" where
  "append_fmt cap text acc =
     (case acc of None \<Rightarrow> None | Some resp \<Rightarrow> if length resp \<le> cap then Some (resp @ text) else None)"

definition list_entry :: "nat \<Rightarrow> service \<Rightarrow> string" where
  "list_entry i svc =
     (if i > 0 then '','' else []) @ jq ''{`name`:`'' @
     json_str_escape (SERVICE_MAX_NAME_LEN * 2) (sv_name svc) @ jq ''`,`state`:`'' @
     service_state_name (sv_state svc) @ jq ''`,`pid`:'' @ show_int (sv_pid svc) @ ''}''"

fun list_entries :: "nat \<Rightarrow> service list \<Rightarrow> string option \<Rightarrow> string option" where
  "list_entries i [] acc = acc"
| "list_entries i (svc # tbl) acc =
     list_entries (Suc i) tbl (append_fmt BUF_SIZE (list_entry i svc) acc)"

text \<open>
  The text before it is cut to the buffer; the final \<open>write\<close> sends \<open>len\<close> bytes of it, of a text that
  fills the buffer the last one as the terminating NUL.
\<close>

definition handle_list :: "service list \<Rightarrow> char list option" where
  "handle_list tbl =
     (case append_fmt BUF_SIZE (jq '']}'' @ [LF])
             (list_entries 0 tbl (append_fmt BUF_SIZE (jq ''{`ok`:true,`services`:['') (Some []))) of
        None \<Rightarrow> None
      | Some resp \<Rightarrow>
          if length resp < BUF_SIZE then Some resp
          else if length resp = BUF_SIZE then Some (take (BUF_SIZE - 1) resp @ [NUL]) else None)"

definition count_state :: "service_state \<Rightarrow> service list \<Rightarrow> nat" where
  "count_state st tbl = length (filter (\<lambda>s. sv_state s = st) tbl)"

definition handle_status :: "service list \<Rightarrow> string \<Rightarrow> char list" where
  "handle_status tbl name =
     (if name = [] then
        bounded_copy 256 (jq ''{`ok`:true,`running`:'' @ show_nat (count_state SERVICE_STATE_RUNNING tbl) @
          jq '',`degraded`:'' @ show_nat (count_state SERVICE_STATE_DEGRADED tbl) @
          jq '',`stopped`:'' @ show_nat (count_state SERVICE_STATE_STOPPED tbl) @ ''}'' @ [LF])
      else case service_find tbl name of
          None \<Rightarrow> bounded_copy 256 (jq ''{`ok`:false,`error`:`service not found`}'' @ [LF])
        | Some i \<Rightarrow>
            (let svc = tbl ! i in
             bounded_copy 512 (jq ''{`ok`:true,`name`:`'' @ sv_name svc @ jq ''`,`state`:`'' @
               service_state_name (sv_state svc) @ jq ''`,`pid`:'' @ show_int (sv_pid svc) @
               jq '',`restart_count`:'' @ show_int (sv_restart_count svc) @ ''}'' @ [LF])))"

text \<open>What the operations of one request need from the kernel.\<close>

record ctl_io =
  ctl_pump :: pump_io
  ctl_stop :: stop_io

text \<open>What a request does: state, bytes written, signals sent, and the shutdown it starts.\<close>

datatype shutdown_mode = SHUTDOWN_POWEROFF | SHUTDOWN_REBOOT

record ctl_effect =
  ce_sup :: supervisor
  ce_writes :: "char list list"
  ce_kills :: "(int \<times> int) list"
  ce_shutdown :: "shutdown_mode option"

definition reply :: "supervisor \<Rightarrow> char list \<Rightarrow> ctl_effect" where
  "reply sv bytes = \<lparr>ce_sup = sv, ce_writes = [bytes], ce_kills = [], ce_shutdown = None\<rparr>"

definition handle_start :: "ctl_io \<Rightarrow> string \<Rightarrow> supervisor \<Rightarrow> ctl_effect" where
  "handle_start io name sv =
     (if name = [] then reply sv (write_literal (jq ''{`ok`:false,`error`:`name required`}'' @ [LF]) 38)
      else case supervisor_start_one (ctl_pump io) name sv of
          (sv', rc) \<Rightarrow>
            if rc = 0 then reply sv' (write_literal (jq ''{`ok`:true}'' @ [LF]) 12)
            else reply sv' (bounded_copy 256 (jq ''{`ok`:false,`error`:`failed to start '' @ name @ jq ''`}'' @ [LF])))"

definition handle_stop :: "ctl_io \<Rightarrow> string \<Rightarrow> supervisor \<Rightarrow> ctl_effect option" where
  "handle_stop io name sv =
     (if name = [] then
        Some (reply sv (write_literal (jq ''{`ok`:false,`error`:`name required`}'' @ [LF]) 38))
      else map_option
        (\<lambda>(sv', kills). (reply sv' (write_literal (jq ''{`ok`:true}'' @ [LF]) 12))\<lparr>ce_kills := kills\<rparr>)
        (supervisor_stop_one (ctl_stop io) name sv))"

definition handle_reload :: "string \<Rightarrow> supervisor \<Rightarrow> ctl_effect" where
  "handle_reload name sv =
     (case service_find (sup_services sv) name of
        None \<Rightarrow> reply sv (write_literal (jq ''{`ok`:false,`error`:`service not running`}'' @ [LF]) 43)
      | Some i \<Rightarrow>
          (let svc = sup_services sv ! i in
           if sv_pid svc \<le> 0
           then reply sv (write_literal (jq ''{`ok`:false,`error`:`service not running`}'' @ [LF]) 43)
           else (reply sv (write_literal (jq ''{`ok`:true}'' @ [LF]) 12))\<lparr>ce_kills := [(sv_pid svc, SIGHUP)]\<rparr>))"

definition ctl_field :: "string \<Rightarrow> string \<Rightarrow> nat \<Rightarrow> string" where
  "ctl_field request field n = (case json_get_field request field n of None \<Rightarrow> [] | Some s \<Rightarrow> s)"

definition dispatch :: "ctl_io \<Rightarrow> string \<Rightarrow> supervisor \<Rightarrow> ctl_effect option" where
  "dispatch io request sv =
     (let cmd = ctl_field request ''cmd'' 64; name = ctl_field request ''name'' SERVICE_MAX_NAME_LEN in
      if cmd = ''list'' then map_option (reply sv) (handle_list (sup_services sv))
      else if cmd = ''status'' then Some (reply sv (handle_status (sup_services sv) name))
      else if cmd = ''start'' then Some (handle_start io name sv)
      else if cmd = ''stop'' then handle_stop io name sv
      else if cmd = ''reload'' then Some (handle_reload name sv)
      else if cmd = ''restart'' then
        map_option
          (\<lambda>e1. let e2 = handle_start io name (ce_sup e1) in
             e2\<lparr>ce_writes := ce_writes e1 @ ce_writes e2, ce_kills := ce_kills e1 @ ce_kills e2\<rparr>)
          (handle_stop io name sv)
      else if cmd = ''shutdown'' then
        Some ((reply sv (write_literal (jq ''{`ok`:true,`msg`:`shutting down`}'' @ [LF]) 34))
                \<lparr>ce_shutdown := Some SHUTDOWN_POWEROFF\<rparr>)
      else if cmd = ''reboot'' then
        Some ((reply sv (write_literal (jq ''{`ok`:true,`msg`:`rebooting`}'' @ [LF]) 30))
                \<lparr>ce_shutdown := Some SHUTDOWN_REBOOT\<rparr>)
      else Some (reply sv (bounded_copy 128 (jq ''{`ok`:false,`error`:`unknown command: '' @ cmd @ jq ''`}'' @ [LF]))))"

text \<open>
  \<open>ctl_server_accept\<close>: the bytes one \<open>read\<close> delivers (\<open>None\<close>: no client, or nothing read) are
  dispatched as a C string.
\<close>

definition ctl_server_accept ::
  "ctl_io \<Rightarrow> char list option \<Rightarrow> supervisor \<Rightarrow> ctl_effect option" where
  "ctl_server_accept io bytes sv =
     (case bytes of
        Some (b # bs) \<Rightarrow> dispatch io (cstr (take (BUF_SIZE - 1) (b # bs))) sv
      | _ \<Rightarrow> Some \<lparr>ce_sup = sv, ce_writes = [], ce_kills = [], ce_shutdown = None\<rparr>)"

section \<open>Signals and exits\<close>

datatype signal_action =
    SIGNAL_ACTION_NONE
  | SIGNAL_ACTION_REAP
  | SIGNAL_ACTION_SHUTDOWN
  | SIGNAL_ACTION_REBOOT
  | SIGNAL_ACTION_RELOAD
  | SIGNAL_ACTION_READY
  | SIGNAL_ACTION_DUMP

abbreviation (input) SIGINT :: int where "SIGINT \<equiv> 2"
abbreviation (input) SIGUSR1 :: int where "SIGUSR1 \<equiv> 10"
abbreviation (input) SIGUSR2 :: int where "SIGUSR2 \<equiv> 12"
abbreviation (input) SIGCHLD :: int where "SIGCHLD \<equiv> 17"

text \<open>A signal read from the descriptor is its number and sender; \<open>None\<close>: nothing complete.\<close>

definition signal_read :: "(int \<times> int) option \<Rightarrow> supervisor \<Rightarrow> signal_action \<times> supervisor" where
  "signal_read info sv =
     (case info of
        None \<Rightarrow> (SIGNAL_ACTION_NONE, sv)
      | Some (signo, pid) \<Rightarrow>
          if signo = SIGCHLD then (SIGNAL_ACTION_REAP, sv)
          else if signo = SIGTERM then (SIGNAL_ACTION_SHUTDOWN, sv)
          else if signo = SIGINT then (SIGNAL_ACTION_REBOOT, sv)
          else if signo = SIGHUP then (SIGNAL_ACTION_RELOAD, sv)
          else if signo = SIGUSR1 then (SIGNAL_ACTION_READY, supervisor_signal_ready pid sv)
          else if signo = SIGUSR2 then (SIGNAL_ACTION_DUMP, sv)
          else (SIGNAL_ACTION_NONE, sv))"

text \<open>What \<open>waitpid\<close> reports: a process, how it ended, and the clock readings of the callback.\<close>

datatype wait_status = WExited int | WSignaled int | WOther

fun reaper_reap_all :: "(int \<times> wait_status \<times> int \<times> int) list \<Rightarrow> supervisor \<Rightarrow> supervisor" where
  "reaper_reap_all [] sv = sv"
| "reaper_reap_all ((pid, st, t1, t2) # zs) sv =
     (if pid \<le> 0 then sv
      else reaper_reap_all zs
        (case st of
           WExited code \<Rightarrow> reaper_on_exit pid code False t1 t2 sv
         | WSignaled sig \<Rightarrow> reaper_on_exit pid sig True t1 t2 sv
         | WOther \<Rightarrow> sv))"

section \<open>Shutdown\<close>

text \<open>Step 1 of \<open>shutdown_run\<close>: the services are visited from the last index to the first.\<close>

fun stop_services ::
  "(nat \<Rightarrow> stop_io) \<Rightarrow> nat list \<Rightarrow> supervisor \<Rightarrow> (int \<times> int) list \<Rightarrow> (supervisor \<times> (int \<times> int) list) option" where
  "stop_services io [] sv kills = Some (sv, kills)"
| "stop_services io (i # is) sv kills =
     (let svc = sup_services sv ! i in
      if sv_state svc = SERVICE_STATE_RUNNING \<or> sv_state svc = SERVICE_STATE_STARTING
      then (case supervisor_stop_one (io i) (sv_name svc) sv of
              None \<Rightarrow> None
            | Some (sv', ks) \<Rightarrow> stop_services io is sv' (kills @ ks))
      else stop_services io is sv kills)"

definition shutdown_services ::
  "(nat \<Rightarrow> stop_io) \<Rightarrow> supervisor \<Rightarrow> (supervisor \<times> (int \<times> int) list) option" where
  "shutdown_services io sv = stop_services io (rev [0..<length (sup_services sv)]) sv []"

section \<open>The event loop of main.c\<close>

record init_state =
  in_sup :: supervisor
  in_boot_complete :: bool
  in_boot_notified :: bool
  in_splash_timer :: bool
  in_stage5_runs :: nat
  in_shutdown :: "shutdown_mode option"

datatype event =
    Ev_signal "(int \<times> int) option" "(int \<times> wait_status \<times> int \<times> int) list"
  | Ev_ctl ctl_io "char list option"
  | Ev_inotify
  | Ev_timer bool pump_io
  | Ev_splash pump_io pump_io
  | Ev_unknown

text \<open>
  What a reload finds (\<open>opendir\<close> and the files), whether a timer can be created for the splash
  delay, and the event.
\<close>

definition reload_services ::
  "(string \<times> file_io) list option \<Rightarrow> supervisor \<Rightarrow> supervisor option" where
  "reload_services dir sv =
     (case service_load_all dir (sup_services sv) of
        None \<Rightarrow> None
      | Some (tbl, _) \<Rightarrow>
          (case depgraph_build tbl of
             None \<Rightarrow> None
           | Some ((g, tbl'), _) \<Rightarrow> Some (sv\<lparr>sup_services := tbl', sup_graph := g\<rparr>)))"

definition handle_signal ::
  "(string \<times> file_io) list option \<Rightarrow> (int \<times> int) option \<Rightarrow> (int \<times> wait_status \<times> int \<times> int) list \<Rightarrow>
   init_state \<Rightarrow> init_state option" where
  "handle_signal dir info zs st =
     (case signal_read info (in_sup st) of
        (SIGNAL_ACTION_REAP, sv) \<Rightarrow> Some (st\<lparr>in_sup := reaper_reap_all zs sv\<rparr>)
      | (SIGNAL_ACTION_SHUTDOWN, sv) \<Rightarrow> Some (st\<lparr>in_sup := sv, in_shutdown := Some SHUTDOWN_POWEROFF\<rparr>)
      | (SIGNAL_ACTION_REBOOT, sv) \<Rightarrow> Some (st\<lparr>in_sup := sv, in_shutdown := Some SHUTDOWN_REBOOT\<rparr>)
      | (SIGNAL_ACTION_RELOAD, sv) \<Rightarrow> map_option (\<lambda>sv'. st\<lparr>in_sup := sv'\<rparr>) (reload_services dir sv)
      | (_, sv) \<Rightarrow> Some (st\<lparr>in_sup := sv\<rparr>))"

definition handle_splash :: "pump_io \<Rightarrow> pump_io \<Rightarrow> init_state \<Rightarrow> init_state" where
  "handle_splash io1 io2 st =
     (case supervisor_start_one io1 ''lgp-compositor'' (in_sup st) of
        (sv1, comp_result) \<Rightarrow>
          st\<lparr>in_splash_timer := False, in_stage5_runs := in_stage5_runs st + 1,
             in_sup := (if comp_result \<ge> 0 then fst (supervisor_start_one io2 ''luna-shell'' sv1) else sv1)\<rparr>)"

definition handle_event ::
  "(string \<times> file_io) list option \<Rightarrow> event \<Rightarrow> init_state \<Rightarrow> init_state option" where
  "handle_event dir ev st =
     (case ev of
        Ev_signal info zs \<Rightarrow> handle_signal dir info zs st
      | Ev_ctl io bytes \<Rightarrow>
          map_option (\<lambda>e. st\<lparr>in_sup := ce_sup e, in_shutdown := ce_shutdown e\<rparr>)
            (ctl_server_accept io bytes (in_sup st))
      | Ev_inotify \<Rightarrow> map_option (\<lambda>sv. st\<lparr>in_sup := sv\<rparr>) (reload_services dir (in_sup st))
      | Ev_timer ok io \<Rightarrow> Some (if ok then st\<lparr>in_sup := supervisor_pump io (in_sup st)\<rparr> else st)
      | Ev_splash io1 io2 \<Rightarrow> Some (if in_splash_timer st then handle_splash io1 io2 st else st)
      | Ev_unknown \<Rightarrow> Some st)"

text \<open>The events of one \<open>epoll_wait\<close>; \<open>shutdown_run\<close> does not return, so it ends the loop.\<close>

fun handle_events ::
  "(string \<times> file_io) list option \<Rightarrow> event list \<Rightarrow> init_state \<Rightarrow> init_state option" where
  "handle_events dir [] st = Some st"
| "handle_events dir (ev # evs) st =
     (case handle_event dir ev st of
        None \<Rightarrow> None
      | Some st' \<Rightarrow> if in_shutdown st' \<noteq> None then Some st' else handle_events dir evs st')"

text \<open>The check after the events; \<open>timer_ok\<close>: whether the splash timer could be created.\<close>

definition check_boot :: "bool \<Rightarrow> init_state \<Rightarrow> init_state" where
  "check_boot timer_ok st =
     (if \<not> in_boot_complete st \<and> \<not> in_boot_notified st \<and> supervisor_is_boot_complete (in_sup st)
      then st\<lparr>in_boot_complete := True, in_boot_notified := True, in_splash_timer := timer_ok\<rparr>
      else st)"

definition loop_iteration ::
  "(string \<times> file_io) list option \<Rightarrow> bool \<Rightarrow> event list \<Rightarrow> init_state \<Rightarrow> init_state option" where
  "loop_iteration dir timer_ok evs st =
     (case handle_events dir evs st of
        None \<Rightarrow> None
      | Some st' \<Rightarrow> Some (if in_shutdown st' \<noteq> None then st' else check_boot timer_ok st'))"

section \<open>The command line client\<close>

text \<open>
  \<open>src/luna-init-ctl/main.c\<close>: the request it sends for a command and an optional name (\<open>None\<close>:
  it reports an error itself), and the exit code it derives from the reply it reads.
\<close>

definition named_request :: "string \<Rightarrow> string \<Rightarrow> string" where
  "named_request cmd name =
     bounded_copy 512 (jq ''{`cmd`:`'' @ cmd @ jq ''`,`name`:`'' @ name @ jq ''`}'' @ [LF])"

definition build_request :: "string \<Rightarrow> string \<Rightarrow> string option" where
  "build_request cmd name =
     (if cmd = ''list'' \<or> cmd = ''shutdown'' \<or> cmd = ''reboot''
      then Some (bounded_copy 512 (jq ''{`cmd`:`'' @ cmd @ jq ''`}'' @ [LF]))
      else if cmd = ''status'' then Some (named_request cmd name)
      else if cmd = ''start'' \<or> cmd = ''stop'' \<or> cmd = ''restart'' \<or> cmd = ''reload''
      then (if name = [] then None else Some (named_request cmd name))
      else None)"

definition ctl_exit_code :: "char list \<Rightarrow> int" where
  "ctl_exit_code bytes =
     (if bytes = [] then - 1
      else case split_str (jq ''`ok`:true'') (cstr (take 8191 bytes)) of None \<Rightarrow> 1 | Some _ \<Rightarrow> 0)"

section \<open>Requests\<close>

lemma jq_simps: "jq [] = []" "jq (c # s) = (if c = CHR 0x60 then DQUOTE else c) # jq s"
  by (simp_all add: jq_def)

definition plain_name :: "string \<Rightarrow> bool" where
  "plain_name name \<longleftrightarrow> length name < SERVICE_MAX_NAME_LEN \<and> list_all (\<lambda>c. c \<noteq> DQUOTE \<and> c \<noteq> NUL) name"

lemma takeWhile_quote:
  "list_all (\<lambda>c. c \<noteq> DQUOTE \<and> c \<noteq> NUL) name \<Longrightarrow> takeWhile (\<lambda>c. c \<noteq> DQUOTE) (name @ DQUOTE # r) = name"
  by (induction name) auto

lemma named_request_fields:
  assumes "plain_name name" and "cmd \<in> {''status'', ''start'', ''stop'', ''restart'', ''reload''}"
  shows "ctl_field (named_request cmd name) ''cmd'' 64 = cmd"
    "ctl_field (named_request cmd name) ''name'' SERVICE_MAX_NAME_LEN = name"
proof -
  have len: "length name < 64" and nm: "list_all (\<lambda>c. c \<noteq> DQUOTE \<and> c \<noteq> NUL) name"
    using assms(1) by (simp_all add: plain_name_def)
  have bc: "named_request cmd name = jq ''{`cmd`:`'' @ cmd @ jq ''`,`name`:`'' @ name @ jq ''`}'' @ [LF]"
    unfolding named_request_def using len assms(2) by (intro bounded_copy_id) (auto simp: jq_simps)
  show "ctl_field (named_request cmd name) ''cmd'' 64 = cmd"
    using assms(2) unfolding bc by (auto simp: ctl_field_def json_get_field_def jq_simps bounded_copy_def Let_def)
  have "takeWhile (\<lambda>c. c \<noteq> DQUOTE) (name @ DQUOTE # r) = name" for r using takeWhile_quote [OF nm] .
  with len show "ctl_field (named_request cmd name) ''name'' SERVICE_MAX_NAME_LEN = name"
    using assms(2) unfolding bc by (auto simp: ctl_field_def json_get_field_def jq_simps bounded_copy_def Let_def)
qed

text \<open>
  What the command line client sends is what the control socket understands: for every
  command with a service name, the request text is dispatched to the handler of that command
  with exactly that name.
\<close>

theorem request_dispatch:
  assumes "plain_name name" and "build_request cmd name = Some request"
    and "cmd \<in> {''status'', ''start'', ''stop'', ''restart'', ''reload''}"
  shows "dispatch io request sv =
    (if cmd = ''status'' then Some (reply sv (handle_status (sup_services sv) name))
     else if cmd = ''start'' then Some (handle_start io name sv)
     else if cmd = ''stop'' then handle_stop io name sv
     else if cmd = ''reload'' then Some (handle_reload name sv)
     else map_option
       (\<lambda>e1. let e2 = handle_start io name (ce_sup e1) in
          e2\<lparr>ce_writes := ce_writes e1 @ ce_writes e2, ce_kills := ce_kills e1 @ ce_kills e2\<rparr>)
       (handle_stop io name sv))"
proof -
  have "request = named_request cmd name"
    using assms(2,3) by (auto simp: build_request_def split: if_splits)
  with named_request_fields [OF assms(1,3)] assms(3) show ?thesis
    by (auto simp: dispatch_def Let_def)
qed

theorem request_dispatch_witness:
  "\<forall>io sv. dispatch io (named_request ''start'' ''dbus'') sv = Some (handle_start io ''dbus'' sv)"
proof -
  have "plain_name ''dbus''" "build_request ''start'' ''dbus'' = Some (named_request ''start'' ''dbus'')"
    by (simp_all add: plain_name_def build_request_def)
  from request_dispatch [OF this] show ?thesis by simp
qed

section \<open>The list reply\<close>

lemma json_escape_plain:
  "list_all (\<lambda>c. c \<noteq> DQUOTE \<and> c \<noteq> BSLASH) s \<Longrightarrow> length out + length s + 4 \<le> n \<Longrightarrow>
   json_escape_loop n s out = out @ s"
  by (induction s arbitrary: out) auto

lemma state_name_length: "length (service_state_name st) \<le> 8"
  by (cases st) simp_all

definition list_plain :: "service \<Rightarrow> bool" where
  "list_plain s \<longleftrightarrow> list_all (\<lambda>c. c \<noteq> DQUOTE \<and> c \<noteq> BSLASH) (sv_name s) \<and>
     length (sv_name s) < SERVICE_MAX_NAME_LEN \<and> 0 \<le> sv_pid s \<and> sv_pid s < 2 ^ 31"

lemma list_entry_length: "list_plain s \<Longrightarrow> length (list_entry i s) \<le> 112"
proof -
  assume s: "list_plain s"
  then have "json_str_escape (SERVICE_MAX_NAME_LEN * 2) (sv_name s) = sv_name s"
    by (simp add: json_str_escape_def list_plain_def json_escape_plain)
  moreover have "length (show_int (sv_pid s)) \<le> 10"
  proof -
    have "nat (sv_pid s) < 10 ^ 10" using s by (simp add: list_plain_def nat_less_iff)
    from show_nat_length [OF this] s show ?thesis by (simp add: list_plain_def show_int_def)
  qed
  ultimately show ?thesis
    using s state_name_length [of "sv_state s"] by (simp add: list_entry_def list_plain_def jq_simps)
qed

text \<open>The text of the reply when nothing is cut off.\<close>

fun entries_text :: "nat \<Rightarrow> service list \<Rightarrow> string" where
  "entries_text i [] = []"
| "entries_text i (s # tbl) = list_entry i s @ entries_text (Suc i) tbl"

definition list_text :: "service list \<Rightarrow> string" where
  "list_text tbl = jq ''{`ok`:true,`services`:['' @ entries_text 0 tbl @ jq '']}'' @ [LF]"

lemma entries_text_length: "list_all list_plain tbl \<Longrightarrow> length (entries_text i tbl) \<le> 112 * length tbl"
proof (induction tbl arbitrary: i)
  case (Cons s tbl)
  then have "length (list_entry i s) \<le> 112" "length (entries_text (Suc i) tbl) \<le> 112 * length tbl"
    by (simp_all add: list_entry_length)
  then show ?case by simp
qed simp

lemma list_entries_fits:
  "length r + length (entries_text i tbl) \<le> BUF_SIZE \<Longrightarrow>
   list_entries i tbl (Some r) = Some (r @ entries_text i tbl)"
  by (induction i tbl "Some r" arbitrary: r rule: list_entries.induct) (auto simp: append_fmt_def)

lemma list_entries_length:
  "list_entries i tbl acc = Some r' \<Longrightarrow> \<exists>r. acc = Some r \<and> r' = r @ entries_text i tbl"
  by (induction i tbl acc arbitrary: r' rule: list_entries.induct)
    (fastforce simp: append_fmt_def split: option.splits if_splits)+

lemma handle_list_eq: "handle_list tbl = Some r \<Longrightarrow> length (list_text tbl) \<le> BUF_SIZE"
  by (auto simp: handle_list_def append_fmt_def list_text_def split: option.splits if_splits
      dest!: list_entries_length)

text \<open>
  For services whose names contain no quote and no backslash (and 31-bit process ids) the list
  reply is the complete JSON text of all services and stays inside the 4096-byte buffer.
\<close>

theorem handle_list_safe:
  assumes "list_all list_plain tbl" and "length tbl \<le> SERVICE_MAX_COUNT"
  shows "handle_list tbl = Some (list_text tbl)"
proof -
  have "length (entries_text 0 tbl) \<le> 3584"
    using entries_text_length [OF assms(1), of 0] assms(2) by simp
  then show ?thesis
    using list_entries_fits [of "jq ''{`ok`:true,`services`:[''" 0 tbl]
    by (simp add: handle_list_def append_fmt_def list_text_def jq_simps)
qed

theorem handle_list_safe_witness: "handle_list sample_table = Some (list_text sample_table)"
  by (rule handle_list_safe)
    (simp_all add: sample_table_def sample_service_def init_service_def list_plain_def)

text \<open>Thirty-two services whose names are full of quotes.\<close>

definition quoted_name :: "nat \<Rightarrow> string" where
  "quoted_name i = char_of (97 + i) # replicate 60 DQUOTE"

definition quoted_table :: "service list" where
  "quoted_table = map (\<lambda>i. sample_service (quoted_name i) [] 0) [0..<32]"

lemma json_escape_quotes:
  "length out + 2 * k + 3 \<le> n \<Longrightarrow>
   json_escape_loop n (replicate k DQUOTE) out = out @ concat (replicate k [BSLASH, DQUOTE])"
  by (induction k arbitrary: out) auto

lemma quoted_name_escape: "121 \<le> length (json_str_escape (SERVICE_MAX_NAME_LEN * 2) (quoted_name i))"
  using json_escape_quotes [of "[char_of (97 + i)]" 60 128]
    json_escape_quotes [of "[BSLASH, char_of (97 + i)]" 60 128]
  by (auto simp: json_str_escape_def quoted_name_def length_concat sum_list_replicate)

lemma quoted_entries: "158 * length is \<le> length (entries_text i (map (\<lambda>i. sample_service (quoted_name i) [] 0) is))"
proof (induction "is" arbitrary: i)
  case (Cons j "is")
  have "158 \<le> length (list_entry i (sample_service (quoted_name j) [] 0))"
    using quoted_name_escape [of j]
    by (simp add: list_entry_def sample_service_def init_service_def jq_simps show_int_def show_nat.simps)
  with Cons [of "Suc i"] show ?case by simp
qed simp

lemma quoted_names_distinct: "distinct (map quoted_name [0..<32])"
proof -
  have "inj_on quoted_name (set [0..<32])"
  proof (rule inj_onI)
    fix i j assume "i \<in> set [0..<32]" "j \<in> set [0..<32]" "quoted_name i = quoted_name j"
    then have "i < 32" "j < 32" "(of_char (char_of (97 + i)) :: nat) = of_char (char_of (97 + j))"
      by (simp_all add: quoted_name_def)
    then show "i = j" by simp
  qed
  then show ?thesis by (simp add: distinct_map del: upt_rec_numeral)
qed

text \<open>
  A full table of services with quotes in their names, each within its limits, makes the list
  command write beyond its reply buffer: the length that \<open>snprintf\<close> returns is added up even when
  the text did not fit.
\<close>

theorem handle_list_overflow: "table_ok quoted_table \<and> handle_list quoted_table = None"
proof
  have "map sv_name quoted_table = map quoted_name [0..<32]"
    by (simp add: quoted_table_def sample_service_def comp_def del: upt_rec_numeral)
  then show "table_ok quoted_table"
    using quoted_names_distinct
    by (simp add: table_ok_def list_all_iff, simp add: quoted_table_def service_ok_def deps_ok_def
        sample_service_def init_service_def quoted_name_def in_int32_def del: upt_rec_numeral)
  show "handle_list quoted_table = None"
  proof (cases "handle_list quoted_table")
    case (Some r)
    have "158 * length [0..<32] \<le> length (entries_text 0 quoted_table)"
      unfolding quoted_table_def by (rule quoted_entries)
    with handle_list_eq [OF Some] show ?thesis by (auto simp: list_text_def)
  qed simp
qed

section \<open>The event loop\<close>

text \<open>Every operation of the loop is a sequence of supervisor steps.\<close>

lemmas sup_steps =
  r_into_rtranclp [of sup_step, OF sup_step.step_pump]
  r_into_rtranclp [of sup_step, OF sup_step.step_signal]
  r_into_rtranclp [of sup_step, OF sup_step.step_exit]
  r_into_rtranclp [of sup_step, OF sup_step.step_stop]

lemma start_one_steps: "sup_step sv (fst (supervisor_start_one io name sv))"
  by (cases "supervisor_start_one io name sv") (auto intro: sup_step.step_start)

lemma reap_steps: "sup_step\<^sup>*\<^sup>* sv (reaper_reap_all zs sv)"
proof (induction zs sv rule: reaper_reap_all.induct)
  case (2 pid st t1 t2 zs sv)
  show ?case
  proof (cases "pid \<le> 0")
    case False
    let ?sv = "case st of WExited code \<Rightarrow> reaper_on_exit pid code False t1 t2 sv
         | WSignaled sig \<Rightarrow> reaper_on_exit pid sig True t1 t2 sv | WOther \<Rightarrow> sv"
    have "sup_step\<^sup>*\<^sup>* sv ?sv" by (cases st) (auto intro: sup_steps)
    with 2 [OF False] False show ?thesis by (auto intro: rtranclp_trans)
  qed simp
qed simp

lemma reload_steps: "reload_services dir sv = Some sv' \<Longrightarrow> sup_step sv sv'"
  by (auto simp: reload_services_def split: option.splits intro: sup_step.step_reload)

lemma handle_start_steps: "sup_step\<^sup>*\<^sup>* sv (ce_sup (handle_start io name sv))"
  using start_one_steps [of sv "ctl_pump io" name]
  by (auto simp: handle_start_def reply_def split: prod.splits)

lemma handle_stop_steps: "handle_stop io name sv = Some e \<Longrightarrow> sup_step\<^sup>*\<^sup>* sv (ce_sup e)"
  by (auto simp: handle_stop_def reply_def split: if_splits intro: sup_steps)

lemma dispatch_steps: "dispatch io request sv = Some e \<Longrightarrow> sup_step\<^sup>*\<^sup>* sv (ce_sup e)"
proof -
  assume d: "dispatch io request sv = Some e"
  have restart: "sup_step\<^sup>*\<^sup>* sv (ce_sup (handle_start io name (ce_sup e1)))"
    if "handle_stop io name sv = Some e1" for name e1
    using handle_stop_steps [OF that] handle_start_steps by (rule rtranclp_trans)
  from d show ?thesis
    by (auto simp: dispatch_def Let_def handle_reload_def reply_def split: if_splits option.splits
        intro: handle_start_steps handle_stop_steps restart)
qed

lemma ctl_accept_steps: "ctl_server_accept io bytes sv = Some e \<Longrightarrow> sup_step\<^sup>*\<^sup>* sv (ce_sup e)"
  by (auto simp: ctl_server_accept_def split: option.splits list.splits intro: dispatch_steps)

lemma handle_signal_steps:
  assumes "handle_signal dir info zs st = Some st'"
  shows "sup_step\<^sup>*\<^sup>* (in_sup st) (in_sup st')"
proof -
  obtain act sv where r: "signal_read info (in_sup st) = (act, sv)" by (cases "signal_read info (in_sup st)")
  then have "sup_step\<^sup>*\<^sup>* (in_sup st) sv"
    by (auto simp: signal_read_def split: option.splits if_splits
        intro: sup_steps)
  moreover have "sup_step\<^sup>*\<^sup>* sv (in_sup st')"
    using assms r reap_steps
    by (auto simp: handle_signal_def split: signal_action.splits dest: reload_steps)
  ultimately show ?thesis by (rule rtranclp_trans)
qed

lemma handle_splash_steps: "sup_step\<^sup>*\<^sup>* (in_sup st) (in_sup (handle_splash io1 io2 st))"
proof -
  obtain sv1 rc where r: "supervisor_start_one io1 ''lgp-compositor'' (in_sup st) = (sv1, rc)"
    by (cases "supervisor_start_one io1 ''lgp-compositor'' (in_sup st)")
  then have 1: "sup_step (in_sup st) sv1" by (rule sup_step.step_start)
  have 2: "sup_step sv1 (fst (supervisor_start_one io2 ''luna-shell'' sv1))" by (rule start_one_steps)
  from 1 2 have "sup_step\<^sup>*\<^sup>* (in_sup st) (fst (supervisor_start_one io2 ''luna-shell'' sv1))" by auto
  with 1 r show ?thesis by (auto simp: handle_splash_def)
qed

lemma handle_event_steps:
  "handle_event dir ev st = Some st' \<Longrightarrow> sup_step\<^sup>*\<^sup>* (in_sup st) (in_sup st')"
  by (cases ev)
    (auto simp: handle_event_def handle_splash_steps split: if_splits
      dest: handle_signal_steps ctl_accept_steps reload_steps
      intro: sup_steps)

lemma handle_events_steps:
  "handle_events dir evs st = Some st' \<Longrightarrow> sup_step\<^sup>*\<^sup>* (in_sup st) (in_sup st')"
proof (induction dir evs st rule: handle_events.induct)
  case (2 dir ev evs st)
  then obtain st1 where 1: "handle_event dir ev st = Some st1" by (auto split: option.splits)
  from handle_event_steps [OF 1] 2 1 show ?case
    by (auto split: if_splits intro: rtranclp_trans)
qed simp

lemma loop_steps: "loop_iteration dir timer_ok evs st = Some st' \<Longrightarrow> sup_step\<^sup>*\<^sup>* (in_sup st) (in_sup st')"
  by (auto simp: loop_iteration_def check_boot_def split: option.splits if_splits dest: handle_events_steps)

lemma sup_run_steps: "sup_step\<^sup>*\<^sup>* sv sv' \<Longrightarrow> sup_run sv \<Longrightarrow> sup_run sv'"
  by (induction rule: rtranclp_induct) (auto intro: sup_run.run_step)

text \<open>
  C9: the event loop refines the supervisor's step relation: whatever events an iteration handles,
  in whatever order, the supervisor state it ends with is reached by a sequence of supervisor
  steps, so every state the event loop can be in is a reachable state with its invariants.
\<close>

theorem event_loop_refines:
  assumes "loop_iteration dir timer_ok evs st = Some st'" and "sup_run (in_sup st)"
  shows "sup_step\<^sup>*\<^sup>* (in_sup st) (in_sup st') \<and> sup_run (in_sup st') \<and>
    table_ok (sup_services (in_sup st')) \<and> list_all restarts_bounded (sup_services (in_sup st'))"
  using loop_steps [OF assms(1)] sup_run_steps [OF loop_steps [OF assms(1)] assms(2)]
    sup_run_inv [of "in_sup st'"] by (auto simp: sup_inv_def sup_ok_def)

section \<open>Graphics start\<close>

definition stage5_inv :: "init_state \<Rightarrow> bool" where
  "stage5_inv st \<longleftrightarrow>
     in_stage5_runs st + (if in_splash_timer st then 1 else 0) \<le> (if in_boot_notified st then 1 else 0)"

lemma handle_signal_frame:
  "handle_signal dir info zs st = Some st' \<Longrightarrow>
   in_stage5_runs st' = in_stage5_runs st \<and> in_splash_timer st' = in_splash_timer st \<and>
   in_boot_notified st' = in_boot_notified st"
  by (auto simp: handle_signal_def split: prod.splits signal_action.splits)

lemma handle_event_stage5: "handle_event dir ev st = Some st' \<Longrightarrow> stage5_inv st \<Longrightarrow> stage5_inv st'"
  by (cases ev)
    (auto simp: handle_event_def handle_splash_def stage5_inv_def split: if_splits prod.splits
      dest!: handle_signal_frame)

lemma handle_events_stage5: "handle_events dir evs st = Some st' \<Longrightarrow> stage5_inv st \<Longrightarrow> stage5_inv st'"
  by (induction dir evs st rule: handle_events.induct)
    (auto split: option.splits if_splits dest: handle_event_stage5)

lemma loop_stage5:
  assumes "loop_iteration dir timer_ok evs st = Some st'" and "stage5_inv st"
  shows "stage5_inv st'"
proof -
  from assms(1) obtain s where s: "handle_events dir evs st = Some s"
    and st': "st' = s \<or> st' = check_boot timer_ok s"
    by (auto simp: loop_iteration_def split: option.splits if_splits)
  have "stage5_inv s" using handle_events_stage5 [OF s assms(2)] .
  with st' show ?thesis by (auto simp: check_boot_def stage5_inv_def split: if_splits)
qed

text \<open>The iterations of the loop after the services were started.\<close>

inductive loop_run :: "init_state \<Rightarrow> bool" where
  loop_enter:
    "sup_run sv \<Longrightarrow>
     loop_run \<lparr>in_sup = sv, in_boot_complete = False, in_boot_notified = False, in_splash_timer = False,
       in_stage5_runs = 0, in_shutdown = None\<rparr>"
| loop_next: "loop_run st \<Longrightarrow> loop_iteration dir timer_ok evs st = Some st' \<Longrightarrow> loop_run st'"

lemma loop_run_stage5: "loop_run st \<Longrightarrow> stage5_inv st"
proof (induction rule: loop_run.induct)
  case (loop_enter sv)
  show ?case by (simp add: stage5_inv_def)
next
  case (loop_next st dir timer_ok evs st')
  then show ?case using loop_stage5 by blast
qed

text \<open>
  The graphics stage runs at most once in the life of the event loop, and only after the boot
  was found complete: the splash timer is armed once, and its event disarms it.
\<close>

theorem graphics_stage_once:
  assumes "loop_run st"
  shows "in_stage5_runs st \<le> 1 \<and> (in_stage5_runs st = 1 \<longrightarrow> in_boot_notified st \<and> \<not> in_splash_timer st)"
  using loop_run_stage5 [OF assms] by (auto simp: stage5_inv_def split: if_splits)

definition sample_init :: "supervisor \<Rightarrow> init_state" where
  "sample_init sv = \<lparr>in_sup = sv, in_boot_complete = False, in_boot_notified = False, in_splash_timer = False,
     in_stage5_runs = 0, in_shutdown = None\<rparr>"

lemma solo_run: "sup_run (supervisor_start_all (sample_io 0 1) solo_sup)"
  by (rule sup_run.run_boot [OF solo_boot(1,2)])

theorem event_loop_refines_witness:
  "let sv = supervisor_start_all (sample_io 0 1) solo_sup in
   sup_run (supervisor_pump (sample_io 100 9) sv)"
proof -
  let ?sv = "supervisor_start_all (sample_io 0 1) solo_sup"
  have "loop_iteration None False [Ev_timer True (sample_io 100 9)] (sample_init ?sv) =
      Some (check_boot False ((sample_init ?sv)\<lparr>in_sup := supervisor_pump (sample_io 100 9) ?sv\<rparr>))"
    by (simp add: loop_iteration_def handle_event_def sample_init_def)
  moreover have "sup_run (in_sup (sample_init ?sv))" by (simp add: sample_init_def solo_run)
  ultimately have "sup_run (in_sup (check_boot False
      ((sample_init ?sv)\<lparr>in_sup := supervisor_pump (sample_io 100 9) ?sv\<rparr>)))"
    using event_loop_refines by blast
  then show ?thesis by (simp add: check_boot_def Let_def split: if_splits)
qed

theorem graphics_stage_once_witness:
  "\<exists>st. loop_run st \<and> in_stage5_runs st \<le> 1"
  using graphics_stage_once [OF loop_run.loop_enter [OF solo_run]] loop_run.loop_enter [OF solo_run] by blast

section \<open>Shutdown\<close>

text \<open>Clock readings that pass the stop timeout of every service.\<close>

definition stop_clocks_pass :: "(nat \<Rightarrow> stop_io) \<Rightarrow> supervisor \<Rightarrow> bool" where
  "stop_clocks_pass io sv \<longleftrightarrow>
     (\<forall>i < length (sup_services sv).
        \<exists>k. sv_stop_timeout_ms (sup_services sv ! i) \<le> st_clock (io i) k - st_start (io i))"

definition active :: "service \<Rightarrow> bool" where
  "active s \<longleftrightarrow> sv_state s = SERVICE_STATE_RUNNING \<or> sv_state s = SERVICE_STATE_STARTING"

text \<open>The signals that stopping the services \<open>is\<close> sends, in order.\<close>

definition stop_kills :: "service list \<Rightarrow> (nat \<Rightarrow> bool) \<Rightarrow> nat list \<Rightarrow> (int \<times> int) list" where
  "stop_kills tbl forced is = concat (map (\<lambda>i.
     (sv_pid (tbl ! i), sv_stop_signal (tbl ! i)) # (if forced i then [(sv_pid (tbl ! i), SIGKILL)] else []))
     (filter (\<lambda>i. active (tbl ! i)) is))"

lemma stop_active:
  assumes "distinct (map sv_name (sup_services sv))" "i < length (sup_services sv)" "stop_clocks_pass io sv"
    "0 < sv_pid (sup_services sv ! i)"
  obtains b where "supervisor_stop_one (io i) (sv_name (sup_services sv ! i)) sv =
     Some (upd_service i (\<lambda>s. s\<lparr>sv_state := SERVICE_STATE_STOPPED, sv_pid := 0\<rparr>) sv,
       (sv_pid (sup_services sv ! i), sv_stop_signal (sup_services sv ! i)) #
       (if b then [(sv_pid (sup_services sv ! i), SIGKILL)] else []))"
proof -
  have find: "service_find (sup_services sv) (sv_name (sup_services sv ! i)) = Some i"
    using service_names.find_iff [OF assms(1)] assms(2) by simp
  have "\<exists>k. sv_stop_timeout_ms (sup_services sv ! i) \<le> st_clock (io i) k - st_start (io i)"
    using assms(2,3) by (simp add: stop_clocks_pass_def)
  with that stop_one_eq [OF find] assms(4) show ?thesis by blast
qed

lemma stop_kills_upd:
  "i < length (sup_services sv) \<Longrightarrow> i \<notin> set is \<Longrightarrow>
   stop_kills (sup_services (upd_service i f sv)) forced is = stop_kills (sup_services sv) (forced(i := b)) is"
  unfolding stop_kills_def by (intro arg_cong [where f = concat] map_cong filter_cong) auto

lemma stop_services_all:
  assumes "distinct is" and "list_all (\<lambda>i. i < length (sup_services sv)) is"
    and "distinct (map sv_name (sup_services sv))" and "stop_clocks_pass io sv"
    and "\<forall>i \<in> set is. active (sup_services sv ! i) \<longrightarrow> 0 < sv_pid (sup_services sv ! i)"
  shows "\<exists>sv' forced. stop_services io is sv kills = Some (sv', kills @ stop_kills (sup_services sv) forced is) \<and>
    length (sup_services sv') = length (sup_services sv) \<and>
    (\<forall>j. sup_services sv' ! j =
       (if j \<in> set is \<and> active (sup_services sv ! j)
        then (sup_services sv ! j)\<lparr>sv_state := SERVICE_STATE_STOPPED, sv_pid := 0\<rparr> else sup_services sv ! j))"
  using assms
proof (induction "is" arbitrary: sv kills)
  case Nil
  then show ?case by (simp add: stop_kills_def)
next
  case (Cons i "is")
  let ?s = "sup_services sv ! i" and ?f = "\<lambda>s. s\<lparr>sv_state := SERVICE_STATE_STOPPED, sv_pid := 0\<rparr>"
  have i: "i < length (sup_services sv)" "i \<notin> set is" using Cons.prems by simp_all
  show ?case
  proof (cases "active ?s")
    case False
    from Cons.IH [of sv kills] Cons.prems obtain sv' forced where
      "stop_services io is sv kills = Some (sv', kills @ stop_kills (sup_services sv) forced is)"
      "length (sup_services sv') = length (sup_services sv)"
      "\<And>j. sup_services sv' ! j = (if j \<in> set is \<and> active (sup_services sv ! j) then ?f (sup_services sv ! j) else sup_services sv ! j)"
      by auto
    with False show ?thesis by (auto simp: stop_kills_def Let_def active_def)
  next
    case True
    let ?sv = "upd_service i ?f sv"
    have "0 < sv_pid ?s" using Cons.prems(5) True by simp
    from stop_active [OF Cons.prems(3) i(1) Cons.prems(4) this] obtain b where stop:
      "supervisor_stop_one (io i) (sv_name ?s) sv =
        Some (?sv, (sv_pid ?s, sv_stop_signal ?s) # (if b then [(sv_pid ?s, SIGKILL)] else []))" .
    define kills1 where "kills1 = kills @ (sv_pid ?s, sv_stop_signal ?s) # (if b then [(sv_pid ?s, SIGKILL)] else [])"
    have names: "map sv_name (sup_services ?sv) = map sv_name (sup_services sv)" using i by (intro nth_equalityI) auto
    have "distinct is" "list_all (\<lambda>i. i < length (sup_services ?sv)) is" "distinct (map sv_name (sup_services ?sv))"
      "stop_clocks_pass io ?sv" "\<forall>j \<in> set is. active (sup_services ?sv ! j) \<longrightarrow> 0 < sv_pid (sup_services ?sv ! j)"
      using Cons.prems i names by (auto simp: stop_clocks_pass_def)
    from Cons.IH [OF this, of kills1] obtain sv' forced where IH:
      "stop_services io is ?sv kills1 = Some (sv', kills1 @ stop_kills (sup_services ?sv) forced is)"
      "length (sup_services sv') = length (sup_services ?sv)"
      "\<And>j. sup_services sv' ! j = (if j \<in> set is \<and> active (sup_services ?sv ! j) then ?f (sup_services ?sv ! j) else sup_services ?sv ! j)"
      by blast
    have "stop_services io (i # is) sv kills = Some (sv', kills @ stop_kills (sup_services sv) (forced(i := b)) (i # is))"
      using True stop IH(1) stop_kills_upd [OF i, of ?f forced b] unfolding kills1_def
      by (simp add: active_def Let_def stop_kills_def)
    moreover have "sup_services sv' ! j =
       (if j \<in> set (i # is) \<and> active (sup_services sv ! j) then ?f (sup_services sv ! j) else sup_services sv ! j)" for j
      by (subst IH(3)) (cases "j = i"; use i True in simp)
    moreover have "length (sup_services sv') = length (sup_services sv)" using IH(2) by simp
    ultimately show ?thesis by blast
  qed
qed

lemma shutdown_services_all:
  assumes "table_ok (sup_services sv)" and "stop_clocks_pass io sv"
    and "\<forall>i < length (sup_services sv). active (sup_services sv ! i) \<longrightarrow> 0 < sv_pid (sup_services sv ! i)"
  shows "\<exists>sv' forced order. shutdown_services io sv = Some (sv', stop_kills (sup_services sv) forced order) \<and>
    distinct order \<and> set order = {..<length (sup_services sv)} \<and>
    length (sup_services sv') = length (sup_services sv) \<and>
    (\<forall>j < length (sup_services sv). \<not> active (sup_services sv' ! j) \<and>
       (active (sup_services sv ! j) \<longrightarrow>
          sv_state (sup_services sv' ! j) = SERVICE_STATE_STOPPED \<and> sv_pid (sup_services sv' ! j) = 0))"
proof -
  have "distinct (map sv_name (sup_services sv))" using assms(1) by (simp add: table_ok_def)
  from stop_services_all [OF _ _ this assms(2), of "rev [0..<length (sup_services sv)]" "[]"] assms(3)
  obtain sv' forced where s: "shutdown_services io sv =
      Some (sv', stop_kills (sup_services sv) forced (rev [0..<length (sup_services sv)]))"
    and l: "length (sup_services sv') = length (sup_services sv)"
    and j: "\<And>j. sup_services sv' ! j = (if j < length (sup_services sv) \<and> active (sup_services sv ! j)
       then (sup_services sv ! j)\<lparr>sv_state := SERVICE_STATE_STOPPED, sv_pid := 0\<rparr> else sup_services sv ! j)"
    by (auto simp: shutdown_services_def list_all_iff)
  have "\<not> active (sup_services sv' ! k) \<and> (active (sup_services sv ! k) \<longrightarrow>
      sv_state (sup_services sv' ! k) = SERVICE_STATE_STOPPED \<and> sv_pid (sup_services sv' ! k) = 0)"
    if "k < length (sup_services sv)" for k
    using that by (simp add: j [of k] active_def)
  moreover have "distinct (rev [0..<length (sup_services sv)])"
    "set (rev [0..<length (sup_services sv)]) = {..<length (sup_services sv)}" by auto
  ultimately show ?thesis using s l by blast
qed


definition running_pair :: supervisor where
  "running_pair = upd_service 0 (\<lambda>s. s\<lparr>sv_pid := 8\<rparr>)
     (upd_service 1 (\<lambda>s. s\<lparr>sv_pid := 7\<rparr>) (sample_sup SERVICE_STATE_RUNNING SERVICE_STATE_RUNNING))"

lemmas running_pair_eval =
  running_pair_def sample_sup_def upd_service_def sample_service_def init_service_def

lemma running_pair_ok:
  "table_ok (sup_services running_pair)" "stop_clocks_pass (\<lambda>i. sample_stop) running_pair"
  "\<forall>i < length (sup_services running_pair).
     active (sup_services running_pair ! i) \<longrightarrow> 0 < sv_pid (sup_services running_pair ! i)"
proof -
  show "table_ok (sup_services running_pair)"
    by (simp add: running_pair_eval table_ok_def service_ok_def deps_ok_def in_int32_def)
  have "\<exists>k. 3000 \<le> 20 * int k" by (rule exI [of _ 150]) simp
  then show "stop_clocks_pass (\<lambda>i. sample_stop) running_pair"
    by (auto simp: stop_clocks_pass_def running_pair_eval sample_stop_def less_Suc_eq)
  show "\<forall>i < length (sup_services running_pair).
     active (sup_services running_pair ! i) \<longrightarrow> 0 < sv_pid (sup_services running_pair ! i)"
    by (auto simp: running_pair_eval less_Suc_eq)
qed


text \<open>
  The stop order is the reverse order of the service table, which is the order the directory
  was read in, not the reverse of the start order: here service b has to start after service a,
  and the shutdown stops a, the service b relies on, before b.
\<close>

theorem shutdown_order_ignores_dependencies:
  "must_precede (sup_services running_pair) 1 0 \<and>
   (\<exists>sv'. shutdown_services (\<lambda>i. sample_stop) running_pair = Some (sv', [(7, SIGTERM), (8, SIGTERM)]))"
proof
  show "must_precede (sup_services running_pair) 1 0"
    by (simp add: must_precede_def running_pair_eval after_slots_def dep_slot_def)
  have w: "stop_wait (st_clock sample_stop) (st_wait sample_stop) (st_start sample_stop) 3000 0 = Some True"
    by (subst stop_wait.simps, simp add: sample_stop_def)+
  show "\<exists>sv'. shutdown_services (\<lambda>i. sample_stop) running_pair = Some (sv', [(7, SIGTERM), (8, SIGTERM)])"
    using w by (simp add: shutdown_services_def supervisor_stop_one_def service_find_def running_pair_eval Let_def)
qed

lemma ok_exit_code: "ctl_exit_code ((jq ''{`ok`:true}'' @ [LF]) @ r) = 0"
  by (simp add: ctl_exit_code_def jq_simps cstr_def)

text \<open>
  A restart whose start fails is reported as a success: the stop half has already answered
  \<open>ok\<close>, so the reply the client reads contains it and the client's exit code is 0.
\<close>

theorem failed_restart_reports_success:
  assumes "dispatch io request sv = Some e" and "ctl_field request ''cmd'' 64 = ''restart''"
    and "ctl_field request ''name'' SERVICE_MAX_NAME_LEN \<noteq> []"
  shows "\<exists>r. ce_writes e = [jq ''{`ok`:true}'' @ [LF], r] \<and>
    ctl_exit_code (hd (ce_writes e)) = 0 \<and> ctl_exit_code (concat (ce_writes e)) = 0"
proof -
  let ?name = "ctl_field request ''name'' SERVICE_MAX_NAME_LEN"
  from assms obtain e1 where e1: "handle_stop io ?name sv = Some e1"
    and e: "ce_writes e = ce_writes e1 @ ce_writes (handle_start io ?name (ce_sup e1))"
    by (auto simp: dispatch_def Let_def)
  have "ce_writes e1 = [jq ''{`ok`:true}'' @ [LF]]"
    using e1 assms(3) by (auto simp: handle_stop_def reply_def write_literal_def jq_simps)
  moreover have "\<exists>r. ce_writes (handle_start io ?name (ce_sup e1)) = [r]"
    by (cases "supervisor_start_one (ctl_pump io) ?name (ce_sup e1)") (simp add: handle_start_def reply_def)
  then obtain r where "ce_writes (handle_start io ?name (ce_sup e1)) = [r]" by blast
  ultimately have w: "ce_writes e = [jq ''{`ok`:true}'' @ [LF], r]" using e by simp
  with ok_exit_code [of r] ok_exit_code [of "[]"] show ?thesis by simp
qed

definition missing_sup :: supervisor where
  "missing_sup = sample_sup SERVICE_STATE_STOPPED SERVICE_STATE_STOPPED"

theorem failed_restart_reports_success_witness:
  "\<exists>e. dispatch \<lparr>ctl_pump = sample_io 0 1, ctl_stop = sample_stop\<rparr> (named_request ''restart'' ''nope'') missing_sup = Some e \<and>
     snd (supervisor_start_one (sample_io 0 1) ''nope'' missing_sup) = - 1 \<and> ctl_exit_code (hd (ce_writes e)) = 0"
proof -
  have n: "plain_name ''nope''" by (simp add: plain_name_def)
  have f: "service_find (sup_services missing_sup) ''nope'' = None"
    by (simp add: missing_sup_def sample_sup_def sample_service_def service_find_def)
  note c = named_request_fields [OF n, of "''restart''"]
  let ?io = "\<lparr>ctl_pump = sample_io 0 1, ctl_stop = sample_stop\<rparr>"
  obtain e where "dispatch ?io (named_request ''restart'' ''nope'') missing_sup = Some e"
    using c f by (simp add: dispatch_def Let_def handle_stop_def supervisor_stop_one_def)
  with failed_restart_reports_success [OF this] c f show ?thesis
    by (auto simp: supervisor_start_one_def)
qed

end
