(* ===== verification/Init_Boot.thy ===== *)
theory Init_Boot
  imports Init_Log Init_Control
begin

text \<open>
  The boot of luna-init (\<open>main.c\<close>, stages 0 to 4) and what its shutdown does besides stopping services
  (\<open>shutdown.c\<close>): mounting by \<open>mount.c\<close> with the file system table read by the TOML reader,
  \<open>hostname.c\<close>, \<open>splash.c\<close>, and the sequence of \<open>main\<close> up to the event loop. The kernel's answers are
  arguments, the calls that change the system are recorded. Log lines are left out.

  Shown are how options reach \<open>mount\<close>, when the table's mounts succeed or are fatal, that the shutdown
  unmounts what the boot mounted in reverse order, and that every boot panics for a named reason or
  enters the event loop in a state from which the loop's invariants hold.
\<close>

section \<open>Mounting\<close>

datatype mount_result = MOUNT_OK | MOUNT_ERR_FATAL | MOUNT_ERR_WARN

abbreviation (input) MOUNT_MAX_ENTRIES :: nat where "MOUNT_MAX_ENTRIES \<equiv> 16"

text \<open>The used part of \<open>g_mounts\<close>: mount points with their \<open>active\<close> flag.\<close>

type_synonym mount_table = "(string \<times> bool) list"

definition CRITICAL_MOUNTPOINTS :: "string list" where
  "CRITICAL_MOUNTPOINTS = [''/proc'', ''/sys'', ''/dev'']"

definition is_critical :: "string \<Rightarrow> bool" where
  "is_critical mp \<longleftrightarrow> mp \<in> set CRITICAL_MOUNTPOINTS"

definition track_mount :: "string \<Rightarrow> mount_table \<Rightarrow> mount_table" where
  "track_mount mp mounts =
     (if length mounts \<ge> MOUNT_MAX_ENTRIES then mounts else mounts @ [(bounded_copy 256 mp, True)])"

text \<open>
  The kernel's answers for one mount: whether \<open>stat\<close> finds the directory, whether \<open>mkdir\<close> succeeds or
  finds it, and the outcome of \<open>mount\<close>. The calls made are recorded, a mount with its success.
\<close>

datatype mount_answer = MountDone | MountBusy | MountFailed

record mount_io =
  mi_stat :: bool
  mi_mkdir :: bool
  mi_mount :: mount_answer

datatype boot_call =
    BcMkdir string
  | BcMount string string string u64 "string option" bool
  | BcSplash string
  | BcHostname string
  | BcEntropy string

abbreviation (input) MS_RDONLY :: u64 where "MS_RDONLY \<equiv> 1"
abbreviation (input) MS_NOSUID :: u64 where "MS_NOSUID \<equiv> 2"
abbreviation (input) MS_NODEV :: u64 where "MS_NODEV \<equiv> 4"
abbreviation (input) MS_NOEXEC :: u64 where "MS_NOEXEC \<equiv> 8"
abbreviation (input) MS_RELATIME :: u64 where "MS_RELATIME \<equiv> 0x200000"

text \<open>\<open>strncat\<close> with what is left of a buffer, and \<open>strtok\<close> with one separator.\<close>

definition strncat_room :: "nat \<Rightarrow> string \<Rightarrow> string \<Rightarrow> string" where
  "strncat_room buf_size dst src = dst @ take (buf_size - length dst - 1) src"

fun split_all :: "char \<Rightarrow> string \<Rightarrow> string list" where
  "split_all c [] = [[]]"
| "split_all c (x # xs) =
     (if x = c then [] # split_all c xs
      else (case split_all c xs of [] \<Rightarrow> [[x]] | t # ts \<Rightarrow> (x # t) # ts))"

definition strtok_all :: "char \<Rightarrow> string \<Rightarrow> string list" where
  "strtok_all c s = filter (\<lambda>t. t \<noteq> []) (split_all c s)"

definition option_flag :: "string \<Rightarrow> u64 option" where
  "option_flag token =
     (if token = ''ro'' then Some MS_RDONLY
      else if token = ''noexec'' then Some MS_NOEXEC
      else if token = ''nosuid'' then Some MS_NOSUID
      else if token = ''nodev'' then Some MS_NODEV
      else if token = ''relatime'' then Some MS_RELATIME
      else None)"

text \<open>The loop over the options: flags, \<open>data_buf\<close> and \<open>first\<close>.\<close>

fun mount_option_loop :: "string list \<Rightarrow> u64 \<Rightarrow> string \<Rightarrow> bool \<Rightarrow> u64 \<times> string" where
  "mount_option_loop [] flags data_buf first = (flags, data_buf)"
| "mount_option_loop (token # tokens) flags data_buf first =
     (case option_flag token of
        Some f \<Rightarrow> mount_option_loop tokens (or flags f) data_buf first
      | None \<Rightarrow>
          mount_option_loop tokens flags
            (strncat_room 512 (if first then data_buf else strncat_room 512 data_buf '','') token) False)"

definition mount_options :: "string \<Rightarrow> u64 \<times> string option" where
  "mount_options options_str =
     (if options_str = [] then (0, None)
      else
        (case mount_option_loop (strtok_all CHR '','' (bounded_copy 512 options_str)) 0 [] True of
           (flags, data_buf) \<Rightarrow> (flags, if data_buf \<noteq> [] then Some data_buf else None)))"

definition do_mount ::
  "mount_io \<Rightarrow> string \<Rightarrow> string \<Rightarrow> string \<Rightarrow> string \<Rightarrow> mount_table \<Rightarrow> mount_result \<times> mount_table \<times> boot_call list" where
  "do_mount io device mountpoint fstype options_str mounts =
     (let failed = (if is_critical mountpoint then MOUNT_ERR_FATAL else MOUNT_ERR_WARN);
          mk = (if mi_stat io then [] else [BcMkdir mountpoint])
      in if \<not> mi_stat io \<and> \<not> mi_mkdir io then (failed, mounts, mk)
         else
           (case mount_options options_str of
              (flags, data) \<Rightarrow>
                (case mi_mount io of
                   MountFailed \<Rightarrow> (failed, mounts, mk @ [BcMount device mountpoint fstype flags data False])
                 | _ \<Rightarrow> (MOUNT_OK, track_mount mountpoint mounts,
                         mk @ [BcMount device mountpoint fstype flags data True]))))"

text \<open>\<open>mount_early\<close>: three critical mounts, then one whose result is ignored.\<close>

definition mount_early :: "(nat \<Rightarrow> mount_io) \<Rightarrow> mount_table \<Rightarrow> mount_result \<times> mount_table \<times> boot_call list" where
  "mount_early io mounts =
     (case do_mount (io 0) ''proc'' ''/proc'' ''proc'' [] mounts of (r1, m1, c1) \<Rightarrow>
        if r1 = MOUNT_ERR_FATAL then (r1, m1, c1) else
      (case do_mount (io 1) ''sysfs'' ''/sys'' ''sysfs'' [] m1 of (r2, m2, c2) \<Rightarrow>
        if r2 = MOUNT_ERR_FATAL then (r2, m2, c1 @ c2) else
      (case do_mount (io 2) ''devtmpfs'' ''/dev'' ''devtmpfs'' [] m2 of (r3, m3, c3) \<Rightarrow>
        if r3 = MOUNT_ERR_FATAL then (r3, m3, c1 @ c2 @ c3) else
      (case do_mount (io 3) ''cgroup2'' ''/sys/fs/cgroup'' ''cgroup2'' [] m3 of (_, m4, c4) \<Rightarrow>
        (MOUNT_OK, m4, c1 @ c2 @ c3 @ c4)))))"

text \<open>
  The member \<open>str\<close> of a value's union, whatever its type: the values live in zeroed memory, an integer
  starts with its eight bytes, an array with its first item.
\<close>

fun union_str :: "toml_value \<Rightarrow> string" where
  "union_str (TOML_STRING s) = s"
| "union_str (TOML_INTEGER i) = cstr (map (\<lambda>k. char_of ((i div 256 ^ k) mod 256)) [0..<8])"
| "union_str (TOML_BOOLEAN b) = (if b then [CHR 0x01] else [])"
| "union_str (TOML_ARRAY items) = (case items of [] \<Rightarrow> [] | x # _ \<Rightarrow> x)"

fun join_options :: "string list \<Rightarrow> string \<Rightarrow> bool \<Rightarrow> string" where
  "join_options [] acc first = acc"
| "join_options (item # items) acc first =
     join_options items (strncat_room 512 (if first then acc else strncat_room 512 acc '','') item) False"

text \<open>The fields of one entry of the file; \<open>None\<close>: a required one is missing.\<close>

definition fstab_entry :: "toml_doc \<Rightarrow> int \<Rightarrow> (string \<times> string \<times> string \<times> string) option" where
  "fstab_entry doc i =
     (case (toml_array_table_get doc ''mount'' i ''device'', toml_array_table_get doc ''mount'' i ''mountpoint'',
            toml_array_table_get doc ''mount'' i ''fstype'') of
        (Inr v_device, Inr v_mountpoint, Inr v_fstype) \<Rightarrow>
          Some (union_str v_device, union_str v_mountpoint, union_str v_fstype,
                (case toml_array_table_get doc ''mount'' i ''options'' of
                   Inr (TOML_ARRAY items) \<Rightarrow> join_options items [] True
                 | _ \<Rightarrow> []))
      | _ \<Rightarrow> None)"

fun fstab_loop ::
  "toml_doc \<Rightarrow> (int \<Rightarrow> mount_io) \<Rightarrow> int list \<Rightarrow> mount_result \<Rightarrow> mount_table \<Rightarrow>
   mount_result \<times> mount_table \<times> boot_call list" where
  "fstab_loop doc io [] overall mounts = (overall, mounts, [])"
| "fstab_loop doc io (i # is) overall mounts =
     (case fstab_entry doc i of
        None \<Rightarrow> fstab_loop doc io is MOUNT_ERR_WARN mounts
      | Some (device, mountpoint, fstype, options_str) \<Rightarrow>
          (case do_mount (io i) device mountpoint fstype options_str mounts of
             (r, mounts1, calls) \<Rightarrow>
               if r = MOUNT_ERR_FATAL then (MOUNT_ERR_FATAL, mounts1, calls)
               else
                 (case fstab_loop doc io is (if r = MOUNT_ERR_WARN then MOUNT_ERR_WARN else overall) mounts1 of
                    (r', m', c') \<Rightarrow> (r', m', calls @ c'))))"

definition mount_fstab ::
  "file_io \<Rightarrow> (int \<Rightarrow> mount_io) \<Rightarrow> mount_table \<Rightarrow> (mount_result \<times> mount_table \<times> boot_call list) option" where
  "mount_fstab file io mounts =
     (case toml_load_file file of
        None \<Rightarrow> None
      | Some (Inl e) \<Rightarrow> Some (MOUNT_ERR_FATAL, mounts, [])
      | Some (Inr doc) \<Rightarrow>
          (let count = toml_array_table_count doc ''mount'' in
           if count = 0 then Some (MOUNT_OK, mounts, [])
           else Some (fstab_loop doc io (map int [0..<nat count]) MOUNT_OK mounts)))"

text \<open>\<open>mount_unmount_all\<close>: the calls of \<open>umount2\<close> and the table.\<close>

definition mount_unmount_all :: "mount_table \<Rightarrow> mount_table \<times> string list" where
  "mount_unmount_all mounts =
     (map (\<lambda>(mp, _). (mp, False)) mounts, map fst (filter snd (rev mounts)))"

section \<open>Host name\<close>

text \<open>\<open>None\<close>: the file cannot be opened; the bytes \<open>read\<close> delivers (at most 255), empty when it fails.\<close>

definition hostname_set :: "string option \<Rightarrow> string" where
  "hostname_set file =
     (case file of
        None \<Rightarrow> ''mahina''
      | Some content \<Rightarrow>
          (let bytes = take 255 content in
           if bytes = [] then ''mahina''
           else cstr (rev (dropWhile (\<lambda>c. c = LF \<or> c = CR) (rev bytes)))))"

section \<open>The boot splash\<close>

text \<open>\<open>splash_pipe[1]\<close> and \<open>splash_pid\<close>; the read end is only used by the child.\<close>

record splash_state =
  splash_pipe :: int
  splash_pid :: int

definition splash_initial :: splash_state where
  "splash_initial = \<lparr>splash_pipe = - 1, splash_pid = - 1\<rparr>"

text \<open>The write end \<open>pipe\<close> delivers, if it succeeds, and the result of \<open>fork\<close> in the parent.\<close>

definition splash_start :: "int option \<Rightarrow> int \<Rightarrow> splash_state \<Rightarrow> splash_state" where
  "splash_start pipe_end pid st =
     (case pipe_end of
        None \<Rightarrow> st
      | Some fd \<Rightarrow> if pid < 0 then st\<lparr>splash_pipe := - 1, splash_pid := pid\<rparr>
                   else st\<lparr>splash_pipe := fd, splash_pid := pid\<rparr>)"

text \<open>The bytes written to the pipe.\<close>

definition splash_update :: "string \<Rightarrow> int \<Rightarrow> splash_state \<Rightarrow> string" where
  "splash_update msg percent st =
     (if splash_pipe st < 0 then []
      else
        (let line = show_int percent @ ''|'' @ msg @ [LF] in
         if length line < 256 then line else []))"

definition splash_stop :: "splash_state \<Rightarrow> splash_state" where
  "splash_stop st =
     st\<lparr>splash_pipe := (if splash_pipe st \<ge> 0 then - 1 else splash_pipe st),
        splash_pid := (if splash_pid st > 0 then - 1 else splash_pid st)\<rparr>"

section \<open>The boot stages\<close>

text \<open>The kernel's answers until the event loop is entered.\<close>

record boot_io =
  bi_early :: "nat \<Rightarrow> mount_io"
  bi_stat_log :: bool
  bi_stat_init_log :: bool
  bi_pipe :: "int option"
  bi_fork :: int
  bi_epoll :: bool
  bi_signal :: bool
  bi_fstab :: file_io
  bi_mounts :: "int \<Rightarrow> mount_io"
  bi_hostname :: "string option"
  bi_machine_id :: "string option"
  bi_urandom :: bool
  bi_services :: "(string \<times> file_io) list option"
  bi_pump :: pump_io

definition ensure_log_dir :: "bool \<Rightarrow> bool \<Rightarrow> boot_call list" where
  "ensure_log_dir log_there init_log_there =
     (if log_there then [] else [BcMkdir ''/var/log'']) @
     (if init_log_there then [] else [BcMkdir ''/var/log/luna-init''])"

definition splash_call :: "string \<Rightarrow> boot_call list" where
  "splash_call line = (if line = [] then [] else [BcSplash line])"

definition seed_entropy :: "string option \<Rightarrow> bool \<Rightarrow> boot_call list" where
  "seed_entropy machine_id urandom =
     (case machine_id of
        None \<Rightarrow> []
      | Some content \<Rightarrow> if take 36 content \<noteq> [] \<and> urandom then [BcEntropy (take 36 content)] else [])"

text \<open>\<open>panic_drop_to_shell\<close> does not return.\<close>

datatype boot_result = Boot_panic string | Boot_loop init_state

definition enter_loop :: "supervisor \<Rightarrow> init_state" where
  "enter_loop sv =
     \<lparr>in_sup = sv, in_boot_complete = False, in_boot_notified = False, in_splash_timer = False,
      in_stage5_runs = 0, in_shutdown = None\<rparr>"

definition no_services :: supervisor where
  "no_services = \<lparr>sup_services = [], sup_graph = empty_graph, sup_signal_ready = (\<lambda>i. False)\<rparr>"

text \<open>Stage 4: the result and what is written to the splash.\<close>

definition boot_services :: "boot_io \<Rightarrow> splash_state \<Rightarrow> (boot_result \<times> boot_call list) option" where
  "boot_services io splash =
     (case service_load_all (bi_services io) [] of
        None \<Rightarrow> None
      | Some (tbl, svc_count) \<Rightarrow>
          if svc_count \<le> 0 then Some (Boot_loop (enter_loop no_services), [])
          else
            (case depgraph_build tbl of
               None \<Rightarrow> None
             | Some ((g, tbl'), rc) \<Rightarrow>
                 if rc < 0 then Some (Boot_panic ''Service dependency graph has a cycle'', [])
                 else Some (Boot_loop (enter_loop (supervisor_start_all (bi_pump io)
                              \<lparr>sup_services = tbl', sup_graph = g, sup_signal_ready = (\<lambda>i. False)\<rparr>)),
                            splash_call (splash_update ''Starting services'' 80 splash))))"

text \<open>Stages 0 to 4 of \<open>main\<close>.\<close>

definition luna_init_boot :: "boot_io \<Rightarrow> (boot_result \<times> mount_table \<times> boot_call list) option" where
  "luna_init_boot io =
     (case mount_early (bi_early io) [] of (_, m1, c1) \<Rightarrow>
      let c2 = c1 @ ensure_log_dir (bi_stat_log io) (bi_stat_init_log io);
          splash = splash_start (bi_pipe io) (bi_fork io) splash_initial
      in if \<not> bi_epoll io then Some (Boot_panic ''epoll_create1 failed'', m1, c2)
         else if \<not> bi_signal io then Some (Boot_panic ''signal_init failed'', m1, c2)
         else
           (let c3 = c2 @ splash_call (splash_update ''Mounting filesystems'' 20 splash) in
            case mount_fstab (bi_fstab io) (bi_mounts io) m1 of
              None \<Rightarrow> None
            | Some (r, m2, c4) \<Rightarrow>
                if r = MOUNT_ERR_FATAL then Some (Boot_panic ''Critical filesystem mount failed'', m2, c3 @ c4)
                else
                  (let c5 = c3 @ c4 @ splash_call (splash_update ''Running early hooks'' 40 splash) @
                         [BcHostname (hostname_set (bi_hostname io))] @ seed_entropy (bi_machine_id io) (bi_urandom io) @
                         splash_call (splash_update ''Loading service definitions'' 60 splash)
                   in map_option (\<lambda>(res, c6). (res, m2, c5 @ c6)) (boot_services io splash))))"

section \<open>Shutdown\<close>

datatype shutdown_call =
    ScKill int int
  | ScUmount string
  | ScLog log_call
  | ScSync
  | ScReboot shutdown_mode

definition shutdown_run ::
  "(nat \<Rightarrow> stop_io) \<Rightarrow> shutdown_mode \<Rightarrow> supervisor \<Rightarrow> mount_table \<Rightarrow> log_state \<Rightarrow>
   (supervisor \<times> mount_table \<times> log_state \<times> shutdown_call list) option" where
  "shutdown_run io mode sv mounts log =
     (case shutdown_services io sv of
        None \<Rightarrow> None
      | Some (sv', kills) \<Rightarrow>
          (case (mount_unmount_all mounts, luna_log_close log) of
             ((mounts', ups), (log', lcs)) \<Rightarrow>
               Some (sv', mounts', log',
                     map (\<lambda>(pid, sig). ScKill pid sig) kills @ map ScUmount ups @ map ScLog lcs @
                     [ScSync, ScReboot mode])))"

section \<open>Mount options\<close>

fun commas :: "string list \<Rightarrow> string" where
  "commas [] = []"
| "commas [x] = x"
| "commas (x # xs) = x @ '','' @ commas xs"

lemma commas_Cons: "commas (x # xs) = x @ (if xs = [] then [] else '','' @ commas xs)"
  by (cases xs) auto

lemma commas_append: "xs \<noteq> [] \<Longrightarrow> ys \<noteq> [] \<Longrightarrow> commas (xs @ ys) = commas xs @ '','' @ commas ys"
  by (induction xs) (auto simp: commas_Cons)

lemma length_commas_append: "length (commas xs) \<le> length (commas (xs @ ys))"
  by (cases "xs = []"; cases "ys = []") (simp_all add: commas_append)

lemma length_commas_filter: "length (commas (filter P xs)) \<le> length (commas xs)"
proof (induction xs)
  case (Cons x xs)
  then show ?case by (auto simp: commas_Cons)
qed simp

lemma strncat_fits: "length dst + length src < n \<Longrightarrow> strncat_room n dst src = dst @ src"
  by (simp add: strncat_room_def)

lemma strncat_item:
  assumes "length (commas (ls @ [item])) < 512"
  shows "strncat_room 512 (if ls = [] then commas ls else strncat_room 512 (commas ls) '','') item = commas (ls @ [item])"
  using assms by (cases "ls = []") (simp_all add: commas_append strncat_fits)

lemma join_options_commas:
  assumes "length (commas (ls @ opts)) < 512"
  shows "join_options opts (commas ls) (ls = []) = commas (ls @ opts)"
  using assms
proof (induction opts arbitrary: ls)
  case (Cons item items)
  have "length (commas (ls @ [item])) < 512"
    using Cons.prems length_commas_append [of "ls @ [item]" items] by simp
  from strncat_item [OF this] Cons.IH [of "ls @ [item]"] Cons.prems show ?case by simp
qed simp

lemma split_all_plain: "c \<notin> set x \<Longrightarrow> split_all c x = [x]"
  by (induction x) auto

lemma split_all_item: "c \<notin> set x \<Longrightarrow> split_all c (x @ c # ys) = x # split_all c ys"
  by (induction x) auto

lemma split_commas:
  "opts \<noteq> [] \<Longrightarrow> \<forall>x \<in> set opts. CHR '','' \<notin> set x \<Longrightarrow> split_all CHR '','' (commas opts) = opts"
  by (induction opts) (auto simp: commas_Cons split_all_plain split_all_item)

lemma option_loop_commas:
  assumes "length (commas (ls @ filter (\<lambda>t. option_flag t = None) tokens)) < 512"
  shows "mount_option_loop tokens flags (commas ls) (ls = []) =
           (fold (\<lambda>f acc. or acc f) (List.map_filter option_flag tokens) flags,
            commas (ls @ filter (\<lambda>t. option_flag t = None) tokens))"
  using assms
proof (induction tokens arbitrary: flags ls)
  case (Cons t ts)
  show ?case
  proof (cases "option_flag t")
    case (Some f)
    with Cons show ?thesis by (simp add: List.map_filter_def)
  next
    case None
    then have "length (commas (ls @ [t])) < 512"
      using Cons.prems length_commas_append [of "ls @ [t]" "filter (\<lambda>t. option_flag t = None) ts"] by simp
    from strncat_item [OF this] None Cons.IH [of "ls @ [t]"] Cons.prems show ?thesis
      by (simp add: List.map_filter_def)
  qed
qed (simp add: List.map_filter_def)

text \<open>
  A list of options from the file reaches \<open>mount\<close> as the union of the flags of the known ones and,
  in their order and separated by commas, the remaining ones as its data argument.
\<close>

theorem mount_options_exact:
  assumes "\<forall>x \<in> set opts. x \<noteq> [] \<and> CHR '','' \<notin> set x" and "length (commas opts) < 512"
  shows "mount_options (join_options opts [] True) =
           (fold (\<lambda>f acc. or acc f) (List.map_filter option_flag opts) 0,
            (let ds = filter (\<lambda>t. option_flag t = None) opts in if ds = [] then None else Some (commas ds)))"
proof (cases "opts = []")
  case True
  then show ?thesis by (simp add: mount_options_def List.map_filter_def)
next
  case False
  let ?ds = "filter (\<lambda>t. option_flag t = None) opts"
  have j: "join_options opts [] True = commas opts" using join_options_commas [of "[]" opts] assms(2) by simp
  have ne: "commas xs \<noteq> []" if "xs \<noteq> []" "set xs \<subseteq> set opts" for xs
    using that assms(1) by (cases xs) (auto simp: commas_Cons)
  have "split_all CHR '','' (commas opts) = opts" using False assms(1) by (intro split_commas) auto
  moreover have "filter (\<lambda>t. t \<noteq> []) opts = opts" using assms(1) by simp
  ultimately have tok: "strtok_all CHR '','' (bounded_copy 512 (commas opts)) = opts"
    using assms(2) by (simp add: strtok_all_def bounded_copy_id)
  have "length (commas ?ds) < 512" using length_commas_filter [of _ opts] assms(2) le_less_trans by blast
  then have "mount_option_loop opts 0 [] True =
      (fold (\<lambda>f acc. or acc f) (List.map_filter option_flag opts) 0, commas ?ds)"
    using option_loop_commas [of "[]" opts 0] by simp
  then show ?thesis
    using ne [OF False] ne [of ?ds] tok by (auto simp: mount_options_def j Let_def)
qed

theorem mount_options_exact_witness:
  "mount_options (join_options [''nosuid'', ''size=2G'', ''noexec'', ''mode=1777''] [] True) =
     (10, Some ''size=2G,mode=1777'')"
  using mount_options_exact [of "[''nosuid'', ''size=2G'', ''noexec'', ''mode=1777'']"]
  by (simp add: option_flag_def List.map_filter_def)

section \<open>What is mounted\<close>

definition mount_succeeds :: "mount_io \<Rightarrow> bool" where
  "mount_succeeds io \<longleftrightarrow> (mi_stat io \<or> mi_mkdir io) \<and> mi_mount io \<noteq> MountFailed"

fun mounted_point :: "boot_call \<Rightarrow> string list" where
  "mounted_point (BcMount _ mp _ _ _ done) = (if done then [mp] else [])"
| "mounted_point _ = []"

definition mounted_points :: "boot_call list \<Rightarrow> string list" where
  "mounted_points calls = concat (map mounted_point calls)"

lemma mounted_points_simps [simp]:
  "mounted_points [] = []" "mounted_points (c # cs) = mounted_point c @ mounted_points cs"
  "mounted_points (cs @ ds) = mounted_points cs @ mounted_points ds"
  by (simp_all add: mounted_points_def)

lemma do_mount_outcome:
  assumes "do_mount io device mp fstype opts m = (r, m', c)"
  shows "r = (if mount_succeeds io then MOUNT_OK else if is_critical mp then MOUNT_ERR_FATAL else MOUNT_ERR_WARN)"
    "mounted_points c = (if mount_succeeds io then [mp] else [])"
    "m' = fold track_mount (mounted_points c) m"
  using assms
  by (auto simp: do_mount_def mount_succeeds_def Let_def split: prod.splits mount_answer.splits if_splits)

text \<open>Entries of the file: without a required field, failing, failing fatally, and what they mount.\<close>

definition entry_fatal :: "toml_doc \<Rightarrow> (int \<Rightarrow> mount_io) \<Rightarrow> int \<Rightarrow> bool" where
  "entry_fatal doc io i \<longleftrightarrow>
     (case fstab_entry doc i of None \<Rightarrow> False | Some (_, mp, _, _) \<Rightarrow> is_critical mp \<and> \<not> mount_succeeds (io i))"

definition entry_mounts :: "toml_doc \<Rightarrow> (int \<Rightarrow> mount_io) \<Rightarrow> int \<Rightarrow> string list" where
  "entry_mounts doc io i =
     (case fstab_entry doc i of None \<Rightarrow> [] | Some (_, mp, _, _) \<Rightarrow> if mount_succeeds (io i) then [mp] else [])"

lemma fstab_loop_outcome:
  assumes "fstab_loop doc io is overall m = (r, m', c)" and "overall \<noteq> MOUNT_ERR_FATAL"
  shows "(r = MOUNT_ERR_FATAL \<longleftrightarrow> (\<exists>i \<in> set is. entry_fatal doc io i)) \<and>
    (r = MOUNT_OK \<longleftrightarrow> overall = MOUNT_OK \<and> (\<forall>i \<in> set is. entry_mounts doc io i \<noteq> [])) \<and>
    mounted_points c = concat (map (entry_mounts doc io) (takeWhile (\<lambda>i. \<not> entry_fatal doc io i) is)) \<and>
    m' = fold track_mount (mounted_points c) m"
  using assms
proof (induction "is" arbitrary: overall m m' r c)
  case (Cons i "is")
  show ?case
  proof (cases "fstab_entry doc i")
    case None
    with Cons.IH [of MOUNT_ERR_WARN m r m' c] Cons.prems show ?thesis
      by (auto simp: entry_fatal_def entry_mounts_def)
  next
    case (Some e)
    obtain dev mp fs opts where e: "e = (dev, mp, fs, opts)" by (metis prod_cases4)
    obtain r1 m1 c1 where d: "do_mount (io i) dev mp fs opts m = (r1, m1, c1)" by (metis prod_cases3)
    note o = do_mount_outcome [OF d]
    show ?thesis
    proof (cases "r1 = MOUNT_ERR_FATAL")
      case True
      with Cons.prems(1) Some e d o show ?thesis
        by (auto simp: entry_fatal_def entry_mounts_def split: if_splits)
    next
      case False
      let ?ov = "if r1 = MOUNT_ERR_WARN then MOUNT_ERR_WARN else overall"
      obtain c2 where l: "fstab_loop doc io is ?ov m1 = (r, m', c2)" and c: "c = c1 @ c2"
        using Cons.prems(1) Some e d False by (auto split: prod.splits)
      have "?ov \<noteq> MOUNT_ERR_FATAL" using Cons.prems(2) by simp
      note ih = Cons.IH [OF l this]
      have "\<not> entry_fatal doc io i" "entry_mounts doc io i = mounted_points c1"
        using Some e o False by (auto simp: entry_fatal_def entry_mounts_def split: if_splits)
      moreover have "r1 = MOUNT_OK \<longleftrightarrow> mounted_points c1 \<noteq> []" "r1 \<noteq> MOUNT_ERR_WARN \<longrightarrow> r1 = MOUNT_OK"
        using o False by (auto split: if_splits)
      ultimately show ?thesis using ih c o(3) by (auto split: if_splits)
    qed
  qed
qed simp

text \<open>
  C34: the file's entries are mounted in their order up to the first critical one that fails. The result
  is fatal exactly when one of \<open>/proc\<close>, \<open>/sys\<close> and \<open>/dev\<close> cannot be mounted, and a success exactly when
  every entry is complete and was mounted.
\<close>

theorem mount_fstab_result:
  assumes "toml_load_file file = Some (Inr doc)" and "mount_fstab file io mounts = Some (r, m, calls)"
  shows "(r = MOUNT_ERR_FATAL \<longleftrightarrow>
            (\<exists>i \<in> {0..<toml_array_table_count doc ''mount''}. entry_fatal doc io i)) \<and>
         (r = MOUNT_OK \<longleftrightarrow>
            (\<forall>i \<in> {0..<toml_array_table_count doc ''mount''}. entry_mounts doc io i \<noteq> [])) \<and>
         mounted_points calls =
           concat (map (entry_mounts doc io)
             (takeWhile (\<lambda>i. \<not> entry_fatal doc io i) (map int [0..<nat (toml_array_table_count doc ''mount'')])))"
proof (cases "toml_array_table_count doc ''mount'' = 0")
  case True
  with assms show ?thesis by (simp add: mount_fstab_def)
next
  case False
  let ?n = "toml_array_table_count doc ''mount''"
  have l: "fstab_loop doc io (map int [0..<nat ?n]) MOUNT_OK mounts = (r, m, calls)"
    using assms False by (simp add: mount_fstab_def Let_def)
  have s: "set (map int [0..<nat ?n]) = {0..<?n}"
    by (auto simp: image_iff) (metis atLeast0LessThan int_eq_iff lessThan_iff zless_nat_eq_int_zless)
  from fstab_loop_outcome [OF l mount_result.distinct(1)] show ?thesis unfolding s by blast
qed

section \<open>Shutting down what was booted\<close>

lemma fold_track_mount:
  "length m \<le> 16 \<Longrightarrow>
   fold track_mount mps m = m @ take (16 - length m) (map (\<lambda>mp. (bounded_copy 256 mp, True)) mps)"
proof (induction mps arbitrary: m)
  case (Cons mp mps)
  show ?case
  proof (cases "length m = 16")
    case True
    with Cons.IH [of m] show ?thesis by (simp add: track_mount_def)
  next
    case False
    with Cons.prems obtain k where k: "16 - length m = Suc k" by (cases "16 - length m") auto
    then have "15 - length m = k" by simp
    with k False Cons.prems Cons.IH [of "m @ [(bounded_copy 256 mp, True)]"] show ?thesis by (simp add: track_mount_def)
  qed
qed simp

lemma mount_early_tracks:
  assumes "mount_early io m = (r, m', c)" shows "m' = fold track_mount (mounted_points c) m"
proof -
  obtain r1 m1 c1 where 1: "do_mount (io 0) ''proc'' ''/proc'' ''proc'' [] m = (r1, m1, c1)" by (metis prod_cases3)
  obtain r2 m2 c2 where 2: "do_mount (io 1) ''sysfs'' ''/sys'' ''sysfs'' [] m1 = (r2, m2, c2)" by (metis prod_cases3)
  obtain r3 m3 c3 where 3: "do_mount (io 2) ''devtmpfs'' ''/dev'' ''devtmpfs'' [] m2 = (r3, m3, c3)" by (metis prod_cases3)
  obtain r4 m4 c4 where 4: "do_mount (io 3) ''cgroup2'' ''/sys/fs/cgroup'' ''cgroup2'' [] m3 = (r4, m4, c4)"
    by (metis prod_cases3)
  show ?thesis
    using assms unfolding mount_early_def 1 2 3 4 prod.case
    by (auto simp: do_mount_outcome(3) [OF 1] do_mount_outcome(3) [OF 2] do_mount_outcome(3) [OF 3]
        do_mount_outcome(3) [OF 4] split: if_splits)
qed

lemma mount_fstab_tracks:
  assumes "mount_fstab file io m = Some (r, m', c)" shows "m' = fold track_mount (mounted_points c) m"
proof -
  have "m' = m \<and> c = [] \<or> (\<exists>doc is. fstab_loop doc io is MOUNT_OK m = (r, m', c))"
    using assms by (auto simp: mount_fstab_def Let_def split: option.splits sum.splits if_splits)
  then show ?thesis using fstab_loop_outcome [OF _ mount_result.distinct(1)] by (metis fold_simps(1) mounted_points_simps(1))
qed

lemma no_mounts_else [simp]:
  "mounted_points (splash_call s) = []" "mounted_points (ensure_log_dir a b) = []"
  "mounted_points (seed_entropy x u) = []"
  by (auto simp: splash_call_def ensure_log_dir_def seed_entropy_def split: option.splits)

lemma boot_services_calls: "boot_services io splash = Some (res, c) \<Longrightarrow> mounted_points c = []"
  by (auto simp: boot_services_def split: option.splits prod.splits if_splits)

lemma boot_tracks:
  assumes "luna_init_boot io = Some (res, m, calls)"
  shows "m = fold track_mount (mounted_points calls) []"
proof -
  obtain r1 m1 c1 where 1: "mount_early (bi_early io) [] = (r1, m1, c1)" by (metis prod_cases3)
  note e = mount_early_tracks [OF 1]
  show ?thesis
  proof (cases "bi_epoll io \<and> bi_signal io")
    case True
    then obtain r m2 c2 where f: "mount_fstab (bi_fstab io) (bi_mounts io) m1 = Some (r, m2, c2)"
      using assms 1 by (auto simp: luna_init_boot_def Let_def split: option.splits)
    from assms 1 True f mount_fstab_tracks [OF f] e show ?thesis
      by (auto simp: luna_init_boot_def Let_def split: if_splits dest!: boot_services_calls)
  qed (use assms 1 e in \<open>auto simp: luna_init_boot_def Let_def split: if_splits\<close>)
qed


section \<open>The boot leads into the event loop\<close>

lemma no_services_run: "sup_run no_services"
proof -
  have l: "service_load_all (Some []) [] = Some ([], 0)" by (simp add: service_load_all_def)
  have g: "depgraph_build [] = Some ((empty_graph, []), 0)" by (simp add: depgraph_eval)
  have "depgraph_topo_sort empty_graph 0 32 = Some []"
    by (simp add: depgraph_topo_sort_def kahn_def kahn_loop.simps)
  then have "supervisor_start_all io no_services = no_services" for io
    by (simp add: no_services_def supervisor_start_all_def supervisor_pump_def Let_def)
  with sup_run.run_boot [OF l g] show ?thesis by (metis no_services_def)
qed

lemma boot_services_loop:
  assumes "boot_services io splash = Some (Boot_loop st, c)" shows "loop_run st"
proof (cases "bi_services io")
  case None
  with assms have "st = enter_loop no_services" by (auto simp: boot_services_def service_load_all_def)
  with loop_run.loop_enter [OF no_services_run] show ?thesis by (simp add: enter_loop_def)
next
  case (Some ents)
  from assms obtain tbl n where l: "service_load_all (Some ents) [] = Some (tbl, n)"
    by (auto simp: boot_services_def Some split: option.splits)
  show ?thesis
  proof (cases "n \<le> 0")
    case True
    with assms l have "st = enter_loop no_services" by (simp add: boot_services_def Some)
    with loop_run.loop_enter [OF no_services_run] show ?thesis by (simp add: enter_loop_def)
  next
    case False
    with assms l obtain g tbl' rc where b: "depgraph_build tbl = Some ((g, tbl'), rc)" and rc: "\<not> rc < 0"
      and st: "st = enter_loop (supervisor_start_all (bi_pump io)
                 \<lparr>sup_services = tbl', sup_graph = g, sup_signal_ready = (\<lambda>i. False)\<rparr>)"
      by (auto simp: boot_services_def Some split: option.splits if_splits)
    have "rc = 0" using b rc by (auto simp: depgraph_build_def split: option.splits if_splits)
    with b have "depgraph_build tbl = Some ((g, tbl'), 0)" by simp
    from loop_run.loop_enter [OF sup_run.run_boot [OF l this]] st show ?thesis by (simp add: enter_loop_def)
  qed
qed

text \<open>
  The services that the definition files of a directory hold, in their order, when every file is
  well formed.
\<close>

definition directory_services :: "(string \<times> file_io) list \<Rightarrow> service list \<Rightarrow> bool" where
  "directory_services ents svcs \<longleftrightarrow>
     map (\<lambda>(_, fio). service_load_one fio) (filter (\<lambda>(name, _). is_toml_name name) ents) =
       map (\<lambda>s. Some (Inr s)) svcs"

lemma load_entries_directory:
  "directory_services ents svcs \<Longrightarrow> distinct (map sv_name (tbl @ svcs)) \<Longrightarrow>
   length (tbl @ svcs) \<le> SERVICE_MAX_COUNT \<Longrightarrow> load_entries ents tbl = Some (tbl @ svcs)"
proof (induction ents arbitrary: tbl svcs)
  case (Cons e ents)
  obtain name fio where e: "e = (name, fio)" by (cases e)
  show ?case
  proof (cases "is_toml_name name")
    case True
    with Cons.prems(1) e obtain s rest where s: "svcs = s # rest" "service_load_one fio = Some (Inr s)"
      "directory_services ents rest"
      by (auto simp: directory_services_def)
    moreover have "\<not> list_ex (\<lambda>t. sv_name t = sv_name s) tbl"
      using Cons.prems(2) s(1) by (auto simp: list_ex_iff) (metis image_eqI)
    ultimately show ?thesis using Cons.prems Cons.IH [of rest "tbl @ [s]"] True e by auto
  next
    case False
    with Cons e show ?thesis by (auto simp: directory_services_def)
  qed
qed (simp add: directory_services_def)

text \<open>The table of file systems that ends a boot: unreadable, or with a critical entry that fails.\<close>

definition fstab_fails :: "file_io \<Rightarrow> (int \<Rightarrow> mount_io) \<Rightarrow> bool" where
  "fstab_fails fio io \<longleftrightarrow>
     (case toml_load_file fio of
        Some (Inr doc) \<Rightarrow> \<exists>i \<in> {0..<toml_array_table_count doc ''mount''}. entry_fatal doc io i
      | _ \<Rightarrow> True)"

lemma mount_fstab_fatal:
  "\<exists>r m' c. mount_fstab fio io m = Some (r, m', c) \<and> (r = MOUNT_ERR_FATAL \<longleftrightarrow> fstab_fails fio io)"
proof (cases "\<exists>doc. toml_load_file fio = Some (Inr doc)")
  case True
  then obtain doc where doc: "toml_load_file fio = Some (Inr doc)" by blast
  let ?n = "toml_array_table_count doc ''mount''"
  obtain r m' c where l: "fstab_loop doc io (map int [0..<nat ?n]) MOUNT_OK m = (r, m', c)" by (metis prod_cases3)
  have s: "set (map int [0..<nat ?n]) = {0..<?n}"
    by (auto simp: image_iff) (metis atLeast0LessThan int_eq_iff lessThan_iff zless_nat_eq_int_zless)
  from fstab_loop_outcome [OF l mount_result.distinct(1), unfolded s] doc l show ?thesis
    by (auto simp: mount_fstab_def fstab_fails_def Let_def)
next
  case False
  with toml_load_file_total [of fio] obtain e where "toml_load_file fio = Some (Inl e)"
    by (metis not_None_eq sum.exhaust)
  then show ?thesis by (simp add: mount_fstab_def fstab_fails_def)
qed

text \<open>Every name the services wait for is one of theirs, and the declared order has no cycle.\<close>

definition services_orderable :: "service list \<Rightarrow> bool" where
  "services_orderable svcs \<longleftrightarrow>
     list_all (refs_resolve svcs) [0..<length svcs] \<and> acyclic {(i, j). must_precede svcs i j}"

lemma start_all_names:
  assumes "sup_ok sv"
  shows "map sv_name (sup_services (supervisor_start_all io sv)) = map sv_name (sup_services sv)"
proof -
  let ?sv = "sv\<lparr>sup_services := map reset_for_boot (sup_services sv)\<rparr>"
  have "same_config (sup_services ?sv) (sup_services sv)" by (simp add: same_config_nth reset_for_boot_facts)
  moreover from this have "sup_ok ?sv" using assms by (intro sup_ok_config [OF assms]) simp_all
  note pump_config [OF this, of io]
  ultimately have "map config (sup_services (supervisor_start_all io sv)) = map config (sup_services sv)"
    unfolding supervisor_start_all_def same_config_nth by (intro nth_equalityI) auto
  then have "map (sv_name \<circ> config) (sup_services (supervisor_start_all io sv)) = map (sv_name \<circ> config) (sup_services sv)"
    by (metis map_map)
  moreover have "sv_name \<circ> config = sv_name" by (simp add: fun_eq_iff config_def)
  ultimately show ?thesis by simp
qed

lemma boot_services_directory:
  assumes dir: "bi_services io = Some ents" "directory_services ents svcs" "distinct (map sv_name svcs)"
      "length svcs \<le> SERVICE_MAX_COUNT" "list_all few_deps svcs"
  shows "\<exists>res c. boot_services io splash = Some (res, c) \<and>
    (if services_orderable svcs
     then \<exists>st. res = Boot_loop st \<and> loop_run st \<and> map sv_name (sup_services (in_sup st)) = map sv_name svcs
     else \<exists>reason. res = Boot_panic reason)"
proof -
  have e: "load_entries ents [] = Some svcs" using load_entries_directory [OF dir(2), of "[]"] dir(3,4) by simp
  then have l: "service_load_all (Some ents) [] = Some (svcs, int (length svcs))" by (simp add: service_load_all_def)
  obtain g tbl' rc where b: "depgraph_build svcs = Some ((g, tbl'), rc)"
    using depgraph_build_safe [OF dir(5)] by fastforce
  have "deps_valid svcs" using load_entries_deps [OF e] by (simp add: deps_valid_empty)
  note f = depgraph_build_facts [OF load_all_fresh(1) [OF l] this b, folded services_orderable_def]
  have rc: "rc = 0 \<or> rc < 0" using b by (auto simp: depgraph_build_def split: option.splits if_splits)
  show ?thesis
  proof (cases "services_orderable svcs")
    case False
    then have "svcs \<noteq> []" by (auto simp: services_orderable_def must_precede_def acyclic_def)
    with False b f(4) rc l dir(1) show ?thesis by (auto simp: boot_services_def)
  next
    case True
    then have "rc = 0" using f(4) by simp
    obtain st c where s: "boot_services io splash = Some (Boot_loop st, c)"
      "sup_services (in_sup st) = (if svcs = [] then [] else sup_services (supervisor_start_all (bi_pump io)
         \<lparr>sup_services = tbl', sup_graph = g, sup_signal_ready = (\<lambda>i. False)\<rparr>))"
      using \<open>rc = 0\<close> l b dir(1) by (cases "svcs = []") (auto simp: boot_services_def enter_loop_def no_services_def)
    have "sup_ok \<lparr>sup_services = tbl', sup_graph = g, sup_signal_ready = (\<lambda>i. False)\<rparr>"
      using build_inv(1) [OF l b, of "\<lambda>i. False"] by (simp add: sup_inv_def)
    note n = start_all_names [OF this, of "bi_pump io"]
    have "map (sv_name \<circ> strip_deps) tbl' = map (sv_name \<circ> strip_deps) svcs" using f(1) by (metis map_map)
    moreover have "sv_name \<circ> strip_deps = sv_name" by (simp add: fun_eq_iff)
    ultimately have "map sv_name (sup_services (in_sup st)) = map sv_name svcs" using n s(2) by simp
    with s(1) boot_services_loop [OF s(1)] True show ?thesis by auto
  qed
qed

text \<open>
  C30: how a boot ends, when the early mounts of \<open>/proc\<close>, \<open>/sys\<close> and \<open>/dev\<close> succeed and the service
  directory holds at most 32 well-formed definitions with distinct names, each with at most eight
  names in a dependency list. It panics exactly when the event loop or the signals cannot be set
  up, the file system table cannot be read or a critical entry of it cannot be mounted, or a service
  waits for an unknown one or the declared order has a cycle. In all other cases it enters the
  event loop with the services of the directory, in a state the loop's invariants hold for.
\<close>

theorem boot_enters_loop:
  assumes "fst (mount_early (bi_early io) []) = MOUNT_OK"
    and "bi_services io = Some ents" "directory_services ents svcs" "distinct (map sv_name svcs)"
    and "length svcs \<le> SERVICE_MAX_COUNT" "list_all few_deps svcs"
  shows "\<exists>res m calls. luna_init_boot io = Some (res, m, calls) \<and>
    (if bi_epoll io \<and> bi_signal io \<and> \<not> fstab_fails (bi_fstab io) (bi_mounts io) \<and> services_orderable svcs
     then \<exists>st. res = Boot_loop st \<and> loop_run st \<and> map sv_name (sup_services (in_sup st)) = map sv_name svcs
     else \<exists>reason. res = Boot_panic reason)"
proof (cases "bi_epoll io \<and> bi_signal io")
  case True
  obtain r1 m1 c1 where 1: "mount_early (bi_early io) [] = (r1, m1, c1)" by (metis prod_cases3)
  obtain r m2 c2 where f: "mount_fstab (bi_fstab io) (bi_mounts io) m1 = Some (r, m2, c2)"
    "r = MOUNT_ERR_FATAL \<longleftrightarrow> fstab_fails (bi_fstab io) (bi_mounts io)"
    using mount_fstab_fatal [of "bi_fstab io" "bi_mounts io" m1] by blast
  obtain res c where b: "boot_services io (splash_start (bi_pipe io) (bi_fork io) splash_initial) = Some (res, c)"
    "if services_orderable svcs
     then \<exists>st. res = Boot_loop st \<and> loop_run st \<and> map sv_name (sup_services (in_sup st)) = map sv_name svcs
     else \<exists>reason. res = Boot_panic reason"
    using boot_services_directory [OF assms(2-6)] by blast
  from b(2) show ?thesis using True 1 f b(1) by (auto simp: luna_init_boot_def Let_def)
qed (auto simp: luna_init_boot_def Let_def split: prod.splits)

text \<open>
  What the early mounts of \<open>/proc\<close>, \<open>/sys\<close> and \<open>/dev\<close> return is ignored: whether the boot panics or
  enters the loop does not depend on them.
\<close>

lemma fstab_loop_result_any_table:
  "fst (fstab_loop doc io is overall m1) = fst (fstab_loop doc io is overall m2)"
proof (induction "is" arbitrary: overall m1 m2)
  case (Cons i "is")
  show ?case
  proof (cases "fstab_entry doc i")
    case None
    then show ?thesis by (simp add: Cons.IH [of _ m1 m2])
  next
    case (Some e)
    obtain dev mp fs opts where e: "e = (dev, mp, fs, opts)" by (metis prod_cases4)
    obtain r1 n1 c1 where 1: "do_mount (io i) dev mp fs opts m1 = (r1, n1, c1)" by (metis prod_cases3)
    obtain r2 n2 c2 where 2: "do_mount (io i) dev mp fs opts m2 = (r2, n2, c2)" by (metis prod_cases3)
    have "r1 = r2" using do_mount_outcome(1) [OF 1] do_mount_outcome(1) [OF 2] by simp
    with Some e 1 2 Cons.IH [of _ n1 n2] show ?thesis by (auto split: prod.splits) (metis fst_conv)+
  qed
qed simp

theorem early_mounts_ignored:
  "map_option fst (luna_init_boot (io\<lparr>bi_early := e\<rparr>)) = map_option fst (luna_init_boot io)"
proof -
  have m: "map_option fst (mount_fstab f mi m1) = map_option fst (mount_fstab f mi m2)" for f mi m1 m2
    using fstab_loop_result_any_table [of _ mi _ MOUNT_OK m1 m2]
    by (auto simp: mount_fstab_def Let_def split: option.splits sum.splits)
  have same: "bi_pump (io\<lparr>bi_early := e\<rparr>) = bi_pump io" "bi_services (io\<lparr>bi_early := e\<rparr>) = bi_services io"
    by simp_all
  have s: "boot_services (io\<lparr>bi_early := e\<rparr>) splash = boot_services io splash" for splash
    unfolding boot_services_def same ..
  obtain r1 m1 c1 where 1: "mount_early e [] = (r1, m1, c1)" by (metis prod_cases3)
  obtain r2 m2 c2 where 2: "mount_early (bi_early io) [] = (r2, m2, c2)" by (metis prod_cases3)
  show ?thesis
    unfolding luna_init_boot_def 1 2 using m [of "bi_fstab io" "bi_mounts io" m1 m2]
    by (auto simp: 1 2 s Let_def option.map_comp o_def case_prod_unfold split: option.splits)
qed

section \<open>Host name\<close>

text \<open>The name in the file, without the line ends behind it, becomes the host name.\<close>

theorem hostname_from_file:
  assumes "NUL \<notin> set name" "name \<noteq> []" "last name \<notin> {LF, CR}" "length name \<le> 253"
    and "ending \<in> {[], [LF], [CR, LF]}"
  shows "hostname_set (Some (name @ ending)) = name"
proof -
  have t: "take 255 (name @ ending) = name @ ending" using assms(4,5) by auto
  have "dropWhile (\<lambda>c. c = LF \<or> c = CR) (rev name) = rev name"
    using assms(2,3) by (cases name rule: rev_cases) auto
  with assms(5) have "rev (dropWhile (\<lambda>c. c = LF \<or> c = CR) (rev (name @ ending))) = name" by auto
  with t assms(1,2) show ?thesis by (simp add: hostname_set_def Let_def cstr_id)
qed

section \<open>An example\<close>

definition mount_block :: "string \<Rightarrow> string \<Rightarrow> string list \<Rightarrow> toml_block" where
  "mount_block device mp opts =
     \<lparr>blk_array = True, blk_name = ''mount'',
      blk_pairs = [(''device'', TOML_STRING device), (''mountpoint'', TOML_STRING mp),
                   (''fstype'', TOML_STRING device), (''options'', TOML_ARRAY opts)]\<rparr>"

definition sample_fstab :: "toml_block list" where
  "sample_fstab = [mount_block ''proc'' ''/proc'' [''nosuid''], mount_block ''tmpfs'' ''/tmp'' [''noexec'', ''size=2G'']]"

definition mount_works :: mount_io where
  "mount_works = \<lparr>mi_stat = True, mi_mkdir = True, mi_mount = MountDone\<rparr>"

abbreviation sample_fstab_file :: file_io where
  "sample_fstab_file \<equiv> readable_file (render_doc [] sample_fstab)"

lemma sample_fstab_loads: "toml_load_file sample_fstab_file = Some (Inr (doc_of [] sample_fstab))"
proof -
  have "plain_doc [] sample_fstab" by (simp add: sample_fstab_def mount_block_def print_eval)
  from toml_load_printed [OF this] show ?thesis
    by (simp add: toml_load_file_def readable_file_def sample_fstab_def mount_block_def print_eval)
qed

lemma sample_fstab_entries:
  "toml_array_table_count (doc_of [] sample_fstab) ''mount'' = 2"
  "fstab_entry (doc_of [] sample_fstab) 0 = Some (''proc'', ''/proc'', ''proc'', ''nosuid'')"
  "fstab_entry (doc_of [] sample_fstab) 1 = Some (''tmpfs'', ''/tmp'', ''tmpfs'', ''noexec,size=2G'')"
  by (simp_all add: sample_fstab_def mount_block_def doc_of_def add_block_def entry_of_def Let_def
      toml_array_table_count_def fstab_entry_def toml_array_table_get_def strncat_room_def strncmp_eq_def table_count_def)

theorem mount_fstab_result_witness:
  "\<exists>m calls. mount_fstab sample_fstab_file (\<lambda>i. mount_works) [] = Some (MOUNT_OK, m, calls) \<and>
     mounted_points calls = [''/proc'', ''/tmp'']"
proof -
  obtain r m calls where f: "mount_fstab sample_fstab_file (\<lambda>i. mount_works) [] = Some (r, m, calls)"
    by (simp add: mount_fstab_def sample_fstab_loads Let_def) (metis prod_cases3)
  have ok: "entry_mounts (doc_of [] sample_fstab) (\<lambda>i. mount_works) i = [fst (snd (the (fstab_entry (doc_of [] sample_fstab) i)))]"
    "\<not> entry_fatal (doc_of [] sample_fstab) (\<lambda>i. mount_works) i" if "i \<in> {0..<2}" for i
  proof -
    from that have "i = 0 \<or> i = 1" by auto
    then show "entry_mounts (doc_of [] sample_fstab) (\<lambda>i. mount_works) i = [fst (snd (the (fstab_entry (doc_of [] sample_fstab) i)))]"
      "\<not> entry_fatal (doc_of [] sample_fstab) (\<lambda>i. mount_works) i"
      by (auto simp: entry_mounts_def entry_fatal_def mount_succeeds_def mount_works_def sample_fstab_entries)
  qed
  have "map int [0..<nat 2] = [0, 1]" by (simp add: upt_rec)
  with mount_fstab_result [OF sample_fstab_loads f] ok [of 0] ok [of 1] ok(1) f show ?thesis
    by (auto simp: sample_fstab_entries)
qed

definition sample_boot :: boot_io where
  "sample_boot =
     \<lparr>bi_early = (\<lambda>i. mount_works), bi_stat_log = True, bi_stat_init_log = False, bi_pipe = Some 5, bi_fork = 80,
      bi_epoll = True, bi_signal = True, bi_fstab = sample_fstab_file, bi_mounts = (\<lambda>i. mount_works),
      bi_hostname = Some (''luna'' @ [LF]), bi_machine_id = None, bi_urandom = True, bi_services = None,
      bi_pump = sample_io 0 1\<rparr>"

lemma sample_boot_result:
  "\<exists>m calls. luna_init_boot sample_boot = Some (Boot_loop (enter_loop no_services), m, calls) \<and>
     mounted_points calls = [''/proc'', ''/sys'', ''/dev'', ''/sys/fs/cgroup'', ''/proc'', ''/tmp'']"
proof -
  have "map int [0..<nat 2] = [0, 1]" by (simp add: upt_rec)
  then have f: "\<exists>m c. mount_fstab sample_fstab_file (\<lambda>i. mount_works) m1 = Some (MOUNT_OK, m, c) \<and>
      mounted_points c = [''/proc'', ''/tmp'']" for m1
    by (simp add: mount_fstab_def sample_fstab_loads sample_fstab_entries do_mount_def mount_works_def Let_def
        split: prod.splits)
  have e: "\<exists>m c. mount_early (\<lambda>i. mount_works) [] = (MOUNT_OK, m, c) \<and>
      mounted_points c = [''/proc'', ''/sys'', ''/dev'', ''/sys/fs/cgroup'']"
    by (simp add: mount_early_def do_mount_def mount_works_def mount_options_def)
  then obtain m1 c1 where e: "mount_early (\<lambda>i. mount_works) [] = (MOUNT_OK, m1, c1)"
    "mounted_points c1 = [''/proc'', ''/sys'', ''/dev'', ''/sys/fs/cgroup'']" by blast
  obtain m2 c2 where f: "mount_fstab sample_fstab_file (\<lambda>i. mount_works) m1 = Some (MOUNT_OK, m2, c2)"
    "mounted_points c2 = [''/proc'', ''/tmp'']" using f by blast
  show ?thesis
    by (simp add: luna_init_boot_def sample_boot_def e f boot_services_def service_load_all_def Let_def)
qed

theorem boot_enters_loop_witness:
  "\<exists>st m calls. luna_init_boot (sample_boot\<lparr>bi_services := Some solo_dir\<rparr>) = Some (Boot_loop st, m, calls) \<and>
     map sv_name (sup_services (in_sup st)) = [''log''] \<and>
   (\<exists>reason m' calls'. luna_init_boot (sample_boot\<lparr>bi_services := Some solo_dir, bi_signal := False\<rparr>) =
      Some (Boot_panic reason, m', calls'))"
proof -
  let ?good = "sample_boot\<lparr>bi_services := Some solo_dir\<rparr>"
  let ?bad = "sample_boot\<lparr>bi_services := Some solo_dir, bi_signal := False\<rparr>"
  have e: "fst (mount_early (\<lambda>i. mount_works) []) = MOUNT_OK"
    by (simp add: mount_early_def do_mount_def mount_works_def mount_options_def)
  have d: "directory_services solo_dir [solo]"
    using solo_boot(1)
    by (auto simp: directory_services_def service_load_all_def solo_dir_def is_toml_name_def
        split: option.splits sum.splits if_splits)
  have f: "\<not> fstab_fails sample_fstab_file (\<lambda>i. mount_works)"
    by (auto simp: fstab_fails_def sample_fstab_loads entry_fatal_def mount_succeeds_def mount_works_def split: option.splits)
  have "deps_valid [solo]" by (simp add: deps_valid_def solo_def init_service_def)
  from depgraph_build_facts(4) [OF load_all_fresh(1) [OF solo_boot(1)] this solo_boot(2)]
  have o: "services_orderable [solo]" by (simp add: services_orderable_def)
  have "fst (mount_early (bi_early ?good) []) = MOUNT_OK" "bi_services ?good = Some solo_dir"
    "fst (mount_early (bi_early ?bad) []) = MOUNT_OK" "bi_services ?bad = Some solo_dir"
    using e by (simp_all add: sample_boot_def)
  note b = boot_enters_loop [OF this(1,2) d _ _ solo_boot(3)] boot_enters_loop [OF this(3,4) d _ _ solo_boot(3)]
  have "bi_epoll ?good" "bi_signal ?good" "\<not> fstab_fails (bi_fstab ?good) (bi_mounts ?good)" "\<not> bi_signal ?bad"
    using f by (simp_all add: sample_boot_def)
  with b o show ?thesis by (fastforce simp: solo_def)
qed


theorem hostname_from_file_witness: "hostname_set (Some (''mahina-1'' @ [LF])) = ''mahina-1''"
  by (rule hostname_from_file) simp_all

end
