(* ===== verification/Init_Console.thy ===== *)
theory Init_Console
  imports Init_Boot
begin

text \<open>
  The shells luna-init starts (\<open>luna-init/panic.c\<close>, \<open>console.c\<close>) and \<open>main\<close> of the command line client
  (\<open>luna-init-ctl/main.c\<close>), connected to the control socket. Shown: a shell on a terminal has it as its three
  standard descriptors, and the client's exit code says whether a service was started.
\<close>

section \<open>Shells\<close>

text \<open>
  A program image handed to \<open>execve\<close>. A call returns only when it fails; \<open>runs\<close> says which paths can be
  executed, and the result is the image the process becomes, \<open>None\<close> the loop that waits for ever.
\<close>

record exec_image =
  ex_path :: string
  ex_argv :: "string list"
  ex_envp :: "string list"

definition exec_shell :: "(string \<Rightarrow> bool) \<Rightarrow> exec_image list \<Rightarrow> exec_image option" where
  "exec_shell runs imgs = find (\<lambda>img. runs (ex_path img)) imgs"

definition SHELL_CANDIDATES :: "string list" where
  "SHELL_CANDIDATES = [''/bin/busybox'', ''/usr/bin/busybox'', ''/bin/sh'', ''/usr/bin/sh'']"

definition panic_env :: "string list" where
  "panic_env = [''PATH=/usr/bin:/usr/sbin:/bin:/sbin'', ''TERM=linux'', ''HOME=/root'']"

text \<open>
  \<open>banner\<close> is the fixed text of the code. The texts written to the terminal, if it can be opened, and the
  image.
\<close>

definition panic_drop_to_shell :: "string \<Rightarrow> bool \<Rightarrow> (string \<Rightarrow> bool) \<Rightarrow> string option \<Rightarrow> string list \<times> exec_image option" where
  "panic_drop_to_shell banner tty_ok runs reason =
     ((if tty_ok
       then banner # (case reason of None \<Rightarrow> [] | Some r \<Rightarrow> [''Reason: '', r, [CR, LF, CR, LF]])
       else []),
      exec_shell runs (map (\<lambda>p. \<lparr>ex_path = p, ex_argv = [p], ex_envp = panic_env\<rparr>) SHELL_CANDIDATES))"

text \<open>The descriptors of a process: what each is open on.\<close>

type_synonym fd_table = "int \<Rightarrow> string option"

definition dup2 :: "int \<Rightarrow> int \<Rightarrow> fd_table \<Rightarrow> fd_table" where
  "dup2 old new t = (case t old of None \<Rightarrow> t | Some f \<Rightarrow> t(new \<mapsto> f))"

definition close_fd :: "int \<Rightarrow> fd_table \<Rightarrow> fd_table" where
  "close_fd fd t = t(fd := None)"

text \<open>\<open>opened\<close> is the descriptor \<open>open\<close> returns for the terminal, negative when it fails.\<close>

definition console_stdio :: "string option \<Rightarrow> int \<Rightarrow> fd_table \<Rightarrow> fd_table" where
  "console_stdio tty_path opened t =
     (case tty_path of
        None \<Rightarrow> t
      | Some path \<Rightarrow>
          if opened < 0 then t
          else
            (let t1 = dup2 opened 2 (dup2 opened 1 (dup2 opened 0 (t(opened \<mapsto> path))))
             in if opened > 2 then close_fd opened t1 else t1))"

definition console_env :: "string list" where
  "console_env = [''PATH=/usr/bin:/usr/sbin:/bin:/sbin'', ''TERM=linux'', ''HOME=/root'', ''USER=root'', ''MAHINA_VERSION=0.1.0'']"

definition console_drop_to_shell ::
  "string option \<Rightarrow> int \<Rightarrow> (string \<Rightarrow> bool) \<Rightarrow> fd_table \<Rightarrow> fd_table \<times> exec_image option" where
  "console_drop_to_shell tty_path opened runs t =
     (console_stdio tty_path opened t,
      exec_shell runs (map (\<lambda>p. \<lparr>ex_path = p, ex_argv = [p], ex_envp = console_env\<rparr>)
        [''/bin/sh'', ''/usr/bin/sh'', ''/bin/busybox'']))"

text \<open>
  Where busybox is installed the emergency shell is not a shell: busybox is called under its own name and
  without the name of an applet.
\<close>

lemma panic_runs_busybox:
  "runs ''/bin/busybox'' \<Longrightarrow>
   snd (panic_drop_to_shell banner tty runs reason) =
     Some \<lparr>ex_path = ''/bin/busybox'', ex_argv = [''/bin/busybox''], ex_envp = panic_env\<rparr>"
  by (simp add: panic_drop_to_shell_def exec_shell_def SHELL_CANDIDATES_def)

lemma panic_without_shell:
  "snd (panic_drop_to_shell banner tty runs reason) = None \<longleftrightarrow> (\<forall>p \<in> set SHELL_CANDIDATES. \<not> runs p)"
  by (auto simp: panic_drop_to_shell_def exec_shell_def find_None_iff)

text \<open>
  A shell on a terminal has it as standard input, output and error, and no other descriptor changed: the
  one it was opened as, which was not in use before, is closed again unless it is one of the three.
\<close>

theorem console_on_tty:
  assumes "t opened = None" "0 \<le> opened"
  shows "fst (console_drop_to_shell (Some tty) opened runs t) = t(0 \<mapsto> tty, 1 \<mapsto> tty, 2 \<mapsto> tty)"
proof -
  consider "opened = 0" | "opened = 1" | "opened = 2" | "2 < opened" using assms(2) by linarith
  then show ?thesis
    using assms
    by cases (auto simp: console_drop_to_shell_def console_stdio_def dup2_def close_fd_def Let_def fun_eq_iff)
qed

theorem console_on_tty_witness:
  "fst (console_drop_to_shell (Some ''/dev/tty1'') 3 (\<lambda>p. True) (Map.empty(0 \<mapsto> ''/dev/console''))) 3 = None"
  using console_on_tty [of "Map.empty(0 \<mapsto> ''/dev/console'')" 3 "''/dev/tty1''" "\<lambda>p. True"] by simp

section \<open>The command line client\<close>

text \<open>
  \<open>main\<close> of \<open>luna-init-ctl\<close>. \<open>None\<close> for the connection: it could not be made; for an exchange: the write
  failed; else the bytes one read delivers, none when it fails. The result is the exit code and what is
  printed to standard output.
\<close>

definition ctl_output :: "char list \<Rightarrow> string" where
  "ctl_output bytes =
     (let buf = take 8191 bytes in
      if buf = [] then [] else cstr buf @ (if last buf \<noteq> LF then [LF] else []))"

definition ctl_main :: "string list \<Rightarrow> (string \<Rightarrow> char list option) option \<Rightarrow> int \<times> string" where
  "ctl_main argv connection =
     (case argv of
        [] \<Rightarrow> (1, [])
      | cmd # rest \<Rightarrow>
          (case build_request cmd (case rest of [] \<Rightarrow> [] | name # _ \<Rightarrow> name) of
             None \<Rightarrow> (1, [])
           | Some json \<Rightarrow>
               (case connection of
                  None \<Rightarrow> (1, [])
                | Some exchange \<Rightarrow>
                    (case exchange json of
                       None \<Rightarrow> (- 1, [])
                     | Some bytes \<Rightarrow> (ctl_exit_code bytes, ctl_output bytes)))))"

text \<open>The connection to a luna-init in a state: its replies arrive in one read.\<close>

definition init_connection :: "ctl_io \<Rightarrow> supervisor \<Rightarrow> string \<Rightarrow> char list option" where
  "init_connection io sv request =
     map_option (\<lambda>e. concat (ce_writes e)) (ctl_server_accept io (Some request) sv)"

text \<open>The reply to a failed start holds the mark of success nowhere, since the name has no quotes.\<close>

lemma split_str_skip:
  "\<lbrakk>n = q # n'; q \<notin> set a; split_str n b = None\<rbrakk> \<Longrightarrow> split_str n (a @ b) = None"
  by (induction a) auto

lemma failed_exit_code:
  assumes "plain_name name"
  shows "ctl_exit_code (jq ''{`ok`:false,`error`:`failed to start '' @ name @ jq ''`}'' @ [LF]) = 1"
proof -
  have n: "length name < 64" "DQUOTE \<notin> set name" "NUL \<notin> set name"
    using assms by (auto simp: plain_name_def list_all_iff)
  have "split_str (jq ''`ok`:true'') (name @ jq ''`}'' @ [LF]) = None"
    by (rule split_str_skip [OF _ n(2)]) (simp_all add: jq_simps)
  then have "split_str (jq ''`ok`:true'') (jq ''{`ok`:false,`error`:`failed to start '' @ name @ jq ''`}'' @ [LF]) = None"
    by (simp add: jq_simps)
  moreover have "cstr (take 8191 (jq ''{`ok`:false,`error`:`failed to start '' @ name @ jq ''`}'' @ [LF])) =
      jq ''{`ok`:false,`error`:`failed to start '' @ name @ jq ''`}'' @ [LF]"
    using n by (simp add: jq_simps cstr_id)
  ultimately show ?thesis by (simp add: ctl_exit_code_def jq_simps)
qed

text \<open>The outcome of a start by hand, read off the table.\<close>

definition start_failed :: "string \<Rightarrow> supervisor \<Rightarrow> supervisor \<Rightarrow> bool" where
  "start_failed name sv sv' \<longleftrightarrow>
     (case service_find (sup_services sv) name of
        None \<Rightarrow> True
      | Some i \<Rightarrow> sv_state (sup_services sv' ! i) = SERVICE_STATE_DEGRADED)"

lemma ctl_start_state:
  "sv_state (start_result io i s) = SERVICE_STATE_STARTING \<or> sv_state (start_result io i s) = SERVICE_STATE_DEGRADED"
  by (simp add: start_result_def)

lemma start_one_outcome:
  assumes ok: "sup_ok sv" and ac: "acyclic (edges (sup_graph sv))" and now: "0 \<le> pm_now io"
    and start: "supervisor_start_one io name sv = (sv', rc)"
  shows "rc = (if start_failed name sv sv' then - 1 else 0)"
    and "service_find (sup_services sv) name = Some i \<Longrightarrow>
      sv_state (sup_services sv' ! i) \<in> {SERVICE_STATE_RUNNING, SERVICE_STATE_STARTING, SERVICE_STATE_DEGRADED} \<or>
      sv_state (sup_services sv' ! i) = SERVICE_STATE_PENDING \<and>
        (\<exists>d \<in> set (sv_dep_indices (sup_services sv ! i)). d = i \<or> \<not> dep_satisfied (sup_services sv) d)"
proof -
  let ?f = "\<lambda>s. s\<lparr>sv_state := SERVICE_STATE_PENDING, sv_restart_count := 0, sv_scheduled_start_ms := 0\<rparr>"
  have out: "sv_state (sup_services sv' ! i) \<in> {SERVICE_STATE_STARTING, SERVICE_STATE_DEGRADED} \<or>
      sv_state (sup_services sv' ! i) = SERVICE_STATE_PENDING \<and>
        (\<exists>d \<in> set (sv_dep_indices (sup_services sv ! i)). d = i \<or> \<not> dep_satisfied (sup_services sv) d)"
    if find: "service_find (sup_services sv) name = Some i"
      and idle: "\<not> active (sup_services sv ! i)" for i
  proof -
    let ?sv = "upd_service i ?f sv"
    have i: "i < length (sup_services sv)" using service_find_Some [OF find] by blast
    have ok': "sup_ok ?sv" using ok i by (intro sup_ok_config [OF ok]) (auto simp: same_config_nth)
    have i': "i < length (sup_services ?sv)" using i by simp
    have s: "sup_services ?sv ! i = ?f (sup_services sv ! i)" using i by simp
    have sv': "sv' = supervisor_pump io ?sv"
      using start find idle by (simp add: supervisor_start_one_def Let_def active_def)
    note p = pump_cases [OF ok' i', of io, folded sv', unfolded s]
    show ?thesis
    proof (cases "may_start io (sup_services ?sv) (?f (sup_services sv ! i))")
      case True
      with p(5) ac ctl_start_state show ?thesis by simp
    next
      case False
      then obtain d where "d \<in> set (sv_dep_indices (sup_services sv ! i))" "\<not> dep_satisfied (sup_services ?sv) d"
        using now by (auto simp: may_start_def list_all_iff)
      then have "\<exists>d \<in> set (sv_dep_indices (sup_services sv ! i)). d = i \<or> \<not> dep_satisfied (sup_services sv) d"
        by (auto simp: dep_satisfied_def upd_service_def nth_list_update_neq intro!: bexI [of _ d])
      with p(3) ctl_start_state [of io i "?f (sup_services sv ! i)"] show ?thesis by auto
    qed
  qed
  show "rc = (if start_failed name sv sv' then - 1 else 0)"
    using start out
    by (fastforce simp: start_failed_def supervisor_start_one_def active_def Let_def split: option.splits if_splits)
  show "service_find (sup_services sv) name = Some i \<Longrightarrow>
      sv_state (sup_services sv' ! i) \<in> {SERVICE_STATE_RUNNING, SERVICE_STATE_STARTING, SERVICE_STATE_DEGRADED} \<or>
      sv_state (sup_services sv' ! i) = SERVICE_STATE_PENDING \<and>
        (\<exists>d \<in> set (sv_dep_indices (sup_services sv ! i)). d = i \<or> \<not> dep_satisfied (sup_services sv) d)"
    using start out [of i] by (auto simp: supervisor_start_one_def active_def Let_def split: if_splits)
qed

lemma ctl_start_exchange:
  assumes "plain_name name" "name \<noteq> []"
  shows "ctl_server_accept io (Some (named_request ''start'' name)) sv = Some (handle_start io name sv)"
    and "fst (ctl_main [''start'', name] (Some (init_connection io sv))) =
      (if snd (supervisor_start_one (ctl_pump io) name sv) = 0 then 0 else 1)"
proof -
  let ?r = "named_request ''start'' name"
  have n: "length name < 64" "NUL \<notin> set name" using assms(1) by (auto simp: plain_name_def list_all_iff)
  have b: "build_request ''start'' name = Some ?r" using assms(2) by (simp add: build_request_def)
  have r: "?r = jq ''{`cmd`:`start`,`name`:`'' @ name @ jq ''`}'' @ [LF]"
    unfolding named_request_def using n by (subst bounded_copy_id) (simp_all add: jq_simps)
  then have a: "ctl_server_accept io (Some ?r) sv = dispatch io ?r sv"
    using n by (simp add: ctl_server_accept_def jq_simps cstr_id)
  have d: "dispatch io ?r sv = Some (handle_start io name sv)"
    using named_request_fields [OF assms(1), of "''start''"] by (simp add: dispatch_def Let_def)
  with a show "ctl_server_accept io (Some ?r) sv = Some (handle_start io name sv)" by simp
  obtain sv' rc where s: "supervisor_start_one (ctl_pump io) name sv = (sv', rc)" by (metis surj_pair)
  have w: "concat (ce_writes (handle_start io name sv)) =
      (if rc = 0 then jq ''{`ok`:true}'' @ [LF]
       else jq ''{`ok`:false,`error`:`failed to start '' @ name @ jq ''`}'' @ [LF])"
    using s assms(2) n
    by (simp add: handle_start_def reply_def write_literal_def jq_simps bounded_copy_id)
  have "fst (ctl_main [''start'', name] (Some (init_connection io sv))) =
      ctl_exit_code (concat (ce_writes (handle_start io name sv)))"
    by (simp add: ctl_main_def b init_connection_def a d)
  with s w ok_exit_code [of "[]"] failed_exit_code [OF assms(1)]
  show "fst (ctl_main [''start'', name] (Some (init_connection io sv))) =
      (if snd (supervisor_start_one (ctl_pump io) name sv) = 0 then 0 else 1)" by simp
qed


definition sample_ctl :: ctl_io where
  "sample_ctl = \<lparr>ctl_pump = sample_io 0 1, ctl_stop = sample_stop\<rparr>"


end
