(* ===== verification/Splash_Ipc.thy ===== *)
theory Splash_Ipc
  imports Init_Boot
begin

text \<open>
  The pipe from luna-init to the splash program (\<open>src/src/luna-splash/ipc.c\<close>): the buffer of 256 bytes,
  the splitting into lines, and their parts. Shown: what \<open>splash_update\<close> of luna-init writes arrives
  unchanged, however the reads cut it.
\<close>

section \<open>Progress messages\<close>

text \<open>
  The static buffer of \<open>ipc.c\<close> as its used part; behind it is a NUL. The answers of \<open>read\<close> are a list,
  an empty text standing for a call that delivers nothing, as do all calls behind its end.
\<close>

abbreviation (input) MAX_IPC_MSG :: nat where "MAX_IPC_MSG \<equiv> 256"

definition ipc_append :: "string \<Rightarrow> string \<Rightarrow> string" where
  "ipc_append buffer temp =
     (let n = length temp;
          to_copy = (if length buffer + n \<ge> MAX_IPC_MSG then MAX_IPC_MSG - length buffer - 1 else n)
      in buffer @ take to_copy temp)"

text \<open>The first complete line, parsed, and the buffer behind it.\<close>

definition ipc_parse :: "string \<Rightarrow> string \<times> int" where
  "ipc_parse line =
     (case split_chr CHR ''|'' line of
        Some (before, after) \<Rightarrow> (bounded_copy MAX_IPC_MSG after, atoi before)
      | None \<Rightarrow> (bounded_copy MAX_IPC_MSG line, 0))"

definition ipc_take :: "string \<Rightarrow> ((string \<times> int) \<times> string) option" where
  "ipc_take buffer =
     map_option (\<lambda>(line, _). (ipc_parse line, drop (length line + 1) buffer)) (split_chr LF (cstr buffer))"

text \<open>One call: the event, if any, the answers of \<open>read\<close> not yet used, and the buffer.\<close>

definition ipc_read_event ::
  "int \<Rightarrow> string list \<Rightarrow> string \<Rightarrow> (string \<times> int) option \<times> string list \<times> string" where
  "ipc_read_event ipc_fd reads buffer =
     (if ipc_fd < 0 then (None, reads, buffer)
      else
        (case ipc_take buffer of
           Some (ev, rest) \<Rightarrow> (Some ev, reads, rest)
         | None \<Rightarrow>
             (case reads of
                [] \<Rightarrow> (None, [], buffer)
              | r # rs \<Rightarrow>
                  (let temp = take 63 r in
                   if temp = [] then (None, rs, buffer)
                   else
                     (case ipc_take (ipc_append buffer temp) of
                        Some (ev, rest) \<Rightarrow> (Some ev, rs, rest)
                      | None \<Rightarrow> (None, rs, ipc_append buffer temp))))))"

lemma ipc_take_shorter: "ipc_take buffer = Some (ev, rest) \<Longrightarrow> length rest < length buffer"
  using length_cstr_le [of buffer] by (auto simp: ipc_take_def split_chr_Some)

lemma ipc_read_event_consumes:
  assumes "ipc_read_event fd reads buffer = (Some ev, reads', buffer')"
  shows "length reads' < length reads \<or> length reads' = length reads \<and> length buffer' < length buffer"
  using assms
  by (auto simp: ipc_read_event_def Let_def dest: ipc_take_shorter split: if_splits option.splits list.splits)

text \<open>The loop of \<open>main\<close> that drains the pipe: all events until a call reports none.\<close>

function ipc_drain :: "int \<Rightarrow> string list \<Rightarrow> string \<Rightarrow> (string \<times> int) list \<times> string list \<times> string" where
  "ipc_drain fd reads buffer =
     (case ipc_read_event fd reads buffer of
        (None, reads', buffer') \<Rightarrow> ([], reads', buffer')
      | (Some ev, reads', buffer') \<Rightarrow>
          (case ipc_drain fd reads' buffer' of (evs, reads'', buffer'') \<Rightarrow> (ev # evs, reads'', buffer'')))"
  by pat_completeness auto
termination
  by (relation "measures [\<lambda>(fd, reads, buffer). length reads, \<lambda>(fd, reads, buffer). length buffer]")
    (auto dest!: ipc_read_event_consumes [OF sym])

declare ipc_drain.simps [simp del]

section \<open>Messages arrive unchanged\<close>

text \<open>All events of repeated calls, until the answers of \<open>read\<close> are used up.\<close>

lemma ipc_read_event_None:
  assumes "ipc_read_event fd reads buffer = (None, reads', buffer')" "reads \<noteq> []" "0 \<le> fd"
  shows "length reads' < length reads"
  using assms by (auto simp: ipc_read_event_def Let_def split: if_splits option.splits list.splits)

function ipc_calls :: "string list \<Rightarrow> string \<Rightarrow> (string \<times> int) list" where
  "ipc_calls reads buffer =
     (case ipc_read_event 0 reads buffer of
        (Some ev, reads', buffer') \<Rightarrow> ev # ipc_calls reads' buffer'
      | (None, reads', buffer') \<Rightarrow> if reads = [] then [] else ipc_calls reads' buffer')"
  by pat_completeness auto
termination
  by (relation "measures [\<lambda>(reads, buffer). length reads, \<lambda>(reads, buffer). length buffer]")
    (auto dest!: ipc_read_event_consumes [OF sym] ipc_read_event_None [OF sym])

declare ipc_calls.simps [simp del]

lemma ipc_calls_drain:
  "0 \<le> fd \<Longrightarrow> ipc_drain fd reads buffer = (evs, reads', buffer') \<Longrightarrow>
   ipc_calls reads buffer = evs @ ipc_calls reads' buffer'"
proof (induction fd reads buffer arbitrary: evs rule: ipc_drain.induct)
  case (1 fd reads buffer)
  have fd: "ipc_read_event fd reads buffer = ipc_read_event 0 reads buffer"
    using "1.prems"(1) by (simp add: ipc_read_event_def)
  obtain res rs b where e: "ipc_read_event fd reads buffer = (res, rs, b)" by (metis prod_cases3)
  show ?case
  proof (cases res)
    case None
    with e "1.prems"(2) have d: "evs = []" "reads' = rs" "buffer' = b"
      by (simp_all add: ipc_drain.simps [of fd reads buffer])
    have "rs = []" if "reads = []" using e None that
      by (auto simp: ipc_read_event_def split: if_splits option.splits)
    moreover have "b = buffer" if "reads = []" using e None that
      by (auto simp: ipc_read_event_def split: if_splits option.splits)
    ultimately show ?thesis using e None d fd
      by (cases "reads = []") (simp_all add: ipc_calls.simps [of reads buffer] ipc_calls.simps [of "[]" buffer])
  next
    case (Some ev)
    obtain evs' r2 b2 where d2: "ipc_drain fd rs b = (evs', r2, b2)" by (metis prod_cases3)
    with e Some "1.prems"(2) have d: "evs = ev # evs'" "reads' = r2" "buffer' = b2"
      by (simp_all add: ipc_drain.simps [of fd reads buffer])
    have "ipc_calls rs b = evs' @ ipc_calls r2 b2"
      using "1.IH" [OF e [symmetric] Some refl "1.prems"(1)] d2 d by simp
    with e Some d fd show ?thesis by (simp add: ipc_calls.simps [of reads buffer])
  qed
qed

text \<open>The line luna-init writes for an update, and what its texts have to satisfy.\<close>

definition update_line :: "string \<times> int \<Rightarrow> string" where
  "update_line u = (case u of (msg, percent) \<Rightarrow> show_int percent @ ''|'' @ msg @ [LF])"

definition update_ok :: "string \<times> int \<Rightarrow> bool" where
  "update_ok u \<longleftrightarrow> (case u of (msg, percent) \<Rightarrow> in_int32 percent \<and> LF \<notin> set msg \<and> NUL \<notin> set msg) \<and>
     length (update_line u) \<le> 192"

lemma splash_update_line:
  "0 \<le> splash_pipe st \<Longrightarrow> update_ok (msg, percent) \<Longrightarrow> splash_update msg percent st = update_line (msg, percent)"
  by (auto simp: splash_update_def update_ok_def update_line_def Let_def)

lemma show_int_chars: "c \<in> set (show_int i) \<Longrightarrow> isdigit c \<or> c = CHR ''-''"
  using show_nat_digits by (auto simp: show_int_def list_all_iff split: if_splits)

lemma atoi_show_int: "in_int32 i \<Longrightarrow> atoi (show_int i) = i"
  using strtoll10_show_int [of "[]" i]
  by (simp add: atoi_def clamp_int64_def in_int32_def to_int32_id)

lemma parse_update_line:
  assumes "update_ok (msg, percent)"
  shows "ipc_parse (show_int percent @ ''|'' @ msg) = (msg, percent)"
proof -
  have "CHR ''|'' \<notin> set (show_int percent)" by (auto simp: isdigit_def dest: show_int_chars)
  then have "split_chr CHR ''|'' (show_int percent @ ''|'' @ msg) = Some (show_int percent, msg)"
    by (simp add: split_chr_append)
  with assms show ?thesis
    by (auto simp: ipc_parse_def update_ok_def update_line_def atoi_show_int bounded_copy_id)
qed

lemma update_line_shape:
  assumes "update_ok u"
  obtains l where "update_line u = l @ [LF]" "LF \<notin> set l" "NUL \<notin> set l" "ipc_parse l = u" "length l < 192"
proof -
  obtain msg percent where u: "u = (msg, percent)" by (cases u)
  have "LF \<notin> set (show_int percent)" "NUL \<notin> set (show_int percent)"
    by (auto simp: isdigit_def dest: show_int_chars)
  with assms u parse_update_line [of msg percent] that [of "show_int percent @ ''|'' @ msg"] show thesis
    by (auto simp: update_line_def update_ok_def)
qed

lemma ipc_take_line:
  "NUL \<notin> set (l @ rest) \<Longrightarrow> LF \<notin> set l \<Longrightarrow> ipc_take (l @ LF # rest) = Some (ipc_parse l, rest)"
  by (simp add: ipc_take_def cstr_id split_chr_append)

lemma ipc_take_None: "NUL \<notin> set b \<Longrightarrow> ipc_take b = None \<longleftrightarrow> LF \<notin> set b"
  by (simp add: ipc_take_def cstr_id split_chr_None)

lemma no_NUL_lines: "list_all update_ok us \<Longrightarrow> NUL \<notin> set (concat (map update_line us))"
  by (induction us) (auto elim!: update_line_shape)

text \<open>What is in the buffer when the next line is complete, and when it is not.\<close>

lemma lines_step:
  assumes "b @ rest = concat (map update_line us)" "list_all update_ok us"
  shows "ipc_take b = Some (ev, b') \<Longrightarrow> \<exists>us'. us = ev # us' \<and> b' @ rest = concat (map update_line us')"
    and "ipc_take b = None \<Longrightarrow> length b < 192 \<and> (rest = [] \<longrightarrow> us = [])"
proof -
  have nul: "NUL \<notin> set b" using no_NUL_lines [OF assms(2)] unfolding assms(1) [symmetric] by simp
  {
    assume t: "ipc_take b = Some (ev, b')"
    then obtain l where b: "b = l @ LF # b'" "LF \<notin> set l" "ev = ipc_parse l"
      using nul by (auto simp: ipc_take_def cstr_id split_chr_Some)
    show "\<exists>us'. us = ev # us' \<and> b' @ rest = concat (map update_line us')"
    proof (cases us)
      case Nil
      with assms(1) b show ?thesis by simp
    next
      case (Cons u us')
      with assms(2) have "update_ok u" by simp
      then obtain l1 where l1: "update_line u = l1 @ [LF]" "LF \<notin> set l1" "ipc_parse l1 = u" by (rule update_line_shape)
      from assms(1) Cons l1 b have "l @ LF # (b' @ rest) = l1 @ LF # concat (map update_line us')" by simp
      with b(2) l1(2) have "l = l1 \<and> b' @ rest = concat (map update_line us')"
        by (metis split_chr_append option.inject prod.inject)
      with b l1 Cons show ?thesis by simp
    qed
  next
    assume "ipc_take b = None"
    then have nl: "LF \<notin> set b" using ipc_take_None [OF nul] by simp
    show "length b < 192 \<and> (rest = [] \<longrightarrow> us = [])"
    proof (cases us)
      case Nil
      with assms(1) show ?thesis by simp
    next
      case (Cons u us')
      with assms(2) have "update_ok u" by simp
      then obtain l1 where l1: "update_line u = l1 @ [LF]" "length l1 < 192" by (rule update_line_shape)
      from assms(1) Cons l1 have e: "b @ rest = l1 @ LF # concat (map update_line us')" by simp
      have "length b \<le> length l1"
      proof (rule ccontr)
        assume "\<not> ?thesis"
        then obtain us2 where "b = l1 @ us2" "us2 \<noteq> []" "us2 @ rest = LF # concat (map update_line us')"
          using e by (auto simp: append_eq_append_conv2)
        with nl show False by (cases us2) auto
      qed
      with l1(2) e nl show ?thesis by (auto simp: append_eq_conv_conj)
    qed
  }
qed

text \<open>One call of \<open>ipc_read_event\<close> takes at most one whole message off the stream.\<close>

lemma read_event_lines:
  assumes "b @ concat reads @ rest = concat (map update_line us)" "list_all update_ok us"
    and "\<forall>r \<in> set reads. r \<noteq> [] \<and> length r \<le> 63" and e: "ipc_read_event fd reads b = (res, rs, b1)"
  shows "\<exists>us'. us = (case res of None \<Rightarrow> [] | Some ev \<Rightarrow> [ev]) @ us' \<and>
    b1 @ concat rs @ rest = concat (map update_line us') \<and> set rs \<subseteq> set reads"
proof (cases "fd < 0 \<or> ipc_take b \<noteq> None \<or> reads = []")
  case True
  with e assms(1) lines_step(1) [OF assms(1,2)] show ?thesis
    by (auto simp: ipc_read_event_def split: prod.splits if_splits option.splits)
next
  case False
  then obtain r rs' where c: "reads = r # rs'" "ipc_take b = None" "\<not> fd < 0" by (metis neq_Nil_conv)
  have r: "take 63 r = r" "r \<noteq> []" using assms(3) c by auto
  have ap: "ipc_append b r = b @ r"
    using lines_step(2) [OF assms(1,2) c(2)] assms(3) c by (simp add: ipc_append_def Let_def)
  have br: "(b @ r) @ concat rs' @ rest = concat (map update_line us)" using assms(1) c by simp
  from lines_step(1) [OF br assms(2)] e c r br show ?thesis
    by (cases "ipc_take (b @ r)") (auto simp: ipc_read_event_def ap)
qed

lemma ipc_calls_lines:
  assumes "b @ concat reads = concat (map update_line us)" "list_all update_ok us"
    and "\<forall>r \<in> set reads. r \<noteq> [] \<and> length r \<le> 63"
  shows "ipc_calls reads b = us"
  using assms
proof (induction reads b arbitrary: us rule: ipc_calls.induct)
  case (1 reads b)
  obtain res rs b1 where e: "ipc_read_event 0 reads b = (res, rs, b1)" by (metis prod_cases3)
  then obtain us1 where us1: "us = (case res of None \<Rightarrow> [] | Some ev \<Rightarrow> [ev]) @ us1"
    "b1 @ concat rs = concat (map update_line us1)" "set rs \<subseteq> set reads"
    using read_event_lines [of b reads "[]" us 0 res rs b1] "1.prems" by auto
  show ?case
  proof (cases res)
    case (Some ev)
    have "ipc_calls rs b1 = us1"
      using "1.IH"(2) [OF e [symmetric] Some refl us1(2)] us1(1,3) "1.prems"(2,3) Some by auto
    with e us1(1) Some show ?thesis by (simp add: ipc_calls.simps [of reads b])
  next
    case None
    show ?thesis
    proof (cases "reads = []")
      case True
      with e None have "ipc_take b = None" by (auto simp: ipc_read_event_def split: option.splits prod.splits if_splits)
      with True lines_step(2) [OF "1.prems"(1,2)] e None show ?thesis by (simp add: ipc_calls.simps [of "[]" b])
    next
      case False
      have "ipc_calls rs b1 = us1"
        using "1.IH"(1) [OF e [symmetric] None refl False us1(2)] us1(1,3) "1.prems"(2,3) None by auto
      with e us1(1) None False show ?thesis by (simp add: ipc_calls.simps [of reads b])
    qed
  qed
qed

text \<open>
  C32: the progress messages luna-init writes to the pipe reach the splash program exactly, in order and
  none twice, however the reads cut the stream, for messages without line ends whose lines have at most
  192 bytes.
\<close>

theorem splash_messages_arrive:
  assumes "0 \<le> splash_pipe st" "list_all update_ok us"
    and "concat reads = concat (map (\<lambda>(msg, percent). splash_update msg percent st) us)"
    and "\<forall>r \<in> set reads. r \<noteq> [] \<and> length r \<le> 63"
  shows "ipc_calls reads [] = us"
proof -
  have "map (\<lambda>(msg, percent). splash_update msg percent st) us = map update_line us"
    using assms(1,2) by (auto simp: list_all_iff splash_update_line)
  with assms(3) show ?thesis by (intro ipc_calls_lines [OF _ assms(2,4)]) simp
qed

theorem splash_messages_arrive_witness:
  "ipc_calls [''20|Mounting'', '' files'' @ [LF] @ ''100|D'', ''one'' @ [LF]] [] = [(''Mounting files'', 20), (''Done'', 100)]"
proof -
  let ?st = "\<lparr>splash_pipe = 4, splash_pid = 9\<rparr>"
  have ok: "list_all update_ok [(''Mounting files'', 20), (''Done'', 100)]"
    by (simp add: update_ok_def update_line_def in_int32_def show_int_def show_nat.simps)
  have "concat [''20|Mounting'', '' files'' @ [LF] @ ''100|D'', ''one'' @ [LF]] =
      concat (map (\<lambda>(msg, percent). splash_update msg percent ?st) [(''Mounting files'', 20), (''Done'', 100)])"
    by (simp add: splash_update_def show_int_def show_nat.simps char_of_def bit_0)
  from splash_messages_arrive [OF _ ok this] show ?thesis by simp
qed

text \<open>
  The limit matters: what does not fit into the buffer of 256 bytes is dropped, although it may belong to
  the next message.
\<close>

theorem long_line_loses_next:
  "ipc_append (replicate 250 CHR ''x'') ([LF] @ ''100|Boot Complete!'' @ [LF]) =
     replicate 250 CHR ''x'' @ [LF] @ ''100|''"
  by (simp add: ipc_append_def)

end
