(* ===== verification/Lgp_Wire.thy ===== *)
theory Lgp_Wire
  imports Mahina_Prelude "HOL-Library.Monad_Syntax"
begin

text \<open>
  The wire format of the compositor: little-endian words, the TLV framing of \<open>protocol/tlv.c\<close>,
  the surface payloads of \<open>protocol/surface.c\<close> and the window manager payloads of
  \<open>protocol/wm.c\<close>. A decoder returns \<open>Some (Inr p)\<close> where the C function stores \<open>p\<close> and returns
  true, \<open>Some (Inl ())\<close> where it returns false, and \<open>None\<close> where it would read outside the
  buffer. The locale \<open>payload_codec\<close> states what a decoder and the encoding of its message owe
  each other; each of the seven decoders is an instance. Shifting a byte of at least 128 left by
  24 in \<open>lgp_tlv_peek_header\<close> and \<open>lgp_hello_handle\<close> happens in \<open>int\<close> and is read the way the
  compilers the project uses define it, as the two's complement pattern.
\<close>

unbundle bit_operations_syntax

section \<open>Little-endian words\<close>

text \<open>
  \<open>lgp_read_u32_le(p + off)\<close> and the copies of it in \<open>wm.c\<close>; reading past the end of the
  object \<open>p\<close> points into has no value.
\<close>

definition lgp_read_u32_le :: "u8 list \<Rightarrow> nat \<Rightarrow> u32 option" where
  "lgp_read_u32_le p off =
     (if off + 4 \<le> length p
      then Some (ucast (p ! off) OR push_bit 8 (ucast (p ! (off + 1)))
                 OR push_bit 16 (ucast (p ! (off + 2))) OR push_bit 24 (ucast (p ! (off + 3))))
      else None)"

definition lgp_read_u16_le :: "u8 list \<Rightarrow> nat \<Rightarrow> u16 option" where
  "lgp_read_u16_le p off =
     (if off + 2 \<le> length p then Some (ucast (p ! off) OR push_bit 8 (ucast (p ! (off + 1))))
      else None)"

definition lgp_read_i32_le :: "u8 list \<Rightarrow> nat \<Rightarrow> int option" where
  "lgp_read_i32_le p off = map_option sint (lgp_read_u32_le p off)"

definition lgp_write_u32_le :: "u32 \<Rightarrow> u8 list" where
  "lgp_write_u32_le v =
     [ucast (v AND 0xFF), ucast (drop_bit 8 v AND 0xFF),
      ucast (drop_bit 16 v AND 0xFF), ucast (drop_bit 24 v AND 0xFF)]"

definition lgp_write_u16_le :: "u16 \<Rightarrow> u8 list" where
  "lgp_write_u16_le v = [ucast (v AND 0xFF), ucast (drop_bit 8 v AND 0xFF)]"

lemma u32_of_bytes:
  "(ucast (ucast (v AND 0xFF) :: u8) OR push_bit 8 (ucast (ucast (drop_bit 8 v AND 0xFF) :: u8))
    OR push_bit 16 (ucast (ucast (drop_bit 16 v AND 0xFF) :: u8))
    OR push_bit 24 (ucast (ucast (drop_bit 24 v AND 0xFF) :: u8)) :: u32) = v"
proof -
  have m: "(0xFF :: u32) = mask 8" by (simp add: mask_eq_exp_minus_1)
  show ?thesis
    unfolding m
    apply (rule bit_word_eqI)
    apply (simp add: bit_simps)
    apply (case_tac "n < 8"; case_tac "n < 16"; case_tac "n < 24"; simp)
      apply linarith+
    done
qed

lemma u16_of_bytes:
  "(ucast (ucast (v AND 0xFF) :: u8) OR push_bit 8 (ucast (ucast (drop_bit 8 v AND 0xFF) :: u8)) :: u16) = v"
proof -
  have m: "(0xFF :: u16) = mask 8" by (simp add: mask_eq_exp_minus_1)
  show ?thesis
    unfolding m
    apply (rule bit_word_eqI)
    apply (simp add: bit_simps)
    apply (case_tac "n < 8"; simp)
    apply linarith
    done
qed

lemma length_write_le [simp]:
  "length (lgp_write_u32_le v) = 4" "length (lgp_write_u16_le w) = 2"
  by (simp_all add: lgp_write_u32_le_def lgp_write_u16_le_def)

lemma read_write_u32: "lgp_read_u32_le (lgp_write_u32_le v @ rest) 0 = Some v"
  unfolding lgp_read_u32_le_def lgp_write_u32_le_def
  by (simp add: u32_of_bytes numeral_2_eq_2 numeral_3_eq_3)

lemma read_write_u16: "lgp_read_u16_le (lgp_write_u16_le v @ rest) 0 = Some v"
  unfolding lgp_read_u16_le_def lgp_write_u16_le_def
  by (simp add: u16_of_bytes)

lemma read_u32_append: "lgp_read_u32_le (pre @ p) (length pre + off) = lgp_read_u32_le p off"
  by (simp add: lgp_read_u32_le_def nth_append add.assoc)

lemma read_u32_skip [simp]:
  "length pre \<le> off \<Longrightarrow> lgp_read_u32_le (pre @ p) off = lgp_read_u32_le p (off - length pre)"
  using read_u32_append [of pre p "off - length pre"] by simp

lemma read_u32_prefix [simp]:
  "off + 4 \<le> length p \<Longrightarrow> lgp_read_u32_le (p @ rest) off = lgp_read_u32_le p off"
  by (simp add: lgp_read_u32_le_def nth_append)

lemma read_u32_defined [simp]: "lgp_read_u32_le p off \<noteq> None \<longleftrightarrow> off + 4 \<le> length p"
  by (simp add: lgp_read_u32_le_def)

section \<open>Frames\<close>

abbreviation (input) LGP_HEADER_SIZE :: nat where "LGP_HEADER_SIZE \<equiv> 6"

abbreviation (input) LGP_MSG_HELLO :: u16 where "LGP_MSG_HELLO \<equiv> 0x0001"
abbreviation (input) LGP_MSG_HELLO_REPLY :: u16 where "LGP_MSG_HELLO_REPLY \<equiv> 0x0002"
abbreviation (input) LGP_MSG_FILL_RECT :: u16 where "LGP_MSG_FILL_RECT \<equiv> 0x0010"
abbreviation (input) LGP_MSG_CREATE_SURFACE :: u16 where "LGP_MSG_CREATE_SURFACE \<equiv> 0x0100"
abbreviation (input) LGP_MSG_CREATE_SURFACE_REPLY :: u16 where
  "LGP_MSG_CREATE_SURFACE_REPLY \<equiv> 0x0101"
abbreviation (input) LGP_MSG_DESTROY_SURFACE :: u16 where "LGP_MSG_DESTROY_SURFACE \<equiv> 0x0102"
abbreviation (input) LGP_MSG_COMMIT_BUFFER :: u16 where "LGP_MSG_COMMIT_BUFFER \<equiv> 0x0103"
abbreviation (input) LGP_MSG_POINTER_MOTION :: u16 where "LGP_MSG_POINTER_MOTION \<equiv> 0x0110"
abbreviation (input) LGP_MSG_POINTER_BUTTON :: u16 where "LGP_MSG_POINTER_BUTTON \<equiv> 0x0111"
abbreviation (input) LGP_MSG_KEYBOARD_KEY :: u16 where "LGP_MSG_KEYBOARD_KEY \<equiv> 0x0112"
abbreviation (input) LGP_MSG_CLIPBOARD_SET :: u16 where "LGP_MSG_CLIPBOARD_SET \<equiv> 0x0120"
abbreviation (input) LGP_MSG_CLIPBOARD_GET :: u16 where "LGP_MSG_CLIPBOARD_GET \<equiv> 0x0121"
abbreviation (input) LGP_MSG_CLIPBOARD_DATA :: u16 where "LGP_MSG_CLIPBOARD_DATA \<equiv> 0x0122"
abbreviation (input) LGP_MSG_WM_SURFACE_CREATED :: u16 where
  "LGP_MSG_WM_SURFACE_CREATED \<equiv> 0x0200"
abbreviation (input) LGP_MSG_WM_SURFACE_DESTROYED :: u16 where
  "LGP_MSG_WM_SURFACE_DESTROYED \<equiv> 0x0201"
abbreviation (input) LGP_MSG_WM_SET_SURFACE_POSITION :: u16 where
  "LGP_MSG_WM_SET_SURFACE_POSITION \<equiv> 0x0202"
abbreviation (input) LGP_MSG_WM_SET_FOCUS :: u16 where "LGP_MSG_WM_SET_FOCUS \<equiv> 0x0203"
abbreviation (input) LGP_MSG_WM_SET_STATE :: u16 where "LGP_MSG_WM_SET_STATE \<equiv> 0x0204"
abbreviation (input) LGP_MSG_WM_GRAB_KEY :: u16 where "LGP_MSG_WM_GRAB_KEY \<equiv> 0x0205"
abbreviation (input) LGP_MSG_OUTPUT_GEOMETRY :: u16 where "LGP_MSG_OUTPUT_GEOMETRY \<equiv> 0x0300"

text \<open>\<open>lgp_msg_t\<close>; the payload is what lies behind the header up to the end of the buffer.\<close>

record lgp_msg =
  m_type :: u16
  m_length :: u32
  m_payload :: "u8 list"

definition lgp_tlv_peek_header :: "u8 list \<Rightarrow> (u16 \<times> u32) option" where
  "lgp_tlv_peek_header buf =
     (if length buf < LGP_HEADER_SIZE then None
      else do { t \<leftarrow> lgp_read_u16_le buf 0; l \<leftarrow> lgp_read_u32_le buf 2; Some (t, l) })"

definition lgp_tlv_decode :: "u8 list \<Rightarrow> lgp_msg option" where
  "lgp_tlv_decode buf =
     (if length buf < LGP_HEADER_SIZE then None
      else case lgp_tlv_peek_header buf of
        None \<Rightarrow> None
      | Some (t, l) \<Rightarrow>
          if unat l < LGP_HEADER_SIZE then None
          else if length buf < unat l then None
          else Some \<lparr>m_type = t, m_length = l, m_payload = drop LGP_HEADER_SIZE buf\<rparr>)"

text \<open>The six bytes \<open>lgp_tlv_encode_header\<close> stores at the start of a buffer of \<open>buf_len\<close> bytes.\<close>

definition lgp_tlv_encode_header :: "nat \<Rightarrow> u16 \<Rightarrow> u32 \<Rightarrow> u8 list option" where
  "lgp_tlv_encode_header buf_len ty len =
     (if buf_len < LGP_HEADER_SIZE then None
      else (let len = (if len < 6 then 6 else len) in
            Some (lgp_write_u16_le ty @ lgp_write_u32_le len)))"

text \<open>
  How the senders build a frame: an array of \<open>LGP_HEADER_SIZE + n\<close> bytes, the header with the
  size of the array, the payload behind it.
\<close>

definition lgp_frame :: "u16 \<Rightarrow> u8 list \<Rightarrow> u8 list" where
  "lgp_frame ty payload =
     (case lgp_tlv_encode_header (LGP_HEADER_SIZE + length payload) ty
             (of_nat (LGP_HEADER_SIZE + length payload)) of
        None \<Rightarrow> []
      | Some h \<Rightarrow> h @ payload)"

lemmas tlv_defs = lgp_tlv_peek_header_def lgp_tlv_decode_def lgp_tlv_encode_header_def
  lgp_frame_def

lemma peek_header_defined [simp]: "lgp_tlv_peek_header buf = None \<longleftrightarrow> length buf < 6"
  by (auto simp: lgp_tlv_peek_header_def lgp_read_u16_le_def lgp_read_u32_le_def)

lemma length_encode_header:
  "lgp_tlv_encode_header n ty len = Some h \<Longrightarrow> length h = 6 \<and> 6 \<le> n"
  by (auto simp: lgp_tlv_encode_header_def Let_def split: if_splits)

lemma length_lgp_frame [simp]: "length (lgp_frame ty payload) = 6 + length payload"
  by (simp add: lgp_frame_def lgp_tlv_encode_header_def Let_def)

lemma unat_of_nat_u32: "n < 2 ^ 32 \<Longrightarrow> unat (of_nat n :: u32) = n"
  by (simp add: unat_of_nat)

lemma peek_frame:
  assumes "length payload < 2 ^ 32 - 6"
  shows "lgp_tlv_peek_header (lgp_frame ty payload @ rest) = Some (ty, of_nat (6 + length payload))"
proof -
  have u: "unat (of_nat (6 + length payload) :: u32) = 6 + length payload"
    by (rule unat_of_nat_u32) (use assms in simp)
  have nl: "\<not> (of_nat (6 + length payload) :: u32) < 6"
    unfolding word_less_nat_alt u by simp
  have f: "lgp_frame ty payload =
      lgp_write_u16_le ty @ lgp_write_u32_le (of_nat (6 + length payload)) @ payload"
    using nl by (simp add: lgp_frame_def lgp_tlv_encode_header_def Let_def)
  show ?thesis
    unfolding lgp_tlv_peek_header_def f
    by (simp add: read_write_u16 read_write_u32)
qed

lemma decode_frame:
  assumes "length payload < 2 ^ 32 - 6"
  shows "lgp_tlv_decode (lgp_frame ty payload @ rest) =
     Some \<lparr>m_type = ty, m_length = of_nat (6 + length payload), m_payload = payload @ rest\<rparr>"
proof -
  have u: "unat (of_nat (6 + length payload) :: u32) = 6 + length payload"
    by (rule unat_of_nat_u32) (use assms in simp)
  have d: "drop 6 (lgp_frame ty payload @ rest) = payload @ rest"
    by (simp add: lgp_frame_def lgp_tlv_encode_header_def Let_def)
  show ?thesis
    unfolding lgp_tlv_decode_def peek_frame [OF assms]
    using d u by (simp del: of_nat_add)
qed

text \<open>What a decoded message guarantees to the handlers.\<close>

definition msg_ok :: "lgp_msg \<Rightarrow> bool" where
  "msg_ok m \<longleftrightarrow> 6 \<le> unat (m_length m) \<and> unat (m_length m) \<le> 6 + length (m_payload m)"

lemma lgp_tlv_decode_ok: "lgp_tlv_decode buf = Some m \<Longrightarrow> msg_ok m"
  by (auto simp: lgp_tlv_decode_def msg_ok_def split: if_splits option.splits)

section \<open>Payloads of the surface messages\<close>

type_synonym 'a c_result = "(unit + 'a) option"

record lgp_surface_create_payload =
  sc_type :: u32
  sc_x :: int
  sc_y :: int
  sc_width :: u32
  sc_height :: u32
  sc_layer :: u32

record lgp_surface_destroy_payload =
  sd_surface_id :: u32

record lgp_surface_commit_payload =
  sm_surface_id :: u32
  sm_width :: u32
  sm_height :: u32
  sm_stride :: u32
  sm_pixel_format :: u32
  sm_byte_size :: u32

definition lgp_surface_decode_create :: "lgp_msg \<Rightarrow> lgp_surface_create_payload c_result" where
  "lgp_surface_decode_create msg =
     (if m_type msg \<noteq> LGP_MSG_CREATE_SURFACE then Some (Inl ())
      else if m_length msg - 6 \<noteq> 24 then Some (Inl ())
      else (let p = m_payload msg in do {
        ty \<leftarrow> lgp_read_u32_le p 0;
        x \<leftarrow> lgp_read_i32_le p 4;
        y \<leftarrow> lgp_read_i32_le p 8;
        w \<leftarrow> lgp_read_u32_le p 12;
        h \<leftarrow> lgp_read_u32_le p 16;
        l \<leftarrow> lgp_read_u32_le p 20;
        Some (Inr \<lparr>sc_type = ty, sc_x = x, sc_y = y, sc_width = w, sc_height = h, sc_layer = l\<rparr>)
      }))"

definition lgp_surface_decode_destroy :: "lgp_msg \<Rightarrow> lgp_surface_destroy_payload c_result" where
  "lgp_surface_decode_destroy msg =
     (if m_type msg \<noteq> LGP_MSG_DESTROY_SURFACE then Some (Inl ())
      else if m_length msg - 6 \<noteq> 4 then Some (Inl ())
      else do { i \<leftarrow> lgp_read_u32_le (m_payload msg) 0; Some (Inr \<lparr>sd_surface_id = i\<rparr>) })"

definition lgp_surface_decode_commit :: "lgp_msg \<Rightarrow> lgp_surface_commit_payload c_result" where
  "lgp_surface_decode_commit msg =
     (if m_type msg \<noteq> LGP_MSG_COMMIT_BUFFER then Some (Inl ())
      else if m_length msg - 6 \<noteq> 24 then Some (Inl ())
      else (let p = m_payload msg in do {
        i \<leftarrow> lgp_read_u32_le p 0;
        w \<leftarrow> lgp_read_u32_le p 4;
        h \<leftarrow> lgp_read_u32_le p 8;
        s \<leftarrow> lgp_read_u32_le p 12;
        f \<leftarrow> lgp_read_u32_le p 16;
        b \<leftarrow> lgp_read_u32_le p 20;
        Some (Inr \<lparr>sm_surface_id = i, sm_width = w, sm_height = h, sm_stride = s,
                   sm_pixel_format = f, sm_byte_size = b\<rparr>)
      }))"

text \<open>The bytes \<open>lgp_surface_encode_create_reply\<close> stores in a buffer of \<open>buf_len\<close> bytes.\<close>

definition lgp_surface_encode_create_reply :: "nat \<Rightarrow> u32 \<Rightarrow> u32 \<Rightarrow> u8 list option" where
  "lgp_surface_encode_create_reply buf_len status surface_id =
     (if buf_len < LGP_HEADER_SIZE + 8 then None
      else do {
        h \<leftarrow> lgp_tlv_encode_header buf_len LGP_MSG_CREATE_SURFACE_REPLY 14;
        Some (h @ lgp_write_u32_le status @ lgp_write_u32_le surface_id)
      })"

section \<open>Payloads of the window manager messages\<close>

record lgp_wm_set_position_payload =
  sp_surface_id :: u32
  sp_x :: int
  sp_y :: int

record lgp_wm_set_focus_payload =
  sf_surface_id :: u32

record lgp_wm_set_state_payload =
  ss_surface_id :: u32
  ss_state :: u32

record lgp_wm_grab_key_payload =
  gk_key :: u32
  gk_modifiers :: u32

definition lgp_wm_encode_surface_created ::
    "nat \<Rightarrow> u32 \<Rightarrow> u32 \<Rightarrow> u32 \<Rightarrow> u32 \<Rightarrow> u8 list option" where
  "lgp_wm_encode_surface_created buf_len surface_id ty w h =
     (if buf_len < LGP_HEADER_SIZE + 16 then None
      else do {
        hd \<leftarrow> lgp_tlv_encode_header buf_len LGP_MSG_WM_SURFACE_CREATED 22;
        Some (hd @ lgp_write_u32_le surface_id @ lgp_write_u32_le ty
              @ lgp_write_u32_le w @ lgp_write_u32_le h)
      })"

definition lgp_wm_encode_surface_destroyed :: "nat \<Rightarrow> u32 \<Rightarrow> u8 list option" where
  "lgp_wm_encode_surface_destroyed buf_len surface_id =
     (if buf_len < LGP_HEADER_SIZE + 4 then None
      else do {
        hd \<leftarrow> lgp_tlv_encode_header buf_len LGP_MSG_WM_SURFACE_DESTROYED 10;
        Some (hd @ lgp_write_u32_le surface_id)
      })"

definition lgp_wm_decode_set_position :: "lgp_msg \<Rightarrow> lgp_wm_set_position_payload c_result" where
  "lgp_wm_decode_set_position msg =
     (if m_type msg \<noteq> LGP_MSG_WM_SET_SURFACE_POSITION \<or> m_length msg < 18 then Some (Inl ())
      else (let p = m_payload msg in do {
        i \<leftarrow> lgp_read_u32_le p 0;
        x \<leftarrow> lgp_read_i32_le p 4;
        y \<leftarrow> lgp_read_i32_le p 8;
        Some (Inr \<lparr>sp_surface_id = i, sp_x = x, sp_y = y\<rparr>)
      }))"

definition lgp_wm_decode_set_focus :: "lgp_msg \<Rightarrow> lgp_wm_set_focus_payload c_result" where
  "lgp_wm_decode_set_focus msg =
     (if m_type msg \<noteq> LGP_MSG_WM_SET_FOCUS \<or> m_length msg < 10 then Some (Inl ())
      else do { i \<leftarrow> lgp_read_u32_le (m_payload msg) 0; Some (Inr \<lparr>sf_surface_id = i\<rparr>) })"

definition lgp_wm_decode_set_state :: "lgp_msg \<Rightarrow> lgp_wm_set_state_payload c_result" where
  "lgp_wm_decode_set_state msg =
     (if m_type msg \<noteq> LGP_MSG_WM_SET_STATE \<or> m_length msg < 14 then Some (Inl ())
      else (let p = m_payload msg in do {
        i \<leftarrow> lgp_read_u32_le p 0;
        s \<leftarrow> lgp_read_u32_le p 4;
        Some (Inr \<lparr>ss_surface_id = i, ss_state = s\<rparr>)
      }))"

definition lgp_wm_decode_grab_key :: "lgp_msg \<Rightarrow> lgp_wm_grab_key_payload c_result" where
  "lgp_wm_decode_grab_key msg =
     (if m_type msg \<noteq> LGP_MSG_WM_GRAB_KEY \<or> m_length msg < 14 then Some (Inl ())
      else (let p = m_payload msg in do {
        k \<leftarrow> lgp_read_u32_le p 0;
        m \<leftarrow> lgp_read_u32_le p 4;
        Some (Inr \<lparr>gk_key = k, gk_modifiers = m\<rparr>)
      }))"

section \<open>Codecs\<close>

text \<open>
  The payload decoders share a contract with the senders: a decoder accepts every payload the
  reference encoding produces and returns what was encoded, it refuses messages of another type,
  and on a message as \<open>lgp_tlv_decode\<close> delivers it no read leaves the payload.
\<close>

locale payload_codec =
  fixes dec :: "lgp_msg \<Rightarrow> 'p c_result"
    and enc :: "'p \<Rightarrow> u8 list"
    and ty :: u16
    and wf :: "'p \<Rightarrow> bool"
  assumes accepts: "wf p \<Longrightarrow> m_type m = ty \<Longrightarrow> m_payload m = enc p \<Longrightarrow>
      m_length m = of_nat (6 + length (enc p)) \<Longrightarrow> dec m = Some (Inr p)"
    and refuses: "m_type m \<noteq> ty \<Longrightarrow> dec m = Some (Inl ())"
    and in_bounds: "msg_ok m \<Longrightarrow> dec m \<noteq> None"
    and short: "length (enc p) \<le> 24"
begin

lemma frame_roundtrip:
  assumes "wf p"
  shows "\<exists>m. lgp_tlv_decode (lgp_frame ty (enc p)) = Some m \<and> dec m = Some (Inr p)"
proof -
  have "length (enc p) < 2 ^ 32 - 6" using short [of p] by simp
  from decode_frame [OF this, of ty "[]"] show ?thesis
    using accepts [OF assms] by simp
qed

lemma decode_total: "lgp_tlv_decode buf = Some m \<Longrightarrow> dec m \<noteq> None"
  by (rule in_bounds, rule lgp_tlv_decode_ok)

lemma enc_inject: "wf p \<Longrightarrow> wf p' \<Longrightarrow> enc p = enc p' \<Longrightarrow> p = p'"
  using frame_roundtrip [of p] frame_roundtrip [of p'] by fastforce

end

text \<open>The encoding a client uses, field by field.\<close>

definition lgp_write_i32_le :: "int \<Rightarrow> u8 list" where
  "lgp_write_i32_le i = lgp_write_u32_le (word_of_int i)"

definition enc_create :: "lgp_surface_create_payload \<Rightarrow> u8 list" where
  "enc_create p = lgp_write_u32_le (sc_type p) @ lgp_write_i32_le (sc_x p) @ lgp_write_i32_le (sc_y p)
     @ lgp_write_u32_le (sc_width p) @ lgp_write_u32_le (sc_height p) @ lgp_write_u32_le (sc_layer p)"

definition enc_destroy :: "lgp_surface_destroy_payload \<Rightarrow> u8 list" where
  "enc_destroy p = lgp_write_u32_le (sd_surface_id p)"

definition enc_commit :: "lgp_surface_commit_payload \<Rightarrow> u8 list" where
  "enc_commit p = lgp_write_u32_le (sm_surface_id p) @ lgp_write_u32_le (sm_width p)
     @ lgp_write_u32_le (sm_height p) @ lgp_write_u32_le (sm_stride p)
     @ lgp_write_u32_le (sm_pixel_format p) @ lgp_write_u32_le (sm_byte_size p)"

definition enc_set_position :: "lgp_wm_set_position_payload \<Rightarrow> u8 list" where
  "enc_set_position p = lgp_write_u32_le (sp_surface_id p) @ lgp_write_i32_le (sp_x p)
     @ lgp_write_i32_le (sp_y p)"

definition enc_set_focus :: "lgp_wm_set_focus_payload \<Rightarrow> u8 list" where
  "enc_set_focus p = lgp_write_u32_le (sf_surface_id p)"

definition enc_set_state :: "lgp_wm_set_state_payload \<Rightarrow> u8 list" where
  "enc_set_state p = lgp_write_u32_le (ss_surface_id p) @ lgp_write_u32_le (ss_state p)"

definition enc_grab_key :: "lgp_wm_grab_key_payload \<Rightarrow> u8 list" where
  "enc_grab_key p = lgp_write_u32_le (gk_key p) @ lgp_write_u32_le (gk_modifiers p)"

lemma read_write_u32_0: "lgp_read_u32_le (lgp_write_u32_le v) 0 = Some v"
  using read_write_u32 [of v "[]"] by simp

lemma length_write_i32 [simp]: "length (lgp_write_i32_le i) = 4"
  by (simp add: lgp_write_i32_le_def)

lemma read_write_i32_word:
  "lgp_read_u32_le (lgp_write_i32_le i) 0 = Some (word_of_int i)"
  by (simp add: lgp_write_i32_le_def read_write_u32_0)

lemma sint_word_of_int32: "in_int32 i \<Longrightarrow> sint (word_of_int i :: u32) = i"
  by (simp add: sint_sbintrunc' in_int32_def signed_take_bit_int_eq_self)

lemmas codec_reads = lgp_read_i32_le_def read_write_u32 read_write_u32_0 read_write_i32_word
  sint_word_of_int32

lemma length_minus_header:
  assumes "msg_ok m" shows "unat (m_length m - 6) = unat (m_length m) - 6"
proof -
  have "unat (6 :: u32) \<le> unat (m_length m)" using assms by (simp add: msg_ok_def)
  then have "(6 :: u32) \<le> m_length m" by (simp only: word_le_nat_alt)
  then show ?thesis by (simp add: unat_sub)
qed

lemma payload_len_exact:
  assumes "msg_ok m" "m_length m - 6 = n" shows "unat n \<le> length (m_payload m)"
proof -
  have "unat n = unat (m_length m) - 6" using length_minus_header [OF assms(1)] assms(2) by simp
  then show ?thesis using assms(1) unfolding msg_ok_def by linarith
qed

lemma payload_len_min:
  assumes "msg_ok m" shows "m_length m < n \<or> unat n \<le> 6 + length (m_payload m)"
  using assms unfolding msg_ok_def word_less_nat_alt by linarith

interpretation create_codec: payload_codec lgp_surface_decode_create enc_create "0x0100"
  "\<lambda>p. in_int32 (sc_x p) \<and> in_int32 (sc_y p)"
proof unfold_locales
  fix m :: lgp_msg and p assume "in_int32 (sc_x p) \<and> in_int32 (sc_y p)" "m_type m = 0x0100"
    "m_payload m = enc_create p" "m_length m = of_nat (6 + length (enc_create p))"
  then show "lgp_surface_decode_create m = Some (Inr p)"
    by (simp add: lgp_surface_decode_create_def enc_create_def codec_reads)
next
  fix m :: lgp_msg assume "msg_ok m"
  from payload_len_exact [OF this, of 24] show "lgp_surface_decode_create m \<noteq> None"
    by (auto simp: lgp_surface_decode_create_def Let_def lgp_read_i32_le_def lgp_read_u32_le_def)
qed (simp_all add: lgp_surface_decode_create_def enc_create_def)

interpretation destroy_codec: payload_codec lgp_surface_decode_destroy enc_destroy "0x0102" "\<lambda>p. True"
proof unfold_locales
  fix m :: lgp_msg and p assume "m_type m = 0x0102"
    "m_payload m = enc_destroy p" "m_length m = of_nat (6 + length (enc_destroy p))"
  then show "lgp_surface_decode_destroy m = Some (Inr p)"
    by (simp add: lgp_surface_decode_destroy_def enc_destroy_def codec_reads)
next
  fix m :: lgp_msg assume "msg_ok m"
  from payload_len_exact [OF this, of 4] show "lgp_surface_decode_destroy m \<noteq> None"
    by (auto simp: lgp_surface_decode_destroy_def lgp_read_u32_le_def)
qed (simp_all add: lgp_surface_decode_destroy_def enc_destroy_def)

interpretation commit_codec: payload_codec lgp_surface_decode_commit enc_commit "0x0103" "\<lambda>p. True"
proof unfold_locales
  fix m :: lgp_msg and p assume "m_type m = 0x0103"
    "m_payload m = enc_commit p" "m_length m = of_nat (6 + length (enc_commit p))"
  then show "lgp_surface_decode_commit m = Some (Inr p)"
    by (simp add: lgp_surface_decode_commit_def enc_commit_def codec_reads)
next
  fix m :: lgp_msg assume "msg_ok m"
  from payload_len_exact [OF this, of 24] show "lgp_surface_decode_commit m \<noteq> None"
    by (auto simp: lgp_surface_decode_commit_def Let_def lgp_read_u32_le_def)
qed (simp_all add: lgp_surface_decode_commit_def enc_commit_def)

interpretation set_position_codec: payload_codec lgp_wm_decode_set_position enc_set_position "0x0202"
  "\<lambda>p. in_int32 (sp_x p) \<and> in_int32 (sp_y p)"
proof unfold_locales
  fix m :: lgp_msg and p assume "in_int32 (sp_x p) \<and> in_int32 (sp_y p)" "m_type m = 0x0202"
    "m_payload m = enc_set_position p" "m_length m = of_nat (6 + length (enc_set_position p))"
  then show "lgp_wm_decode_set_position m = Some (Inr p)"
    by (simp add: lgp_wm_decode_set_position_def enc_set_position_def codec_reads)
next
  fix m :: lgp_msg assume "msg_ok m"
  from payload_len_min [OF this, of 18] show "lgp_wm_decode_set_position m \<noteq> None"
    by (auto simp: lgp_wm_decode_set_position_def Let_def lgp_read_i32_le_def lgp_read_u32_le_def)
qed (simp_all add: lgp_wm_decode_set_position_def enc_set_position_def)

interpretation set_focus_codec: payload_codec lgp_wm_decode_set_focus enc_set_focus "0x0203" "\<lambda>p. True"
proof unfold_locales
  fix m :: lgp_msg and p assume "m_type m = 0x0203"
    "m_payload m = enc_set_focus p" "m_length m = of_nat (6 + length (enc_set_focus p))"
  then show "lgp_wm_decode_set_focus m = Some (Inr p)"
    by (simp add: lgp_wm_decode_set_focus_def enc_set_focus_def codec_reads)
next
  fix m :: lgp_msg assume "msg_ok m"
  from payload_len_min [OF this, of 10] show "lgp_wm_decode_set_focus m \<noteq> None"
    by (auto simp: lgp_wm_decode_set_focus_def lgp_read_u32_le_def)
qed (simp_all add: lgp_wm_decode_set_focus_def enc_set_focus_def)

interpretation set_state_codec: payload_codec lgp_wm_decode_set_state enc_set_state "0x0204" "\<lambda>p. True"
proof unfold_locales
  fix m :: lgp_msg and p assume "m_type m = 0x0204"
    "m_payload m = enc_set_state p" "m_length m = of_nat (6 + length (enc_set_state p))"
  then show "lgp_wm_decode_set_state m = Some (Inr p)"
    by (simp add: lgp_wm_decode_set_state_def enc_set_state_def codec_reads)
next
  fix m :: lgp_msg assume "msg_ok m"
  from payload_len_min [OF this, of 14] show "lgp_wm_decode_set_state m \<noteq> None"
    by (auto simp: lgp_wm_decode_set_state_def Let_def lgp_read_u32_le_def)
qed (simp_all add: lgp_wm_decode_set_state_def enc_set_state_def)

interpretation grab_key_codec: payload_codec lgp_wm_decode_grab_key enc_grab_key "0x0205" "\<lambda>p. True"
proof unfold_locales
  fix m :: lgp_msg and p assume "m_type m = 0x0205"
    "m_payload m = enc_grab_key p" "m_length m = of_nat (6 + length (enc_grab_key p))"
  then show "lgp_wm_decode_grab_key m = Some (Inr p)"
    by (simp add: lgp_wm_decode_grab_key_def enc_grab_key_def codec_reads)
next
  fix m :: lgp_msg assume "msg_ok m"
  from payload_len_min [OF this, of 14] show "lgp_wm_decode_grab_key m \<noteq> None"
    by (auto simp: lgp_wm_decode_grab_key_def Let_def lgp_read_u32_le_def)
qed (simp_all add: lgp_wm_decode_grab_key_def enc_grab_key_def)

text \<open>
  C15: requests survive the wire. For each of the seven requests with a payload, the frame built
  from the reference encoding is decoded by \<open>lgp_tlv_decode\<close> and the payload decoder returns
  exactly what was encoded; coordinates are any 32-bit signed values.
\<close>

theorem request_roundtrip:
  "in_int32 (sc_x c) \<and> in_int32 (sc_y c) \<Longrightarrow> in_int32 (sp_x p) \<and> in_int32 (sp_y p) \<Longrightarrow>
   (\<exists>m. lgp_tlv_decode (lgp_frame LGP_MSG_CREATE_SURFACE (enc_create c)) = Some m \<and>
        lgp_surface_decode_create m = Some (Inr c)) \<and>
   (\<exists>m. lgp_tlv_decode (lgp_frame LGP_MSG_DESTROY_SURFACE (enc_destroy d)) = Some m \<and>
        lgp_surface_decode_destroy m = Some (Inr d)) \<and>
   (\<exists>m. lgp_tlv_decode (lgp_frame LGP_MSG_COMMIT_BUFFER (enc_commit b)) = Some m \<and>
        lgp_surface_decode_commit m = Some (Inr b)) \<and>
   (\<exists>m. lgp_tlv_decode (lgp_frame LGP_MSG_WM_SET_SURFACE_POSITION (enc_set_position p)) = Some m \<and>
        lgp_wm_decode_set_position m = Some (Inr p)) \<and>
   (\<exists>m. lgp_tlv_decode (lgp_frame LGP_MSG_WM_SET_FOCUS (enc_set_focus f)) = Some m \<and>
        lgp_wm_decode_set_focus m = Some (Inr f)) \<and>
   (\<exists>m. lgp_tlv_decode (lgp_frame LGP_MSG_WM_SET_STATE (enc_set_state s)) = Some m \<and>
        lgp_wm_decode_set_state m = Some (Inr s)) \<and>
   (\<exists>m. lgp_tlv_decode (lgp_frame LGP_MSG_WM_GRAB_KEY (enc_grab_key k)) = Some m \<and>
        lgp_wm_decode_grab_key m = Some (Inr k))"
  by (intro conjI create_codec.frame_roundtrip destroy_codec.frame_roundtrip
      commit_codec.frame_roundtrip set_position_codec.frame_roundtrip
      set_focus_codec.frame_roundtrip set_state_codec.frame_roundtrip
      grab_key_codec.frame_roundtrip) simp_all

theorem request_roundtrip_witness:
  "\<exists>m. lgp_tlv_decode (lgp_frame LGP_MSG_CREATE_SURFACE
       (enc_create \<lparr>sc_type = 4, sc_x = - 20, sc_y = 7, sc_width = 640, sc_height = 480, sc_layer = 100\<rparr>)) = Some m \<and>
     lgp_surface_decode_create m =
       Some (Inr \<lparr>sc_type = 4, sc_x = - 20, sc_y = 7, sc_width = 640, sc_height = 480, sc_layer = 100\<rparr>)"
  using request_roundtrip
      [of "\<lparr>sc_type = 4, sc_x = - 20, sc_y = 7, sc_width = 640, sc_height = 480, sc_layer = 100\<rparr>"
          "\<lparr>sp_surface_id = 1, sp_x = 0, sp_y = 0\<rparr>"]
  by (simp add: in_int32_def)

text \<open>
  The wire decoders are memory safe. Whatever bytes arrive, a frame that \<open>lgp_tlv_decode\<close>
  accepts spans at least the header and at most the buffer, and no payload decoder reads outside
  the buffer on it, whichever type the frame claims.
\<close>

theorem decoders_in_bounds:
  assumes "lgp_tlv_decode buf = Some m"
  shows "6 \<le> unat (m_length m) \<and> unat (m_length m) \<le> length buf \<and>
    lgp_surface_decode_create m \<noteq> None \<and> lgp_surface_decode_destroy m \<noteq> None \<and>
    lgp_surface_decode_commit m \<noteq> None \<and> lgp_wm_decode_set_position m \<noteq> None \<and>
    lgp_wm_decode_set_focus m \<noteq> None \<and> lgp_wm_decode_set_state m \<noteq> None \<and>
    lgp_wm_decode_grab_key m \<noteq> None"
proof (intro conjI)
  show "6 \<le> unat (m_length m)" and "unat (m_length m) \<le> length buf"
    using assms by (auto simp: lgp_tlv_decode_def split: if_splits option.splits)
qed (use assms in \<open>rule create_codec.decode_total destroy_codec.decode_total
  commit_codec.decode_total set_position_codec.decode_total set_focus_codec.decode_total
  set_state_codec.decode_total grab_key_codec.decode_total\<close>)+

theorem decoders_in_bounds_witness:
  "lgp_surface_decode_destroy \<lparr>m_type = 0x0102, m_length = 10, m_payload = [1, 0, 0, 0, 9]\<rparr> \<noteq> None"
  using decoders_in_bounds
    [of "lgp_frame 0x0102 [1, 0, 0, 0] @ [9]" "\<lparr>m_type = 0x0102, m_length = 10, m_payload = [1, 0, 0, 0, 9]\<rparr>"]
    decode_frame [of "[1, 0, 0, 0]" "0x0102" "[9]"]
  by simp

end
