(* ===== verification/Canvas.thy ===== *)
theory Canvas
  imports Lgp_Wire
begin

text \<open>
  Byte memory and drawing in it: bounded copies, loops that may fail, a buffer read as a picture of
  pixels, and what it means for a step or a loop to repaint a set of pixels. Shared by the compositor
  and the boot splash, which both draw 32-bit pixels into a mapped buffer.
\<close>

section \<open>Memory\<close>

text \<open>\<open>memcpy(dst + d, src + s, n)\<close>; \<open>None\<close> when an access leaves one of the objects.\<close>

definition memcpy :: "u8 list \<Rightarrow> nat \<Rightarrow> u8 list \<Rightarrow> nat \<Rightarrow> nat \<Rightarrow> u8 list option" where
  "memcpy dst d src s n =
     (if s + n \<le> length src \<and> d + n \<le> length dst
      then Some (take d dst @ take n (drop s src) @ drop (d + n) dst) else None)"

fun for_each :: "('a \<Rightarrow> 's \<Rightarrow> 's option) \<Rightarrow> 'a list \<Rightarrow> 's \<Rightarrow> 's option" where
  "for_each f [] s = Some s"
| "for_each f (x # xs) s = (case f x s of None \<Rightarrow> None | Some s' \<Rightarrow> for_each f xs s')"

text \<open>The contract of a loop body: on its domain it succeeds and keeps the invariant; so does the loop.\<close>

locale safe_loop =
  fixes ok :: "'s \<Rightarrow> bool" and dom :: "'a \<Rightarrow> bool" and op :: "'a \<Rightarrow> 's \<Rightarrow> 's option"
  assumes op_ok: "ok s \<Longrightarrow> dom a \<Longrightarrow> \<exists>s'. op a s = Some s' \<and> ok s'"
begin

lemma all_ok: "ok s \<Longrightarrow> list_all dom as \<Longrightarrow> \<exists>s'. for_each op as s = Some s' \<and> ok s'"
proof (induction as arbitrary: s)
  case (Cons a as)
  then obtain s1 where "op a s = Some s1" "ok s1" using op_ok [of s a] by auto
  with Cons.IH [of s1] Cons.prems(2) show ?case by simp
qed simp

end

section \<open>Canvases\<close>

text \<open>
  A canvas is the destination buffer read as pixels: \<open>canvas w h p d f\<close> says that for every column
  below \<open>w\<close> and row below \<open>h\<close> the four bytes at \<open>y * p + x * 4\<close> of \<open>d\<close> hold the pixel \<open>f (x, y)\<close>.
\<close>

type_synonym pixmap = "nat \<times> nat \<Rightarrow> u32"

definition canvas :: "nat \<Rightarrow> nat \<Rightarrow> nat \<Rightarrow> u8 list \<Rightarrow> pixmap \<Rightarrow> bool" where
  "canvas w h p d f \<longleftrightarrow>
     (\<forall>x < w. \<forall>y < h. lgp_read_u32_le d (y * p + x * 4) = Some (f (x, y)))"

lemma length_memcpy: "memcpy d o1 src o2 n = Some d' \<Longrightarrow> length d' = length d"
  by (auto simp: memcpy_def split: if_splits)

lemma nth_memcpy:
  assumes "memcpy d a src b n = Some d'" "i < length d"
  shows "d' ! i = (if a \<le> i \<and> i < a + n then src ! (b + (i - a)) else d ! i)"
proof -
  let ?seg = "take n (drop b src)"
  from assms(1) have d': "d' = take a d @ ?seg @ drop (a + n) d" and l: "b + n \<le> length src" "a + n \<le> length d"
    by (auto simp: memcpy_def split: if_splits)
  have len: "length ?seg = n" "length (take a d) = a" using l by simp_all
  consider "i < a" | "a \<le> i" "i < a + n" | "a + n \<le> i" by linarith
  then show ?thesis
  proof cases
    case 1
    then show ?thesis unfolding d' using len by (simp add: nth_append)
  next
    case 2
    then have "i - a < n" by linarith
    with 2 show ?thesis unfolding d' using len l by (simp add: nth_append)
  next
    case 3
    then have "\<not> i - a < n" "\<not> i < a" by linarith+
    with 3 show ?thesis unfolding d' using len assms(2) by (simp add: nth_append)
  qed
qed

lemma read_u32_cong:
  assumes "length d = length d'" "\<And>i. i < 4 \<Longrightarrow> off + i < length d \<Longrightarrow> d ! (off + i) = d' ! (off + i)"
  shows "lgp_read_u32_le d off = lgp_read_u32_le d' off"
  using assms(1) assms(2) [of 0] assms(2) [of 1] assms(2) [of 2] assms(2) [of 3]
  by (simp add: lgp_read_u32_le_def)

lemma read_u32_shift:
  assumes "off + 4 \<le> length d" "off' + 4 \<le> length src"
    "\<And>i. i < 4 \<Longrightarrow> d ! (off + i) = src ! (off' + i)"
  shows "lgp_read_u32_le d off = lgp_read_u32_le src off'"
  using assms(1,2) assms(3) [of 0] assms(3) [of 1] assms(3) [of 2] assms(3) [of 3]
  by (simp add: lgp_read_u32_le_def)

text \<open>Reading a word from a copied stretch, and from outside of it.\<close>

lemma read_memcpy_outside:
  assumes "memcpy d a src b n = Some d'" "off + 4 \<le> a \<or> a + n \<le> off"
  shows "lgp_read_u32_le d' off = lgp_read_u32_le d off"
  by (rule read_u32_cong)
     (use assms length_memcpy [OF assms(1)] nth_memcpy [OF assms(1)] in auto)

lemma read_memcpy_inside:
  assumes m: "memcpy d a src b n = Some d'" and o: "a \<le> off" "off + 4 \<le> a + n"
  shows "lgp_read_u32_le d' off = lgp_read_u32_le src (b + (off - a))"
proof (rule read_u32_shift)
  have l: "b + n \<le> length src" "a + n \<le> length d" using m by (auto simp: memcpy_def split: if_splits)
  with o length_memcpy [OF m] show "off + 4 \<le> length d'" "b + (off - a) + 4 \<le> length src" by auto
  fix i :: nat assume "i < 4"
  with o l nth_memcpy [OF m, of "off + i"] show "d' ! (off + i) = src ! (b + (off - a) + i)"
    by (simp add: add.assoc)
qed

text \<open>Pixels do not overlap when a row fits into the pitch.\<close>

lemma pixel_offsets:
  assumes "4 * w \<le> p" "x < w" "x' < w" "(x, y) \<noteq> (x', y')"
  shows "y * p + x * 4 + 4 \<le> y' * p + x' * 4 \<or> y' * p + x' * 4 + 4 \<le> y * p + x * (4::nat)"
proof (cases "y = y'")
  case True
  with assms(4) show ?thesis by auto
next
  case False
  have *: "a * p + u * 4 + 4 \<le> b * p" if "a < b" "u < w" for a b u :: nat
  proof -
    have "Suc a * p \<le> b * p" using that(1) by (intro mult_le_mono1) simp
    then show ?thesis using assms(1) that(2) by simp
  qed
  show ?thesis
    using False *[of y y' x] *[of y' y x'] assms(2,3) by (cases "y < y'") auto
qed

lemma canvas_exists:
  assumes "4 * w \<le> p" "0 < w" "0 < h" "h * p \<le> length d"
  shows "\<exists>f. canvas w h p d f"
proof -
  have "y * p + x * 4 + 4 \<le> length d" if "x < w" "y < h" for x y
  proof -
    have "Suc y * p \<le> h * p" using that(2) by (intro mult_le_mono1) simp
    then show ?thesis using assms(1,4) that(1) by simp
  qed
  then have "canvas w h p d (\<lambda>(x, y). the (lgp_read_u32_le d (y * p + x * 4)))"
    by (simp add: canvas_def lgp_read_u32_le_def)
  then show ?thesis by blast
qed

lemma read_one_pixel [simp]: "lgp_read_u32_le (lgp_write_u32_le v) 0 = Some v"
  by (rule read_write_u32_0)

lemma canvas_write:
  assumes c: "canvas w h p d f" and p: "4 * w \<le> p" and xy: "x < w" "y < h"
  shows "\<exists>d'. memcpy d (y * p + x * 4) (lgp_write_u32_le v) 0 4 = Some d' \<and>
    canvas w h p d' (f((x, y) := v)) \<and> length d' = length d"
proof -
  let ?o = "y * p + x * 4"
  have "lgp_read_u32_le d ?o = Some (f (x, y))" using c xy by (simp add: canvas_def)
  then have "?o + 4 \<le> length d" by (simp add: lgp_read_u32_le_def split: if_splits)
  then obtain d' where m: "memcpy d ?o (lgp_write_u32_le v) 0 4 = Some d'"
    by (simp add: memcpy_def)
  have "lgp_read_u32_le d' (y' * p + x' * 4) = Some ((f((x, y) := v)) (x', y'))"
    if xy': "x' < w" "y' < h" for x' y'
  proof (cases "(x', y') = (x, y)")
    case True
    with read_memcpy_inside [OF m, of ?o] show ?thesis by simp
  next
    case False
    with pixel_offsets [OF p xy(1) xy'(1), of y y'] have "y' * p + x' * 4 + 4 \<le> ?o \<or> ?o + 4 \<le> y' * p + x' * 4"
      by auto
    with read_memcpy_outside [OF m] c xy' False show ?thesis by (auto simp: canvas_def)
  qed
  with m length_memcpy [OF m] show ?thesis by (auto simp: canvas_def)
qed

section \<open>Loops over pixels\<close>

text \<open>Updating one pixel by a function of its position and old value, and doing so in sequence.\<close>

definition pix_upd :: "(nat \<times> nat \<Rightarrow> u32 \<Rightarrow> u32) \<Rightarrow> nat \<times> nat \<Rightarrow> pixmap \<Rightarrow> pixmap" where
  "pix_upd G q f = f(q := G q (f q))"

lemma fold_pix_upd:
  "distinct qs \<Longrightarrow> fold (pix_upd G) qs f q = (if q \<in> set qs then G q (f q) else f q)"
  by (induction qs arbitrary: f) (auto simp: pix_upd_def)

definition paint :: "(nat \<times> nat) set \<Rightarrow> (nat \<times> nat \<Rightarrow> u32 \<Rightarrow> u32) \<Rightarrow> pixmap \<Rightarrow> pixmap" where
  "paint A G f q = (if q \<in> A then G q (f q) else f q)"

lemma paint_paint:
  "A \<inter> B = {} \<Longrightarrow> paint B G (paint A G f) = paint (A \<union> B) G f"
  by (rule ext) (auto simp: paint_def)

text \<open>
  \<open>draws step A G\<close>: on every canvas the step succeeds, keeps the size of the buffer and repaints
  the pixels of \<open>A\<close> by \<open>G\<close>.
\<close>

definition draws ::
    "nat \<Rightarrow> nat \<Rightarrow> nat \<Rightarrow> nat \<Rightarrow> (u8 list \<Rightarrow> u8 list option) \<Rightarrow> (nat \<times> nat) set
      \<Rightarrow> (nat \<times> nat \<Rightarrow> u32 \<Rightarrow> u32) \<Rightarrow> bool" where
  "draws w h p n step A G \<longleftrightarrow>
     (\<forall>d f. length d = n \<longrightarrow> canvas w h p d f \<longrightarrow>
        (\<exists>d'. step d = Some d' \<and> length d' = n \<and> canvas w h p d' (paint A G f)))"

lemma drawsI:
  "(\<And>d f. length d = n \<Longrightarrow> canvas w h p d f \<Longrightarrow>
     \<exists>d'. step d = Some d' \<and> length d' = n \<and> canvas w h p d' (paint A G f)) \<Longrightarrow>
   draws w h p n step A G"
  by (simp add: draws_def)

lemma paint_empty: "paint {} G f = f"
  by (rule ext) (simp add: paint_def)

lemma draws_skip: "draws w h p n Some {} G"
  by (simp add: draws_def paint_empty)

lemma draws_for_each:
  assumes "\<And>x. x \<in> set xs \<Longrightarrow> draws w h p n (step x) (A x) G"
    and "distinct xs" "\<And>x y. x \<in> set xs \<Longrightarrow> y \<in> set xs \<Longrightarrow> x \<noteq> y \<Longrightarrow> A x \<inter> A y = {}"
  shows "draws w h p n (for_each step xs) (\<Union>x \<in> set xs. A x) G"
proof (rule drawsI)
  fix d f assume "length d = n" "canvas w h p d f"
  then show "\<exists>d'. for_each step xs d = Some d' \<and> length d' = n \<and>
      canvas w h p d' (paint (\<Union>x \<in> set xs. A x) G f)"
    using assms
  proof (induction xs arbitrary: d f)
    case Nil
    then show ?case by (simp add: paint_empty)
  next
    case (Cons x xs)
    from Cons.prems(1,2) Cons.prems(3) [of x] obtain d1 where d1: "step x d = Some d1" "length d1 = n"
      "canvas w h p d1 (paint (A x) G f)" by (auto simp: draws_def)
    have "\<exists>d'. for_each step xs d1 = Some d' \<and> length d' = n \<and>
        canvas w h p d' (paint (\<Union>x \<in> set xs. A x) G (paint (A x) G f))"
      by (rule Cons.IH) (use Cons.prems d1 in auto)
    moreover have "A x \<inter> (\<Union>x \<in> set xs. A x) = {}"
      using Cons.prems(4) Cons.prems(5) [of x] by fastforce
    ultimately show ?case using d1(1) by (simp add: paint_paint)
  qed
qed

lemma draws_outside:
  assumes "draws w h p n step A G" "A \<inter> {..<w} \<times> {..<h} = B \<inter> {..<w} \<times> {..<h}"
  shows "draws w h p n step B G"
proof (rule drawsI)
  fix d f assume "length d = n" "canvas w h p d f"
  with assms(1) obtain d' where d': "step d = Some d'" "length d' = n" "canvas w h p d' (paint A G f)"
    by (auto simp: draws_def)
  have "paint A G f (x, y) = paint B G f (x, y)" if "x < w" "y < h" for x y
  proof -
    have "(x, y) \<in> A \<longleftrightarrow> (x, y) \<in> B" using assms(2) that by blast
    then show ?thesis by (simp add: paint_def)
  qed
  with d' show "\<exists>d'. step d = Some d' \<and> length d' = n \<and> canvas w h p d' (paint B G f)"
    by (auto simp: canvas_def)
qed

lemma draws_cong:
  assumes "draws w h p n step A G" "\<And>q v. q \<in> A \<Longrightarrow> G q v = G' q v"
  shows "draws w h p n step A G'"
proof -
  have "paint A G' f = paint A G f" for f by (rule ext) (simp add: paint_def assms(2))
  then show ?thesis using assms(1) by (simp add: draws_def)
qed

lemma draws_pixel:
  assumes "4 * w \<le> p" "x < w" "y < h"
    and "\<And>d v. lgp_read_u32_le d (y * p + x * 4) = Some v \<Longrightarrow>
           step d = (if keep then Some d
                     else memcpy d (y * p + x * 4) (lgp_write_u32_le (G (x, y) v)) 0 4)"
    and "keep \<Longrightarrow> (\<And>v. G (x, y) v = v)"
  shows "draws w h p n step {(x, y)} G"
proof (rule drawsI)
  fix d f assume d: "length d = n" "canvas w h p d f"
  have r: "lgp_read_u32_le d (y * p + x * 4) = Some (f (x, y))"
    using d(2) assms(2,3) by (simp add: canvas_def)
  show "\<exists>d'. step d = Some d' \<and> length d' = n \<and> canvas w h p d' (paint {(x, y)} G f)"
  proof (cases keep)
    case True
    then have "paint {(x, y)} G f = f" using assms(5) by (auto simp: paint_def fun_eq_iff)
    with True d assms(4) [OF r] show ?thesis by simp
  next
    case False
    have "paint {(x, y)} G f = f((x, y) := G (x, y) (f (x, y)))" by (auto simp: paint_def fun_eq_iff)
    with False canvas_write [OF d(2) assms(1-3), of "G (x, y) (f (x, y))"] d assms(4) [OF r]
    show ?thesis by auto
  qed
qed

section \<open>Sequences of drawing steps\<close>

definition renders ::
    "nat \<Rightarrow> nat \<Rightarrow> nat \<Rightarrow> nat \<Rightarrow> (u8 list \<Rightarrow> u8 list option) \<Rightarrow> (pixmap \<Rightarrow> pixmap) \<Rightarrow> bool" where
  "renders w h p n step U \<longleftrightarrow>
     (\<forall>d f. length d = n \<longrightarrow> canvas w h p d f \<longrightarrow>
        (\<exists>d'. step d = Some d' \<and> length d' = n \<and> canvas w h p d' (U f)))"

lemma draws_renders: "draws w h p n step A G \<longleftrightarrow> renders w h p n step (paint A G)"
  by (simp add: draws_def renders_def)

lemma renders_id: "renders w h p n Some id"
  by (simp add: renders_def)

lemma renders_for_each:
  assumes "\<And>x. x \<in> set xs \<Longrightarrow> renders w h p n (step x) (U x)"
  shows "renders w h p n (for_each step xs) (fold U xs)"
  unfolding renders_def
proof (intro allI impI)
  fix d f assume "length d = n" "canvas w h p d f"
  then show "\<exists>d'. for_each step xs d = Some d' \<and> length d' = n \<and> canvas w h p d' (fold U xs f)"
    using assms
  proof (induction xs arbitrary: d f)
    case (Cons x xs)
    from Cons.prems(1,2) Cons.prems(3) [of x] obtain d1 where d1: "step x d = Some d1" "length d1 = n"
      "canvas w h p d1 (U x f)" by (auto simp: renders_def)
    have "\<exists>d'. for_each step xs d1 = Some d' \<and> length d' = n \<and> canvas w h p d' (fold U xs (U x f))"
      by (rule Cons.IH) (use Cons.prems d1 in auto)
    with d1(1) show ?case by simp
  qed simp
qed

end
