(* ===== verification/Luna_Splash.thy ===== *)
theory Luna_Splash
  imports Splash_Ipc Canvas "HOL-Library.List_Lexorder" "HOL-Library.Char_ord"
begin

text \<open>
  The splash program (\<open>render.c\<close>, \<open>frames.c\<close> and \<open>main.c\<close> of \<open>src/src/luna-splash\<close>): the frame buffer
  and its shadow as lists of bytes, drawing of pixels, texts, logo, progress bars and overlay, the fade,
  the sequence of frames and the event loop. Every access outside the memory and every overflow of a
  product is \<open>None\<close>. The image decoder and the font table are arguments.
\<close>

section \<open>The frame buffer\<close>

text \<open>
  What the driver reports (the fields of \<open>vinfo\<close> and \<open>finfo\<close> that are used, as unsigned numbers), and
  the mapped memory with its shadow copy. The coordinates of the program are \<open>int\<close>.
\<close>

record fb_mode =
  fm_xres :: int
  fm_yres :: int
  fm_yres_virtual :: int
  fm_bits_per_pixel :: int
  fm_line_length :: int

record splash_fb =
  fb_mem :: "u8 list"
  shadow_fb :: "u8 list option"

definition screen_w :: "fb_mode \<Rightarrow> int" where "screen_w md = to_int32 (fm_xres md)"
definition screen_h :: "fb_mode \<Rightarrow> int" where "screen_h md = to_int32 (fm_yres md)"
definition line_length :: "fb_mode \<Rightarrow> int" where "line_length md = to_int32 (fm_line_length md)"
definition screensize :: "fb_mode \<Rightarrow> nat" where "screensize md = nat (fm_yres_virtual md * fm_line_length md)"

abbreviation (input) COLOR_BG :: u32 where "COLOR_BG \<equiv> 0"
abbreviation (input) COLOR_TEXT :: u32 where "COLOR_TEXT \<equiv> 0x00FFFFFF"
abbreviation (input) COLOR_BRAND :: u32 where "COLOR_BRAND \<equiv> 0x0000FFFF"
abbreviation (input) COLOR_BAR_BG :: u32 where "COLOR_BAR_BG \<equiv> 0x00333333"

text \<open>
  The answers of \<open>open\<close>, the two \<open>ioctl\<close> calls (with what they report), \<open>mmap\<close> (with what is in the
  memory) and \<open>malloc\<close>. \<open>None\<close> is the return code -1.
\<close>

record render_io =
  ri_open :: bool
  ri_fscreeninfo :: bool
  ri_vscreeninfo :: bool
  ri_mode :: fb_mode
  ri_mmap :: "u8 list option"
  ri_malloc :: bool

definition render_init :: "render_io \<Rightarrow> (fb_mode \<times> splash_fb) option" where
  "render_init io =
     (if \<not> ri_open io \<or> \<not> ri_fscreeninfo io \<or> \<not> ri_vscreeninfo io then None
      else
        (case ri_mmap io of
           None \<Rightarrow> None
         | Some mem \<Rightarrow>
             Some (ri_mode io,
                   \<lparr>fb_mem = mem,
                    shadow_fb = (if ri_malloc io then Some (replicate (screensize (ri_mode io)) 0) else None)\<rparr>)))"

definition write_both :: "nat \<Rightarrow> u8 list \<Rightarrow> splash_fb \<Rightarrow> splash_fb option" where
  "write_both off bs st =
     (case memcpy (fb_mem st) off bs 0 (length bs) of
        None \<Rightarrow> None
      | Some m \<Rightarrow>
          (case shadow_fb st of
             None \<Rightarrow> Some (st\<lparr>fb_mem := m\<rparr>)
           | Some s \<Rightarrow>
               map_option (\<lambda>s'. \<lparr>fb_mem = m, shadow_fb = Some s'\<rparr>) (memcpy s off bs 0 (length bs))))"

definition color16 :: "u32 \<Rightarrow> u16" where
  "color16 color =
     (let r = drop_bit 16 color AND 0xFF; g = drop_bit 8 color AND 0xFF; b = color AND 0xFF
      in ucast (push_bit 11 (drop_bit 3 r) OR push_bit 5 (drop_bit 2 g) OR drop_bit 3 b))"

definition color24 :: "u32 \<Rightarrow> u8 list" where
  "color24 color = [ucast (color AND 0xFF), ucast (drop_bit 8 color AND 0xFF), ucast (drop_bit 16 color AND 0xFF)]"

text \<open>\<open>None\<close>: the product overflows, or the store leaves the mapping.\<close>

definition put_pixel :: "fb_mode \<Rightarrow> u32 \<Rightarrow> int \<times> int \<Rightarrow> splash_fb \<Rightarrow> splash_fb option" where
  "put_pixel md color q st =
     (case q of (x, y) \<Rightarrow>
      if x < 0 \<or> x \<ge> screen_w md \<or> y < 0 \<or> y \<ge> screen_h md then Some st
      else if fm_bits_per_pixel md \<notin> {32, 16, 24} then Some st
      else
        (let a = y * line_length md in
         if a < 0 \<or> \<not> in_int32 a then None
         else if fm_bits_per_pixel md = 32 then write_both (nat (a div 4 + x) * 4) (lgp_write_u32_le color) st
         else if fm_bits_per_pixel md = 16 then write_both (nat (a div 2 + x) * 2) (lgp_write_u16_le (color16 color)) st
         else write_both (nat (a + x * 3)) (color24 color) st))"

section \<open>Drawing\<close>

definition draw_pixels :: "fb_mode \<Rightarrow> u32 \<Rightarrow> (int \<times> int) list \<Rightarrow> splash_fb \<Rightarrow> splash_fb option" where
  "draw_pixels md color = for_each (put_pixel md color)"

text \<open>The points of two nested loops over rows and columns, in their order.\<close>

definition rect_points :: "int \<Rightarrow> int \<Rightarrow> int \<Rightarrow> int \<Rightarrow> (int \<times> int) list" where
  "rect_points x0 x1 y0 y1 = concat (map (\<lambda>y. map (\<lambda>x. (x, y)) [x0..x1 - 1]) [y0..y1 - 1])"

text \<open>Parts of a picture, each with its colour, one after the other.\<close>

definition draw_all :: "fb_mode \<Rightarrow> (u32 \<times> (int \<times> int) list) list \<Rightarrow> splash_fb \<Rightarrow> splash_fb option" where
  "draw_all md = for_each (\<lambda>(color, ps). draw_pixels md color ps)"

definition memset_zero :: "nat \<Rightarrow> u8 list \<Rightarrow> u8 list option" where
  "memset_zero n d = (if n \<le> length d then Some (replicate n 0 @ drop n d) else None)"

definition render_clear :: "fb_mode \<Rightarrow> u32 \<Rightarrow> splash_fb \<Rightarrow> splash_fb option" where
  "render_clear md color st =
     (if fm_bits_per_pixel md = 32 \<and> color = 0
      then
        (case memset_zero (screensize md) (fb_mem st) of
           None \<Rightarrow> None
         | Some m \<Rightarrow>
             (case shadow_fb st of
                None \<Rightarrow> Some (st\<lparr>fb_mem := m\<rparr>)
              | Some s \<Rightarrow> map_option (\<lambda>s'. \<lparr>fb_mem = m, shadow_fb = Some s'\<rparr>) (memset_zero (screensize md) s)))
      else draw_pixels md color (rect_points 0 (screen_w md) 0 (screen_h md)) st)"

text \<open>The table \<open>font8x16\<close> is an argument: the row of a character's picture.\<close>

type_synonym font = "nat \<Rightarrow> nat \<Rightarrow> u8"

definition glyph_points :: "font \<Rightarrow> int \<Rightarrow> int \<Rightarrow> char \<Rightarrow> (int \<times> int) list" where
  "glyph_points font cur_x cur_y c =
     concat (map (\<lambda>cy. map (\<lambda>cx. (cur_x + int cx, cur_y + int cy))
                        (filter (\<lambda>cx. bit (font (of_char c) cy) (7 - cx)) [0..<8])) [0..<16])"

fun text_points :: "font \<Rightarrow> int \<Rightarrow> int \<Rightarrow> int \<Rightarrow> string \<Rightarrow> (int \<times> int) list" where
  "text_points font x cur_x cur_y [] = []"
| "text_points font x cur_x cur_y (c # cs) =
     (if c = LF then text_points font x x (cur_y + 16) cs
      else glyph_points font cur_x cur_y c @ text_points font x (cur_x + 8) cur_y cs)"

definition render_text :: "fb_mode \<Rightarrow> font \<Rightarrow> int \<Rightarrow> int \<Rightarrow> string \<Rightarrow> u32 \<Rightarrow> splash_fb \<Rightarrow> splash_fb option" where
  "render_text md font x y s color = draw_pixels md color (text_points font x x y s)"

definition centered_points :: "fb_mode \<Rightarrow> font \<Rightarrow> int \<Rightarrow> string \<Rightarrow> (int \<times> int) list" where
  "centered_points md font y s =
     (let x = c_div (screen_w md - int (length s) * 8) 2 in text_points font x x y s)"

definition render_text_centered :: "fb_mode \<Rightarrow> font \<Rightarrow> int \<Rightarrow> string \<Rightarrow> u32 \<Rightarrow> splash_fb \<Rightarrow> splash_fb option" where
  "render_text_centered md font y s color = draw_pixels md color (centered_points md font y s)"

text \<open>
  The logo: lines of UTF-8 text, here written with one letter per cell. A full block is \<open>#\<close>; the line
  drawing characters are named after their last byte.
\<close>

definition logo_cell :: "char \<Rightarrow> string" where
  "logo_cell c =
     (if c = CHR ''#'' then [CHR 0xE2, CHR 0x96, CHR 0x88]
      else if c = CHR ''7'' then [CHR 0xE2, CHR 0x95, CHR 0x97]
      else if c = CHR ''1'' then [CHR 0xE2, CHR 0x95, CHR 0x91]
      else if c = CHR ''4'' then [CHR 0xE2, CHR 0x95, CHR 0x94]
      else if c = CHR ''0'' then [CHR 0xE2, CHR 0x95, CHR 0x90]
      else if c = CHR ''A'' then [CHR 0xE2, CHR 0x95, CHR 0x9A]
      else if c = CHR ''D'' then [CHR 0xE2, CHR 0x95, CHR 0x9D]
      else [c])"

definition logo :: "string list" where
  "logo = map (\<lambda>l. concat (map logo_cell l))
     [''  ###7   ###7 #####7 ##7  ##7##7###7   ##7 #####7 '',
      ''  ####7 ####1##400##7##1  ##1##1####7  ##1##400##7'',
      ''  ##4####4##1#######1#######1##1##4##7 ##1#######1'',
      ''  ##1A##4D##1##400##1##400##1##1##1A##7##1##400##1'',
      ''  ##1 A0D ##1##1  ##1##1  ##1##1##1 A####1##1  ##1'',
      ''  A0D     A0DA0D  A0DA0D  A0DA0DA0D  A000DA0D  A0D'']"

text \<open>The part of a cell that is filled, from the second and third byte of its character.\<close>

definition cell_points :: "int \<Rightarrow> int \<Rightarrow> char \<Rightarrow> char \<Rightarrow> (int \<times> int) list" where
  "cell_points cur_x cur_y p1 p2 =
     (if p1 = CHR 0x96 \<and> p2 = CHR 0x88 then rect_points cur_x (cur_x + 8) cur_y (cur_y + 16)
      else if p1 = CHR 0x95
      then
        (let start_x = (if p2 = CHR 0x97 \<or> p2 = CHR 0x9D then 0 else 2);
             end_x = (if p2 = CHR 0x94 \<or> p2 = CHR 0x9A then 8 else 6);
             start_y = (if p2 = CHR 0x9A \<or> p2 = CHR 0x9D then 0 else 4);
             end_y = (if p2 = CHR 0x97 \<or> p2 = CHR 0x94 then 16 else 12);
             (sx, ex, sy, ey) =
               (if p2 = CHR 0x90 then (0, 8, 6, 10)
                else if p2 = CHR 0x91 then (2, 6, 0, 16) else (start_x, end_x, start_y, end_y))
         in rect_points (cur_x + sx) (cur_x + ex) (cur_y + sy) (cur_y + ey))
      else [])"

function logo_row :: "int \<Rightarrow> int \<Rightarrow> string \<Rightarrow> (int \<times> int) list" where
  "logo_row cur_x cur_y p =
     (case p of
        [] \<Rightarrow> []
      | c # cs \<Rightarrow>
          if c = CHR '' '' then logo_row (cur_x + 8) cur_y cs
          else if c = CHR 0xE2
          then (case cs of
                  p1 # p2 # rest \<Rightarrow> cell_points cur_x cur_y p1 p2 @ logo_row (cur_x + 8) cur_y rest
                | _ \<Rightarrow> [])
          else logo_row cur_x cur_y cs)"
  by pat_completeness auto
termination by (relation "measure (\<lambda>(cur_x, cur_y, p). length p)") auto

declare logo_row.simps [simp del]

definition logo_points :: "fb_mode \<Rightarrow> (int \<times> int) list" where
  "logo_points md =
     concat (map (\<lambda>(y_idx, line). logo_row (c_div (screen_w md - 46 * 8) 2) (c_div (screen_h md) 2 - 60 + int y_idx * 16) line)
       (enumerate 0 logo))"

definition render_logo :: "fb_mode \<Rightarrow> font \<Rightarrow> splash_fb \<Rightarrow> splash_fb option" where
  "render_logo md font =
     draw_all md [(COLOR_BRAND, logo_points md),
                  (COLOR_TEXT, centered_points md font (c_div (screen_h md) 2 - 60 + 120) ''Initializing System'')]"

text \<open>\<open>None\<close> when \<open>bar_w * percent\<close> overflows.\<close>

definition render_progress :: "fb_mode \<Rightarrow> font \<Rightarrow> string \<Rightarrow> int \<Rightarrow> splash_fb \<Rightarrow> splash_fb option" where
  "render_progress md font msg percent st =
     (let center_y = c_div (screen_h md) 2 + 20;
          bar_w = 400; bar_h = 10;
          bar_x = c_div (screen_w md - bar_w) 2;
          bar_y = center_y + 30;
          fill_w = c_div (bar_w * percent) 100
      in if \<not> in_int32 (bar_w * percent) then None
         else draw_all md
           [(COLOR_BG, rect_points 0 (screen_w md) center_y (center_y + 60)),
            (COLOR_TEXT, centered_points md font center_y msg),
            (COLOR_BAR_BG, rect_points bar_x (bar_x + bar_w) bar_y (bar_y + bar_h)),
            (COLOR_BRAND, rect_points bar_x (bar_x + fill_w) bar_y (bar_y + bar_h))] st)"

section \<open>The overlay\<close>

definition darken_channel :: "u32 \<Rightarrow> u32" where
  "darken_channel v = (v AND 0xFF) * 55 div 100"

definition darken :: "u32 \<Rightarrow> u32" where
  "darken c =
     push_bit 16 (darken_channel (drop_bit 16 c)) OR push_bit 8 (darken_channel (drop_bit 8 c)) OR darken_channel c"

definition darken_pixel :: "fb_mode \<Rightarrow> int \<times> int \<Rightarrow> splash_fb \<Rightarrow> splash_fb option" where
  "darken_pixel md q st =
     (case q of (x, y) \<Rightarrow>
      let a = y * c_div (line_length md) 4 + x in
      if a < 0 \<or> \<not> in_int32 a then None
      else
        (case lgp_read_u32_le (fb_mem st) (nat a * 4) of
           None \<Rightarrow> None
         | Some c \<Rightarrow> write_both (nat a * 4) (lgp_write_u32_le (darken c)) st))"

definition render_overlay_progress :: "fb_mode \<Rightarrow> font \<Rightarrow> string \<Rightarrow> int \<Rightarrow> splash_fb \<Rightarrow> splash_fb option" where
  "render_overlay_progress md font msg percent st =
     (if fm_bits_per_pixel md \<noteq> 32 then Some st
      else
        (let band_y = c_div (screen_h md * 85) 100;
             band_h = screen_h md - band_y;
             bar_w = c_div (screen_w md * 60) 100;
             bar_h = 8;
             bar_x = c_div (screen_w md - bar_w) 2;
             bar_y = band_y + c_div band_h 2;
             fill_w = c_div (bar_w * percent) 100
         in if \<not> in_int32 (screen_h md * 85) \<or> \<not> in_int32 (screen_w md * 60) \<or> \<not> in_int32 (bar_w * percent) then None
            else
              (case for_each (darken_pixel md) (rect_points 0 (screen_w md) band_y (band_y + band_h)) st of
                 None \<Rightarrow> None
               | Some st1 \<Rightarrow>
                   draw_all md
                     [(COLOR_TEXT, centered_points md font (band_y + c_div band_h 4) msg),
                      (COLOR_BAR_BG, rect_points bar_x (bar_x + bar_w) bar_y (bar_y + bar_h)),
                      (COLOR_BRAND, rect_points bar_x (bar_x + fill_w) bar_y (bar_y + bar_h))] st1)))"

section \<open>Fading out\<close>

definition fade_channel :: "u32 \<Rightarrow> u32" where
  "fade_channel v = (let c = v AND 0xFF in if c > 16 then c - 16 else 0)"

definition fade_pixel :: "u32 \<Rightarrow> u32" where
  "fade_pixel c =
     push_bit 16 (fade_channel (drop_bit 16 c)) OR push_bit 8 (fade_channel (drop_bit 8 c)) OR fade_channel c"

definition read_words :: "u8 list \<Rightarrow> nat \<Rightarrow> u32 list option" where
  "read_words d n = (if 4 * n \<le> length d then Some (map (\<lambda>i. the (lgp_read_u32_le d (i * 4))) [0..<n]) else None)"

text \<open>The steps of the fade: darken the copy and write it to the screen.\<close>

primrec fade_steps :: "nat \<Rightarrow> u32 list \<Rightarrow> u8 list \<Rightarrow> u8 list option" where
  "fade_steps 0 buf mem = Some mem"
| "fade_steps (Suc k) buf mem =
     (let buf1 = map fade_pixel buf in
      case memcpy mem 0 (concat (map lgp_write_u32_le buf1)) 0 (4 * length buf1) of
        None \<Rightarrow> None
      | Some mem1 \<Rightarrow> fade_steps k buf1 mem1)"

text \<open>\<open>None\<close> also when the number of bytes per pixel is 0, by which the code divides.\<close>

definition render_fade_out :: "bool \<Rightarrow> fb_mode \<Rightarrow> splash_fb \<Rightarrow> splash_fb option" where
  "render_fade_out malloc_ok md st =
     (if fm_bits_per_pixel md div 8 = 0 then None
      else if fm_bits_per_pixel md \<noteq> 32 \<or> \<not> malloc_ok then Some st
      else
        (let pixel_count = nat (fm_yres_virtual md * (fm_line_length md div (fm_bits_per_pixel md div 8)));
             src = (case shadow_fb st of Some s \<Rightarrow> s | None \<Rightarrow> fb_mem st)
         in case read_words src pixel_count of
              None \<Rightarrow> None
            | Some backbuffer \<Rightarrow> map_option (\<lambda>m. st\<lparr>fb_mem := m\<rparr>) (fade_steps 16 backbuffer (fb_mem st))))"

section \<open>The frame sequence\<close>

text \<open>The static variables of \<open>frames.c\<close>; the paths as the used part of their table.\<close>

record frames_state =
  s_frame_paths :: "string list"
  s_frame_index :: nat
  s_native_w :: int
  s_native_h :: int
  s_fps :: int
  s_bg_cleared :: bool

definition frames_initial :: frames_state where
  "frames_initial =
     \<lparr>s_frame_paths = [], s_frame_index = 0, s_native_w = 0, s_native_h = 0, s_fps = 30, s_bg_cleared = False\<rparr>"

abbreviation (input) MAX_FRAMES :: nat where "MAX_FRAMES \<equiv> 512"
abbreviation (input) PATH_MAX :: nat where "PATH_MAX \<equiv> 4096"

text \<open>\<open>sscanf(line, "%63[^=]=%d", key, &val) == 2\<close>: the key and the value.\<close>

definition scan_meta :: "string \<Rightarrow> (string \<times> int) option" where
  "scan_meta line =
     (let key = take 63 (takeWhile (\<lambda>c. c \<noteq> CHR ''='') line) in
      case drop (length key) line of
        c # rest \<Rightarrow>
          if key = [] \<or> c \<noteq> CHR ''='' then None
          else map_option (\<lambda>(v, _). (key, to_int32 (clamp_int64 v))) (strtoll10 rest)
      | [] \<Rightarrow> None)"

definition meta_line :: "string \<Rightarrow> frames_state \<Rightarrow> frames_state" where
  "meta_line line fr =
     (case scan_meta (cstr line) of
        None \<Rightarrow> fr
      | Some (key, val) \<Rightarrow>
          if key = ''width'' then fr\<lparr>s_native_w := val\<rparr>
          else if key = ''height'' then fr\<lparr>s_native_h := val\<rparr>
          else if key = ''fps'' then fr\<lparr>s_fps := val\<rparr>
          else fr)"

text \<open>\<open>None\<close>: the file cannot be opened.\<close>

definition read_meta :: "string option \<Rightarrow> frames_state \<Rightarrow> frames_state" where
  "read_meta file fr = (case file of None \<Rightarrow> fr | Some bytes \<Rightarrow> fold meta_line (fgets_chunks 128 bytes) fr)"

definition frame_name :: "string \<Rightarrow> bool" where
  "frame_name name \<longleftrightarrow>
     strncmp_eq 5 name ''frame'' \<and>
     (case split_last_chr CHR ''.'' name of None \<Rightarrow> False | Some (_, ext) \<Rightarrow> ext = ''png'')"

text \<open>
  An image as \<open>stbi_load\<close> delivers it with three channels: width, height and bytes; the decoder is an
  argument.
\<close>

type_synonym image = "int \<times> int \<times> u8 list"

text \<open>The directory is the list of names \<open>readdir\<close> delivers, \<open>None\<close> when it cannot be opened.\<close>

definition frames_init ::
  "(string \<Rightarrow> image option) \<Rightarrow> string \<Rightarrow> string option \<Rightarrow> string list option \<Rightarrow> frames_state \<Rightarrow> frames_state \<times> nat" where
  "frames_init stbi_load dir meta entries fr =
     (let fr1 = read_meta meta (fr\<lparr>s_frame_paths := [], s_frame_index := 0, s_bg_cleared := False\<rparr>) in
      case entries of
        None \<Rightarrow> (fr1, 0)
      | Some names \<Rightarrow>
          (let paths = sort (map (\<lambda>name. bounded_copy PATH_MAX (dir @ ''/'' @ name)) (take MAX_FRAMES (filter frame_name names)));
               fr2 = fr1\<lparr>s_frame_paths := paths\<rparr>
           in if paths = [] then (fr2, 0)
              else
                (if s_native_w fr2 = 0 \<or> s_native_h fr2 = 0
                 then (case stbi_load (hd paths) of
                         None \<Rightarrow> fr2
                       | Some (w, h, _) \<Rightarrow> fr2\<lparr>s_native_w := w, s_native_h := h\<rparr>)
                 else fr2, length paths)))"

definition frames_get_fps :: "frames_state \<Rightarrow> int" where
  "frames_get_fps fr = (if s_fps fr > 0 then s_fps fr else 30)"

text \<open>The nanoseconds between two frames, which the timer takes as \<open>tv_nsec\<close>.\<close>

definition frame_ns :: "frames_state \<Rightarrow> int" where
  "frame_ns fr = c_div 1000000000 (if frames_get_fps fr > 0 then frames_get_fps fr else 30)"

definition rgb_pixel :: "u8 \<Rightarrow> u8 \<Rightarrow> u8 \<Rightarrow> u32" where
  "rgb_pixel r g b = push_bit 16 (ucast r) OR push_bit 8 (ucast g) OR ucast b"

text \<open>One pixel of the copy: \<open>None\<close> when a read or the store leaves its object.\<close>

definition blit_pixel :: "nat \<Rightarrow> nat \<Rightarrow> nat \<Rightarrow> nat \<Rightarrow> u8 list \<Rightarrow> nat \<times> nat \<Rightarrow> u8 list \<Rightarrow> u8 list option" where
  "blit_pixel img_w fb_stride x_off y_off pixels q mem =
     (case q of (col, row) \<Rightarrow>
      let s = row * img_w * 3 + col * 3 in
      if s + 2 < length pixels
      then memcpy mem (((y_off + row) * fb_stride + x_off + col) * 4)
             (lgp_write_u32_le (rgb_pixel (pixels ! s) (pixels ! (s + 1)) (pixels ! (s + 2)))) 0 4
      else None)"

definition blit_points :: "nat \<Rightarrow> nat \<Rightarrow> (nat \<times> nat) list" where
  "blit_points draw_w draw_h = concat (map (\<lambda>row. map (\<lambda>col. (col, row)) [0..<draw_w]) [0..<draw_h])"

text \<open>The product of two \<open>int\<close> after their conversion to \<open>size_t\<close>, in words of 32 bits.\<close>

definition words_size :: "int \<Rightarrow> int \<Rightarrow> nat" where
  "words_size a b = nat ((a mod 2 ^ 64) * (b mod 2 ^ 64) * 4 mod 2 ^ 64)"

text \<open>The result, the new state of the sequence and the memory.\<close>

definition frames_load_next ::
  "(string \<Rightarrow> image option) \<Rightarrow> int \<Rightarrow> int \<Rightarrow> int \<Rightarrow> frames_state \<Rightarrow> u8 list \<Rightarrow> (bool \<times> frames_state \<times> u8 list) option" where
  "frames_load_next stbi_load fb_w fb_h fb_stride fr mem =
     (if s_frame_paths fr = [] then Some (False, fr, mem)
      else
        (let img = stbi_load (s_frame_paths fr ! s_frame_index fr);
             fr1 = fr\<lparr>s_frame_index := (s_frame_index fr + 1) mod length (s_frame_paths fr)\<rparr>
         in case img of
              None \<Rightarrow> Some (False, fr1, mem)
            | Some (img_w, img_h, pixels) \<Rightarrow>
                (case (if s_bg_cleared fr then Some mem else memset_zero (words_size fb_h fb_stride) mem) of
                   None \<Rightarrow> None
                 | Some mem1 \<Rightarrow>
                     (let draw_w = min img_w fb_w; draw_h = min img_h fb_h;
                          x_off = c_div (fb_w - draw_w) 2; y_off = c_div (fb_h - draw_h) 2
                      in map_option (\<lambda>mem2. (True, fr1\<lparr>s_bg_cleared := True\<rparr>, mem2))
                           (for_each (blit_pixel (nat img_w) (nat fb_stride) (nat x_off) (nat y_off) pixels)
                              (blit_points (nat draw_w) (nat draw_h)) mem1)))))"

definition frames_cleanup :: "frames_state \<Rightarrow> frames_state" where
  "frames_cleanup fr =
     fr\<lparr>s_frame_paths := [], s_frame_index := 0, s_native_w := 0, s_native_h := 0, s_bg_cleared := False\<rparr>"

section \<open>The program\<close>

text \<open>The arguments: descriptor of the pipe and directory of the frames.\<close>

fun parse_splash_args :: "string list \<Rightarrow> int \<times> string \<Rightarrow> int \<times> string" where
  "parse_splash_args [] r = r"
| "parse_splash_args [a] r = r"
| "parse_splash_args (a # b # rest) (pipe_fd, frames_dir) =
     (if a = ''--fd'' then parse_splash_args rest (atoi b, frames_dir)
      else if a = ''--frames'' then parse_splash_args rest (pipe_fd, b)
      else parse_splash_args (b # rest) (pipe_fd, frames_dir))"

definition splash_args :: "string list \<Rightarrow> int \<times> string" where
  "splash_args argv = parse_splash_args argv (- 1, ''/usr/share/mahina/splash'')"

text \<open>
  The variables of \<open>main\<close> with the statics of the other files; \<open>sp_pipe\<close> is what waits in the pipe, as the
  answers \<open>read\<close> will give.
\<close>

record splash =
  sp_fb :: splash_fb
  sp_frames :: frames_state
  sp_frame_mode :: bool
  sp_last_pct :: int
  sp_last_msg :: string
  sp_ipc :: string
  sp_pipe :: "string list"
  sp_running :: bool

definition render_get_stride :: "fb_mode \<Rightarrow> int" where
  "render_get_stride md = c_div (line_length md) 4"

definition load_next_frame :: "(string \<Rightarrow> image option) \<Rightarrow> fb_mode \<Rightarrow> splash \<Rightarrow> splash option" where
  "load_next_frame stbi_load md sp =
     map_option (\<lambda>(_, fr, mem). sp\<lparr>sp_frames := fr, sp_fb := (sp_fb sp)\<lparr>fb_mem := mem\<rparr>\<rparr>)
       (frames_load_next stbi_load (screen_w md) (screen_h md) (render_get_stride md) (sp_frames sp) (fb_mem (sp_fb sp)))"

text \<open>The static picture.\<close>

definition draw_static :: "fb_mode \<Rightarrow> font \<Rightarrow> string \<Rightarrow> int \<Rightarrow> splash_fb \<Rightarrow> splash_fb option" where
  "draw_static md font msg percent st =
     (case render_clear md COLOR_BG st of
        None \<Rightarrow> None
      | Some st1 \<Rightarrow>
          (case render_logo md font st1 of None \<Rightarrow> None | Some st2 \<Rightarrow> render_progress md font msg percent st2))"

text \<open>
  From the loading of the frames to the event loop. \<open>timer_ok\<close>: whether the timer could be created.
\<close>

definition splash_begin ::
  "(string \<Rightarrow> image option) \<Rightarrow> font \<Rightarrow> fb_mode \<Rightarrow> string \<Rightarrow> string option \<Rightarrow> string list option \<Rightarrow> bool \<Rightarrow> splash_fb
   \<Rightarrow> splash option" where
  "splash_begin stbi_load font md frames_dir meta entries timer_ok fb =
     (case frames_init stbi_load frames_dir meta entries frames_initial of
        (fr, n_frames) \<Rightarrow>
          (let frame_mode = (n_frames > 0 \<and> timer_ok);
               sp = \<lparr>sp_fb = fb, sp_frames = fr, sp_frame_mode = frame_mode, sp_last_pct = - 1, sp_last_msg = [],
                     sp_ipc = [], sp_pipe = [], sp_running = True\<rparr>
           in if frame_mode then load_next_frame stbi_load md sp
              else map_option (\<lambda>fb'. sp\<lparr>sp_fb := fb'\<rparr>) (draw_static md font ''Awaiting instructions...'' 0 fb)))"

text \<open>An event: the signal read, a tick of the timer, data in the pipe with what has newly arrived.\<close>

datatype splash_event = SpSignal "int option" | SpTick | SpPipe "string list"

definition splash_step ::
  "(string \<Rightarrow> image option) \<Rightarrow> font \<Rightarrow> fb_mode \<Rightarrow> int \<Rightarrow> splash_event \<Rightarrow> splash \<Rightarrow> splash option" where
  "splash_step stbi_load font md pipe_fd ev sp =
     (case ev of
        SpSignal signo \<Rightarrow> Some (if signo = Some 15 \<or> signo = Some 2 then sp\<lparr>sp_running := False\<rparr> else sp)
      | SpTick \<Rightarrow>
          if \<not> sp_frame_mode sp then Some sp
          else
            (case load_next_frame stbi_load md sp of
               None \<Rightarrow> None
             | Some sp1 \<Rightarrow>
                 if sp_last_pct sp1 \<ge> 0
                 then map_option (\<lambda>fb. sp1\<lparr>sp_fb := fb\<rparr>)
                        (render_overlay_progress md font (sp_last_msg sp1) (sp_last_pct sp1) (sp_fb sp1))
                 else Some sp1)
      | SpPipe arrived \<Rightarrow>
          (case ipc_drain pipe_fd (sp_pipe sp @ arrived) (sp_ipc sp) of
             (evs, waiting, buffer) \<Rightarrow>
               (let sp1 = sp\<lparr>sp_ipc := buffer, sp_pipe := waiting,
                            sp_last_msg := (if evs = [] then sp_last_msg sp else bounded_copy MAX_IPC_MSG (fst (last evs))),
                            sp_last_pct := (if evs = [] then sp_last_pct sp else snd (last evs))\<rparr>
                in if sp_frame_mode sp1 then Some sp1
                   else map_option (\<lambda>fb. sp1\<lparr>sp_fb := fb\<rparr>)
                          (draw_static md font (sp_last_msg sp1) (sp_last_pct sp1) (sp_fb sp1)))))"

section \<open>The whole program\<close>

text \<open>
  The events come in batches of one \<open>epoll_wait\<close>; a batch is finished also when it stops the loop. The end
  of the list is a failing \<open>epoll_wait\<close>.
\<close>

fun splash_loop ::
  "(string \<Rightarrow> image option) \<Rightarrow> font \<Rightarrow> fb_mode \<Rightarrow> int \<Rightarrow> splash_event list list \<Rightarrow> splash \<Rightarrow> splash option" where
  "splash_loop stbi_load font md pipe_fd [] sp = Some sp"
| "splash_loop stbi_load font md pipe_fd (batch # batches) sp =
     (if \<not> sp_running sp then Some sp
      else
        (case for_each (splash_step stbi_load font md pipe_fd) batch sp of
           None \<Rightarrow> None
         | Some sp1 \<Rightarrow> splash_loop stbi_load font md pipe_fd batches sp1))"

text \<open>
  What the system answers: the frame buffer, whether the epoll and signal descriptors and the timer can be
  created, the files of the frames, the events, and whether the memory for the fade is there.
\<close>

record splash_sys =
  sy_render :: render_io
  sy_epoll_ok :: bool
  sy_signals_ok :: bool
  sy_timer_ok :: bool
  sy_meta :: "string \<Rightarrow> string option"
  sy_entries :: "string \<Rightarrow> string list option"
  sy_events :: "splash_event list list"
  sy_malloc_ok :: bool

text \<open>
  \<open>None\<close> is an access outside the memory or an overflow; else the frame buffer as the program leaves it, if
  it could be opened.
\<close>

definition splash_main ::
  "(string \<Rightarrow> image option) \<Rightarrow> font \<Rightarrow> string list \<Rightarrow> splash_sys \<Rightarrow> splash_fb option option" where
  "splash_main stbi_load font argv sys =
     (case splash_args argv of
        (pipe_fd, frames_dir) \<Rightarrow>
          (case render_init (sy_render sys) of
             None \<Rightarrow> Some None
           | Some (md, fb) \<Rightarrow>
               if \<not> sy_epoll_ok sys \<or> \<not> sy_signals_ok sys then Some (Some fb)
               else
                 (case splash_begin stbi_load font md frames_dir (sy_meta sys frames_dir) (sy_entries sys frames_dir)
                         (sy_timer_ok sys) fb of
                    None \<Rightarrow> None
                  | Some sp \<Rightarrow>
                      (case splash_loop stbi_load font md pipe_fd (sy_events sys) sp of
                         None \<Rightarrow> None
                       | Some sp' \<Rightarrow> map_option Some (render_fade_out (sy_malloc_ok sys) md (sp_fb sp'))))))"

end
