(* ===== verification/Luna_Splash_Inv.thy ===== *)
theory Luna_Splash_Inv
  imports Luna_Splash
begin

text \<open>
  What holds of the splash program: it stays inside the frame buffer and the frames from start to fade, the
  progress bar shows the percentage, and the fade ends in black. Its loops over pixels, parts of a
  picture, the darkened band and the copy of a frame are instances of the locale \<open>safe_loop\<close>.
\<close>

section \<open>Nothing is drawn outside the frame buffer\<close>

text \<open>
  What the driver has to report, and the memory that goes with it: rows fit into their line, the visible
  lines into the buffer, and offsets into an \<open>int\<close>.
\<close>

definition mode_ok :: "fb_mode \<Rightarrow> bool" where
  "mode_ok md \<longleftrightarrow>
     0 < fm_xres md \<and> fm_xres md < 2 ^ 24 \<and> 0 < fm_yres md \<and> fm_yres md < 2 ^ 24 \<and>
     fm_yres md \<le> fm_yres_virtual md \<and> 0 < fm_line_length md \<and>
     fm_yres_virtual md * fm_line_length md < 2 ^ 31 \<and> 8 \<le> fm_bits_per_pixel md \<and>
     (\<forall>bpp \<in> {16, 24, 32}. fm_bits_per_pixel md = bpp \<longrightarrow> fm_xres md * (bpp div 8) \<le> fm_line_length md)"

definition fb_ok :: "fb_mode \<Rightarrow> splash_fb \<Rightarrow> bool" where
  "fb_ok md st \<longleftrightarrow> mode_ok md \<and> length (fb_mem st) = screensize md \<and>
     (\<forall>s. shadow_fb st = Some s \<longrightarrow> length s = screensize md)"

lemma mode_line:
  assumes "mode_ok md" shows "fm_line_length md < 2 ^ 31"
proof -
  have "fm_line_length md \<le> fm_yres_virtual md * fm_line_length md"
    using assms by (auto simp: mode_ok_def mult_le_cancel_right1)
  also have "\<dots> < 2 ^ 31" using assms by (simp add: mode_ok_def)
  finally show ?thesis .
qed

lemma mode_sizes:
  assumes "mode_ok md"
  shows "screen_w md = fm_xres md" "screen_h md = fm_yres md" "line_length md = fm_line_length md"
    "int (screensize md) = fm_yres_virtual md * fm_line_length md"
proof -
  have y: "0 < fm_yres_virtual md" using assms by (auto simp: mode_ok_def)
  note l = mode_line [OF assms]
  show "screen_w md = fm_xres md" "screen_h md = fm_yres md" "line_length md = fm_line_length md"
    using assms l by (auto simp: mode_ok_def screen_w_def screen_h_def line_length_def in_int32_def intro!: to_int32_id)
  show "int (screensize md) = fm_yres_virtual md * fm_line_length md"
    using assms y by (simp add: screensize_def mode_ok_def)
qed

lemma write_both_ok:
  assumes "fb_ok md st" "off + length bs \<le> screensize md"
  shows "\<exists>st'. write_both off bs st = Some st' \<and> fb_ok md st'"
proof -
  obtain m where m: "memcpy (fb_mem st) off bs 0 (length bs) = Some m" "length m = screensize md"
    using assms by (auto simp: memcpy_def fb_ok_def)
  show ?thesis
  proof (cases "shadow_fb st")
    case None
    with m assms(1) show ?thesis by (auto simp: write_both_def fb_ok_def)
  next
    case (Some s)
    then obtain s' where "memcpy s off bs 0 (length bs) = Some s'" "length s' = screensize md"
      using assms by (auto simp: memcpy_def fb_ok_def)
    with Some m assms(1) show ?thesis by (auto simp: write_both_def fb_ok_def)
  qed
qed

text \<open>A row of pixels of \<open>k\<close> bytes lies inside the buffer.\<close>

lemma pixel_end:
  assumes "mode_ok md" "0 \<le> x" "x < fm_xres md" "0 \<le> y" "y < fm_yres md" "fm_xres md * k \<le> fm_line_length md" "0 < k"
  shows "y * fm_line_length md + x * k + k \<le> int (screensize md)"
    and "0 \<le> y * fm_line_length md" "in_int32 (y * fm_line_length md)"
proof -
  have "(x + 1) * k \<le> fm_xres md * k" using assms(3,7) by (intro mult_right_mono) auto
  then have "x * k + k \<le> fm_line_length md" using assms(6) by (simp add: algebra_simps)
  moreover have "(y + 1) * fm_line_length md \<le> fm_yres_virtual md * fm_line_length md"
    using assms(1,5) by (intro mult_right_mono) (auto simp: mode_ok_def)
  ultimately show e: "y * fm_line_length md + x * k + k \<le> int (screensize md)"
    unfolding mode_sizes(4) [OF assms(1)] by (simp add: algebra_simps)
  show n: "0 \<le> y * fm_line_length md" using assms by (auto simp: mode_ok_def)
  have "0 \<le> x * k" using assms(2,7) by simp
  then have "y * fm_line_length md < 2 ^ 31"
    using e assms(1,7) mode_sizes(4) [OF assms(1)] by (simp add: mode_ok_def)
  with n show "in_int32 (y * fm_line_length md)" by (simp add: in_int32_def)
qed

lemma scaled_offset:
  assumes "0 \<le> a" "0 \<le> x" "0 < k" "a + x * k + k \<le> int n"
  shows "nat (a div k + x) * nat k + nat k \<le> n"
proof -
  have "0 \<le> a div k" using assms(1,3) by (simp add: pos_imp_zdiv_nonneg_iff)
  then have "int (nat (a div k + x) * nat k + nat k) = (a div k) * k + x * k + k"
    using assms(2,3) by (simp add: algebra_simps)
  also have "\<dots> \<le> a + x * k + k" using assms(3) by (simp add: minus_mod_eq_div_mult [symmetric])
  finally show ?thesis using assms(4) by linarith
qed

lemma put_pixel_ok:
  assumes "fb_ok md st" shows "\<exists>st'. put_pixel md color q st = Some st' \<and> fb_ok md st'"
proof -
  obtain x y where q: "q = (x, y)" by (cases q)
  have md: "mode_ok md" using assms by (simp add: fb_ok_def)
  note sz = mode_sizes [OF md]
  show ?thesis
  proof (cases "x < 0 \<or> x \<ge> fm_xres md \<or> y < 0 \<or> y \<ge> fm_yres md \<or> fm_bits_per_pixel md \<notin> {32, 16, 24}")
    case True
    with assms q sz show ?thesis by (auto simp: put_pixel_def)
  next
    case False
    define k where "k = fm_bits_per_pixel md div 8"
    have k: "k \<in> {2, 3, 4}" "fm_xres md * k \<le> fm_line_length md" "0 < k"
      using False md by (auto simp: k_def mode_ok_def)
    note e = pixel_end [OF md _ _ _ _ k(2,3), of x y]
    let ?a = "y * fm_line_length md"
    have a: "0 \<le> ?a" "in_int32 ?a" and e: "?a + x * k + k \<le> int (screensize md)" using e False by auto
    have "nat (?a div k + x) * nat k + nat k \<le> screensize md"
      using scaled_offset [OF a(1) _ k(3) e] False by simp
    then have "k = 4 \<Longrightarrow> nat (?a div 4 + x) * 4 + 4 \<le> screensize md"
      "k = 2 \<Longrightarrow> nat (?a div 2 + x) * 2 + 2 \<le> screensize md" by auto
    moreover have "nat (?a + x * 3) + 3 \<le> screensize md" if "k = 3"
      using e [unfolded that] a(1) False by linarith
    ultimately show ?thesis
      using False a k(1) q sz assms
      by (auto simp: put_pixel_def Let_def k_def color24_def length_write_le intro!: write_both_ok)
  qed
qed

interpretation pixels: safe_loop "fb_ok md" "\<lambda>q. True" "put_pixel md color" for md color
  by unfold_locales (rule put_pixel_ok)

lemma draw_pixels_ok: "fb_ok md st \<Longrightarrow> \<exists>st'. draw_pixels md color ps st = Some st' \<and> fb_ok md st'"
  unfolding draw_pixels_def by (rule pixels.all_ok) (simp_all add: list_all_iff)

interpretation parts: safe_loop "fb_ok md" "\<lambda>p. True" "\<lambda>(color, ps). draw_pixels md color ps" for md
  by unfold_locales (auto intro: draw_pixels_ok)

lemma draw_all_ok: "fb_ok md st \<Longrightarrow> \<exists>st'. draw_all md ps st = Some st' \<and> fb_ok md st'"
  unfolding draw_all_def by (rule parts.all_ok) (simp_all add: list_all_iff)

lemma render_clear_ok: "fb_ok md st \<Longrightarrow> \<exists>st'. render_clear md color st = Some st' \<and> fb_ok md st'"
  using draw_pixels_ok [of md st]
  by (auto simp: render_clear_def memset_zero_def fb_ok_def split: option.splits)

lemma render_progress_ok:
  assumes "fb_ok md st" "- 1 \<le> percent" "percent \<le> 100"
  shows "\<exists>st'. render_progress md font msg percent st = Some st' \<and> fb_ok md st'"
proof -
  have "in_int32 (400 * percent)" using assms(2,3) by (auto simp: in_int32_def)
  then show ?thesis using draw_all_ok [OF assms(1)] by (simp add: render_progress_def Let_def)
qed

lemma draw_static_ok:
  assumes "fb_ok md st" "- 1 \<le> percent" "percent \<le> 100"
  shows "\<exists>st'. draw_static md font msg percent st = Some st' \<and> fb_ok md st'"
proof -
  obtain st1 where 1: "render_clear md COLOR_BG st = Some st1" "fb_ok md st1" using render_clear_ok [OF assms(1)] by blast
  obtain st2 where 2: "render_logo md font st1 = Some st2" "fb_ok md st2"
    using draw_all_ok [OF 1(2)] by (auto simp: render_logo_def)
  from render_progress_ok [OF 2(2) assms(2,3)] 1 2 show ?thesis by (simp add: draw_static_def)
qed

lemma c_div_nonneg: "0 \<le> a \<Longrightarrow> 0 < b \<Longrightarrow> c_div a b = a div b"
  by (simp add: c_div_def)

lemma darken_pixel_ok:
  assumes "fb_ok md st \<and> fm_bits_per_pixel md = 32" "case q of (x, y) \<Rightarrow> 0 \<le> x \<and> x < fm_xres md \<and> 0 \<le> y \<and> y < fm_yres md"
  shows "\<exists>st'. darken_pixel md q st = Some st' \<and> fb_ok md st' \<and> fm_bits_per_pixel md = 32"
proof -
  obtain x y where q: "q = (x, y)" by (cases q)
  have md: "mode_ok md" using assms(1) by (simp add: fb_ok_def)
  have xy: "0 \<le> x" "x < fm_xres md" "0 \<le> y" "y < fm_yres md" using assms(2) q by auto
  have k: "fm_xres md * 4 \<le> fm_line_length md" "0 \<le> fm_line_length md" using md assms(1) by (auto simp: mode_ok_def)
  let ?a = "y * (fm_line_length md div 4) + x"
  have "y * (fm_line_length md div 4 * 4) \<le> y * fm_line_length md"
    using xy(3) by (intro mult_left_mono) (simp_all add: minus_mod_eq_div_mult [symmetric])
  then have "?a * 4 + 4 \<le> y * fm_line_length md + x * 4 + 4" by (simp add: algebra_simps)
  also have "\<dots> \<le> int (screensize md)" using pixel_end(1) [OF md xy k(1)] by simp
  finally have e: "?a * 4 + 4 \<le> int (screensize md)" .
  have a0: "0 \<le> ?a" using xy k by simp
  have "int (screensize md) < 2 ^ 31" using mode_sizes(4) [OF md] md by (simp add: mode_ok_def)
  with e a0 have a32: "in_int32 ?a" by (simp add: in_int32_def)
  have "nat b * 4 + 4 \<le> m" if "b * 4 + 4 \<le> int m" "0 \<le> b" for b m using that by linarith
  from this [OF e a0] have n: "nat ?a * 4 + 4 \<le> screensize md" .
  then obtain c where c: "lgp_read_u32_le (fb_mem st) (nat ?a * 4) = Some c"
    using assms(1) by (auto simp: lgp_read_u32_le_def fb_ok_def)
  have "\<exists>st'. write_both (nat ?a * 4) (lgp_write_u32_le (darken c)) st = Some st' \<and> fb_ok md st'"
    using assms(1) n by (intro write_both_ok) (simp_all add: length_write_le)
  then show ?thesis
    using a0 a32 c q k assms(1) mode_sizes(3) [OF md] by (simp add: darken_pixel_def Let_def c_div_nonneg)
qed

interpretation band: safe_loop "\<lambda>st. fb_ok md st \<and> fm_bits_per_pixel md = 32"
  "\<lambda>(x, y). 0 \<le> x \<and> x < fm_xres md \<and> 0 \<le> y \<and> y < fm_yres md" "darken_pixel md" for md
  by unfold_locales (rule darken_pixel_ok)

lemma rect_points_inside: "q \<in> set (rect_points x0 x1 y0 y1) \<longleftrightarrow> (case q of (x, y) \<Rightarrow> x0 \<le> x \<and> x < x1 \<and> y0 \<le> y \<and> y < y1)"
  by (cases q) (force simp: rect_points_def)

lemma render_overlay_ok:
  assumes "fb_ok md st" "0 \<le> percent" "percent \<le> 100"
  shows "\<exists>st'. render_overlay_progress md font msg percent st = Some st' \<and> fb_ok md st'"
proof (cases "fm_bits_per_pixel md = 32")
  case True
  have md: "mode_ok md" using assms(1) by (simp add: fb_ok_def)
  note sz = mode_sizes [OF md]
  let ?w = "fm_xres md" and ?h = "fm_yres md"
  have r: "0 < ?w" "?w < 2 ^ 24" "0 < ?h" "?h < 2 ^ 24" using md by (simp_all add: mode_ok_def)
  let ?bw = "?w * 60 div 100" and ?by = "?h * 85 div 100"
  have bw: "0 \<le> ?bw" "?bw < 2 ^ 24" using r by auto
  have "?bw * percent \<le> ?bw * 100" using bw assms(3) by (intro mult_left_mono) auto
  with bw have "0 \<le> ?bw * percent" "?bw * percent < 2 ^ 31" using assms(2) by auto
  then have i: "in_int32 (?h * 85)" "in_int32 (?w * 60)" "in_int32 (?bw * percent)"
    using r by (auto simp: in_int32_def)
  have "list_all (\<lambda>(x, y). 0 \<le> x \<and> x < ?w \<and> 0 \<le> y \<and> y < ?h) (rect_points 0 ?w ?by ?h)"
    using r by (auto simp: list_all_iff rect_points_inside)
  from band.all_ok [OF _ this, of st] assms(1) True obtain st1 where st1:
    "for_each (darken_pixel md) (rect_points 0 ?w ?by ?h) st = Some st1" "fb_ok md st1" by auto
  show ?thesis
    using draw_all_ok [OF st1(2)] st1(1) i r True
    by (simp add: render_overlay_progress_def Let_def sz c_div_nonneg)
qed (use assms(1) in \<open>simp add: render_overlay_progress_def\<close>)

section \<open>Frames are copied inside the frame buffer\<close>

definition decoder_ok :: "(string \<Rightarrow> image option) \<Rightarrow> bool" where
  "decoder_ok stbi_load \<longleftrightarrow>
     (\<forall>path w h px. stbi_load path = Some (w, h, px) \<longrightarrow> 0 < w \<and> 0 < h \<and> length px = nat w * nat h * 3)"

interpretation blits: safe_loop "\<lambda>mem. length mem = n"
  "\<lambda>(col, row). row * img_w * 3 + col * 3 + 2 < length pixels \<and> ((y_off + row) * fb_stride + x_off + col) * 4 + 4 \<le> n"
  "blit_pixel img_w fb_stride x_off y_off pixels" for n img_w pixels y_off fb_stride x_off
  by unfold_locales (auto simp: blit_pixel_def memcpy_def Let_def length_write_le)

lemma index_in_rows: "c < w \<Longrightarrow> r < h \<Longrightarrow> r * w + c < w * h" for c w r h :: nat
proof -
  assume "c < w" "r < h"
  then have "Suc r * w \<le> h * w" by (intro mult_le_mono1) simp
  with \<open>c < w\<close> show ?thesis by (simp add: mult.commute)
qed

lemma words_size_nat:
  assumes "0 \<le> a" "a < 2 ^ 31" "0 \<le> b" "b < 2 ^ 31" shows "words_size a b = nat a * nat b * 4"
proof -
  have "a * b \<le> (2 ^ 31 - 1) * (2 ^ 31 - 1)" using assms by (intro mult_mono) auto
  then show ?thesis using assms by (simp add: words_size_def nat_mult_distrib)
qed

lemma frames_load_next_ok:
  assumes "decoder_ok stbi_load" "0 < fb_w" "fb_w \<le> fb_stride" "0 < fb_h" "nat fb_h * nat fb_stride * 4 \<le> length mem"
    and "fb_h < 2 ^ 31" "fb_stride < 2 ^ 31"
  shows "\<exists>res fr' mem'. frames_load_next stbi_load fb_w fb_h fb_stride fr mem = Some (res, fr', mem') \<and>
           length mem' = length mem \<and> s_frame_paths fr' = s_frame_paths fr"
proof (cases "s_frame_paths fr = [] \<or> stbi_load (s_frame_paths fr ! s_frame_index fr) = None")
  case True
  then show ?thesis by (auto simp: frames_load_next_def Let_def)
next
  case False
  then obtain w h px where img: "stbi_load (s_frame_paths fr ! s_frame_index fr) = Some (w, h, px)"
    by (metis not_None_eq prod_cases3)
  with assms(1) have wh: "0 < w" "0 < h" "length px = nat w * nat h * 3" unfolding decoder_ok_def by blast+
  have ws: "words_size fb_h fb_stride = nat fb_h * nat fb_stride * 4" using assms by (intro words_size_nat) auto
  obtain m1 where m1: "(if s_bg_cleared fr then Some mem else memset_zero (words_size fb_h fb_stride) mem) = Some m1"
    "length m1 = length mem" using assms(5) by (cases "s_bg_cleared fr") (simp_all add: memset_zero_def ws)
  let ?dw = "min w fb_w" and ?dh = "min h fb_h"
  let ?xo = "c_div (fb_w - ?dw) 2" and ?yo = "c_div (fb_h - ?dh) 2"
  have off: "0 \<le> ?xo" "?xo + ?dw \<le> fb_w" "0 \<le> ?yo" "?yo + ?dh \<le> fb_h" by (auto simp: c_div_nonneg)
  have "list_all (\<lambda>(col, row). row * nat w * 3 + col * 3 + 2 < length px \<and>
      ((nat ?yo + row) * nat fb_stride + nat ?xo + col) * 4 + 4 \<le> length mem) (blit_points (nat ?dw) (nat ?dh))"
    unfolding list_all_iff
  proof (intro ballI, clarify)
    fix col row assume "(col, row) \<in> set (blit_points (nat ?dw) (nat ?dh))"
    then have cr: "col < nat ?dw" "row < nat ?dh" by (auto simp: blit_points_def)
    then have "row * nat w + col < nat w * nat h" by (intro index_in_rows) auto
    then have 1: "row * nat w * 3 + col * 3 + 2 < length px" unfolding wh(3) by simp
    have "nat ?xo + col < nat fb_stride" "nat ?yo + row < nat fb_h" using cr off assms(3) by linarith+
    then have "(nat ?yo + row) * nat fb_stride + (nat ?xo + col) < nat fb_stride * nat fb_h" by (rule index_in_rows)
    then have "((nat ?yo + row) * nat fb_stride + nat ?xo + col) * 4 + 4 \<le> nat fb_h * nat fb_stride * 4"
      by (simp add: mult.commute)
    with 1 assms(5) show "row * nat w * 3 + col * 3 + 2 < length px \<and>
        ((nat ?yo + row) * nat fb_stride + nat ?xo + col) * 4 + 4 \<le> length mem" by linarith
  qed
  from blits.all_ok [OF m1(2) this] obtain m2 where
    "for_each (blit_pixel (nat w) (nat fb_stride) (nat ?xo) (nat ?yo) px) (blit_points (nat ?dw) (nat ?dh)) m1 = Some m2"
    "length m2 = length mem" by blast
  with img m1 False show ?thesis by (auto simp: frames_load_next_def Let_def)
qed

section \<open>The program stays inside the frame buffer\<close>

text \<open>Frames are only drawn with 32 bits per pixel; progress values are those luna-init sends.\<close>

definition splash_ok :: "fb_mode \<Rightarrow> splash \<Rightarrow> bool" where
  "splash_ok md sp \<longleftrightarrow> fb_ok md (sp_fb sp) \<and> (sp_frame_mode sp \<longrightarrow> fm_bits_per_pixel md = 32) \<and>
     - 1 \<le> sp_last_pct sp \<and> sp_last_pct sp \<le> 100"

lemma load_next_frame_ok:
  assumes "decoder_ok stbi_load" "splash_ok md sp" "fm_bits_per_pixel md = 32"
  shows "\<exists>sp'. load_next_frame stbi_load md sp = Some sp' \<and> splash_ok md sp' \<and> sp_last_pct sp' = sp_last_pct sp \<and>
           sp_ipc sp' = sp_ipc sp \<and> sp_pipe sp' = sp_pipe sp"
proof -
  have md: "mode_ok md" using assms(2) by (simp add: splash_ok_def fb_ok_def)
  note sz = mode_sizes [OF md]
  have r: "0 < fm_xres md" "0 < fm_yres md" "fm_xres md * 4 \<le> fm_line_length md" "fm_yres md \<le> fm_yres_virtual md"
    using md assms(3) by (auto simp: mode_ok_def)
  let ?s = "fm_line_length md div 4"
  have s: "render_get_stride md = ?s" using r by (simp add: render_get_stride_def sz c_div_nonneg)
  have "fm_yres md * (?s * 4) \<le> fm_yres_virtual md * fm_line_length md"
    using r by (intro mult_mono) (auto simp: minus_mod_eq_div_mult [symmetric])
  then have "int (nat (fm_yres md) * nat ?s * 4) \<le> int (screensize md)"
    unfolding sz(4) using r by (simp add: mult.assoc)
  then have "nat (fm_yres md) * nat ?s * 4 \<le> screensize md" by (simp only: of_nat_le_iff)
  then have "nat (fm_yres md) * nat ?s * 4 \<le> length (fb_mem (sp_fb sp))"
    using assms(2) by (simp add: splash_ok_def fb_ok_def)
  moreover have "fm_xres md \<le> ?s" using r by linarith
  moreover have "fm_yres md < 2 ^ 31" using md by (simp add: mode_ok_def)
  moreover have "?s < 2 ^ 31" using r mode_line [OF md] by linarith
  ultimately show ?thesis
    using frames_load_next_ok [OF assms(1) r(1) _ r(2), of ?s "fb_mem (sp_fb sp)" "sp_frames sp"] assms(2)
    by (auto simp: load_next_frame_def s sz splash_ok_def fb_ok_def)
qed

text \<open>Draining the pipe takes whole messages off the stream.\<close>

lemma drain_lines:
  assumes "b @ concat reads @ rest = concat (map update_line us)" "list_all update_ok us"
    and "\<forall>r \<in> set reads. r \<noteq> [] \<and> length r \<le> 63" "ipc_drain fd reads b = (evs, reads', b')"
  shows "\<exists>us'. us = evs @ us' \<and> b' @ concat reads' @ rest = concat (map update_line us') \<and> set reads' \<subseteq> set reads"
  using assms
proof (induction fd reads b arbitrary: us evs rule: ipc_drain.induct)
  case (1 fd reads b)
  obtain res rs b1 where e: "ipc_read_event fd reads b = (res, rs, b1)" by (metis prod_cases3)
  from read_event_lines [OF "1.prems"(1-3) e]
  obtain us1 where us1: "us = (case res of None \<Rightarrow> [] | Some ev \<Rightarrow> [ev]) @ us1"
    "b1 @ concat rs @ rest = concat (map update_line us1)" "set rs \<subseteq> set reads" by blast
  show ?case
  proof (cases res)
    case None
    with e "1.prems"(4) us1 show ?thesis by (auto simp: ipc_drain.simps [of fd reads b])
  next
    case (Some ev)
    obtain evs2 r2 b2 where d2: "ipc_drain fd rs b1 = (evs2, r2, b2)" by (metis prod_cases3)
    with e Some "1.prems"(4) have d: "evs = ev # evs2" "reads' = r2" "b' = b2"
      by (simp_all add: ipc_drain.simps [of fd reads b])
    have "\<exists>us'. us1 = evs2 @ us' \<and> b' @ concat reads' @ rest = concat (map update_line us') \<and> set reads' \<subseteq> set rs"
      using "1.IH" [OF e [symmetric] Some refl us1(2)] us1 Some "1.prems"(2,3) d2 d by auto
    with us1 Some d show ?thesis by auto
  qed
qed

text \<open>The bytes that events bring, and the state before and after one in terms of what is still to come.\<close>

fun arriving :: "splash_event \<Rightarrow> string list" where
  "arriving (SpPipe arrived) = arrived"
| "arriving _ = []"

definition percent_ok :: "string \<times> int \<Rightarrow> bool" where
  "percent_ok u \<longleftrightarrow> update_ok u \<and> 0 \<le> snd u \<and> snd u \<le> 100"

definition stream_ok :: "string list \<Rightarrow> splash \<Rightarrow> bool" where
  "stream_ok coming sp \<longleftrightarrow>
     (\<forall>r \<in> set (sp_pipe sp @ coming). r \<noteq> [] \<and> length r \<le> 63) \<and>
     (\<exists>us. list_all percent_ok us \<and> sp_ipc sp @ concat (sp_pipe sp) @ concat coming = concat (map update_line us))"

lemma splash_step_ok:
  assumes "decoder_ok stbi_load" "splash_ok md sp" "stream_ok (arriving ev @ coming) sp"
  shows "\<exists>sp'. splash_step stbi_load font md pipe_fd ev sp = Some sp' \<and> splash_ok md sp' \<and> stream_ok coming sp'"
proof (cases ev)
  case (SpSignal s)
  with assms show ?thesis by (simp add: splash_step_def splash_ok_def stream_ok_def)
next
  case SpTick
  show ?thesis
  proof (cases "sp_frame_mode sp")
    case True
    then have "fm_bits_per_pixel md = 32" using assms(2) by (simp add: splash_ok_def)
    from load_next_frame_ok [OF assms(1,2) this] obtain sp1 where
      sp1: "load_next_frame stbi_load md sp = Some sp1" "splash_ok md sp1"
      and io: "sp_ipc sp1 = sp_ipc sp" "sp_pipe sp1 = sp_pipe sp" by blast
    have s: "stream_ok coming sp1" using assms(3) SpTick by (simp add: stream_ok_def io)
    show ?thesis
    proof (cases "sp_last_pct sp1 \<ge> 0")
      case True
      with sp1(2) obtain fb where
        "render_overlay_progress md font (sp_last_msg sp1) (sp_last_pct sp1) (sp_fb sp1) = Some fb" "fb_ok md fb"
        using render_overlay_ok [of md "sp_fb sp1" "sp_last_pct sp1"] by (auto simp: splash_ok_def)
      with SpTick True sp1 s \<open>sp_frame_mode sp\<close> show ?thesis by (simp add: splash_step_def splash_ok_def stream_ok_def)
    qed (use SpTick True sp1 s in \<open>simp add: splash_step_def\<close>)
  qed (use SpTick assms(2,3) in \<open>simp add: splash_step_def stream_ok_def\<close>)
next
  case (SpPipe arrived)
  let ?reads = "sp_pipe sp @ arrived"
  obtain evs rs b where d: "ipc_drain pipe_fd ?reads (sp_ipc sp) = (evs, rs, b)" by (metis prod_cases3)
  obtain us where us: "list_all percent_ok us" "sp_ipc sp @ concat ?reads @ concat coming = concat (map update_line us)"
    and sz: "\<forall>r \<in> set (?reads @ coming). r \<noteq> [] \<and> length r \<le> 63"
    using assms(3) SpPipe by (auto simp: stream_ok_def)
  have uok: "list_all update_ok us" using us(1) by (auto simp: list_all_iff percent_ok_def)
  from drain_lines [OF us(2) uok _ d] sz obtain us' where us': "us = evs @ us'"
    "b @ concat rs @ concat coming = concat (map update_line us')" "set rs \<subseteq> set ?reads" by auto
  let ?pct = "if evs = [] then sp_last_pct sp else snd (last evs)"
  have "percent_ok (last evs)" if "evs \<noteq> []" using us(1) us'(1) last_in_set [OF that] by (auto simp: list_all_iff)
  then have p: "- 1 \<le> ?pct" "?pct \<le> 100" using assms(2) by (auto simp: splash_ok_def percent_ok_def)
  have fb: "fb_ok md (sp_fb sp)" using assms(2) by (simp add: splash_ok_def)
  have st: "stream_ok coming sp'" if "sp_ipc sp' = b" "sp_pipe sp' = rs" for sp'
    using us us' sz that by (auto simp: stream_ok_def)
  show ?thesis
  proof (cases "sp_frame_mode sp")
    case True
    with SpPipe d p assms(2) st show ?thesis by (simp add: splash_step_def splash_ok_def Let_def)
  next
    case False
    let ?msg = "if evs = [] then sp_last_msg sp else bounded_copy 256 (fst (last evs))"
    obtain fb where "draw_static md font ?msg ?pct (sp_fb sp) = Some fb" "fb_ok md fb"
      using draw_static_ok [OF fb p] by blast
    with SpPipe d p False st assms(2) show ?thesis by (simp add: splash_step_def splash_ok_def Let_def)
  qed
qed

lemma splash_run_ok:
  assumes "decoder_ok stbi_load" "splash_ok md sp" "stream_ok (concat (map arriving evs) @ coming) sp"
  shows "\<exists>sp'. for_each (splash_step stbi_load font md pipe_fd) evs sp = Some sp' \<and> splash_ok md sp' \<and>
           stream_ok coming sp'"
  using assms(2,3)
proof (induction evs arbitrary: sp)
  case (Cons ev evs)
  from Cons.prems(2) have "stream_ok (arriving ev @ concat (map arriving evs) @ coming) sp" by simp
  from splash_step_ok [OF assms(1) Cons.prems(1) this, where font=font and pipe_fd=pipe_fd] obtain sp1 where
    "splash_step stbi_load font md pipe_fd ev sp = Some sp1" "splash_ok md sp1"
    "stream_ok (concat (map arriving evs) @ coming) sp1" by blast
  with Cons.IH [of sp1] show ?case by simp
qed simp

section \<open>The fade ends in black\<close>

lemma fade_channel_unat: "unat (fade_channel v) = unat (v AND 0xFF) - 16"
  by (auto simp: fade_channel_def Let_def word_less_nat_alt unat_sub_if')

lemma channel_max: "unat (v AND 0xFF) \<le> 255" for v :: u32
  using word_and_le1 [of v "0xFF"] by (simp add: word_le_nat_alt)

lemma fade_channel_bits: "bit (fade_channel v) n \<Longrightarrow> n < 8"
proof -
  have "unat (fade_channel v) < 2 ^ 8" using channel_max [of v] by (simp add: fade_channel_unat)
  then have "take_bit 8 (fade_channel v) = fade_channel v"
    by (metis take_bit_nat_eq_self unsigned_take_bit_eq word_unat_eq_iff)
  then show "bit (fade_channel v) n \<Longrightarrow> n < 8" by (metis bit_take_bit_iff)
qed

lemma fade_pixel_channels:
  "drop_bit 16 (fade_pixel c) AND 0xFF = fade_channel (drop_bit 16 c)"
  "drop_bit 8 (fade_pixel c) AND 0xFF = fade_channel (drop_bit 8 c)"
  "fade_pixel c AND 0xFF = fade_channel c"
proof -
  have m: "(0xFF :: u32) = mask 8" by (simp add: mask_eq_exp_minus_1)
  note b = bit_simps fade_pixel_def
  show "drop_bit 16 (fade_pixel c) AND 0xFF = fade_channel (drop_bit 16 c)"
    unfolding m by (rule bit_word_eqI) (auto simp: b dest: fade_channel_bits)
  show "drop_bit 8 (fade_pixel c) AND 0xFF = fade_channel (drop_bit 8 c)"
    unfolding m by (rule bit_word_eqI) (auto simp: b dest: fade_channel_bits)
  show "fade_pixel c AND 0xFF = fade_channel c"
    unfolding m by (rule bit_word_eqI) (auto simp: b dest: fade_channel_bits)
qed

text \<open>How bright a pixel is, and that a step takes 16 away.\<close>

definition dimmer :: "nat \<Rightarrow> u32 \<Rightarrow> bool" where
  "dimmer n c \<longleftrightarrow> (\<forall>v \<in> {drop_bit 16 c AND 0xFF, drop_bit 8 c AND 0xFF, c AND 0xFF}. unat v \<le> n)"

lemma dimmer_fade: "dimmer n c \<Longrightarrow> dimmer (n - 16) (fade_pixel c)"
  unfolding dimmer_def fade_pixel_channels by (auto simp: fade_channel_unat)

lemma dimmer_start: "dimmer 255 c"
  using channel_max by (simp add: dimmer_def)

lemma dimmer_power: "dimmer (255 - 16 * k) ((fade_pixel ^^ k) c)"
proof (induction k)
  case 0
  show ?case by (simp add: dimmer_start)
next
  case (Suc k)
  from dimmer_fade [OF Suc] show ?case by simp
qed

lemma fade_black: "(fade_pixel ^^ 16) c = 0"
proof -
  let ?p = "(fade_pixel ^^ 15) c"
  have d: "dimmer 15 ?p" using dimmer_power [of 15 c] by simp
  then have "fade_channel (drop_bit 16 ?p) = 0" "fade_channel (drop_bit 8 ?p) = 0" "fade_channel ?p = 0"
    by (auto simp: dimmer_def word_unat_eq_iff fade_channel_unat)
  then have "fade_pixel ?p = 0" by (simp add: fade_pixel_def)
  moreover have "(fade_pixel ^^ 16) c = fade_pixel ?p" by (simp add: numeral_eq_Suc)
  ultimately show ?thesis by simp
qed

lemma length_pixels: "length (concat (map (\<lambda>c. lgp_write_u32_le (f c)) buf)) = 4 * length buf"
  by (induction buf) (simp_all add: length_write_le)

lemma fade_steps_result:
  assumes "4 * length buf \<le> length mem"
  shows "fade_steps (Suc k) buf mem =
    Some (concat (map (\<lambda>c. lgp_write_u32_le ((fade_pixel ^^ Suc k) c)) buf) @ drop (4 * length buf) mem)"
  using assms
proof (induction k arbitrary: buf mem)
  case 0
  then show ?case
    by (simp add: memcpy_def length_pixels Let_def comp_def)
next
  case (Suc k)
  let ?mem = "concat (map lgp_write_u32_le (map fade_pixel buf)) @ drop (4 * length buf) mem"
  have len: "length (concat (map lgp_write_u32_le (map fade_pixel buf))) = 4 * length buf"
    by (simp add: length_pixels comp_def)
  have "fade_steps (Suc (Suc k)) buf mem = fade_steps (Suc k) (map fade_pixel buf) ?mem"
    using Suc.prems len by (simp add: memcpy_def Let_def del: map_map fade_steps.simps add: fade_steps.simps(2) [of "Suc k"])
  also have "\<dots> = Some (concat (map (\<lambda>c. lgp_write_u32_le ((fade_pixel ^^ Suc k) c)) (map fade_pixel buf)) @
      drop (4 * length (map fade_pixel buf)) ?mem)"
    using Suc.prems len by (intro Suc.IH) simp
  finally show ?case using len by (simp add: comp_def funpow_swap1)
qed

lemma write_zeros: "concat (map (\<lambda>c. lgp_write_u32_le 0) buf) = replicate (4 * length buf) 0"
  by (induction buf) (simp_all add: lgp_write_u32_le_def replicate_add numeral_eq_Suc)

lemma fade_steps_black:
  "4 * length buf \<le> length mem \<Longrightarrow>
   fade_steps 16 buf mem = Some (replicate (4 * length buf) 0 @ drop (4 * length buf) mem)"
  using fade_steps_result [of buf mem 15] fade_black write_zeros [of buf] by (simp add: numeral_eq_Suc)

text \<open>The pixels the fade copies, and what it leaves.\<close>

lemma fade_size:
  assumes "mode_ok md" shows "4 * nat (fm_yres_virtual md * (fm_line_length md div 4)) \<le> screensize md"
proof -
  have "fm_yres_virtual md * (fm_line_length md div 4 * 4) \<le> fm_yres_virtual md * fm_line_length md"
    using assms by (intro mult_left_mono) (auto simp: mode_ok_def minus_mod_eq_div_mult [symmetric])
  then show ?thesis unfolding screensize_def by linarith
qed

lemma render_fade_out_result:
  assumes "fb_ok md st"
  shows "render_fade_out ok md st =
    Some (if fm_bits_per_pixel md = 32 \<and> ok
          then let n = 4 * nat (fm_yres_virtual md * (fm_line_length md div 4))
               in st\<lparr>fb_mem := replicate n 0 @ drop n (fb_mem st)\<rparr>
          else st)"
proof -
  have md: "mode_ok md" using assms by (simp add: fb_ok_def)
  have nz: "fm_bits_per_pixel md div 8 \<noteq> 0" using md unfolding mode_ok_def by linarith
  let ?n = "nat (fm_yres_virtual md * (fm_line_length md div 4))"
  note n = fade_size [OF md]
  show ?thesis
  proof (cases "fm_bits_per_pixel md = 32 \<and> ok")
    case True
    let ?src = "case shadow_fb st of Some s \<Rightarrow> s | None \<Rightarrow> fb_mem st"
    have "length ?src = screensize md" using assms by (auto simp: fb_ok_def split: option.splits)
    then obtain buf where "read_words ?src ?n = Some buf" "length buf = ?n" using n by (simp add: read_words_def)
    with True n assms fade_steps_black [of buf "fb_mem st"] show ?thesis
      by (simp add: render_fade_out_def Let_def fb_ok_def)
  qed (use nz in \<open>auto simp: render_fade_out_def\<close>)
qed

lemma render_fade_out_ok: "fb_ok md st \<Longrightarrow> \<exists>st'. render_fade_out ok md st = Some st' \<and> fb_ok md st'"
  using fade_size [of md] by (auto simp: render_fade_out_result Let_def fb_ok_def)

text \<open>
  With 32 bits per pixel and lines of whole pixels, the fade leaves every byte of the frame buffer 0,
  whatever was on the screen: sixteen steps are enough for each of the three colours.
\<close>

theorem fade_out_black:
  assumes "fb_ok md st" "fm_bits_per_pixel md = 32" "4 dvd fm_line_length md"
  shows "render_fade_out True md st = Some (st\<lparr>fb_mem := replicate (screensize md) 0\<rparr>)"
proof -
  have "4 * nat (fm_yres_virtual md * (fm_line_length md div 4)) = nat (fm_yres_virtual md * (fm_line_length md div 4 * 4))"
    using nat_mult_distrib [of 4 "fm_yres_virtual md * (fm_line_length md div 4)"] by (simp add: ac_simps)
  also have "\<dots> = screensize md" using assms(3) by (simp add: screensize_def)
  finally show ?thesis using assms by (simp add: render_fade_out_result Let_def fb_ok_def)
qed

theorem fade_out_black_witness:
  "render_fade_out True \<lparr>fm_xres = 1, fm_yres = 1, fm_yres_virtual = 2, fm_bits_per_pixel = 32, fm_line_length = 8\<rparr>
     \<lparr>fb_mem = replicate 16 255, shadow_fb = Some (replicate 16 200)\<rparr> =
   Some \<lparr>fb_mem = replicate 16 0, shadow_fb = Some (replicate 16 200)\<rparr>"
  using fade_out_black [of "\<lparr>fm_xres = 1, fm_yres = 1, fm_yres_virtual = 2, fm_bits_per_pixel = 32, fm_line_length = 8\<rparr>"
      "\<lparr>fb_mem = replicate 16 255, shadow_fb = Some (replicate 16 200)\<rparr>"]
  by (simp add: fb_ok_def mode_ok_def screensize_def)

section \<open>The whole run\<close>

text \<open>What the program relies on: the driver's numbers fit the mapping.\<close>

definition sys_ok :: "splash_sys \<Rightarrow> bool" where
  "sys_ok sys \<longleftrightarrow>
     mode_ok (ri_mode (sy_render sys)) \<and>
     (case ri_mmap (sy_render sys) of None \<Rightarrow> True | Some mem \<Rightarrow> length mem = screensize (ri_mode (sy_render sys)))"

definition no_frames :: "string list option \<Rightarrow> bool" where
  "no_frames entries \<longleftrightarrow> (case entries of None \<Rightarrow> True | Some names \<Rightarrow> filter frame_name names = [])"

lemma render_init_ok:
  "sys_ok sys \<Longrightarrow> render_init (sy_render sys) = Some (md, fb) \<Longrightarrow> md = ri_mode (sy_render sys) \<and> fb_ok md fb"
  by (auto simp: render_init_def sys_ok_def fb_ok_def split: if_splits option.splits)

lemma frames_init_none:
  "no_frames entries \<Longrightarrow> snd (frames_init stbi_load dir meta entries fr) = 0"
  by (auto simp: frames_init_def no_frames_def Let_def split: option.splits)

lemma splash_begin_ok:
  assumes "decoder_ok stbi_load" "fb_ok md fb"
    and "fm_bits_per_pixel md = 32 \<or> no_frames entries"
  shows "\<exists>sp. splash_begin stbi_load font md dir meta entries timer_ok fb = Some sp \<and> splash_ok md sp \<and>
           sp_ipc sp = [] \<and> sp_pipe sp = []"
proof -
  obtain fr n where i: "frames_init stbi_load dir meta entries frames_initial = (fr, n)" by (metis surj_pair)
  let ?mode = "n > 0 \<and> timer_ok"
  let ?sp = "\<lparr>sp_fb = fb, sp_frames = fr, sp_frame_mode = ?mode, sp_last_pct = - 1, sp_last_msg = [],
              sp_ipc = [], sp_pipe = [], sp_running = True\<rparr>"
  have b: "fm_bits_per_pixel md = 32" if "?mode"
    using assms(3) that i frames_init_none [of entries stbi_load dir meta frames_initial] by auto
  have ok: "splash_ok md ?sp" using b assms(2) by (simp add: splash_ok_def)
  show ?thesis
  proof (cases ?mode)
    case True
    with load_next_frame_ok [OF assms(1) ok b [OF True]] i show ?thesis by (auto simp: splash_begin_def)
  next
    case False
    obtain fb' where "draw_static md font ''Awaiting instructions...'' 0 fb = Some fb'" "fb_ok md fb'"
      using draw_static_ok [OF assms(2), of 0] by auto
    with False i show ?thesis by (auto simp: splash_begin_def splash_ok_def)
  qed
qed

lemma splash_loop_ok:
  assumes "decoder_ok stbi_load" "splash_ok md sp" "stream_ok (concat (map arriving (concat batches))) sp"
  shows "\<exists>sp'. splash_loop stbi_load font md pipe_fd batches sp = Some sp' \<and> splash_ok md sp'"
  using assms(2,3)
proof (induction batches arbitrary: sp)
  case (Cons batch batches)
  have "stream_ok (concat (map arriving batch) @ concat (map arriving (concat batches))) sp"
    using Cons.prems(2) by simp
  from splash_run_ok [OF assms(1) Cons.prems(1) this, where font=font and pipe_fd=pipe_fd] obtain sp1 where
    "for_each (splash_step stbi_load font md pipe_fd) batch sp = Some sp1" "splash_ok md sp1"
    "stream_ok (concat (map arriving (concat batches))) sp1" by blast
  with Cons.IH [of sp1] Cons.prems show ?case by auto
qed simp

text \<open>
  C31: started on a frame buffer whose numbers fit its mapping, and which has 32 bits per pixel unless the
  directory holds no frames (the code does not check this), with progress messages of luna-init (0 to 100
  percent) arriving in any pieces of at most 63 bytes, mixed with timer ticks and signals in any order, the splash
  program runs to its end, the fade included, without an access outside the frame buffer, its shadow or a frame and
  without an overflow.
\<close>

theorem splash_in_bounds:
  assumes "decoder_ok stbi_load" "sys_ok sys" "list_all percent_ok us"
    and bpp: "fm_bits_per_pixel (ri_mode (sy_render sys)) = 32 \<or> no_frames (sy_entries sys (snd (splash_args argv)))"
    and "concat (concat (map arriving (concat (sy_events sys)))) = concat (map update_line us)"
    and "\<forall>r \<in> set (concat (map arriving (concat (sy_events sys)))). r \<noteq> [] \<and> length r \<le> 63"
  shows "\<exists>res. splash_main stbi_load font argv sys = Some res \<and>
           (\<forall>fb. res = Some fb \<longrightarrow> fb_ok (ri_mode (sy_render sys)) fb)"
proof (cases "render_init (sy_render sys)")
  case None
  then show ?thesis by (simp add: splash_main_def split: prod.splits)
next
  case (Some p)
  obtain pipe_fd dir where a: "splash_args argv = (pipe_fd, dir)" by (metis surj_pair)
  obtain md fb where p: "p = (md, fb)" by (cases p)
  with render_init_ok [OF assms(2)] Some have md: "ri_mode (sy_render sys) = md" "fb_ok md fb" by auto
  obtain sp where sp: "splash_begin stbi_load font md dir (sy_meta sys dir) (sy_entries sys dir) (sy_timer_ok sys) fb = Some sp"
    "splash_ok md sp" "sp_ipc sp = []" "sp_pipe sp = []"
    using splash_begin_ok [OF assms(1) md(2)] bpp a md(1) by force
  have "stream_ok (concat (map arriving (concat (sy_events sys)))) sp"
    using assms(3,5,6) sp(3,4) by (auto simp: stream_ok_def)
  from splash_loop_ok [OF assms(1) sp(2) this] obtain sp' where
    sp': "splash_loop stbi_load font md pipe_fd (sy_events sys) sp = Some sp'" "splash_ok md sp'" by blast
  then have f: "fb_ok md (sp_fb sp')" by (simp add: splash_ok_def)
  obtain fb' where "render_fade_out (sy_malloc_ok sys) md (sp_fb sp') = Some fb'" "fb_ok md fb'"
    using render_fade_out_ok [OF f] by blast
  with a p Some md sp sp' show ?thesis by (simp add: splash_main_def)
qed

theorem splash_in_bounds_witness:
  "\<exists>res. splash_main (\<lambda>path. Some (1, 1, [1, 2, 3])) (\<lambda>c row. 0) [''--fd'', ''3'']
     \<lparr>sy_render = \<lparr>ri_open = True, ri_fscreeninfo = True, ri_vscreeninfo = True,
        ri_mode = \<lparr>fm_xres = 1, fm_yres = 1, fm_yres_virtual = 2, fm_bits_per_pixel = 32, fm_line_length = 8\<rparr>,
        ri_mmap = Some (replicate 16 7), ri_malloc = True\<rparr>,
      sy_epoll_ok = True, sy_signals_ok = True, sy_timer_ok = True, sy_meta = Map.empty,
      sy_entries = (\<lambda>dir. Some [''frame_0.png'', ''meta.txt'']),
      sy_events = [[SpTick, SpPipe [''20|Mou'', ''nt'' @ [LF]]], [SpTick], [SpSignal (Some 15)]], sy_malloc_ok = True\<rparr> = Some res \<and>
     (\<forall>fb. res = Some fb \<longrightarrow> fb_ok \<lparr>fm_xres = 1, fm_yres = 1, fm_yres_virtual = 2, fm_bits_per_pixel = 32, fm_line_length = 8\<rparr> fb)"
  (is "\<exists>res. splash_main ?load ?font ?argv ?sys = Some res \<and> _")
proof -
  have ok: "sys_ok ?sys" by (simp add: sys_ok_def mode_ok_def screensize_def)
  have us: "list_all percent_ok [(''Mount'', 20)]"
    by (simp add: percent_ok_def update_ok_def update_line_def in_int32_def show_int_def show_nat.simps)
  have "concat (concat (map arriving (concat (sy_events ?sys)))) = concat (map update_line [(''Mount'', 20)])"
    by (simp add: update_line_def show_int_def show_nat.simps char_of_def bit_0)
  from splash_in_bounds [OF _ ok us _ this, of ?load ?argv ?font] show ?thesis by (simp add: decoder_ok_def)
qed

section \<open>What the static picture shows\<close>

text \<open>
  A picture on the screen (for 32 bits per pixel and lines of whole pixels), and the shadow equal to it.
\<close>

definition true_colour :: "fb_mode \<Rightarrow> bool" where
  "true_colour md \<longleftrightarrow> fm_bits_per_pixel md = 32 \<and> 4 dvd fm_line_length md"

definition on_screen :: "fb_mode \<Rightarrow> pixmap \<Rightarrow> splash_fb \<Rightarrow> bool" where
  "on_screen md f st \<longleftrightarrow> fb_ok md st \<and> (shadow_fb st = None \<or> shadow_fb st = Some (fb_mem st)) \<and>
     canvas (nat (fm_xres md)) (nat (fm_yres md)) (nat (fm_line_length md)) (fb_mem st) f"

definition plot :: "u32 \<times> (int \<times> int) list \<Rightarrow> pixmap \<Rightarrow> pixmap" where
  "plot part f = (case part of (color, ps) \<Rightarrow> (\<lambda>(x, y). if (int x, int y) \<in> set ps then color else f (x, y)))"

lemma canvas_cong: "(\<And>x y. x < w \<Longrightarrow> y < h \<Longrightarrow> f (x, y) = g (x, y)) \<Longrightarrow> canvas w h p d f \<Longrightarrow> canvas w h p d g"
  by (simp add: canvas_def)

lemma pixel_offset32:
  assumes "true_colour md" "0 \<le> y" "0 \<le> x" "0 < fm_line_length md"
  shows "nat (y * fm_line_length md div 4 + x) * 4 = nat y * nat (fm_line_length md) + nat x * 4"
proof -
  obtain l where l: "fm_line_length md = 4 * l" using assms(1) by (auto simp: true_colour_def)
  with assms have "0 < l" by simp
  moreover have "y * fm_line_length md div 4 = y * l" by (simp add: l)
  moreover have "nat (y * l + x) = nat y * nat l + nat x" using assms(2,3) \<open>0 < l\<close>
    by (simp add: nat_add_distrib nat_mult_distrib)
  ultimately show ?thesis by (simp add: l nat_mult_distrib algebra_simps)
qed

lemma put_pixel_shows:
  assumes "true_colour md" "on_screen md f st"
  shows "\<exists>st'. put_pixel md color q st = Some st' \<and> on_screen md (plot (color, [q]) f) st'"
proof -
  obtain x y where q: "q = (x, y)" by (cases q)
  have fb: "fb_ok md st" "mode_ok md" using assms(2) by (auto simp: on_screen_def fb_ok_def)
  note sz = mode_sizes [OF fb(2)]
  have bpp: "fm_bits_per_pixel md = 32" using assms(1) by (simp add: true_colour_def)
  have line: "0 < fm_line_length md" "fm_xres md * 4 \<le> fm_line_length md" using fb(2) bpp by (auto simp: mode_ok_def)
  show ?thesis
  proof (cases "x < 0 \<or> x \<ge> fm_xres md \<or> y < 0 \<or> y \<ge> fm_yres md")
    case True
    have "on_screen md (plot (color, [q]) f) st"
      using assms(2) True q unfolding on_screen_def by (auto simp: plot_def elim!: canvas_cong [rotated])
    with True q sz show ?thesis by (auto simp: put_pixel_def)
  next
    case False
    have a: "\<not> y * fm_line_length md < 0" "in_int32 (y * fm_line_length md)"
      using pixel_end [OF fb(2) _ _ _ _ line(2), of x y] False by auto
    let ?o = "nat y * nat (fm_line_length md) + nat x * 4"
    have e: "put_pixel md color q st = write_both ?o (lgp_write_u32_le color) st"
      unfolding put_pixel_def q Let_def
      using False sz bpp a(2) pixel_offset32 [OF assms(1), of y x] line(1) by (simp add: a(1))
    have c: "canvas (nat (fm_xres md)) (nat (fm_yres md)) (nat (fm_line_length md)) (fb_mem st) f"
      using assms(2) by (simp add: on_screen_def)
    have "4 * nat (fm_xres md) \<le> nat (fm_line_length md)" using line by linarith
    then obtain m where m: "memcpy (fb_mem st) ?o (lgp_write_u32_le color) 0 4 = Some m"
      "canvas (nat (fm_xres md)) (nat (fm_yres md)) (nat (fm_line_length md)) m (f((nat x, nat y) := color))"
      "length m = length (fb_mem st)"
      using canvas_write [OF c, of "nat x" "nat y" color] False by auto
    have "canvas (nat (fm_xres md)) (nat (fm_yres md)) (nat (fm_line_length md)) m (plot (color, [q]) f)"
      using False q by (intro canvas_cong [OF _ m(2)]) (auto simp: plot_def)
    with m e assms(2) show ?thesis
      by (auto simp: write_both_def length_write_le on_screen_def fb_ok_def)
  qed
qed

lemma plot_Cons: "plot (color, q # ps) f = plot (color, ps) (plot (color, [q]) f)"
  by (auto simp: plot_def fun_eq_iff)

lemma draw_pixels_shows:
  assumes "true_colour md" "on_screen md f st"
  shows "\<exists>st'. draw_pixels md color ps st = Some st' \<and> on_screen md (plot (color, ps) f) st'"
  using assms(2)
proof (induction ps arbitrary: f st)
  case Nil
  then show ?case by (simp add: draw_pixels_def plot_def)
next
  case (Cons q ps)
  from put_pixel_shows [OF assms(1) Cons.prems] obtain st1 where
    "put_pixel md color q st = Some st1" "on_screen md (plot (color, [q]) f) st1" by blast
  with Cons.IH [of "plot (color, [q]) f" st1] show ?case by (simp add: draw_pixels_def plot_Cons [of color q ps])
qed

lemma draw_all_shows:
  assumes "true_colour md" "on_screen md f st"
  shows "\<exists>st'. draw_all md parts st = Some st' \<and> on_screen md (fold plot parts f) st'"
  using assms(2)
proof (induction parts arbitrary: f st)
  case Nil
  then show ?case by (simp add: draw_all_def)
next
  case (Cons part parts)
  obtain color ps where p: "part = (color, ps)" by (cases part)
  from draw_pixels_shows [OF assms(1) Cons.prems] obtain st1 where
    "draw_pixels md color ps st = Some st1" "on_screen md (plot (color, ps) f) st1" by blast
  with Cons.IH [of "plot (color, ps) f" st1] p show ?case by (simp add: draw_all_def)
qed

lemma render_clear_shows:
  assumes "true_colour md" "fb_ok md st"
  shows "\<exists>st'. render_clear md COLOR_BG st = Some st' \<and> on_screen md (\<lambda>q. 0) st'"
proof -
  have md: "mode_ok md" "fm_bits_per_pixel md = 32" using assms by (simp_all add: fb_ok_def true_colour_def)
  have m: "memset_zero (screensize md) (fb_mem st) = Some (replicate (screensize md) 0)"
    "shadow_fb st = Some s \<Longrightarrow> memset_zero (screensize md) s = Some (replicate (screensize md) 0)" for s
    using assms(2) by (simp_all add: memset_zero_def fb_ok_def)
  have r: "lgp_read_u32_le (replicate n 0) off = Some 0" if "off + 4 \<le> n" for n off
    using that by (simp add: lgp_read_u32_le_def)
  have "y * nat (fm_line_length md) + x * 4 + 4 \<le> screensize md" if "x < nat (fm_xres md)" "y < nat (fm_yres md)" for x y
  proof -
    have "int y * fm_line_length md + int x * 4 + 4 \<le> int (screensize md)"
      using pixel_end(1) [OF md(1), of "int x" "int y" 4] that md by (auto simp: mode_ok_def)
    moreover have "int (y * nat (fm_line_length md)) = int y * fm_line_length md" using md by (simp add: mode_ok_def)
    ultimately show ?thesis by linarith
  qed
  with r have "canvas (nat (fm_xres md)) (nat (fm_yres md)) (nat (fm_line_length md)) (replicate (screensize md) 0) (\<lambda>q. 0)"
    by (simp add: canvas_def)
  with m assms(2) md show ?thesis
    by (cases "shadow_fb st") (auto simp: render_clear_def on_screen_def fb_ok_def)
qed

text \<open>
  C36: in static mode, the picture drawn for a message shows the progress bar as it should: of its 400
  columns exactly the first four per percent are in the brand colour, the others in the colour of the bar,
  whatever was on the screen; and the shadow, from which the fade starts, equals the screen.
\<close>

theorem progress_bar_shown:
  assumes "true_colour md" "fb_ok md st" "0 \<le> percent" "percent \<le> 100"
  shows "\<exists>st' f. draw_static md font msg percent st = Some st' \<and> on_screen md f st' \<and>
    (\<forall>x < nat (fm_xres md). \<forall>y < nat (fm_yres md).
       let col = int x - c_div (fm_xres md - 400) 2; row = int y - (fm_yres md div 2 + 50)
       in 0 \<le> row \<and> row < 10 \<and> 0 \<le> col \<and> col < 400 \<longrightarrow>
          f (x, y) = (if col < 4 * percent then COLOR_BRAND else COLOR_BAR_BG))"
proof -
  have md: "mode_ok md" using assms(2) by (simp add: fb_ok_def)
  note sz = mode_sizes [OF md]
  have h: "c_div (fm_yres md) 2 = fm_yres md div 2" using md by (simp add: mode_ok_def c_div_nonneg)
  obtain st1 where 1: "render_clear md COLOR_BG st = Some st1" "on_screen md (\<lambda>q. 0) st1"
    using render_clear_shows [OF assms(1,2)] by blast
  obtain st2 f2 where 2: "render_logo md font st1 = Some st2" "on_screen md f2 st2"
    using draw_all_shows [OF assms(1) 1(2)] unfolding render_logo_def by blast
  have i: "in_int32 (400 * percent)" "c_div (400 * percent) 100 = 4 * percent"
    using assms(3,4) by (auto simp: in_int32_def c_div_nonneg)
  let ?bx = "c_div (fm_xres md - 400) 2" and ?by = "fm_yres md div 2 + 20 + 30"
  let ?bar = "[(COLOR_BAR_BG, rect_points ?bx (?bx + 400) ?by (?by + 10)),
               (COLOR_BRAND, rect_points ?bx (?bx + 4 * percent) ?by (?by + 10))]"
  obtain st3 f3 where 3: "render_progress md font msg percent st2 = Some st3" "on_screen md (fold plot ?bar f3) st3"
    using draw_all_shows [OF assms(1) 2(2)] i by (force simp: render_progress_def Let_def sz h)
  have "draw_static md font msg percent st = Some st3" using 1 2 3 by (simp add: draw_static_def)
  with 3(2) show ?thesis by (intro exI [of _ st3] exI [of _ "fold plot ?bar f3"])
      (auto simp: plot_def rect_points_inside Let_def)
qed

theorem progress_bar_shown_witness:
  "let md = \<lparr>fm_xres = 640, fm_yres = 480, fm_yres_virtual = 480, fm_bits_per_pixel = 32, fm_line_length = 2560\<rparr>;
       st = \<lparr>fb_mem = replicate 1228800 7, shadow_fb = None\<rparr>
   in \<exists>st' f. draw_static md (\<lambda>c row. 0) ''Mounting'' 20 st = Some st' \<and> on_screen md f st' \<and>
        f (199, 295) = COLOR_BRAND \<and> f (200, 295) = COLOR_BAR_BG"
proof -
  let ?md = "\<lparr>fm_xres = 640, fm_yres = 480, fm_yres_virtual = 480, fm_bits_per_pixel = 32, fm_line_length = 2560\<rparr>"
  let ?st = "\<lparr>fb_mem = replicate 1228800 7, shadow_fb = None\<rparr>"
  have "true_colour ?md" "fb_ok ?md ?st" by (simp_all add: true_colour_def fb_ok_def mode_ok_def screensize_def)
  from progress_bar_shown [OF this, of 20 "\<lambda>c row. 0" "''Mounting''"] obtain st' f where
    *: "draw_static ?md (\<lambda>c row. 0) ''Mounting'' 20 ?st = Some st'" "on_screen ?md f st'"
    and f: "\<forall>x < 640. \<forall>y < 480. let col = int x - 120; row = int y - 290
       in 0 \<le> row \<and> row < 10 \<and> 0 \<le> col \<and> col < 400 \<longrightarrow> f (x, y) = (if col < 80 then COLOR_BRAND else COLOR_BAR_BG)"
    by (auto simp: c_div_def Let_def)
  have "f (199, 295) = COLOR_BRAND" "f (200, 295) = COLOR_BAR_BG"
    using f [rule_format, of 199 295] f [rule_format, of 200 295] by (simp_all add: Let_def)
  with * show ?thesis by (auto simp: Let_def)
qed

section \<open>Frames with 16 bits per pixel\<close>

text \<open>
  The frames are stored as words of 32 bits at any depth: on a screen of 4 times 1 pixels with 16 bits each,
  the first frame of that size is written past the end of the memory.
\<close>

theorem frames_need_32bpp:
  "fb_ok \<lparr>fm_xres = 4, fm_yres = 1, fm_yres_virtual = 1, fm_bits_per_pixel = 16, fm_line_length = 8\<rparr>
     \<lparr>fb_mem = replicate 8 0, shadow_fb = None\<rparr>"
  "splash_begin (\<lambda>path. Some (4, 1, replicate 12 9)) (\<lambda>c row. 0)
     \<lparr>fm_xres = 4, fm_yres = 1, fm_yres_virtual = 1, fm_bits_per_pixel = 16, fm_line_length = 8\<rparr>
     ''d'' None (Some [''frame_0.png'']) True \<lparr>fb_mem = replicate 8 0, shadow_fb = None\<rparr> = None"
proof -
  show "fb_ok \<lparr>fm_xres = 4, fm_yres = 1, fm_yres_virtual = 1, fm_bits_per_pixel = 16, fm_line_length = 8\<rparr>
     \<lparr>fb_mem = replicate 8 0, shadow_fb = None\<rparr>" by (simp add: fb_ok_def mode_ok_def screensize_def)
  show "splash_begin (\<lambda>path. Some (4, 1, replicate 12 9)) (\<lambda>c row. 0)
     \<lparr>fm_xres = 4, fm_yres = 1, fm_yres_virtual = 1, fm_bits_per_pixel = 16, fm_line_length = 8\<rparr>
     ''d'' None (Some [''frame_0.png'']) True \<lparr>fb_mem = replicate 8 0, shadow_fb = None\<rparr> = None"
    by code_simp
qed

section \<open>The timer\<close>

text \<open>
  A timer accepts less than a second in nanoseconds, and 0 switches it off. So with one frame per second the
  call fails, which is not noticed, and the picture stands still.
\<close>

lemma frame_ns_valid:
  "0 < frame_ns fr \<and> frame_ns fr < 1000000000 \<longleftrightarrow> s_fps fr \<le> 0 \<or> 2 \<le> s_fps fr \<and> s_fps fr \<le> 1000000000"
proof (cases "s_fps fr \<le> 0")
  case True
  then show ?thesis by (simp add: frame_ns_def frames_get_fps_def c_div_nonneg)
next
  case False
  let ?f = "s_fps fr"
  have e: "frame_ns fr = 1000000000 div ?f" using False by (simp add: frame_ns_def frames_get_fps_def c_div_nonneg)
  have "0 < 1000000000 div ?f \<longleftrightarrow> ?f \<le> 1000000000" using False by (simp add: pos_imp_zdiv_pos_iff)
  moreover have "1000000000 div ?f < 1000000000 \<longleftrightarrow> 2 \<le> ?f"
  proof
    assume "1000000000 div ?f < 1000000000"
    then show "2 \<le> ?f" using False by (cases "?f = 1") auto
  qed (use int_div_less_self [of 1000000000 ?f] in simp)
  ultimately show ?thesis using False e by auto
qed

end
