(* ===== verification/Lgp_Client.thy ===== *)
theory Lgp_Client
  imports Lgp_Wire
begin

text \<open>
  The compositor's clients: \<open>ipc/client.c\<close>, the descriptor queue and the read path of \<open>main.c\<close>,
  the capability policy of \<open>protocol/caps.c\<close> and the handshake of \<open>protocol/hello.c\<close>. What the
  kernel answers to \<open>recvmsg\<close>, \<open>write\<close> and \<open>getsockopt\<close> is an argument. The operations return the
  descriptors they close, so that the ownership of descriptors can be stated. Log lines are not
  modelled.
\<close>

section \<open>Clients\<close>

text \<open>
  \<open>lgp_client_t\<close>. The address stands for the pointer the event loop holds; \<open>rx_buf\<close> is the filled
  part of the receive buffer, so \<open>rx_len\<close> is its length; likewise the pending descriptors.
\<close>

abbreviation (input) LGP_CLIENT_RX_BUFFER_SIZE :: nat where "LGP_CLIENT_RX_BUFFER_SIZE \<equiv> 4096"
abbreviation (input) LGP_CLIENT_MAX_PENDING_FDS :: nat where "LGP_CLIENT_MAX_PENDING_FDS \<equiv> 8"

record lgp_client =
  cl_addr :: nat
  cl_fd :: int
  cl_pid :: int
  cl_uid :: u32
  cl_gid :: u32
  session_id :: u32
  caps_granted :: u32
  hello_done :: bool
  rx_buf :: "u8 list"
  pending_fds :: "int list"

text \<open>
  \<open>lgp_client_create\<close>: \<open>mem\<close> is what \<open>calloc\<close> returned and \<open>cred\<close> what \<open>SO_PEERCRED\<close> reported.
\<close>

definition lgp_client_create :: "nat option \<Rightarrow> int \<Rightarrow> (int \<times> u32 \<times> u32) option \<Rightarrow> lgp_client option" where
  "lgp_client_create mem fd cred =
     (case mem of
        None \<Rightarrow> None
      | Some a \<Rightarrow>
          (let client = \<lparr>cl_addr = a, cl_fd = fd, cl_pid = - 1, cl_uid = - 1, cl_gid = - 1,
                         session_id = 0, caps_granted = 0, hello_done = False, rx_buf = [],
                         pending_fds = []\<rparr>
           in case cred of
                None \<Rightarrow> Some client
              | Some (pid, uid, gid) \<Rightarrow>
                  Some (client\<lparr>cl_pid := pid, cl_uid := uid, cl_gid := gid\<rparr>)))"

text \<open>\<open>lgp_client_destroy\<close>: the descriptors it closes.\<close>

definition lgp_client_destroy :: "lgp_client \<Rightarrow> int list" where
  "lgp_client_destroy client =
     (if 0 \<le> cl_fd client then [cl_fd client] else []) @ filter (\<lambda>fd. 0 \<le> fd) (pending_fds client)"

section \<open>Passed file descriptors\<close>

text \<open>Queueing returns the descriptors that were closed with the result.\<close>

definition lgp_client_queue_fd :: "lgp_client \<Rightarrow> int \<Rightarrow> lgp_client \<times> bool \<times> int list" where
  "lgp_client_queue_fd client fd =
     (if LGP_CLIENT_MAX_PENDING_FDS \<le> length (pending_fds client) then (client, False, [fd])
      else (client\<lparr>pending_fds := pending_fds client @ [fd]\<rparr>, True, []))"

definition lgp_client_take_fd :: "lgp_client \<Rightarrow> lgp_client \<times> int" where
  "lgp_client_take_fd client =
     (case pending_fds client of
        [] \<Rightarrow> (client, - 1)
      | fd # rest \<Rightarrow> (client\<lparr>pending_fds := rest\<rparr>, fd))"

text \<open>The loop over the descriptors of a message; it stops at the first that cannot be queued.\<close>

fun queue_received_fds :: "lgp_client \<Rightarrow> int list \<Rightarrow> lgp_client \<times> bool \<times> int list" where
  "queue_received_fds client [] = (client, True, [])"
| "queue_received_fds client (fd # fds) =
     (case lgp_client_queue_fd client fd of
        (c, False, closed) \<Rightarrow> (c, False, closed)
      | (c, True, closed) \<Rightarrow>
          (case queue_received_fds c fds of (c', ok, closed') \<Rightarrow> (c', ok, closed @ closed')))"

text \<open>
  What \<open>recvmsg\<close> answers: data with the \<open>MSG_CTRUNC\<close> flag and the descriptors of its
  \<open>SCM_RIGHTS\<close> messages, end of file, a transient error or another one. The kernel stores at most
  as many bytes as there is room for.
\<close>

datatype recv_answer = Received "u8 list" bool "int list" | RecvEof | RecvAgain | RecvFailed

definition lgp_client_read_available ::
    "recv_answer \<Rightarrow> lgp_client \<Rightarrow> lgp_client \<times> int \<times> int list" where
  "lgp_client_read_available answer client =
     (let available = LGP_CLIENT_RX_BUFFER_SIZE - length (rx_buf client) in
      if available = 0 then (client, - 1, [])
      else case answer of
        Received bytes ctrunc fds \<Rightarrow>
          if bytes = [] then (client, 0, [])
          else (let client1 = client\<lparr>rx_buf := rx_buf client @ take available bytes\<rparr> in
                if ctrunc then (client1, - 1, [])
                else case queue_received_fds client1 fds of
                       (client2, ok, closed) \<Rightarrow> (client2, if ok then 1 else - 1, closed))
      | RecvEof \<Rightarrow> (client, 0, [])
      | RecvAgain \<Rightarrow> (client, 1, [])
      | RecvFailed \<Rightarrow> (client, - 1, []))"

section \<open>Replies\<close>

text \<open>
  The answers of the kernel to the \<open>write\<close> calls of one \<open>lgp_write_all\<close>: a number of bytes
  accepted, \<open>EINTR\<close>, or another error. When the list is used up, the next call fails. The function
  returns its result and the bytes that reached the socket.
\<close>

datatype write_answer = Wrote nat | WriteInterrupted | WriteFailed

fun lgp_write_all :: "write_answer list \<Rightarrow> u8 list \<Rightarrow> bool \<times> u8 list" where
  "lgp_write_all [] buf = (buf = [], [])"
| "lgp_write_all (a # answers) buf =
     (if buf = [] then (True, [])
      else case a of
        WriteInterrupted \<Rightarrow> lgp_write_all answers buf
      | WriteFailed \<Rightarrow> (False, [])
      | Wrote n \<Rightarrow>
          if n = 0 then (False, [])
          else (case lgp_write_all answers (drop n buf) of
                  (ok, out) \<Rightarrow> (ok, take n buf @ out)))"

section \<open>Capabilities\<close>

abbreviation (input) LGP_CAP_CANVAS_SURFACE :: u32 where "LGP_CAP_CANVAS_SURFACE \<equiv> 0x02"
abbreviation (input) LGP_CAP_DIRECT_LGP :: u32 where "LGP_CAP_DIRECT_LGP \<equiv> 0x04"
abbreviation (input) LGP_CAP_LAYER_SHELL :: u32 where "LGP_CAP_LAYER_SHELL \<equiv> 0x08"
abbreviation (input) LGP_CAP_LUNA_ISLAND :: u32 where "LGP_CAP_LUNA_ISLAND \<equiv> 0x10"
abbreviation (input) LGP_CAP_CLIPBOARD :: u32 where "LGP_CAP_CLIPBOARD \<equiv> 0x40"
abbreviation (input) LGP_CAP_WINDOW_MANAGER :: u32 where "LGP_CAP_WINDOW_MANAGER \<equiv> 0x80"

definition lgp_caps_negotiate :: "lgp_client \<Rightarrow> u32 \<Rightarrow> u32" where
  "lgp_caps_negotiate client requested =
     (let granted = 0;
          granted = (if requested AND LGP_CAP_CANVAS_SURFACE \<noteq> 0
                     then granted OR LGP_CAP_CANVAS_SURFACE else granted);
          granted = (if requested AND LGP_CAP_DIRECT_LGP \<noteq> 0
                     then granted OR LGP_CAP_DIRECT_LGP else granted);
          granted = (if requested AND LGP_CAP_CLIPBOARD \<noteq> 0
                     then granted OR LGP_CAP_CLIPBOARD else granted)
      in if cl_uid client = 0
         then (let granted = (if requested AND LGP_CAP_LAYER_SHELL \<noteq> 0
                              then granted OR LGP_CAP_LAYER_SHELL else granted);
                   granted = (if requested AND LGP_CAP_LUNA_ISLAND \<noteq> 0
                              then granted OR LGP_CAP_LUNA_ISLAND else granted)
               in if requested AND LGP_CAP_WINDOW_MANAGER \<noteq> 0
                  then granted OR LGP_CAP_WINDOW_MANAGER else granted)
         else granted)"

text \<open>What a client may get at most: the masks the negotiation amounts to.\<close>

definition caps_allowed :: "u32 \<Rightarrow> u32" where
  "caps_allowed uid = (if uid = 0 then 0xDE else 0x46)"

section \<open>The handshake\<close>

text \<open>
  \<open>lgp_hello_handle\<close>: the client after it, the result and the bytes written; \<open>None\<close> for a read
  outside the payload.
\<close>

definition lgp_hello_handle ::
    "write_answer list \<Rightarrow> lgp_client \<Rightarrow> lgp_msg \<Rightarrow> (lgp_client \<times> bool \<times> u8 list) option" where
  "lgp_hello_handle answers client msg =
     (if m_length msg - 6 < 8 then Some (client, False, [])
      else do {
        version_major \<leftarrow> lgp_read_u16_le (m_payload msg) 0;
        version_minor \<leftarrow> lgp_read_u16_le (m_payload msg) 2;
        caps_requested \<leftarrow> lgp_read_u32_le (m_payload msg) 4;
        (if version_major \<noteq> 1 then Some (client, False, [])
         else (let granted = lgp_caps_negotiate client caps_requested;
                   client1 = client\<lparr>caps_granted := granted\<rparr>;
                   reply = lgp_frame LGP_MSG_HELLO_REPLY
                             (lgp_write_u16_le 1 @ lgp_write_u16_le 0 @ lgp_write_u32_le granted)
               in case lgp_write_all answers reply of
                    (False, out) \<Rightarrow> Some (client1, False, out)
                  | (True, out) \<Rightarrow> Some (client1\<lparr>hello_done := True\<rparr>, True, out)))
      })"

section \<open>Lemmas on capabilities\<close>

lemma grant_bit:
  "b = 2 ^ k \<Longrightarrow> (if r AND b \<noteq> 0 then g OR b else g) = g OR (r AND b)" for r g b :: u32
proof -
  assume b: "b = 2 ^ k"
  have "r AND b = (if bit r k then b else 0)"
    unfolding b by (rule bit_word_eqI) (auto simp: bit_simps)
  then show ?thesis by auto
qed

lemma grant_bits:
  "(if r AND 2 \<noteq> 0 then g OR 2 else g) = g OR (r AND 2)"
  "(if r AND 4 \<noteq> 0 then g OR 4 else g) = g OR (r AND 4)"
  "(if r AND 8 \<noteq> 0 then g OR 8 else g) = g OR (r AND 8)"
  "(if r AND 0x10 \<noteq> 0 then g OR 0x10 else g) = g OR (r AND 0x10)"
  "(if r AND 0x40 \<noteq> 0 then g OR 0x40 else g) = g OR (r AND 0x40)"
  "(if r AND 0x80 \<noteq> 0 then g OR 0x80 else g) = g OR (r AND 0x80)" for r g :: u32
  by (rule grant_bit [where k = 1] grant_bit [where k = 2] grant_bit [where k = 3]
      grant_bit [where k = 4] grant_bit [where k = 6] grant_bit [where k = 7], simp; fail)+

lemma caps_negotiate_mask: "lgp_caps_negotiate client r = r AND caps_allowed (cl_uid client)"
proof -
  have d: "(0 OR (r AND 2) OR (r AND 4) OR (r AND 0x40)) = r AND (0x46 :: u32)"
    by (simp flip: bit.conj_disj_distrib)
  have e: "((r AND (0x46 :: u32)) OR (r AND 8)) OR (r AND 0x10) OR (r AND 0x80) = r AND 0xDE"
    by (simp flip: bit.conj_disj_distrib)
  show ?thesis
    unfolding lgp_caps_negotiate_def Let_def caps_allowed_def grant_bits
    using d e by (simp add: or.assoc)
qed

lemma caps_allowed_privileged:
  "cap = LGP_CAP_LAYER_SHELL \<or> cap = LGP_CAP_LUNA_ISLAND \<or> cap = LGP_CAP_WINDOW_MANAGER \<Longrightarrow>
   (r AND caps_allowed uid) AND cap \<noteq> 0 \<Longrightarrow> uid = 0"
  by (auto simp: caps_allowed_def and.assoc split: if_splits)

section \<open>Lemmas on replies\<close>

lemma write_all_prefix:
  "lgp_write_all answers buf = (ok, out) \<Longrightarrow> (\<exists>rest. buf = out @ rest \<and> (ok \<longleftrightarrow> rest = []))"
proof (induction answers buf arbitrary: ok out rule: lgp_write_all.induct)
  case (1 buf)
  then show ?case by auto
next
  case (2 a answers buf)
  show ?case
  proof (cases "buf = []")
    case True
    with 2 show ?thesis by simp
  next
    case False
    show ?thesis
    proof (cases a)
      case (Wrote n)
      show ?thesis
      proof (cases "n = 0")
        case True
        with 2 False Wrote show ?thesis by simp
      next
        case n: False
        obtain ok' out' where w: "lgp_write_all answers (drop n buf) = (ok', out')"
          by fastforce
        with 2 False Wrote n obtain rest where "drop n buf = out' @ rest" "ok' \<longleftrightarrow> rest = []"
          by blast
        moreover from 2 False Wrote n w have "ok = ok'" "out = take n buf @ out'"
          by simp_all
        ultimately show ?thesis by (metis append.assoc append_take_drop_id)
      qed
    qed (use 2 False in auto)
  qed
qed

section \<open>Lemmas on passed descriptors\<close>

lemma queue_received_fds_result:
  assumes "length (pending_fds client) \<le> 8"
  shows "queue_received_fds client fds =
     (let room = 8 - length (pending_fds client) in
      (client\<lparr>pending_fds := pending_fds client @ take room fds\<rparr>,
       length fds \<le> room,
       take 1 (drop room fds)))"
  using assms
proof (induction fds arbitrary: client)
  case Nil
  then show ?case by simp
next
  case (Cons fd fds)
  show ?case
  proof (cases "8 \<le> length (pending_fds client)")
    case True
    with Cons.prems show ?thesis by (simp add: lgp_client_queue_fd_def Let_def)
  next
    case False
    let ?c = "client\<lparr>pending_fds := pending_fds client @ [fd]\<rparr>"
    have "length (pending_fds ?c) \<le> 8" using False by simp
    note IH = Cons.IH [OF this]
    have r: "8 - length (pending_fds client) = Suc (8 - length (pending_fds ?c))"
      using False by simp
    show ?thesis
      using False unfolding r by (simp add: lgp_client_queue_fd_def IH Let_def)
  qed
qed

text \<open>The descriptors of a delivery that end up neither queued nor closed.\<close>

definition leaked_fds :: "lgp_client \<Rightarrow> recv_answer \<Rightarrow> int list" where
  "leaked_fds client answer =
     (case answer of
        Received bytes ctrunc fds \<Rightarrow>
          (case lgp_client_read_available answer client of
             (client', st, closed) \<Rightarrow>
               drop (length (pending_fds client') - length (pending_fds client) + length closed) fds)
      | _ \<Rightarrow> [])"

section \<open>The client invariant\<close>

definition client_ok :: "lgp_client \<Rightarrow> bool" where
  "client_ok c \<longleftrightarrow>
     length (rx_buf c) \<le> LGP_CLIENT_RX_BUFFER_SIZE \<and>
     length (pending_fds c) \<le> LGP_CLIENT_MAX_PENDING_FDS \<and>
     caps_granted c AND caps_allowed (cl_uid c) = caps_granted c"

lemma client_create_ok: "lgp_client_create mem fd cred = Some c \<Longrightarrow> client_ok c"
  by (auto simp: lgp_client_create_def client_ok_def Let_def split: option.splits)

lemma read_available_ok:
  assumes "client_ok c" "lgp_client_read_available answer c = (c', st, closed)"
  shows "client_ok c'"
proof -
  have q: "length (pending_fds c) \<le> 8" using assms(1) by (simp add: client_ok_def)
  show ?thesis
    using assms q
    by (cases answer)
       (auto simp: lgp_client_read_available_def client_ok_def Let_def queue_received_fds_result
             split: if_splits)
qed

lemma take_fd_ok: "client_ok c \<Longrightarrow> lgp_client_take_fd c = (c', fd) \<Longrightarrow> client_ok c'"
  by (auto simp: lgp_client_take_fd_def client_ok_def split: list.splits)

lemma hello_handle_ok:
  assumes "client_ok c" "lgp_hello_handle answers c msg = Some (c', ok, out)"
  shows "client_ok c'"
proof -
  have a: "(r AND caps_allowed u) AND caps_allowed u = r AND caps_allowed u" for r u
    by (simp add: and.assoc)
  show ?thesis
    using assms a
    by (auto simp: lgp_hello_handle_def client_ok_def Let_def caps_negotiate_mask
             split: if_splits bind_splits prod.splits bool.splits)
qed

lemma read_u16_skip [simp]:
  "length pre \<le> off \<Longrightarrow> lgp_read_u16_le (pre @ p) off = lgp_read_u16_le p (off - length pre)"
  by (auto simp: lgp_read_u16_le_def nth_append Suc_diff_le)

lemma hello_handle_frame:
  fixes c :: lgp_client
  assumes "m_length msg = of_nat (14 + length extra)"
    "m_payload msg = lgp_write_u16_le major @ lgp_write_u16_le minor @ lgp_write_u32_le caps @ extra"
    "length extra < 4096"
  shows "lgp_hello_handle answers c msg =
     (if major \<noteq> 1 then Some (c, False, [])
      else let granted = caps AND caps_allowed (cl_uid c);
               w = lgp_write_all answers (lgp_frame LGP_MSG_HELLO_REPLY
                     (lgp_write_u16_le 1 @ lgp_write_u16_le 0 @ lgp_write_u32_le granted))
           in Some (c\<lparr>caps_granted := granted, hello_done := hello_done c \<or> fst w\<rparr>, fst w, snd w))"
proof -
  have "m_length msg - 6 = of_nat (8 + length extra)"
    using assms(1) by (simp add: algebra_simps)
  moreover have "unat (of_nat (8 + length extra) :: u32) = 8 + length extra"
    by (rule unat_of_nat_u32) (use assms(3) in simp)
  ultimately have "\<not> m_length msg - 6 < 8"
    unfolding word_less_nat_alt by simp
  then show ?thesis
    using assms(2)
    by (auto simp: lgp_hello_handle_def read_write_u16 read_write_u32 caps_negotiate_mask Let_def
             split: prod.splits bool.splits)
qed

text \<open>
  C19: the handshake. A \<open>HELLO\<close> frame of major version 1, followed by whatever a later minor
  version appends, is always parsed; the client keeps exactly the requested capabilities its user
  id allows. It counts as greeted exactly when the whole reply reached the socket, the reply then
  decodes to the version 1.0 and those capabilities, and otherwise a proper prefix of the reply was
  sent. Any other major version is refused with the client unchanged.
\<close>

theorem hello_handshake:
  assumes "\<not> hello_done c" "length extra < 4000"
    "lgp_tlv_decode (lgp_frame LGP_MSG_HELLO
       (lgp_write_u16_le major @ lgp_write_u16_le minor @ lgp_write_u32_le caps @ extra)) = Some msg"
  shows "\<exists>c' ok out. lgp_hello_handle answers c msg = Some (c', ok, out) \<and>
    (major \<noteq> 1 \<longrightarrow> c' = c \<and> \<not> ok \<and> out = []) \<and>
    (major = 1 \<longrightarrow>
       c' = c\<lparr>caps_granted := caps AND caps_allowed (cl_uid c), hello_done := ok\<rparr> \<and>
       (\<exists>rest m. lgp_tlv_decode (out @ rest) = Some m \<and> (ok \<longleftrightarrow> rest = []) \<and>
          m_type m = LGP_MSG_HELLO_REPLY \<and> m_length m = 14 \<and>
          m_payload m = lgp_write_u16_le 1 @ lgp_write_u16_le 0
                        @ lgp_write_u32_le (caps AND caps_allowed (cl_uid c))))"
proof -
  let ?p = "lgp_write_u16_le major @ lgp_write_u16_le minor @ lgp_write_u32_le caps @ extra"
  let ?g = "caps AND caps_allowed (cl_uid c)"
  let ?r = "lgp_write_u16_le 1 @ lgp_write_u16_le 0 @ lgp_write_u32_le ?g"
  let ?w = "lgp_write_all answers (lgp_frame LGP_MSG_HELLO_REPLY ?r)"
  have "length ?p < 2 ^ 32 - 6" using assms(2) by simp
  from decode_frame [OF this, of LGP_MSG_HELLO "[]"] assms(3)
  have m: "m_length msg = of_nat (14 + length extra)" "m_payload msg = ?p"
    by auto
  have d: "lgp_tlv_decode (lgp_frame LGP_MSG_HELLO_REPLY ?r) =
      Some \<lparr>m_type = LGP_MSG_HELLO_REPLY, m_length = 14, m_payload = ?r\<rparr>"
    using decode_frame [of ?r LGP_MSG_HELLO_REPLY "[]"] by simp
  obtain rest where r: "lgp_frame LGP_MSG_HELLO_REPLY ?r = snd ?w @ rest" "fst ?w \<longleftrightarrow> rest = []"
    using write_all_prefix [of answers "lgp_frame LGP_MSG_HELLO_REPLY ?r" "fst ?w" "snd ?w"] by auto
  have h: "lgp_hello_handle answers c msg =
     (if major \<noteq> 1 then Some (c, False, [])
      else Some (c\<lparr>caps_granted := ?g, hello_done := fst ?w\<rparr>, fst ?w, snd ?w))"
    using hello_handle_frame [OF m, of answers c] assms(1,2) by (simp add: Let_def)
  show ?thesis
  proof (cases "major = 1")
    case True
    have "lgp_tlv_decode (snd ?w @ rest) = Some \<lparr>m_type = LGP_MSG_HELLO_REPLY, m_length = 14, m_payload = ?r\<rparr>"
      unfolding r(1) [symmetric] by (rule d)
    with r(2) have "\<exists>rest m. lgp_tlv_decode (snd ?w @ rest) = Some m \<and> (fst ?w \<longleftrightarrow> rest = []) \<and>
        m_type m = LGP_MSG_HELLO_REPLY \<and> m_length m = 14 \<and> m_payload m = ?r"
      by (intro exI [of _ rest] exI [of _ "\<lparr>m_type = LGP_MSG_HELLO_REPLY, m_length = 14, m_payload = ?r\<rparr>"])
         simp
    with True h show ?thesis
      by (intro exI [of _ "c\<lparr>caps_granted := ?g, hello_done := fst ?w\<rparr>"] exI [of _ "fst ?w"]
          exI [of _ "snd ?w"]) simp
  qed (use h in auto)
qed

theorem hello_handshake_witness:
  "\<exists>msg c' out. lgp_tlv_decode (lgp_frame 1 (lgp_write_u16_le 1 @ lgp_write_u16_le 0 @ lgp_write_u32_le 0xFF @ [])) = Some msg \<and>
     lgp_hello_handle [Wrote 5, WriteInterrupted, Wrote 9]
       \<lparr>cl_addr = 1, cl_fd = 9, cl_pid = 50, cl_uid = 1000, cl_gid = 1000, session_id = 3,
        caps_granted = 0, hello_done = False, rx_buf = [], pending_fds = []\<rparr> msg = Some (c', True, out) \<and>
     caps_granted c' = 0x46"
proof -
  let ?c = "\<lparr>cl_addr = 1, cl_fd = 9, cl_pid = 50, cl_uid = 1000, cl_gid = 1000, session_id = 3,
        caps_granted = 0, hello_done = False, rx_buf = [], pending_fds = []\<rparr>"
  let ?p = "lgp_write_u16_le 1 @ lgp_write_u16_le 0 @ lgp_write_u32_le 0xFF @ []"
  let ?g = "lgp_frame 2 (lgp_write_u16_le 1 @ lgp_write_u16_le 0 @ lgp_write_u32_le 0x46)"
  obtain msg where m: "lgp_tlv_decode (lgp_frame 1 ?p) = Some msg"
    using decode_frame [of ?p 1 "[]"] by simp
  obtain c' ok out where h: "lgp_hello_handle [Wrote 5, WriteInterrupted, Wrote 9] ?c msg = Some (c', ok, out)"
      and c: "c' = ?c\<lparr>caps_granted := 0x46, hello_done := ok\<rparr>"
    using hello_handshake [of ?c "[]" 1 0 "0xFF" msg "[Wrote 5, WriteInterrupted, Wrote 9]"] m
    by (auto simp: caps_allowed_def)
  have w: "lgp_write_all [Wrote 5, WriteInterrupted, Wrote 9] buf = (True, buf)"
    if "length buf = 14" for buf
  proof -
    have "buf \<noteq> []" "drop 5 buf \<noteq> []" "length (drop 5 buf) = 9" using that by auto
    then show ?thesis by simp
  qed
  have l: "m_length msg = 14" "m_payload msg = ?p"
    using m decode_frame [of ?p 1 "[]"] by auto
  have "ok"
    using h hello_handle_frame [of msg "[]" 1 0 "0xFF" "[Wrote 5, WriteInterrupted, Wrote 9]" ?c] l w
    by (simp add: Let_def caps_allowed_def)
  with m h c show ?thesis by auto
qed

text \<open>
  C13: the capability policy, for a connection whose credentials the kernel reports. A new client
  can be granted exactly the capabilities of the mask for its user: the layer shell, Luna Island
  and window manager capabilities only when the kernel reported user id 0 for the connection.
\<close>

theorem capability_policy:
  assumes "lgp_client_create mem fd (Some (pid, uid, gid)) = Some c"
  shows "lgp_caps_negotiate c requested = requested AND (if uid = 0 then 0xDE else 0x46)"
  using assms
  by (auto simp: caps_negotiate_mask lgp_client_create_def caps_allowed_def Let_def
           split: option.splits)

theorem capability_policy_witness:
  "\<exists>c d. lgp_client_create (Some 1) 7 (Some (90, 1000, 1000)) = Some c \<and>
     lgp_caps_negotiate c 0xFF = 0x46 \<and>
     lgp_client_create (Some 1) 8 (Some (91, 0, 0)) = Some d \<and> lgp_caps_negotiate d 0xFF = 0xDE"
proof -
  obtain c d where c: "lgp_client_create (Some 1) 7 (Some (90, 1000, 1000)) = Some c"
    and d: "lgp_client_create (Some 1) 8 (Some (91, 0, 0)) = Some d"
    by (simp add: lgp_client_create_def)
  from capability_policy [OF c, of "0xFF"] capability_policy [OF d, of "0xFF"] c d
  show ?thesis by simp
qed

text \<open>A client whose credentials the kernel does not report is treated as unprivileged.\<close>

lemma capability_policy_unknown_peer:
  assumes "lgp_client_create mem fd None = Some c"
  shows "lgp_caps_negotiate c requested = requested AND 0x46"
  using assms by (auto simp: caps_negotiate_mask lgp_client_create_def caps_allowed_def split: option.splits)

lemma drop_taken: "drop (length (take a xs) + length (take 1 (drop a xs))) xs = drop (Suc a) xs"
  by (cases "a < length xs") auto

text \<open>
  Descriptors are lost when the queue is full. With room for \<open>n\<close> more pending
  descriptors, a delivery queues the first \<open>n\<close>, closes the next one and drops the connection; all
  further descriptors of the delivery are neither queued nor closed. After a truncated control
  message none of the delivered descriptors is queued or closed.
\<close>

theorem excess_descriptors_leak:
  assumes "client_ok c" "length (rx_buf c) < 4096" "bytes \<noteq> []"
  shows "leaked_fds c (Received bytes False fds) = drop (9 - length (pending_fds c)) fds \<and>
    leaked_fds c (Received bytes True fds) = fds"
proof -
  let ?room = "8 - length (pending_fds c)"
  have p: "length (pending_fds c) \<le> 8" using assms(1) by (simp add: client_ok_def)
  have "lgp_client_read_available (Received bytes False fds) c =
     (c\<lparr>rx_buf := rx_buf c @ take (4096 - length (rx_buf c)) bytes,
        pending_fds := pending_fds c @ take ?room fds\<rparr>,
      if length fds \<le> ?room then 1 else - 1, take 1 (drop ?room fds))"
    using assms(2,3) p by (simp add: lgp_client_read_available_def Let_def queue_received_fds_result)
  then have "leaked_fds c (Received bytes False fds) =
      drop (length (take ?room fds) + length (take 1 (drop ?room fds))) fds"
    by (simp add: leaked_fds_def)
  also have "\<dots> = drop (Suc ?room) fds" by (rule drop_taken)
  also have "Suc ?room = 9 - length (pending_fds c)" using p by simp
  finally show ?thesis
    using assms(2,3) by (simp add: leaked_fds_def lgp_client_read_available_def Let_def)
qed

theorem excess_descriptors_leak_witness:
  "leaked_fds \<lparr>cl_addr = 1, cl_fd = 9, cl_pid = 50, cl_uid = 1000, cl_gid = 1000, session_id = 3,
      caps_granted = 0, hello_done = True, rx_buf = [], pending_fds = [20, 21, 22, 23, 24, 25]\<rparr>
     (Received [0] False [30, 31, 32, 33, 34]) = [33, 34]"
proof -
  let ?c = "\<lparr>cl_addr = 1, cl_fd = 9, cl_pid = 50, cl_uid = 1000, cl_gid = 1000, session_id = 3,
      caps_granted = 0, hello_done = True, rx_buf = [], pending_fds = [20, 21, 22, 23, 24, 25]\<rparr>"
  have "client_ok ?c" by (simp add: client_ok_def)
  from excess_descriptors_leak [OF this, of "[0]" "[30, 31, 32, 33, 34]"] show ?thesis by simp
qed

end
