(* ===== verification/Surface_Manager.thy ===== *)
theory Surface_Manager
  imports Lgp_Client
begin

text \<open>
  The scene's surface table (\<open>scene/surface.c\<close> and its header, apart from composition): request
  validation, create, destroy, commit and the clean-up when a client leaves. The table is the list
  of its 64 slots; operations return the new table with the status and, where they matter, the
  descriptors they close and the mappings they remove. The calls pass non-null pointers throughout,
  so the null checks have no branch here. The locale \<open>slot_guard\<close> states that an actor leaves the
  slots of others alone; the request dispatcher is an instance for every client.
\<close>

section \<open>Data\<close>

abbreviation (input) LGP_SURFACE_MAX :: nat where "LGP_SURFACE_MAX \<equiv> 64"

abbreviation (input) LGP_PIXEL_FORMAT_XRGB8888 :: u32 where
  "LGP_PIXEL_FORMAT_XRGB8888 \<equiv> 0x34325258"
abbreviation (input) LGP_PIXEL_FORMAT_ARGB8888 :: u32 where
  "LGP_PIXEL_FORMAT_ARGB8888 \<equiv> 0x34325241"

abbreviation (input) LGP_SURFACE_SYSTEM_CHROME :: u32 where "LGP_SURFACE_SYSTEM_CHROME \<equiv> 1"
abbreviation (input) LGP_SURFACE_LUNA_ISLAND :: u32 where "LGP_SURFACE_LUNA_ISLAND \<equiv> 2"
abbreviation (input) LGP_SURFACE_SHELL_SURFACE :: u32 where "LGP_SURFACE_SHELL_SURFACE \<equiv> 3"
abbreviation (input) LGP_SURFACE_APPLICATION_WINDOW :: u32 where
  "LGP_SURFACE_APPLICATION_WINDOW \<equiv> 4"
abbreviation (input) LGP_SURFACE_CANVAS_SURFACE :: u32 where "LGP_SURFACE_CANVAS_SURFACE \<equiv> 5"
abbreviation (input) LGP_SURFACE_OVERLAY_SURFACE :: u32 where "LGP_SURFACE_OVERLAY_SURFACE \<equiv> 6"

abbreviation (input) LGP_LAYER_WALLPAPER :: u32 where "LGP_LAYER_WALLPAPER \<equiv> 0"
abbreviation (input) LGP_LAYER_APPLICATION :: u32 where "LGP_LAYER_APPLICATION \<equiv> 100"
abbreviation (input) LGP_LAYER_SHELL :: u32 where "LGP_LAYER_SHELL \<equiv> 200"
abbreviation (input) LGP_LAYER_OVERLAY :: u32 where "LGP_LAYER_OVERLAY \<equiv> 300"
abbreviation (input) LGP_LAYER_NOTIFICATION :: u32 where "LGP_LAYER_NOTIFICATION \<equiv> 400"
abbreviation (input) LGP_LAYER_LUNA_ISLAND :: u32 where "LGP_LAYER_LUNA_ISLAND \<equiv> 500"
abbreviation (input) LGP_LAYER_SYSTEM_MODAL :: u32 where "LGP_LAYER_SYSTEM_MODAL \<equiv> 600"
abbreviation (input) LGP_LAYER_CURSOR :: u32 where "LGP_LAYER_CURSOR \<equiv> 700"

text \<open>The statuses of the protocol; \<open>status_code\<close> is the number that goes over the wire.\<close>

datatype surface_status =
  STATUS_OK | STATUS_INVALID | STATUS_DENIED | STATUS_NO_MEMORY | STATUS_NOT_FOUND | STATUS_BAD_BUFFER

fun status_code :: "surface_status \<Rightarrow> u32" where
  "status_code STATUS_OK = 0"
| "status_code STATUS_INVALID = 1"
| "status_code STATUS_DENIED = 2"
| "status_code STATUS_NO_MEMORY = 3"
| "status_code STATUS_NOT_FOUND = 4"
| "status_code STATUS_BAD_BUFFER = 5"

text \<open>\<open>lgp_surface_t\<close>; \<open>buffer_map\<close> is the address of the mapping, 0 for \<open>NULL\<close>.\<close>

record lgp_surface =
  in_use :: bool
  surf_id :: u32
  owner_session_id :: u32
  surface_type :: u32
  surf_x :: int
  surf_y :: int
  surf_width :: u32
  surf_height :: u32
  surf_layer :: u32
  stride :: u32
  pixel_format :: u32
  buffer_size :: nat
  buffer_map :: nat
  wm_state :: u32

definition zero_surface :: lgp_surface where
  "zero_surface =
     \<lparr>in_use = False, surf_id = 0, owner_session_id = 0, surface_type = 0, surf_x = 0, surf_y = 0,
      surf_width = 0, surf_height = 0, surf_layer = 0, stride = 0, pixel_format = 0,
      buffer_size = 0, buffer_map = 0, wm_state = 0\<rparr>"

record lgp_surface_manager =
  next_surface_id :: u32
  surfaces :: "lgp_surface list"

section \<open>Operations\<close>

text \<open>\<open>lgp_surface_release\<close>: the zeroed slot and the mapping that is removed.\<close>

definition lgp_surface_release :: "lgp_surface \<Rightarrow> lgp_surface \<times> (nat \<times> nat) list" where
  "lgp_surface_release s =
     (zero_surface, if buffer_map s \<noteq> 0 then [(buffer_map s, buffer_size s)] else [])"

definition lgp_surface_type_known :: "u32 \<Rightarrow> bool" where
  "lgp_surface_type_known ty \<longleftrightarrow>
     LGP_SURFACE_SYSTEM_CHROME \<le> ty \<and> ty \<le> LGP_SURFACE_OVERLAY_SURFACE"

definition lgp_surface_is_in_display :: "lgp_surface_create_payload \<Rightarrow> u32 \<Rightarrow> u32 \<Rightarrow> bool" where
  "lgp_surface_is_in_display payload display_width display_height =
     (if sc_width payload = 0 \<or> sc_height payload = 0 then False
      else if sc_width payload > 16384 \<or> sc_height payload > 16384 then False
      else if sc_x payload < - 16384 \<or> sc_x payload > 16384 then False
      else if sc_y payload < - 16384 \<or> sc_y payload > 16384 then False
      else True)"

definition lgp_surface_client_has_cap :: "lgp_client \<Rightarrow> u32 \<Rightarrow> bool" where
  "lgp_surface_client_has_cap client cap \<longleftrightarrow> (caps_granted client AND cap) = cap"

definition lgp_surface_validate_request ::
    "lgp_client \<Rightarrow> lgp_surface_create_payload \<Rightarrow> u32 \<Rightarrow> u32 \<Rightarrow> surface_status" where
  "lgp_surface_validate_request client payload display_width display_height =
     (if \<not> lgp_surface_type_known (sc_type payload) then STATUS_INVALID
      else if \<not> lgp_surface_is_in_display payload display_width display_height then STATUS_INVALID
      else if sc_type payload = LGP_SURFACE_APPLICATION_WINDOW then
        (if sc_layer payload \<noteq> LGP_LAYER_APPLICATION then STATUS_INVALID else STATUS_OK)
      else if sc_type payload = LGP_SURFACE_CANVAS_SURFACE then
        (if \<not> lgp_surface_client_has_cap client LGP_CAP_CANVAS_SURFACE then STATUS_DENIED
         else if sc_layer payload \<noteq> LGP_LAYER_APPLICATION \<and> sc_layer payload \<noteq> LGP_LAYER_WALLPAPER
         then STATUS_INVALID else STATUS_OK)
      else if sc_type payload = LGP_SURFACE_LUNA_ISLAND then
        (if \<not> lgp_surface_client_has_cap client LGP_CAP_LUNA_ISLAND then STATUS_DENIED
         else if sc_layer payload \<noteq> LGP_LAYER_LUNA_ISLAND then STATUS_INVALID else STATUS_OK)
      else if sc_type payload \<in> {LGP_SURFACE_SYSTEM_CHROME, LGP_SURFACE_SHELL_SURFACE,
                                  LGP_SURFACE_OVERLAY_SURFACE} then
        (if \<not> lgp_surface_client_has_cap client LGP_CAP_LAYER_SHELL then STATUS_DENIED
         else if sc_layer payload < LGP_LAYER_SHELL \<or> sc_layer payload > LGP_LAYER_SYSTEM_MODAL
         then STATUS_INVALID else STATUS_OK)
      else STATUS_INVALID)"

definition lgp_surface_manager_find_mut :: "lgp_surface_manager \<Rightarrow> u32 \<Rightarrow> nat option" where
  "lgp_surface_manager_find_mut manager surface_id =
     first_index (\<lambda>s. in_use s \<and> surf_id s = surface_id) (surfaces manager)"

definition lgp_surface_manager_find :: "lgp_surface_manager \<Rightarrow> u32 \<Rightarrow> lgp_surface option" where
  "lgp_surface_manager_find manager surface_id =
     map_option (\<lambda>i. surfaces manager ! i)
       (first_index (\<lambda>s. in_use s \<and> surf_id s = surface_id) (surfaces manager))"

definition lgp_surface_manager_init :: lgp_surface_manager where
  "lgp_surface_manager_init =
     \<lparr>next_surface_id = 1, surfaces = replicate LGP_SURFACE_MAX zero_surface\<rparr>"

text \<open>The manager after the call, the status and \<open>*out_surface_id\<close>.\<close>

definition lgp_surface_manager_create ::
    "lgp_surface_manager \<Rightarrow> lgp_client \<Rightarrow> lgp_surface_create_payload \<Rightarrow> u32 \<Rightarrow> u32
      \<Rightarrow> lgp_surface_manager \<times> surface_status \<times> u32" where
  "lgp_surface_manager_create manager client payload display_width display_height =
     (let status = lgp_surface_validate_request client payload display_width display_height in
      if status \<noteq> STATUS_OK then (manager, status, 0)
      else case first_index (\<lambda>s. \<not> in_use s) (surfaces manager) of
        None \<Rightarrow> (manager, STATUS_NO_MEMORY, 0)
      | Some i \<Rightarrow>
          (let new_id = next_surface_id manager;
               next = (if new_id + 1 = 0 then 1 else new_id + 1);
               slot = (surfaces manager ! i)
                 \<lparr>in_use := True, surf_id := new_id, owner_session_id := session_id client,
                  surface_type := sc_type payload, surf_x := sc_x payload, surf_y := sc_y payload,
                  surf_width := sc_width payload, surf_height := sc_height payload,
                  surf_layer := sc_layer payload\<rparr>
           in (manager\<lparr>next_surface_id := next, surfaces := (surfaces manager)[i := slot]\<rparr>,
               STATUS_OK, new_id)))"

text \<open>The manager after the call, the status and the mappings removed.\<close>

definition lgp_surface_manager_destroy ::
    "lgp_surface_manager \<Rightarrow> lgp_client \<Rightarrow> u32 \<Rightarrow> lgp_surface_manager \<times> surface_status \<times> (nat \<times> nat) list" where
  "lgp_surface_manager_destroy manager client surface_id =
     (case lgp_surface_manager_find_mut manager surface_id of
        None \<Rightarrow> (manager, STATUS_NOT_FOUND, [])
      | Some i \<Rightarrow>
          if owner_session_id (surfaces manager ! i) \<noteq> session_id client
          then (manager, STATUS_DENIED, [])
          else (case lgp_surface_release (surfaces manager ! i) of
                  (s, unmapped) \<Rightarrow>
                    (manager\<lparr>surfaces := (surfaces manager)[i := s]\<rparr>, STATUS_OK, unmapped)))"

text \<open>The checks of \<open>lgp_surface_manager_commit\<close> on the announced buffer.\<close>

definition commit_buffer_bad :: "lgp_surface \<Rightarrow> lgp_surface_commit_payload \<Rightarrow> bool" where
  "commit_buffer_bad s payload \<longleftrightarrow>
     sm_width payload \<noteq> surf_width s \<or>
     sm_height payload \<noteq> surf_height s \<or>
     (sm_pixel_format payload \<noteq> LGP_PIXEL_FORMAT_XRGB8888 \<and>
      sm_pixel_format payload \<noteq> LGP_PIXEL_FORMAT_ARGB8888) \<or>
     sm_stride payload < sm_width payload * 4 \<or>
     sm_height payload = 0 \<or>
     unat (sm_stride payload) > (2 ^ 64 - 1) div unat (sm_height payload)"

text \<open>
  \<open>mapping\<close> is the address \<open>mmap\<close> returns, \<open>None\<close> for \<open>MAP_FAILED\<close>. The result holds the manager,
  the status, the descriptors closed and the mappings removed.
\<close>

definition lgp_surface_manager_commit ::
    "lgp_surface_manager \<Rightarrow> lgp_client \<Rightarrow> lgp_surface_commit_payload \<Rightarrow> int \<Rightarrow> nat option
      \<Rightarrow> lgp_surface_manager \<times> surface_status \<times> int list \<times> (nat \<times> nat) list" where
  "lgp_surface_manager_commit manager client payload buffer_fd mapping =
     (if buffer_fd < 0 then (manager, STATUS_BAD_BUFFER, [], [])
      else case lgp_surface_manager_find_mut manager (sm_surface_id payload) of
        None \<Rightarrow> (manager, STATUS_NOT_FOUND, [buffer_fd], [])
      | Some i \<Rightarrow>
          (let s = surfaces manager ! i in
           if owner_session_id s \<noteq> session_id client then (manager, STATUS_DENIED, [buffer_fd], [])
           else if commit_buffer_bad s payload then (manager, STATUS_BAD_BUFFER, [buffer_fd], [])
           else if unat (sm_byte_size payload) < unat (sm_stride payload) * unat (sm_height payload) \<or>
                   sm_byte_size payload = 0
           then (manager, STATUS_BAD_BUFFER, [buffer_fd], [])
           else case mapping of
             None \<Rightarrow> (manager, STATUS_BAD_BUFFER, [buffer_fd], [])
           | Some addr \<Rightarrow>
               (manager\<lparr>surfaces := (surfaces manager)[i := s
                  \<lparr>buffer_map := addr, buffer_size := unat (sm_byte_size payload),
                   stride := sm_stride payload, pixel_format := sm_pixel_format payload\<rparr>]\<rparr>,
                STATUS_OK, [buffer_fd],
                if buffer_map s \<noteq> 0 then [(buffer_map s, buffer_size s)] else [])))"

definition lgp_surface_manager_destroy_for_client ::
    "lgp_surface_manager \<Rightarrow> lgp_client \<Rightarrow> lgp_surface_manager \<times> (nat \<times> nat) list" where
  "lgp_surface_manager_destroy_for_client manager client =
     (let mine = (\<lambda>s. in_use s \<and> owner_session_id s = session_id client) in
      (manager\<lparr>surfaces :=
          map (\<lambda>s. if mine s then fst (lgp_surface_release s) else s) (surfaces manager)\<rparr>,
       concat (map (\<lambda>s. if mine s then snd (lgp_surface_release s) else []) (surfaces manager))))"

section \<open>Searching the slots\<close>

lemma find_find_mut:
  "lgp_surface_manager_find m i = map_option ((!) (surfaces m)) (lgp_surface_manager_find_mut m i)"
  by (simp add: lgp_surface_manager_find_def lgp_surface_manager_find_mut_def)

lemma find_mut_Some:
  "lgp_surface_manager_find_mut m k = Some i \<Longrightarrow>
   i < length (surfaces m) \<and> in_use (surfaces m ! i) \<and> surf_id (surfaces m ! i) = k"
  unfolding lgp_surface_manager_find_mut_def by (drule first_index_Some) simp

section \<open>The surface invariant\<close>

text \<open>
  A free slot is all zeroes. A used slot has a known type on a layer that type may have, a size
  between 1 and 16384 in each direction, a position from which the far edge can be computed in
  \<open>int32_t\<close>, and, once a buffer is committed, a stride and a buffer size that cover every row.
\<close>

definition layer_allowed :: "u32 \<Rightarrow> u32 \<Rightarrow> bool" where
  "layer_allowed ty l \<longleftrightarrow>
     (ty = 4 \<and> l = 100) \<or> (ty = 5 \<and> (l = 100 \<or> l = 0)) \<or> (ty = 2 \<and> l = 500) \<or>
     (ty \<in> {1, 3, 6} \<and> 200 \<le> l \<and> l \<le> 600)"

definition surface_ok :: "lgp_surface \<Rightarrow> bool" where
  "surface_ok s \<longleftrightarrow>
     (\<not> in_use s \<longrightarrow> s = zero_surface) \<and>
     (in_use s \<longrightarrow>
        layer_allowed (surface_type s) (surf_layer s) \<and>
        0 < unat (surf_width s) \<and> unat (surf_width s) \<le> 16384 \<and>
        0 < unat (surf_height s) \<and> unat (surf_height s) \<le> 16384 \<and>
        - 16384 \<le> surf_x s \<and> surf_x s \<le> 65535 \<and> - 16384 \<le> surf_y s \<and> surf_y s \<le> 65535 \<and>
        (buffer_map s \<noteq> 0 \<longrightarrow>
           (pixel_format s = LGP_PIXEL_FORMAT_XRGB8888 \<or> pixel_format s = LGP_PIXEL_FORMAT_ARGB8888) \<and>
           4 * unat (surf_width s) \<le> unat (stride s) \<and>
           unat (stride s) * unat (surf_height s) \<le> buffer_size s))"

definition manager_ok :: "lgp_surface_manager \<Rightarrow> bool" where
  "manager_ok m \<longleftrightarrow> length (surfaces m) = LGP_SURFACE_MAX \<and> list_all surface_ok (surfaces m)"

lemma zero_surface_simps [simp]:
  "in_use zero_surface = False" "buffer_map zero_surface = 0"
  by (simp_all add: zero_surface_def)

lemma surface_ok_zero [simp]: "surface_ok zero_surface"
  by (simp add: surface_ok_def)

lemma manager_ok_update:
  "manager_ok m \<Longrightarrow> surface_ok s \<Longrightarrow> manager_ok (m\<lparr>surfaces := (surfaces m)[i := s]\<rparr>)"
  by (cases "i < length (surfaces m)")
     (auto simp: manager_ok_def list_all_length nth_list_update)

lemma manager_ok_nth: "manager_ok m \<Longrightarrow> i < length (surfaces m) \<Longrightarrow> surface_ok (surfaces m ! i)"
  by (simp add: manager_ok_def list_all_length)

lemma init_ok: "manager_ok lgp_surface_manager_init"
  by (simp add: manager_ok_def lgp_surface_manager_init_def list_all_length)

lemma validate_ok:
  assumes "lgp_surface_validate_request client p dw dh = STATUS_OK"
  shows "layer_allowed (sc_type p) (sc_layer p)"
    and "0 < unat (sc_width p) \<and> unat (sc_width p) \<le> 16384"
    and "0 < unat (sc_height p) \<and> unat (sc_height p) \<le> 16384"
    and "- 16384 \<le> sc_x p \<and> sc_x p \<le> 16384" and "- 16384 \<le> sc_y p \<and> sc_y p \<le> 16384"
proof -
  show "layer_allowed (sc_type p) (sc_layer p)"
    using assms
    by (auto simp: lgp_surface_validate_request_def layer_allowed_def not_less split: if_splits)
  have d: "lgp_surface_is_in_display p dw dh"
    using assms by (auto simp: lgp_surface_validate_request_def split: if_splits)
  then show "0 < unat (sc_width p) \<and> unat (sc_width p) \<le> 16384"
    and "0 < unat (sc_height p) \<and> unat (sc_height p) \<le> 16384"
    by (auto simp: lgp_surface_is_in_display_def unat_gt_0 not_less word_le_nat_alt split: if_splits)
  show "- 16384 \<le> sc_x p \<and> sc_x p \<le> 16384" and "- 16384 \<le> sc_y p \<and> sc_y p \<le> 16384"
    using d by (auto simp: lgp_surface_is_in_display_def split: if_splits)
qed

lemma create_ok:
  assumes "manager_ok m" "lgp_surface_manager_create m client p dw dh = (m', st, k)"
  shows "manager_ok m'"
proof (cases "lgp_surface_validate_request client p dw dh = STATUS_OK")
  case True
  note v = validate_ok [OF True]
  show ?thesis
  proof (cases "first_index (\<lambda>s. \<not> in_use s) (surfaces m)")
    case None
    with assms True show ?thesis by (simp add: lgp_surface_manager_create_def)
  next
    case (Some i)
    from first_index_Some [OF this] have i: "i < length (surfaces m)" "\<not> in_use (surfaces m ! i)"
      by simp_all
    with manager_ok_nth [OF assms(1) i(1)] have z: "surfaces m ! i = zero_surface"
      by (simp add: surface_ok_def)
    have "manager_ok (m\<lparr>surfaces := (surfaces m)[i := s]\<rparr>) \<Longrightarrow>
        manager_ok (m\<lparr>next_surface_id := n, surfaces := (surfaces m)[i := s]\<rparr>)" for n s
      by (simp add: manager_ok_def)
    moreover have "surface_ok (zero_surface
        \<lparr>in_use := True, surf_id := a, owner_session_id := b,
          surface_type := sc_type p, surf_x := sc_x p, surf_y := sc_y p,
          surf_width := sc_width p, surf_height := sc_height p, surf_layer := sc_layer p\<rparr>)" for a b
      using v by (auto simp: surface_ok_def)
    ultimately show ?thesis
      using assms True Some z manager_ok_update [OF assms(1)]
      by (auto simp: lgp_surface_manager_create_def Let_def)
  qed
qed (use assms in \<open>simp add: lgp_surface_manager_create_def\<close>)

lemma destroy_ok:
  assumes "manager_ok m" "lgp_surface_manager_destroy m client k = (m', st, un)"
  shows "manager_ok m'"
  using assms manager_ok_update [OF assms(1) surface_ok_zero]
  by (auto simp: lgp_surface_manager_destroy_def lgp_surface_release_def split: option.splits if_splits)

lemma width_times_4:
  assumes "unat w \<le> 16384" shows "unat (w * 4 :: u32) = 4 * unat w"
  using assms by (simp add: unat_mult_lem [THEN iffD1] mult.commute)

lemma commit_checks:
  assumes "surface_ok s" "in_use s" "\<not> commit_buffer_bad s p"
  shows "sm_width p = surf_width s" "sm_height p = surf_height s"
    "4 * unat (surf_width s) \<le> unat (sm_stride p)"
    "sm_pixel_format p = LGP_PIXEL_FORMAT_XRGB8888 \<or> sm_pixel_format p = LGP_PIXEL_FORMAT_ARGB8888"
proof -
  have "unat (surf_width s) \<le> 16384" using assms by (simp add: surface_ok_def)
  then show "4 * unat (surf_width s) \<le> unat (sm_stride p)"
    using assms(3) width_times_4 [of "surf_width s"]
    by (auto simp: commit_buffer_bad_def not_less word_le_nat_alt)
qed (use assms(3) in \<open>auto simp: commit_buffer_bad_def\<close>)

lemma commit_ok:
  assumes "manager_ok m" "lgp_surface_manager_commit m client p fd mapping = (m', st, cl, un)"
  shows "manager_ok m'"
proof (cases "lgp_surface_manager_find_mut m (sm_surface_id p)")
  case None
  with assms show ?thesis by (auto simp: lgp_surface_manager_commit_def split: if_splits)
next
  case (Some i)
  let ?s = "surfaces m ! i"
  from find_mut_Some [OF Some] manager_ok_nth [OF assms(1)]
  have s: "surface_ok ?s" "in_use ?s" by simp_all
  have "surface_ok (?s\<lparr>buffer_map := a, buffer_size := unat (sm_byte_size p), stride := sm_stride p,
      pixel_format := sm_pixel_format p\<rparr>)"
    if "\<not> commit_buffer_bad ?s p" "unat (sm_stride p) * unat (sm_height p) \<le> unat (sm_byte_size p)" for a
    using s that commit_checks [OF s that(1)] by (auto simp: surface_ok_def)
  with assms Some manager_ok_update [OF assms(1)] show ?thesis
    by (auto simp: lgp_surface_manager_commit_def Let_def split: if_splits option.splits)
qed

lemma destroy_for_client_ok:
  "manager_ok m \<Longrightarrow> manager_ok (fst (lgp_surface_manager_destroy_for_client m client))"
  by (auto simp: manager_ok_def lgp_surface_manager_destroy_for_client_def Let_def list_all_length
      lgp_surface_release_def)

section \<open>Ownership of slots\<close>

text \<open>
  A table of slots with owners, operated on by one actor: a slot another owner uses stays as it
  is, and whatever is in use after a step belongs to the actor or was there before. The lemmas
  lift this to sequences of requests.
\<close>

locale slot_guard =
  fixes slots :: "'t \<Rightarrow> 'v list"
    and live :: "'v \<Rightarrow> bool"
    and owner :: "'v \<Rightarrow> 's"
    and actor :: 's
    and step :: "'r \<Rightarrow> 't \<Rightarrow> 't"
  assumes same_length: "length (slots (step r t)) = length (slots t)"
    and foreign: "i < length (slots t) \<Longrightarrow> live (slots t ! i) \<Longrightarrow> owner (slots t ! i) \<noteq> actor \<Longrightarrow>
        slots (step r t) ! i = slots t ! i"
    and gained: "i < length (slots t) \<Longrightarrow> live (slots (step r t) ! i) \<Longrightarrow>
        owner (slots (step r t) ! i) = actor \<or> slots (step r t) ! i = slots t ! i"
begin

lemma run_length: "length (slots (fold step rs t)) = length (slots t)"
  by (induction rs arbitrary: t) (simp_all add: same_length)

lemma run_foreign:
  assumes "i < length (slots t)" "live (slots t ! i)" "owner (slots t ! i) \<noteq> actor"
  shows "slots (fold step rs t) ! i = slots t ! i"
  using assms
proof (induction rs arbitrary: t)
  case (Cons r rs)
  then have "slots (step r t) ! i = slots t ! i" by (simp add: foreign)
  with Cons show ?case by (simp add: same_length)
qed simp

lemma run_gained:
  assumes "i < length (slots t)" "live (slots (fold step rs t) ! i)"
  shows "owner (slots (fold step rs t) ! i) = actor \<or> slots (fold step rs t) ! i = slots t ! i"
  using assms
proof (induction rs arbitrary: t)
  case (Cons r rs)
  then have "owner (slots (fold step rs (step r t)) ! i) = actor \<or>
      slots (fold step rs (step r t)) ! i = slots (step r t) ! i"
    by (simp add: same_length)
  with Cons.prems show ?case using gained [of i t r] by auto
qed simp

end

text \<open>The requests of one client to the surface manager, leaving included.\<close>

datatype surface_request =
  ReqCreate lgp_surface_create_payload u32 u32
| ReqDestroy u32
| ReqCommit lgp_surface_commit_payload int "nat option"
| ReqLeave

fun serve_request :: "lgp_client \<Rightarrow> surface_request \<Rightarrow> lgp_surface_manager \<Rightarrow> lgp_surface_manager" where
  "serve_request c (ReqCreate p dw dh) m = fst (lgp_surface_manager_create m c p dw dh)"
| "serve_request c (ReqDestroy k) m = fst (lgp_surface_manager_destroy m c k)"
| "serve_request c (ReqCommit p fd mapping) m = fst (lgp_surface_manager_commit m c p fd mapping)"
| "serve_request c ReqLeave m = fst (lgp_surface_manager_destroy_for_client m c)"

lemma create_cases:
  obtains st where "lgp_surface_manager_create m c p dw dh = (m, st, 0)" "st \<noteq> STATUS_OK"
  | i where "lgp_surface_validate_request c p dw dh = STATUS_OK"
    "i < length (surfaces m)" "\<not> in_use (surfaces m ! i)"
    "lgp_surface_manager_create m c p dw dh =
       (m\<lparr>next_surface_id := (if next_surface_id m + 1 = 0 then 1 else next_surface_id m + 1),
          surfaces := (surfaces m)[i := (surfaces m ! i)
            \<lparr>in_use := True, surf_id := next_surface_id m, owner_session_id := session_id c,
             surface_type := sc_type p, surf_x := sc_x p, surf_y := sc_y p,
             surf_width := sc_width p, surf_height := sc_height p, surf_layer := sc_layer p\<rparr>]\<rparr>,
        STATUS_OK, next_surface_id m)"
proof (cases "first_index (\<lambda>s. \<not> in_use s) (surfaces m)")
  case None
  then show ?thesis
    using that(1) [of STATUS_NO_MEMORY] that(1) [of "lgp_surface_validate_request c p dw dh"]
    by (cases "lgp_surface_validate_request c p dw dh = STATUS_OK")
       (simp_all add: lgp_surface_manager_create_def Let_def)
next
  case (Some i)
  then show ?thesis
    using that(1) [of "lgp_surface_validate_request c p dw dh"] that(2) [of i] first_index_Some [OF Some]
    by (cases "lgp_surface_validate_request c p dw dh = STATUS_OK")
       (simp_all add: lgp_surface_manager_create_def Let_def)
qed

lemma destroy_cases:
  obtains st where "lgp_surface_manager_destroy m c k = (m, st, [])" "st \<noteq> STATUS_OK"
  | i where "lgp_surface_manager_find_mut m k = Some i" "i < length (surfaces m)"
    "in_use (surfaces m ! i)" "surf_id (surfaces m ! i) = k"
    "owner_session_id (surfaces m ! i) = session_id c"
    "lgp_surface_manager_destroy m c k =
       (m\<lparr>surfaces := (surfaces m)[i := zero_surface]\<rparr>, STATUS_OK,
        snd (lgp_surface_release (surfaces m ! i)))"
proof (cases "lgp_surface_manager_find_mut m k")
  case None
  then show ?thesis using that(1) [of STATUS_NOT_FOUND] by (simp add: lgp_surface_manager_destroy_def)
next
  case (Some i)
  then show ?thesis
    using that(1) [of STATUS_DENIED] that(2) [of i] find_mut_Some [OF Some]
    by (cases "owner_session_id (surfaces m ! i) = session_id c")
       (simp_all add: lgp_surface_manager_destroy_def lgp_surface_release_def)
qed

lemma commit_cases:
  obtains st cl where "lgp_surface_manager_commit m c p fd mapping = (m, st, cl, [])" "st \<noteq> STATUS_OK"
    "cl = (if fd < 0 then [] else [fd])"
  | i addr where "lgp_surface_manager_find_mut m (sm_surface_id p) = Some i" "i < length (surfaces m)"
    "in_use (surfaces m ! i)" "surf_id (surfaces m ! i) = sm_surface_id p" "0 \<le> fd"
    "mapping = Some addr"
    "owner_session_id (surfaces m ! i) = session_id c" "\<not> commit_buffer_bad (surfaces m ! i) p"
    "unat (sm_stride p) * unat (sm_height p) \<le> unat (sm_byte_size p)"
    "lgp_surface_manager_commit m c p fd mapping =
       (m\<lparr>surfaces := (surfaces m)[i := (surfaces m ! i)
          \<lparr>buffer_map := addr, buffer_size := unat (sm_byte_size p), stride := sm_stride p,
           pixel_format := sm_pixel_format p\<rparr>]\<rparr>,
        STATUS_OK, [fd],
        if buffer_map (surfaces m ! i) \<noteq> 0
        then [(buffer_map (surfaces m ! i), buffer_size (surfaces m ! i))] else [])"
proof (cases "fd < 0 \<or> lgp_surface_manager_find_mut m (sm_surface_id p) = None")
  case True
  then show ?thesis
    using that(1) [of STATUS_BAD_BUFFER "[]"] that(1) [of STATUS_NOT_FOUND "[fd]"]
    by (cases "fd < 0") (simp_all add: lgp_surface_manager_commit_def)
next
  case False
  then obtain i where i: "lgp_surface_manager_find_mut m (sm_surface_id p) = Some i" "0 \<le> fd" by auto
  let ?s = "surfaces m ! i"
  let ?bad = "commit_buffer_bad ?s p \<or>
      unat (sm_byte_size p) < unat (sm_stride p) * unat (sm_height p) \<or> sm_byte_size p = 0 \<or> mapping = None"
  show ?thesis
  proof (cases "owner_session_id ?s \<noteq> session_id c \<or> ?bad")
    case True
    then show ?thesis
      using i that(1) [of STATUS_BAD_BUFFER "[fd]"] that(1) [of STATUS_DENIED "[fd]"]
      by (cases "owner_session_id ?s \<noteq> session_id c")
         (auto simp: lgp_surface_manager_commit_def Let_def)
  next
    case ok: False
    then obtain addr where "mapping = Some addr" by auto
    then show ?thesis
      using i ok that(2) [of i addr] find_mut_Some [OF i(1)]
      by (simp add: lgp_surface_manager_commit_def Let_def)
  qed
qed

lemma request_update_law:
  assumes "surfaces m' = surfaces m \<or>
     (\<exists>k s. surfaces m' = (surfaces m)[k := s] \<and> k < length (surfaces m) \<and>
        (in_use (surfaces m ! k) \<longrightarrow> owner_session_id (surfaces m ! k) = a) \<and>
        (in_use s \<longrightarrow> owner_session_id s = a))"
    and "i < length (surfaces m)"
  shows "in_use (surfaces m ! i) \<Longrightarrow> owner_session_id (surfaces m ! i) \<noteq> a \<Longrightarrow>
      surfaces m' ! i = surfaces m ! i"
    and "in_use (surfaces m' ! i) \<Longrightarrow>
      owner_session_id (surfaces m' ! i) = a \<or> surfaces m' ! i = surfaces m ! i"
  using assms by (auto simp: nth_list_update split: if_splits)

lemma request_update:
  "r \<noteq> ReqLeave \<Longrightarrow> surfaces (serve_request c r m) = surfaces m \<or>
     (\<exists>k s. surfaces (serve_request c r m) = (surfaces m)[k := s] \<and> k < length (surfaces m) \<and>
        (in_use (surfaces m ! k) \<longrightarrow> owner_session_id (surfaces m ! k) = session_id c) \<and>
        (in_use s \<longrightarrow> owner_session_id s = session_id c))"
proof (cases r)
  case (ReqCreate p dw dh)
  then show ?thesis
    by (cases rule: create_cases [of m c p dw dh]) force+
next
  case (ReqDestroy k)
  then show ?thesis
    by (cases rule: destroy_cases [of m c k]) force+
next
  case (ReqCommit p fd mapping)
  show ?thesis
    by (cases rule: commit_cases [of m c p fd mapping]) (use ReqCommit in force)+
qed simp

interpretation surface_slots: slot_guard surfaces in_use owner_session_id "session_id c" "serve_request c"
  for c :: lgp_client
proof unfold_locales
  fix r and t :: lgp_surface_manager
  show "length (surfaces (serve_request c r t)) = length (surfaces t)"
  proof (cases "r = ReqLeave")
    case False
    from request_update [OF this, of c t] show ?thesis by auto
  qed (simp add: lgp_surface_manager_destroy_for_client_def Let_def)
next
  fix i r and t :: lgp_surface_manager
  assume i: "i < length (surfaces t)" and u: "in_use (surfaces t ! i)"
    and o: "owner_session_id (surfaces t ! i) \<noteq> session_id c"
  show "surfaces (serve_request c r t) ! i = surfaces t ! i"
  proof (cases "r = ReqLeave")
    case False
    from request_update_law(1) [OF request_update [OF this] i u o] show ?thesis .
  qed (use i o in \<open>simp add: lgp_surface_manager_destroy_for_client_def Let_def\<close>)
next
  fix i r and t :: lgp_surface_manager
  assume i: "i < length (surfaces t)" and u: "in_use (surfaces (serve_request c r t) ! i)"
  show "owner_session_id (surfaces (serve_request c r t) ! i) = session_id c \<or>
      surfaces (serve_request c r t) ! i = surfaces t ! i"
  proof (cases "r = ReqLeave")
    case False
    from request_update_law(2) [OF request_update [OF this] i u] show ?thesis .
  qed (use i u in \<open>auto simp: lgp_surface_manager_destroy_for_client_def Let_def
        lgp_surface_release_def split: if_splits\<close>)
qed

lemma leave_releases:
  "s \<in> set (surfaces (fst (lgp_surface_manager_destroy_for_client m c))) \<Longrightarrow> in_use s \<Longrightarrow>
   owner_session_id s \<noteq> session_id c \<and> s \<in> set (surfaces m)"
  by (auto simp: lgp_surface_manager_destroy_for_client_def Let_def lgp_surface_release_def split: if_splits)

section \<open>Surface ids\<close>

text \<open>
  Ids are handed out in ascending order, so as long as the counter has not wrapped, every id in
  use is below it and no two surfaces share one.
\<close>

definition ids_fresh :: "lgp_surface_manager \<Rightarrow> bool" where
  "ids_fresh m \<longleftrightarrow>
     0 < next_surface_id m \<and>
     (\<forall>i < length (surfaces m). in_use (surfaces m ! i) \<longrightarrow>
        0 < surf_id (surfaces m ! i) \<and> surf_id (surfaces m ! i) < next_surface_id m) \<and>
     (\<forall>i < length (surfaces m). \<forall>j < length (surfaces m).
        in_use (surfaces m ! i) \<longrightarrow> in_use (surfaces m ! j) \<longrightarrow>
        surf_id (surfaces m ! i) = surf_id (surfaces m ! j) \<longrightarrow> i = j)"

lemma ids_fresh_update:
  assumes "ids_fresh m" "in_use s \<longrightarrow> in_use (surfaces m ! i) \<and> surf_id s = surf_id (surfaces m ! i)"
  shows "ids_fresh (m\<lparr>surfaces := (surfaces m)[i := s]\<rparr>)"
proof (cases "i < length (surfaces m)")
  case True
  with assms show ?thesis unfolding ids_fresh_def
    by (simp add: nth_list_update) (metis (full_types))
next
  case False
  then have "(surfaces m)[i := s] = surfaces m" by (intro list_update_beyond leI)
  with assms(1) show ?thesis by simp
qed

lemma nth_list_update': "j < length xs \<Longrightarrow> xs[i := s] ! j = (if i = j then s else xs ! j)"
  by (cases "i = j") simp_all

lemma ids_fresh_create:
  assumes "ids_fresh m" "next_surface_id m \<noteq> - 1" "surf_id s = next_surface_id m"
  shows "ids_fresh (m\<lparr>next_surface_id := (if next_surface_id m + 1 = 0 then 1 else next_surface_id m + 1),
      surfaces := (surfaces m)[i := s]\<rparr>)"
proof -
  let ?n = "next_surface_id m"
  have nz: "?n + 1 \<noteq> 0" using assms(2) by (metis add_eq_0_iff2)
  then have "unat (1 + ?n) = Suc (unat ?n)" by (intro unatSuc) (simp add: add.commute)
  then have lt: "?n < ?n + 1" by (simp add: word_less_nat_alt add.commute)
  have up: "x < ?n + 1" if "x < ?n" for x using that lt by (rule less_trans)
  have z: "0 < ?n" using assms(1) by (simp add: ids_fresh_def)
  have lts: "surf_id (surfaces m ! j) < ?n" "0 < surf_id (surfaces m ! j)"
    if "j < length (surfaces m)" "in_use (surfaces m ! j)" for j
    using assms(1) that by (simp_all add: ids_fresh_def)
  have ne: "surf_id (surfaces m ! j) \<noteq> ?n" if "j < length (surfaces m)" "in_use (surfaces m ! j)" for j
    using lts(1) [OF that] by simp
  have uq: "j = k" if "j < length (surfaces m)" "k < length (surfaces m)" "in_use (surfaces m ! j)"
    "in_use (surfaces m ! k)" "surf_id (surfaces m ! j) = surf_id (surfaces m ! k)" for j k
    using assms(1) that unfolding ids_fresh_def by blast
  have z1: "0 < ?n + 1" using z lt by (rule less_trans)
  show ?thesis
    unfolding ids_fresh_def
    using nz z z1 lt up lts ne ne [symmetric] uq assms(3)
    by (auto simp: nth_list_update' split: if_splits)
qed

inductive manager_run :: "nat \<Rightarrow> lgp_surface_manager \<Rightarrow> bool" where
  run_init: "manager_run 0 lgp_surface_manager_init"
| run_create: "manager_run n m \<Longrightarrow> manager_run (Suc n) (fst (lgp_surface_manager_create m c p dw dh))"
| run_destroy: "manager_run n m \<Longrightarrow> manager_run n (fst (lgp_surface_manager_destroy m c k))"
| run_commit: "manager_run n m \<Longrightarrow> manager_run n (fst (lgp_surface_manager_commit m c b fd mapping))"
| run_leave: "manager_run n m \<Longrightarrow> manager_run n (fst (lgp_surface_manager_destroy_for_client m c))"

lemma ids_fresh_destroy_for_client:
  assumes "ids_fresh m" shows "ids_fresh (fst (lgp_surface_manager_destroy_for_client m c))"
proof -
  let ?ss = "surfaces (fst (lgp_surface_manager_destroy_for_client m c))"
  have len: "length ?ss = length (surfaces m)"
    by (simp add: lgp_surface_manager_destroy_for_client_def Let_def)
  have nx: "next_surface_id (fst (lgp_surface_manager_destroy_for_client m c)) = next_surface_id m"
    by (simp add: lgp_surface_manager_destroy_for_client_def Let_def)
  have keep: "?ss ! i = surfaces m ! i" if "i < length (surfaces m)" "in_use (?ss ! i)" for i
    using that by (auto simp: lgp_surface_manager_destroy_for_client_def Let_def lgp_surface_release_def
        split: if_splits)
  show ?thesis
    unfolding ids_fresh_def len nx
  proof (intro conjI allI impI)
    show "0 < next_surface_id m" using assms by (simp add: ids_fresh_def)
  next
    fix i assume "i < length (surfaces m)" "in_use (?ss ! i)"
    with keep [of i] assms show "0 < surf_id (?ss ! i)" "surf_id (?ss ! i) < next_surface_id m"
      by (simp_all add: ids_fresh_def)
  next
    fix i j assume "i < length (surfaces m)" "j < length (surfaces m)" "in_use (?ss ! i)"
      "in_use (?ss ! j)" "surf_id (?ss ! i) = surf_id (?ss ! j)"
    with keep [of i] keep [of j] assms show "i = j" unfolding ids_fresh_def by metis
  qed
qed

lemma manager_run_counter:
  "manager_run n m \<Longrightarrow> n < 2 ^ 32 - 2 \<Longrightarrow> unat (next_surface_id m) \<le> n + 1"
proof (induction rule: manager_run.induct)
  case (run_create n m c p dw dh)
  then have u: "unat (next_surface_id m) \<le> n + 1" by simp
  show ?case
  proof (cases rule: create_cases [of m c p dw dh])
    case (2 i)
    have "unat (next_surface_id m + 1) \<le> unat (next_surface_id m) + 1"
      by (metis Suc_eq_plus1 le_SucI le_refl unatSuc unat_0 add.commute le0)
    with u 2(4) show ?thesis by auto
  qed (use u in simp)
next
  case (run_destroy n m c k)
  then show ?case by (cases rule: destroy_cases [of m c k]) simp_all
next
  case (run_commit n m c b fd mapping)
  show ?case
    by (cases rule: commit_cases [of m c b fd mapping]) (use run_commit in simp_all)
qed (simp_all add: lgp_surface_manager_init_def lgp_surface_manager_destroy_for_client_def Let_def)

lemma unat_max_u32: "unat (- 1 :: u32) = 2 ^ 32 - 1"
proof -
  have "(- 1 :: u32) = 0xFFFFFFFF" by simp
  then show ?thesis by (simp only:) simp
qed

lemma ids_fresh_init: "ids_fresh lgp_surface_manager_init"
  by (simp add: ids_fresh_def lgp_surface_manager_init_def)

lemma manager_run_ok:
  assumes "manager_run n m" "n < 2 ^ 32 - 2"
  shows "manager_ok m \<and> ids_fresh m"
  using assms
proof (induction rule: manager_run.induct)
  case run_init
  show ?case by (simp add: init_ok ids_fresh_init)
next
  case (run_create n m c p dw dh)
  then have IH: "manager_ok m" "ids_fresh m" by simp_all
  have "unat (next_surface_id m) < 2 ^ 32 - 1"
    using manager_run_counter [OF run_create.hyps] run_create.prems by simp
  then have "next_surface_id m \<noteq> - 1" using unat_max_u32 by auto
  with IH ids_fresh_create [OF IH(2)] have "ids_fresh (fst (lgp_surface_manager_create m c p dw dh))"
    by (cases rule: create_cases [of m c p dw dh]) simp_all
  with create_ok [OF IH(1)] show ?case by (metis prod.collapse)
next
  case (run_destroy n m c k)
  then have IH: "manager_ok m" "ids_fresh m" by simp_all
  have "ids_fresh (fst (lgp_surface_manager_destroy m c k))"
    using IH ids_fresh_update [OF IH(2)] by (cases rule: destroy_cases [of m c k]) simp_all
  with destroy_ok [OF IH(1)] show ?case by (metis prod.collapse)
next
  case (run_commit n m c b fd mapping)
  then have IH: "manager_ok m" "ids_fresh m" by simp_all
  have "ids_fresh (fst (lgp_surface_manager_commit m c b fd mapping))"
    by (cases rule: commit_cases [of m c b fd mapping])
       (use IH ids_fresh_update [OF IH(2)] in simp_all)
  with commit_ok [OF IH(1)] show ?case by (metis prod.collapse)
next
  case (run_leave n m c)
  then show ?case by (simp add: destroy_for_client_ok ids_fresh_destroy_for_client)
qed

section \<open>The table as a map\<close>

lemma find_Some_iff:
  assumes "ids_fresh m"
  shows "lgp_surface_manager_find m k = Some s \<longleftrightarrow>
     (\<exists>i < length (surfaces m). surfaces m ! i = s \<and> in_use s \<and> surf_id s = k)"
proof
  assume "lgp_surface_manager_find m k = Some s"
  then obtain i where "lgp_surface_manager_find_mut m k = Some i" "surfaces m ! i = s"
    by (auto simp: find_find_mut)
  with find_mut_Some show "\<exists>i < length (surfaces m). surfaces m ! i = s \<and> in_use s \<and> surf_id s = k"
    by blast
next
  assume "\<exists>i < length (surfaces m). surfaces m ! i = s \<and> in_use s \<and> surf_id s = k"
  then obtain i where i: "i < length (surfaces m)" "surfaces m ! i = s" "in_use s" "surf_id s = k"
    by blast
  have "lgp_surface_manager_find_mut m k = Some i"
    unfolding lgp_surface_manager_find_mut_def
    by (rule first_index_unique) (use i assms in \<open>auto simp: ids_fresh_def\<close>)
  with i show "lgp_surface_manager_find m k = Some s" by (simp add: find_find_mut)
qed

lemma option_eq_if_same_Some: "(\<And>t. a = Some t \<longleftrightarrow> b = Some t) \<Longrightarrow> a = b"
  by (cases a; cases b) auto

lemma find_update:
  assumes f: "ids_fresh m" and f': "ids_fresh m'" and ss: "surfaces m' = (surfaces m)[i := s]"
    and i: "i < length (surfaces m)"
    and old: "in_use (surfaces m ! i) \<Longrightarrow> surf_id (surfaces m ! i) = k"
    and new: "in_use s \<Longrightarrow> surf_id s = k"
    and nk: "\<not> in_use (surfaces m ! i) \<Longrightarrow> lgp_surface_manager_find m k = None"
  shows "lgp_surface_manager_find m' = (lgp_surface_manager_find m)(k := if in_use s then Some s else None)"
proof (rule ext)
  fix x
  have f1: "lgp_surface_manager_find m' x = Some t \<longleftrightarrow>
      (if x = k then in_use s \<and> t = s else lgp_surface_manager_find m x = Some t)" for t
    unfolding find_Some_iff [OF f'] find_Some_iff [OF f] ss
  proof (cases "x = k")
    case True
    have "j = i" if "j < length (surfaces m)" "in_use ((surfaces m)[i := s] ! j)"
      "surf_id ((surfaces m)[i := s] ! j) = k" for j
    proof (rule ccontr)
      assume n: "j \<noteq> i"
      with that have j: "in_use (surfaces m ! j)" "surf_id (surfaces m ! j) = k" by simp_all
      then have "lgp_surface_manager_find m k \<noteq> None"
        using find_Some_iff [OF f, of k "surfaces m ! j"] that(1) by auto
      with nk old have "in_use (surfaces m ! i)" "surf_id (surfaces m ! i) = k" by blast+
      with f that(1) i j n show False unfolding ids_fresh_def by metis
    qed
    note only = this
    have "s = t" if "j < length (surfaces m)" "(surfaces m)[i := s] ! j = t" "in_use t" "surf_id t = k" for j
      using only [of j] that i by simp
    moreover have "in_use s \<Longrightarrow> (surfaces m)[i := s] ! i = s \<and> surf_id s = x" using i new True by simp
    ultimately show "(\<exists>j<length ((surfaces m)[i := s]). (surfaces m)[i := s] ! j = t \<and> in_use t \<and> surf_id t = x) \<longleftrightarrow>
        (if x = k then in_use s \<and> t = s
         else \<exists>j<length (surfaces m). surfaces m ! j = t \<and> in_use t \<and> surf_id t = x)"
      using True i unfolding length_list_update by (simp only: if_True simp_thms) metis
  next
    case False
    then show "(\<exists>j<length ((surfaces m)[i := s]). (surfaces m)[i := s] ! j = t \<and> in_use t \<and> surf_id t = x) \<longleftrightarrow>
        (if x = k then in_use s \<and> t = s
         else \<exists>j<length (surfaces m). surfaces m ! j = t \<and> in_use t \<and> surf_id t = x)"
      using old new i unfolding length_list_update
      by (simp only: if_False) (metis nth_list_update_eq nth_list_update_neq)
  qed
  show "lgp_surface_manager_find m' x =
      ((lgp_surface_manager_find m)(k := if in_use s then Some s else None)) x"
  proof (cases "x = k")
    case True
    then show ?thesis using f1 [of s] f1 [of "the (lgp_surface_manager_find m' x)"]
      by (cases "lgp_surface_manager_find m' x") (simp_all split: if_splits)
  next
    case False
    have "lgp_surface_manager_find m' x = lgp_surface_manager_find m x"
      by (rule option_eq_if_same_Some) (use f1 False in simp)
    with False show ?thesis by simp
  qed
qed

lemma find_create:
  assumes f: "ids_fresh m" and n: "next_surface_id m \<noteq> - 1"
    and c: "lgp_surface_manager_create m c p dw dh = (m', STATUS_OK, k)"
  shows "\<exists>s. lgp_surface_manager_find m' = (lgp_surface_manager_find m)(k \<mapsto> s) \<and>
      lgp_surface_manager_find m k = None \<and>
      owner_session_id s = session_id c \<and> surface_type s = sc_type p \<and> surf_layer s = sc_layer p \<and>
      surf_x s = sc_x p \<and> surf_y s = sc_y p \<and> surf_width s = sc_width p \<and> surf_height s = sc_height p"
proof -
  obtain i where i: "i < length (surfaces m)" "\<not> in_use (surfaces m ! i)"
    and m': "m' = m\<lparr>next_surface_id := (if next_surface_id m + 1 = 0 then 1 else next_surface_id m + 1),
          surfaces := (surfaces m)[i := (surfaces m ! i)
            \<lparr>in_use := True, surf_id := next_surface_id m, owner_session_id := session_id c,
             surface_type := sc_type p, surf_x := sc_x p, surf_y := sc_y p,
             surf_width := sc_width p, surf_height := sc_height p, surf_layer := sc_layer p\<rparr>]\<rparr>"
    and k: "k = next_surface_id m"
  proof (cases rule: create_cases [of m c p dw dh])
    case (2 i)
    note e = c [unfolded 2(4) prod.inject]
    show ?thesis
      by (rule that [OF 2(2,3) e [THEN conjunct1, symmetric]]) (use e in simp)
  qed (use c in simp)
  define s where "s = (surfaces m ! i)
            \<lparr>in_use := True, surf_id := next_surface_id m, owner_session_id := session_id c,
             surface_type := sc_type p, surf_x := sc_x p, surf_y := sc_y p,
             surf_width := sc_width p, surf_height := sc_height p, surf_layer := sc_layer p\<rparr>"
  have f': "ids_fresh m'"
    using ids_fresh_create [OF f n, of s i] unfolding m' s_def by simp
  have none: "lgp_surface_manager_find m k = None"
  proof (rule ccontr)
    assume "lgp_surface_manager_find m k \<noteq> None"
    then obtain t where "lgp_surface_manager_find m k = Some t" by blast
    with find_Some_iff [OF f, of k t] obtain j where "j < length (surfaces m)" "in_use (surfaces m ! j)"
      "surf_id (surfaces m ! j) = next_surface_id m" using k by auto
    with f show False unfolding ids_fresh_def by (metis less_irrefl)
  qed
  have "lgp_surface_manager_find m' = (lgp_surface_manager_find m)(k := if in_use s then Some s else None)"
    by (rule find_update [OF f f' _ i(1)]) (use i none k m' in \<open>simp_all add: s_def\<close>)
  with none show ?thesis by (intro exI [of _ s]) (simp add: s_def)
qed

lemma find_destroy:
  assumes f: "ids_fresh m" and d: "lgp_surface_manager_destroy m c k = (m', STATUS_OK, un)"
  shows "lgp_surface_manager_find m' = (lgp_surface_manager_find m)(k := None)"
proof -
  from d obtain i where i: "i < length (surfaces m)" "in_use (surfaces m ! i)" "surf_id (surfaces m ! i) = k"
    and m': "m' = m\<lparr>surfaces := (surfaces m)[i := zero_surface]\<rparr>"
    by (cases rule: destroy_cases [of m c k]) simp_all
  have f': "ids_fresh m'" unfolding m' by (rule ids_fresh_update [OF f]) simp
  have "lgp_surface_manager_find m' =
      (lgp_surface_manager_find m)(k := if in_use zero_surface then Some zero_surface else None)"
    by (rule find_update [OF f f' _ i(1)]) (use i m' in simp_all)
  then show ?thesis by simp
qed

lemma find_commit:
  assumes f: "ids_fresh m" and d: "lgp_surface_manager_commit m c p fd mapping = (m', STATUS_OK, cl, un)"
  shows "\<exists>s addr. lgp_surface_manager_find m (sm_surface_id p) = Some s \<and> mapping = Some addr \<and>
      lgp_surface_manager_find m' = (lgp_surface_manager_find m)(sm_surface_id p \<mapsto>
        s\<lparr>buffer_map := addr, buffer_size := unat (sm_byte_size p), stride := sm_stride p,
          pixel_format := sm_pixel_format p\<rparr>)"
proof -
  let ?k = "sm_surface_id p"
  from d obtain i addr where i: "lgp_surface_manager_find_mut m ?k = Some i" "i < length (surfaces m)"
    "in_use (surfaces m ! i)" "surf_id (surfaces m ! i) = ?k" "mapping = Some addr"
    and m': "m' = m\<lparr>surfaces := (surfaces m)[i := (surfaces m ! i)
          \<lparr>buffer_map := addr, buffer_size := unat (sm_byte_size p), stride := sm_stride p,
           pixel_format := sm_pixel_format p\<rparr>]\<rparr>"
    by (cases rule: commit_cases [of m c p fd mapping]) simp_all
  define s where "s = (surfaces m ! i)
          \<lparr>buffer_map := addr, buffer_size := unat (sm_byte_size p), stride := sm_stride p,
           pixel_format := sm_pixel_format p\<rparr>"
  have f': "ids_fresh m'" unfolding m' by (rule ids_fresh_update [OF f]) (use i in simp)
  have "lgp_surface_manager_find m' = (lgp_surface_manager_find m)(?k := if in_use s then Some s else None)"
    by (rule find_update [OF f f' _ i(2)]) (use i m' in \<open>simp_all add: s_def\<close>)
  with i show ?thesis
    by (intro exI [of _ "surfaces m ! i"] exI [of _ addr]) (simp add: find_find_mut s_def)
qed

text \<open>
  The surface table is always well formed. After any sequence of create, destroy, commit
  and client-leaves requests of any clients, with fewer than \<open>2\<^sup>3\<^sup>2 - 2\<close> create requests, there are 64
  slots, every free slot is zeroed, every surface has a known type on a permitted layer and bounded
  extent, every committed buffer covers all rows of its surface, and the ids in use are non-zero and
  pairwise different.
\<close>

theorem surface_manager_invariant:
  assumes "manager_run n m" "n < 2 ^ 32 - 2"
  shows "manager_ok m \<and> ids_fresh m"
  using manager_run_ok [OF assms] .

theorem surface_manager_invariant_witness:
  "\<exists>m s. lgp_surface_manager_find m 1 = Some s \<and> manager_ok m \<and> ids_fresh m"
proof -
  let ?c = "\<lparr>cl_addr = 1, cl_fd = 9, cl_pid = 50, cl_uid = 1000, cl_gid = 1000, session_id = 3,
        caps_granted = 0, hello_done = True, rx_buf = [], pending_fds = []\<rparr>"
  let ?p = "\<lparr>sc_type = 4, sc_x = 10, sc_y = 20, sc_width = 64, sc_height = 32, sc_layer = 100\<rparr>"
  let ?m = "fst (lgp_surface_manager_create lgp_surface_manager_init ?c ?p 1024 768)"
  have r: "manager_run (Suc 0) ?m" by (intro run_create run_init)
  have "lgp_surface_validate_request ?c ?p 1024 768 = STATUS_OK"
    by (simp add: lgp_surface_validate_request_def lgp_surface_type_known_def
        lgp_surface_is_in_display_def)
  then obtain m' where c: "lgp_surface_manager_create lgp_surface_manager_init ?c ?p 1024 768 = (m', STATUS_OK, 1)"
    using replicate_Suc [of 63 zero_surface]
    by (simp add: lgp_surface_manager_create_def Let_def lgp_surface_manager_init_def)
  have "next_surface_id lgp_surface_manager_init \<noteq> - 1" by (simp add: lgp_surface_manager_init_def)
  from find_create [OF ids_fresh_init this c] obtain s where "lgp_surface_manager_find m' 1 = Some s"
    by auto
  with surface_manager_invariant [OF r] c show ?thesis by auto
qed

text \<open>
  The manager keeps the surfaces of the sessions apart. No sequence of create, destroy and commit
  requests of one client, leaving included, changes a slot that another session uses; and every surface
  in use afterwards either belongs to this client's session or stood in the same slot, unchanged, before.
\<close>

theorem surface_isolation:
  fixes c :: lgp_client
  assumes "i < length (surfaces m)"
  shows "(in_use (surfaces m ! i) \<and> owner_session_id (surfaces m ! i) \<noteq> session_id c \<longrightarrow>
       surfaces (fold (serve_request c) rs m) ! i = surfaces m ! i) \<and>
    (in_use (surfaces (fold (serve_request c) rs m) ! i) \<longrightarrow>
       owner_session_id (surfaces (fold (serve_request c) rs m) ! i) = session_id c \<or>
       surfaces (fold (serve_request c) rs m) ! i = surfaces m ! i)"
  using surface_slots.run_foreign [OF assms, of c rs] surface_slots.run_gained [OF assms, of c rs]
  by blast

theorem surface_isolation_witness:
  "\<exists>m. in_use (surfaces m ! 0) \<and>
     surfaces (fold (serve_request \<lparr>cl_addr = 2, cl_fd = 8, cl_pid = 51, cl_uid = 0, cl_gid = 0,
         session_id = 4, caps_granted = 0, hello_done = True, rx_buf = [], pending_fds = []\<rparr>)
       [ReqDestroy 7, ReqLeave] m) ! 0 = surfaces m ! 0"
proof -
  let ?m = "\<lparr>next_surface_id = 8, surfaces = [zero_surface\<lparr>in_use := True, surf_id := 7,
      owner_session_id := 3\<rparr>]\<rparr>"
  let ?c = "\<lparr>cl_addr = 2, cl_fd = 8, cl_pid = 51, cl_uid = 0, cl_gid = 0,
         session_id = 4, caps_granted = 0, hello_done = True, rx_buf = [], pending_fds = []\<rparr>"
  have "surfaces (fold (serve_request ?c) [ReqDestroy 7, ReqLeave] ?m) ! 0 = surfaces ?m ! 0"
    using surface_isolation [of 0 ?m ?c "[ReqDestroy 7, ReqLeave]"] by simp
  then show ?thesis by (intro exI [of _ ?m]) simp
qed

text \<open>
  C14: the table refines a map from ids to surfaces. After fewer than \<open>2\<^sup>3\<^sup>2 - 3\<close> create
  requests: an accepted create adds one entry under an unused id with the requested geometry and
  the requester as owner, an accepted destroy removes exactly the named entry, an accepted commit
  changes only the buffer of the named entry, and a refused request changes nothing. A descriptor
  passed to commit is closed exactly once, whatever the outcome.
\<close>

theorem surface_table_refines:
  assumes "manager_run n m" "n < 2 ^ 32 - 3"
  shows "(case lgp_surface_manager_create m c p dw dh of (m', st, k) \<Rightarrow>
       (st \<noteq> STATUS_OK \<longrightarrow> m' = m) \<and>
       (st = STATUS_OK \<longrightarrow> (\<exists>s. lgp_surface_manager_find m' = (lgp_surface_manager_find m)(k \<mapsto> s) \<and>
          lgp_surface_manager_find m k = None \<and> owner_session_id s = session_id c \<and>
          surface_type s = sc_type p \<and> surf_layer s = sc_layer p \<and> surf_x s = sc_x p \<and>
          surf_y s = sc_y p \<and> surf_width s = sc_width p \<and> surf_height s = sc_height p))) \<and>
    (case lgp_surface_manager_destroy m c k of (m', st, un) \<Rightarrow>
       (st \<noteq> STATUS_OK \<longrightarrow> m' = m) \<and>
       (st = STATUS_OK \<longrightarrow> lgp_surface_manager_find m' = (lgp_surface_manager_find m)(k := None))) \<and>
    (case lgp_surface_manager_commit m c b fd mapping of (m', st, closed, un) \<Rightarrow>
       closed = (if fd < 0 then [] else [fd]) \<and>
       (st \<noteq> STATUS_OK \<longrightarrow> m' = m) \<and>
       (st = STATUS_OK \<longrightarrow>
          (\<exists>s addr. lgp_surface_manager_find m (sm_surface_id b) = Some s \<and> mapping = Some addr \<and>
             lgp_surface_manager_find m' = (lgp_surface_manager_find m)(sm_surface_id b \<mapsto>
               s\<lparr>buffer_map := addr, buffer_size := unat (sm_byte_size b), stride := sm_stride b,
                 pixel_format := sm_pixel_format b\<rparr>))))"
    (is "?create \<and> ?destroy \<and> ?commit")
proof (intro conjI)
  have f: "ids_fresh m" using manager_run_ok [OF assms(1)] assms(2) by simp
  have "unat (next_surface_id m) < 2 ^ 32 - 1"
    using manager_run_counter [OF assms(1)] assms(2) by simp
  then have n: "next_surface_id m \<noteq> - 1" using unat_max_u32 by auto
  show ?create
    using find_create [OF f n, of c p dw dh]
    by (cases rule: create_cases [of m c p dw dh]) simp_all
  show ?destroy
    using find_destroy [OF f, of c k]
    by (cases rule: destroy_cases [of m c k]) simp_all
  show ?commit
    using find_commit [OF f, of c b fd mapping]
    by (cases rule: commit_cases [of m c b fd mapping]) simp_all
qed

theorem surface_table_refines_witness:
  "\<exists>m' s. lgp_surface_manager_create lgp_surface_manager_init
       \<lparr>cl_addr = 1, cl_fd = 9, cl_pid = 50, cl_uid = 1000, cl_gid = 1000, session_id = 3,
        caps_granted = 0, hello_done = True, rx_buf = [], pending_fds = []\<rparr>
       \<lparr>sc_type = 4, sc_x = 10, sc_y = 20, sc_width = 64, sc_height = 32, sc_layer = 100\<rparr> 1024 768 = (m', STATUS_OK, 1) \<and>
     lgp_surface_manager_find m' = (lgp_surface_manager_find lgp_surface_manager_init)(1 \<mapsto> s) \<and>
     owner_session_id s = 3 \<and> surf_width s = 64"
proof -
  let ?c = "\<lparr>cl_addr = 1, cl_fd = 9, cl_pid = 50, cl_uid = 1000, cl_gid = 1000, session_id = 3,
        caps_granted = 0, hello_done = True, rx_buf = [], pending_fds = []\<rparr>"
  let ?p = "\<lparr>sc_type = 4, sc_x = 10, sc_y = 20, sc_width = 64, sc_height = 32, sc_layer = 100\<rparr>"
  have "lgp_surface_validate_request ?c ?p 1024 768 = STATUS_OK"
    by (simp add: lgp_surface_validate_request_def lgp_surface_type_known_def
        lgp_surface_is_in_display_def)
  then obtain m' where c: "lgp_surface_manager_create lgp_surface_manager_init ?c ?p 1024 768 = (m', STATUS_OK, 1)"
    using replicate_Suc [of 63 zero_surface]
    by (simp add: lgp_surface_manager_create_def Let_def lgp_surface_manager_init_def)
  have "case lgp_surface_manager_create lgp_surface_manager_init ?c ?p 1024 768 of (m', st, k) \<Rightarrow>
       (st \<noteq> STATUS_OK \<longrightarrow> m' = lgp_surface_manager_init) \<and>
       (st = STATUS_OK \<longrightarrow> (\<exists>s. lgp_surface_manager_find m' = (lgp_surface_manager_find lgp_surface_manager_init)(k \<mapsto> s) \<and>
          lgp_surface_manager_find lgp_surface_manager_init k = None \<and> owner_session_id s = session_id ?c \<and>
          surface_type s = sc_type ?p \<and> surf_layer s = sc_layer ?p \<and> surf_x s = sc_x ?p \<and>
          surf_y s = sc_y ?p \<and> surf_width s = sc_width ?p \<and> surf_height s = sc_height ?p))"
    using surface_table_refines [OF run_init, where c = ?c and p = ?p and dw = 1024 and dh = 768] by simp
  with c show ?thesis by auto
qed

end
