(* ===== verification/Composite.thy ===== *)
theory Composite
  imports Surface_Manager Canvas
begin

text \<open>
  Composition of the scene (\<open>lgp_surface_manager_composite\<close> and the software cursor of
  \<open>scene/surface.c\<close>) on byte buffers. Every copy is bounds-checked against the destination and the
  source mapping; a computation that would leave its object, or overflow \<open>int32_t\<close>, has no value.
  The reference picture \<open>scene_picture\<close> is a function from pixels to colours; the theorems state that
  the loops compute it, and which accesses a completed frame has made. A machine with little-endian
  words is assumed, as the pixel formats of the protocol do.
\<close>

section \<open>The cursor\<close>

record lgp_cursor =
  cur_x :: int
  cur_y :: int
  cur_screen_width :: u32
  cur_screen_height :: u32

text \<open>C's \<open>i / 2\<close> rounds towards zero.\<close>

definition c_half :: "int \<Rightarrow> int" where
  "c_half i = (if i < 0 then - (- i div 2) else i div 2)"

definition lgp_cursor_init :: "u32 \<Rightarrow> u32 \<Rightarrow> lgp_cursor" where
  "lgp_cursor_init screen_w screen_h =
     \<lparr>cur_x = c_half (sint screen_w), cur_y = c_half (sint screen_h),
      cur_screen_width = screen_w, cur_screen_height = screen_h\<rparr>"

definition lgp_cursor_set_position :: "int \<Rightarrow> int \<Rightarrow> lgp_cursor \<Rightarrow> lgp_cursor" where
  "lgp_cursor_set_position x y c =
     (let x1 = (if x < 0 then 0 else x);
          x2 = (if sint (cur_screen_width c) \<le> x1 then sint (cur_screen_width c) - 1 else x1);
          y1 = (if y < 0 then 0 else y);
          y2 = (if sint (cur_screen_height c) \<le> y1 then sint (cur_screen_height c) - 1 else y1)
      in c\<lparr>cur_x := x2, cur_y := y2\<rparr>)"

definition cursor_bitmap :: "nat list list" where
  "cursor_bitmap =
    [[1, 0, 0, 0, 0, 0, 0, 0],
     [1, 1, 0, 0, 0, 0, 0, 0],
     [1, 2, 1, 0, 0, 0, 0, 0],
     [1, 2, 2, 1, 0, 0, 0, 0],
     [1, 2, 2, 2, 1, 0, 0, 0],
     [1, 2, 2, 2, 2, 1, 0, 0],
     [1, 2, 2, 2, 2, 2, 1, 0],
     [1, 2, 2, 1, 1, 1, 1, 1],
     [1, 2, 1, 1, 0, 0, 0, 0],
     [1, 1, 0, 1, 1, 0, 0, 0],
     [1, 0, 0, 0, 1, 1, 0, 0],
     [0, 0, 0, 0, 0, 1, 1, 0]]"

text \<open>
  The loops of \<open>draw_software_cursor\<close>; the sums \<open>cy + y\<close> and \<open>cx + x\<close> are undefined where they
  leave \<open>int32_t\<close>.
\<close>

definition draw_cursor_pixel :: "lgp_cursor \<Rightarrow> u32 \<Rightarrow> u32 \<Rightarrow> int \<Rightarrow> nat \<Rightarrow> nat \<Rightarrow> u8 list \<Rightarrow> u8 list option" where
  "draw_cursor_pixel c dst_width dst_pitch dest_y y x dst =
     (let dest_x = cur_x c + int x in
      if \<not> in_int32 dest_x then None
      else if dest_x < 0 \<or> dest_x \<ge> sint dst_width then Some dst
      else (let val = cursor_bitmap ! y ! x in
            if val = 0 then Some dst
            else (let color = (if val = 1 then 0x00000000 else 0x00FFFFFF) in
                  memcpy dst (nat dest_y * unat dst_pitch + nat dest_x * 4) (lgp_write_u32_le color) 0 4)))"

definition draw_cursor_row :: "lgp_cursor \<Rightarrow> u32 \<Rightarrow> u32 \<Rightarrow> u32 \<Rightarrow> nat \<Rightarrow> u8 list \<Rightarrow> u8 list option" where
  "draw_cursor_row c dst_width dst_height dst_pitch y dst =
     (let dest_y = cur_y c + int y in
      if \<not> in_int32 dest_y then None
      else if dest_y < 0 \<or> dest_y \<ge> sint dst_height then Some dst
      else for_each (draw_cursor_pixel c dst_width dst_pitch dest_y y) [0..<8] dst)"

definition draw_software_cursor :: "lgp_cursor \<Rightarrow> u32 \<Rightarrow> u32 \<Rightarrow> u32 \<Rightarrow> u8 list \<Rightarrow> u8 list option" where
  "draw_software_cursor c dst_width dst_height dst_pitch dst =
     for_each (draw_cursor_row c dst_width dst_height dst_pitch) [0..<12] dst"

section \<open>Blending\<close>

definition blend_channel :: "u32 \<Rightarrow> u32 \<Rightarrow> u32 \<Rightarrow> u32" where
  "blend_channel alpha s d = (s * alpha + d * (255 - alpha)) div 255"

definition blend_pixel :: "u32 \<Rightarrow> u32 \<Rightarrow> u32" where
  "blend_pixel src_px d_px =
     (let alpha = drop_bit 24 src_px;
          r = blend_channel alpha (drop_bit 16 src_px AND 0xFF) (drop_bit 16 d_px AND 0xFF);
          g = blend_channel alpha (drop_bit 8 src_px AND 0xFF) (drop_bit 8 d_px AND 0xFF);
          b = blend_channel alpha (src_px AND 0xFF) (d_px AND 0xFF)
      in push_bit 16 r OR push_bit 8 g OR b)"

section \<open>Drawing one surface\<close>

text \<open>The body of the inner loop for \<open>ARGB8888\<close>: source row, destination row and column.\<close>

definition draw_argb_pixel ::
    "u8 list \<Rightarrow> nat \<Rightarrow> nat \<Rightarrow> int \<Rightarrow> int \<Rightarrow> u8 list \<Rightarrow> u8 list option" where
  "draw_argb_pixel src src_row dst_row x_start dx dst =
     (let sx = dx - x_start in do {
        src_px \<leftarrow> lgp_read_u32_le src (src_row + nat sx * 4);
        (let alpha = drop_bit 24 src_px in
         if alpha = 255 then memcpy dst (dst_row + nat dx * 4) (lgp_write_u32_le src_px) 0 4
         else if alpha > 0 then do {
           d_px \<leftarrow> lgp_read_u32_le dst (dst_row + nat dx * 4);
           memcpy dst (dst_row + nat dx * 4) (lgp_write_u32_le (blend_pixel src_px d_px)) 0 4
         }
         else Some dst)
      })"

text \<open>
  The blocks of \<open>lgp_surface_manager_composite\<close> that draw one row and one surface. \<open>src\<close> is
  what the surface's mapping holds; reading beyond the pages the file provides has no value (the
  process would receive \<open>SIGBUS\<close>).
\<close>

definition draw_row ::
    "lgp_surface \<Rightarrow> u8 list \<Rightarrow> u32 \<Rightarrow> int \<Rightarrow> int \<Rightarrow> int \<Rightarrow> u8 list \<Rightarrow> u8 list option" where
  "draw_row s src dst_pitch clip_x_start clip_x_end y dst =
     (let src_y = y - surf_y s;
          src_row = nat src_y * unat (stride s);
          dst_row = nat y * unat dst_pitch;
          copy_width = clip_x_end - clip_x_start
      in if pixel_format s = LGP_PIXEL_FORMAT_ARGB8888
         then for_each (draw_argb_pixel src src_row dst_row (surf_x s)) [clip_x_start..clip_x_end - 1] dst
         else if pixel_format s = LGP_PIXEL_FORMAT_XRGB8888
         then (let sx_start = clip_x_start - surf_x s in
               memcpy dst (dst_row + nat clip_x_start * 4) src (src_row + nat sx_start * 4)
                 (nat copy_width * 4))
         else Some dst)"

definition draw_surface ::
    "(nat \<Rightarrow> u8 list) \<Rightarrow> u32 \<Rightarrow> u32 \<Rightarrow> u32 \<Rightarrow> lgp_surface \<Rightarrow> u8 list \<Rightarrow> u8 list option" where
  "draw_surface mem dst_width dst_height dst_pitch s dst =
     (let x_start = surf_x s;
          y_start = surf_y s;
          x_end = surf_x s + sint (surf_width s);
          y_end = surf_y s + sint (surf_height s)
      in if \<not> in_int32 x_end \<or> \<not> in_int32 y_end then None
         else
         (let clip_x_start = (if x_start < 0 then 0 else x_start);
              clip_y_start = (if y_start < 0 then 0 else y_start);
              clip_x_end = (if x_end > sint dst_width then sint dst_width else x_end);
              clip_y_end = (if y_end > sint dst_height then sint dst_height else y_end)
          in if clip_x_start \<ge> clip_x_end \<or> clip_y_start \<ge> clip_y_end then Some dst
             else for_each (draw_row s (mem (buffer_map s)) dst_pitch clip_x_start clip_x_end)
                    [clip_y_start..clip_y_end - 1] dst))"

section \<open>Composition\<close>

abbreviation (input) LGP_WM_STATE_MINIMIZED :: u32 where "LGP_WM_STATE_MINIMIZED \<equiv> 2"
abbreviation (input) LGP_WM_STATE_HIDDEN :: u32 where "LGP_WM_STATE_HIDDEN \<equiv> 4"
abbreviation (input) LGP_LUNA_VOID_XRGB8888 :: u32 where "LGP_LUNA_VOID_XRGB8888 \<equiv> 0x000A0A0F"

definition layer_order :: "u32 list" where
  "layer_order =
     [LGP_LAYER_WALLPAPER, LGP_LAYER_APPLICATION, LGP_LAYER_SHELL, LGP_LAYER_OVERLAY,
      LGP_LAYER_NOTIFICATION, LGP_LAYER_LUNA_ISLAND, LGP_LAYER_SYSTEM_MODAL, LGP_LAYER_CURSOR]"

definition fill_void :: "u32 \<Rightarrow> u32 \<Rightarrow> u32 \<Rightarrow> u8 list \<Rightarrow> u8 list option" where
  "fill_void dst_width dst_height dst_pitch dst =
     for_each (\<lambda>y. for_each (\<lambda>x d.
         memcpy d (y * unat dst_pitch + x * 4) (lgp_write_u32_le LGP_LUNA_VOID_XRGB8888) 0 4)
       [0..<unat dst_width]) [0..<unat dst_height] dst"

definition composite_slot ::
    "(nat \<Rightarrow> u8 list) \<Rightarrow> u32 \<Rightarrow> u32 \<Rightarrow> u32 \<Rightarrow> u32 \<Rightarrow> lgp_surface \<Rightarrow> u8 list \<Rightarrow> u8 list option" where
  "composite_slot mem dst_width dst_height dst_pitch layer s dst =
     (if \<not> in_use s \<or> surf_layer s \<noteq> layer \<or> buffer_map s = 0 then Some dst
      else if wm_state s = LGP_WM_STATE_MINIMIZED \<or> wm_state s = LGP_WM_STATE_HIDDEN then Some dst
      else draw_surface mem dst_width dst_height dst_pitch s dst)"

text \<open>
  \<open>lgp_surface_manager_composite\<close>: the destination afterwards and the result, 0 or \<open>-EINVAL\<close>.
  \<open>mem\<close> maps the address of a mapping to what it holds while the frame is drawn.
\<close>

definition lgp_surface_manager_composite ::
    "(nat \<Rightarrow> u8 list) \<Rightarrow> lgp_cursor \<Rightarrow> lgp_surface_manager \<Rightarrow> u8 list \<Rightarrow> u32 \<Rightarrow> u32 \<Rightarrow> u32
      \<Rightarrow> (u8 list \<times> int) option" where
  "lgp_surface_manager_composite mem cursor manager dst dst_width dst_height dst_pitch =
     (if dst_width = 0 \<or> dst_height = 0 \<or> dst_pitch < dst_width * 4 then Some (dst, - 22)
      else do {
        d1 \<leftarrow> fill_void dst_width dst_height dst_pitch dst;
        d2 \<leftarrow> for_each (\<lambda>layer. for_each (composite_slot mem dst_width dst_height dst_pitch layer)
                                     (surfaces manager)) layer_order d1;
        d3 \<leftarrow> draw_software_cursor cursor dst_width dst_height dst_pitch d2;
        Some (d3, 0)
      })"

section \<open>The picture a scene stands for\<close>

definition surface_region :: "lgp_surface \<Rightarrow> (nat \<times> nat) set" where
  "surface_region s =
     {(x, y). surf_x s \<le> int x \<and> int x < surf_x s + int (unat (surf_width s)) \<and>
              surf_y s \<le> int y \<and> int y < surf_y s + int (unat (surf_height s))}"

definition src_offset :: "lgp_surface \<Rightarrow> nat \<times> nat \<Rightarrow> nat" where
  "src_offset s q = nat (int (snd q) - surf_y s) * unat (stride s) + nat (int (fst q) - surf_x s) * 4"

definition src_pixel :: "(nat \<Rightarrow> u8 list) \<Rightarrow> lgp_surface \<Rightarrow> nat \<times> nat \<Rightarrow> u32" where
  "src_pixel mem s q = the (lgp_read_u32_le (mem (buffer_map s)) (src_offset s q))"

text \<open>Source over destination: what one surface makes of a pixel.\<close>

definition over :: "(nat \<Rightarrow> u8 list) \<Rightarrow> lgp_surface \<Rightarrow> nat \<times> nat \<Rightarrow> u32 \<Rightarrow> u32" where
  "over mem s q v =
     (let px = src_pixel mem s q; alpha = drop_bit 24 px in
      if pixel_format s = LGP_PIXEL_FORMAT_XRGB8888 \<or> alpha = 255 then px
      else if alpha > 0 then blend_pixel px v else v)"

definition shown_on :: "u32 \<Rightarrow> lgp_surface \<Rightarrow> bool" where
  "shown_on layer s \<longleftrightarrow> in_use s \<and> surf_layer s = layer \<and> buffer_map s \<noteq> 0 \<and>
     wm_state s \<noteq> LGP_WM_STATE_MINIMIZED \<and> wm_state s \<noteq> LGP_WM_STATE_HIDDEN"

definition paint_slot :: "(nat \<Rightarrow> u8 list) \<Rightarrow> u32 \<Rightarrow> lgp_surface \<Rightarrow> pixmap \<Rightarrow> pixmap" where
  "paint_slot mem layer s = (if shown_on layer s then paint (surface_region s) (over mem s) else id)"

definition cursor_value :: "lgp_cursor \<Rightarrow> nat \<times> nat \<Rightarrow> nat" where
  "cursor_value c q =
     (let i = int (fst q) - cur_x c; j = int (snd q) - cur_y c in
      if 0 \<le> i \<and> i < 8 \<and> 0 \<le> j \<and> j < 12 then cursor_bitmap ! nat j ! nat i else 0)"

definition cursor_color :: "lgp_cursor \<Rightarrow> nat \<times> nat \<Rightarrow> u32 \<Rightarrow> u32" where
  "cursor_color c q v = (if cursor_value c q = 1 then 0 else 0x00FFFFFF)"

text \<open>
  The picture: the void colour, over it the shown surfaces layer by layer and within a layer slot
  by slot, on top the cursor.
\<close>

definition scene_picture :: "(nat \<Rightarrow> u8 list) \<Rightarrow> lgp_cursor \<Rightarrow> lgp_surface_manager \<Rightarrow> pixmap" where
  "scene_picture mem c m =
     paint {q. cursor_value c q \<noteq> 0} (cursor_color c)
       (fold (\<lambda>layer. fold (paint_slot mem layer) (surfaces m)) layer_order
          (\<lambda>q. LGP_LUNA_VOID_XRGB8888))"

section \<open>Each loop draws its part of the picture\<close>

lemma sint_small: "unat v < 2 ^ 31 \<Longrightarrow> sint v = int (unat v)" for v :: u32
proof -
  assume "unat v < 2 ^ 31"
  then have "int (unat v) < int (2 ^ 31)" by (simp only: of_nat_less_iff)
  then have "uint v < 2 ^ 31" by simp
  moreover have "- (2 ^ 31) \<le> uint v" by (rule order_trans [OF _ uint_ge_0]) simp
  ultimately show ?thesis using signed_take_bit_int_eq_self [of 31 "uint v"] by (simp add: sint_uint)
qed

lemma fill_void_draws:
  assumes p: "4 * unat dw \<le> unat pitch"
  shows "draws (unat dw) (unat dh) (unat pitch) n (fill_void dw dh pitch)
     ({..<unat dw} \<times> {..<unat dh}) (\<lambda>q v. LGP_LUNA_VOID_XRGB8888)"
proof -
  let ?G = "\<lambda>(q :: nat \<times> nat) (v :: u32). LGP_LUNA_VOID_XRGB8888"
  let ?px = "\<lambda>y x d. memcpy d (y * unat pitch + x * 4) (lgp_write_u32_le LGP_LUNA_VOID_XRGB8888) 0 4"
  have px: "draws (unat dw) (unat dh) (unat pitch) n (?px y x) {(x, y)} ?G"
    if "x < unat dw" "y < unat dh" for x y
  proof (rule drawsI)
    fix d f assume d: "length d = n" "canvas (unat dw) (unat dh) (unat pitch) d f"
    have "paint {(x, y)} ?G f = f((x, y) := LGP_LUNA_VOID_XRGB8888)"
      by (auto simp: paint_def fun_eq_iff)
    with canvas_write [OF d(2) p that, of LGP_LUNA_VOID_XRGB8888] d
    show "\<exists>d'. ?px y x d = Some d' \<and> length d' = n \<and>
        canvas (unat dw) (unat dh) (unat pitch) d' (paint {(x, y)} ?G f)" by auto
  qed
  have row: "draws (unat dw) (unat dh) (unat pitch) n (for_each (?px y) [0..<unat dw])
      (\<Union>x \<in> set [0..<unat dw]. {(x, y)}) ?G" if "y < unat dh" for y
    by (rule draws_for_each) (use px that in auto)
  have "draws (unat dw) (unat dh) (unat pitch) n (for_each (\<lambda>y. for_each (?px y) [0..<unat dw]) [0..<unat dh])
      (\<Union>y \<in> set [0..<unat dh]. \<Union>x \<in> set [0..<unat dw]. {(x, y)}) ?G"
    by (rule draws_for_each) (use row in auto)
  moreover have "(\<Union>y \<in> set [0..<unat dh]. \<Union>x \<in> set [0..<unat dw]. {(x, y)}) =
      {..<unat dw} \<times> {..<unat dh}" by auto
  ultimately show ?thesis by (simp add: fill_void_def [abs_def])
qed

text \<open>A shown surface's buffer covers every pixel of its region.\<close>

lemma src_covered:
  assumes "surface_ok s" "in_use s" "buffer_map s \<noteq> 0"
    "buffer_size s \<le> length (mem (buffer_map s))" "q \<in> surface_region s"
  shows "src_offset s q + 4 \<le> length (mem (buffer_map s))"
    and "lgp_read_u32_le (mem (buffer_map s)) (src_offset s q) = Some (src_pixel mem s q)"
proof -
  obtain x y where q: "q = (x, y)" by fastforce
  let ?i = "nat (int x - surf_x s)" and ?j = "nat (int y - surf_y s)"
  have ij: "?i < unat (surf_width s)" "?j < unat (surf_height s)"
    using assms(5) by (simp_all add: surface_region_def q nat_less_iff)
  have st: "4 * unat (surf_width s) \<le> unat (stride s)"
    "unat (stride s) * unat (surf_height s) \<le> buffer_size s"
    using assms(1-3) by (auto simp: surface_ok_def)
  have "Suc ?j * unat (stride s) \<le> unat (surf_height s) * unat (stride s)"
    using ij(2) by (intro mult_le_mono1) simp
  then have "?j * unat (stride s) + ?i * 4 + 4 \<le> unat (stride s) * unat (surf_height s)"
    using ij(1) st(1) by (simp add: mult.commute)
  then show l: "src_offset s q + 4 \<le> length (mem (buffer_map s))"
    using st(2) assms(4) by (simp add: src_offset_def q)
  show "lgp_read_u32_le (mem (buffer_map s)) (src_offset s q) = Some (src_pixel mem s q)"
    using l by (simp add: src_pixel_def lgp_read_u32_le_def)
qed

lemma argb_pixel_draws:
  assumes s: "surface_ok s" "in_use s" "buffer_map s \<noteq> 0" "buffer_size s \<le> length (mem (buffer_map s))"
    and f: "pixel_format s = LGP_PIXEL_FORMAT_ARGB8888"
    and p: "4 * w \<le> p" and q: "(x, y) \<in> surface_region s" "x < w" "y < h"
  shows "draws w h p n (draw_argb_pixel (mem (buffer_map s)) (nat (int y - surf_y s) * unat (stride s))
      (y * p) (surf_x s) (int x)) {(x, y)} (over mem s)"
proof (rule draws_pixel [OF p q(2,3)])
  fix d v assume d: "lgp_read_u32_le d (y * p + x * 4) = Some v"
  let ?px = "src_pixel mem s (x, y)"
  have r: "lgp_read_u32_le (mem (buffer_map s))
      (nat (int y - surf_y s) * unat (stride s) + nat (int x - surf_x s) * 4) = Some ?px"
    using src_covered(2) [of s mem, OF s q(1)] by (simp add: src_offset_def)
  show "draw_argb_pixel (mem (buffer_map s)) (nat (int y - surf_y s) * unat (stride s))
      (y * p) (surf_x s) (int x) d =
     (if drop_bit 24 ?px = 0 then Some d
      else memcpy d (y * p + x * 4) (lgp_write_u32_le (over mem s (x, y) v)) 0 4)"
    using d r f by (auto simp: draw_argb_pixel_def over_def Let_def word_gt_0)
next
  show "over mem s (x, y) v = v" if "drop_bit 24 (src_pixel mem s (x, y)) = 0" for v
    using that f by (simp add: over_def)
qed

lemma xrgb_row_draws:
  assumes s: "surface_ok s" "in_use s" "buffer_map s \<noteq> 0" "buffer_size s \<le> length (mem (buffer_map s))"
    and f: "pixel_format s = LGP_PIXEL_FORMAT_XRGB8888"
    and p: "4 * w \<le> p" and y: "y < h" and ab: "a < b" "b \<le> w"
    and row: "\<And>x. a \<le> x \<Longrightarrow> x < b \<Longrightarrow> (x, y) \<in> surface_region s"
  shows "draws w h p n (\<lambda>d. memcpy d (y * p + a * 4) (mem (buffer_map s)) (src_offset s (a, y)) ((b - a) * 4))
     ({a..<b} \<times> {y}) (over mem s)"
proof (rule drawsI)
  fix d f' assume d: "length d = n" "canvas w h p d f'"
  let ?src = "mem (buffer_map s)" and ?so = "src_offset s (a, y)"
  have off: "src_offset s (x, y) = ?so + (x - a) * 4" if "a \<le> x" "x < b" for x
  proof -
    have "surf_x s \<le> int a" using row [of a] ab by (simp add: surface_region_def)
    then have "nat (int x - surf_x s) = nat (int a - surf_x s) + (x - a)" using that by simp
    then show ?thesis by (simp add: src_offset_def)
  qed
  have len: "?so + (b - a) * 4 \<le> length ?src"
  proof -
    have "src_offset s (b - 1, y) + 4 \<le> length ?src"
      using src_covered(1) [of s mem "(b - 1, y)"] s row [of "b - 1"] ab by simp
    then show ?thesis using off [of "b - 1"] ab by (simp add: diff_mult_distrib)
  qed
  have "lgp_read_u32_le d (y * p + (b - 1) * 4) = Some (f' (b - 1, y))"
    using d(2) ab y by (simp add: canvas_def)
  then have dl: "y * p + a * 4 + (b - a) * 4 \<le> length d"
    using ab by (simp add: lgp_read_u32_le_def diff_mult_distrib split: if_splits)
  then obtain d' where m: "memcpy d (y * p + a * 4) ?src ?so ((b - a) * 4) = Some d'"
    using len by (simp add: memcpy_def)
  have "lgp_read_u32_le d' (y' * p + x * 4) = Some (paint ({a..<b} \<times> {y}) (over mem s) f' (x, y'))"
    if xy: "x < w" "y' < h" for x y'
  proof (cases "y' = y \<and> a \<le> x \<and> x < b")
    case True
    have "lgp_read_u32_le d' (y * p + x * 4) = lgp_read_u32_le ?src (?so + (y * p + x * 4 - (y * p + a * 4)))"
      by (rule read_memcpy_inside [OF m]) (use True in \<open>simp_all add: diff_mult_distrib\<close>)
    also have "?so + (y * p + x * 4 - (y * p + a * 4)) = src_offset s (x, y)"
      using off [of x] True by (simp add: diff_mult_distrib)
    also have "lgp_read_u32_le ?src (src_offset s (x, y)) = Some (src_pixel mem s (x, y))"
      using src_covered(2) [of s mem, OF s] row True by simp
    finally show ?thesis using True f by (simp add: paint_def over_def Let_def)
  next
    case False
    have "y' * p + x * 4 + 4 \<le> y * p + a * 4 \<or> y * p + a * 4 + (b - a) * 4 \<le> y' * p + x * 4"
    proof (cases "y' = y")
      case True
      then show ?thesis using False ab by (auto simp: diff_mult_distrib)
    next
      case n: False
      show ?thesis
        using pixel_offsets [OF p xy(1), of a y' y] pixel_offsets [OF p xy(1), of "b - 1" y' y] n ab
          mult_le_mono1 [of "Suc y'" y p] mult_le_mono1 [of "Suc y" y' p] p xy(1)
        by (cases "y' < y") (simp_all add: diff_mult_distrib)
    qed
    with read_memcpy_outside [OF m] d(2) xy False show ?thesis
      by (auto simp: canvas_def paint_def)
  qed
  with m length_memcpy [OF m] d(1)
  show "\<exists>d'. memcpy d (y * p + a * 4) ?src ?so ((b - a) * 4) = Some d' \<and> length d' = n \<and>
      canvas w h p d' (paint ({a..<b} \<times> {y}) (over mem s) f')"
    by (auto simp: canvas_def)
qed

lemma argb_row_draws:
  assumes s: "surface_ok s" "in_use s" "buffer_map s \<noteq> 0" "buffer_size s \<le> length (mem (buffer_map s))"
    and f: "pixel_format s = LGP_PIXEL_FORMAT_ARGB8888"
    and p: "4 * w \<le> p" and y: "y < h" and b: "b \<le> w"
    and row: "\<And>x. a \<le> x \<Longrightarrow> x < b \<Longrightarrow> (x, y) \<in> surface_region s"
  shows "draws w h p n (for_each (draw_argb_pixel (mem (buffer_map s))
      (nat (int y - surf_y s) * unat (stride s)) (y * p) (surf_x s)) [int a..int b - 1])
     ({a..<b} \<times> {y}) (over mem s)"
proof -
  have "draws w h p n (for_each (draw_argb_pixel (mem (buffer_map s))
      (nat (int y - surf_y s) * unat (stride s)) (y * p) (surf_x s)) [int a..int b - 1])
     (\<Union>i \<in> set [int a..int b - 1]. {(nat i, y)}) (over mem s)"
  proof (rule draws_for_each)
    fix i assume i: "i \<in> set [int a..int b - 1]"
    have "draws w h p n (draw_argb_pixel (mem (buffer_map s)) (nat (int y - surf_y s) * unat (stride s))
      (y * p) (surf_x s) (int (nat i))) {(nat i, y)} (over mem s)"
      by (rule argb_pixel_draws [where s = s and mem = mem and x = "nat i" and y = y, OF s f p row])
         (use i b y in auto)
    with i show "draws w h p n (draw_argb_pixel (mem (buffer_map s)) (nat (int y - surf_y s) * unat (stride s))
      (y * p) (surf_x s) i) {(nat i, y)} (over mem s)" by simp
  qed auto
  moreover have "(\<Union>i \<in> set [int a..int b - 1]. {(nat i, y)}) = {a..<b} \<times> {y}"
  proof -
    have "(x, y) \<in> (\<Union>i \<in> set [int a..int b - 1]. {(nat i, y)})" if "a \<le> x" "x < b" for x
      using that by (intro UN_I [of "int x"]) simp_all
    then show ?thesis by auto
  qed
  ultimately show ?thesis by simp
qed

lemma row_draws:
  assumes s: "surface_ok s" "in_use s" "buffer_map s \<noteq> 0" "buffer_size s \<le> length (mem (buffer_map s))"
    and p: "4 * w \<le> unat pitch" and y: "y < h" and ab: "a < b" "b \<le> w"
    and row: "\<And>x. a \<le> x \<Longrightarrow> x < b \<Longrightarrow> (x, y) \<in> surface_region s"
  shows "draws w h (unat pitch) n
     (draw_row s (mem (buffer_map s)) pitch (int a) (int b) (int y)) ({a..<b} \<times> {y}) (over mem s)"
proof (cases "pixel_format s = LGP_PIXEL_FORMAT_ARGB8888")
  case True
  then have "draw_row s (mem (buffer_map s)) pitch (int a) (int b) (int y) =
      for_each (draw_argb_pixel (mem (buffer_map s))
        (nat (int y - surf_y s) * unat (stride s)) (y * unat pitch) (surf_x s)) [int a..int b - 1]"
    by (simp add: draw_row_def [abs_def] Let_def)
  with argb_row_draws [of s mem, OF s True p y ab(2) row] show ?thesis by simp
next
  case False
  then have x: "pixel_format s = LGP_PIXEL_FORMAT_XRGB8888" using s by (auto simp: surface_ok_def)
  have "nat (int b - int a) = b - a" by simp
  with x have "draw_row s (mem (buffer_map s)) pitch (int a) (int b) (int y) =
      (\<lambda>d. memcpy d (y * unat pitch + a * 4) (mem (buffer_map s)) (src_offset s (a, y)) ((b - a) * 4))"
    by (simp add: draw_row_def [abs_def] Let_def src_offset_def)
  with xrgb_row_draws [of s mem, OF s x p y ab row] show ?thesis by simp
qed

text \<open>The part of the surface on the screen: the bounds \<open>draw_surface\<close> computes, as screen coordinates.\<close>

definition clip_lo :: "int \<Rightarrow> nat" where
  "clip_lo x = nat (max 0 x)"

definition clip_hi :: "nat \<Rightarrow> int \<Rightarrow> nat \<Rightarrow> nat" where
  "clip_hi W x v = nat (min (int W) (x + int v))"

lemma clip_range:
  "i < W \<Longrightarrow> x \<le> int i \<and> int i < x + int v \<longleftrightarrow> i \<in> {clip_lo x..<clip_hi W x v}"
  by (simp add: clip_lo_def clip_hi_def zless_nat_eq_int_zless nat_le_iff)

lemma surface_region_clip:
  "surface_region s \<inter> {..<W} \<times> {..<H} =
     {clip_lo (surf_x s)..<clip_hi W (surf_x s) (unat (surf_width s))} \<times>
     {clip_lo (surf_y s)..<clip_hi H (surf_y s) (unat (surf_height s))} \<inter> {..<W} \<times> {..<H}"
  using clip_range [of _ W "surf_x s" "unat (surf_width s)"] clip_range [of _ H "surf_y s" "unat (surf_height s)"]
  unfolding surface_region_def by blast

lemma draw_surface_clip:
  assumes s: "surface_ok s" "in_use s" and w: "unat dw < 2 ^ 31" "unat dh < 2 ^ 31"
  defines "a \<equiv> clip_lo (surf_x s)" and "b \<equiv> clip_hi (unat dw) (surf_x s) (unat (surf_width s))"
    and "c \<equiv> clip_lo (surf_y s)" and "d \<equiv> clip_hi (unat dh) (surf_y s) (unat (surf_height s))"
  shows "draw_surface mem dw dh pitch s dst = (if b \<le> a \<or> d \<le> c then Some dst
      else for_each (draw_row s (mem (buffer_map s)) pitch (int a) (int b)) [int c..int d - 1] dst)"
proof -
  have r: "unat (surf_width s) \<le> 16384" "unat (surf_height s) \<le> 16384"
    "- 16384 \<le> surf_x s" "surf_x s \<le> 65535" "- 16384 \<le> surf_y s" "surf_y s \<le> 65535"
    using s by (auto simp: surface_ok_def)
  have sw: "sint (surf_width s) = int (unat (surf_width s))" "sint (surf_height s) = int (unat (surf_height s))"
    "sint dw = int (unat dw)" "sint dh = int (unat dh)"
    using r w by (simp_all add: sint_small)
  have p31: "(2 :: int) ^ 31 = 2147483648" by simp
  have i32: "in_int32 (surf_x s + int (unat (surf_width s)))" "in_int32 (surf_y s + int (unat (surf_height s)))"
    unfolding in_int32_def p31 using r by linarith+
  have lo: "(if x < 0 then 0 else x) = int (clip_lo x)" for x by (simp add: clip_lo_def max_def)
  have hi: "(if x + int v > int W then int W else x + int v) = int (clip_hi W x v) \<or>
      (if x + int v > int W then int W else x + int v) \<le> 0 \<and> clip_hi W x v = 0" for x v W
    by (auto simp: clip_hi_def min_def)
  show ?thesis
    using i32 hi [of "unat dw" "surf_x s" "unat (surf_width s)"] hi [of "unat dh" "surf_y s" "unat (surf_height s)"]
    unfolding draw_surface_def Let_def sw lo a_def b_def c_def d_def by (auto simp del: of_nat_unat)
qed

lemma rows_union: "(\<Union>i \<in> set [int c..int d - 1]. {a..<b} \<times> {nat i}) = {a..<b} \<times> {c..<d}"
proof -
  have "(x, y) \<in> (\<Union>i \<in> set [int c..int d - 1]. {a..<b} \<times> {nat i})" if "a \<le> x" "x < b" "c \<le> y" "y < d" for x y
    using that by (intro UN_I [of "int y"]) simp_all
  then show ?thesis by auto
qed

lemma surface_draws:
  assumes s: "surface_ok s" "in_use s" "buffer_map s \<noteq> 0" "buffer_size s \<le> length (mem (buffer_map s))"
    and p: "4 * unat dw \<le> unat pitch" and w: "unat dw < 2 ^ 31" "unat dh < 2 ^ 31"
  shows "draws (unat dw) (unat dh) (unat pitch) n (draw_surface mem dw dh pitch s)
     (surface_region s) (over mem s)"
proof -
  let ?W = "unat dw" and ?H = "unat dh"
  let ?a = "clip_lo (surf_x s)" and ?b = "clip_hi ?W (surf_x s) (unat (surf_width s))"
    and ?c = "clip_lo (surf_y s)" and ?d = "clip_hi ?H (surf_y s) (unat (surf_height s))"
  note region = surface_region_clip [of s ?W ?H] and ds = draw_surface_clip [OF s(1,2) w, of mem pitch]
  show ?thesis
  proof (cases "?b \<le> ?a \<or> ?d \<le> ?c")
    case True
    then have "draw_surface mem dw dh pitch s = Some" using ds by auto
    moreover have "{} \<inter> {..<?W} \<times> {..<?H} = surface_region s \<inter> {..<?W} \<times> {..<?H}"
      unfolding region using True by auto
    ultimately show ?thesis
      using draws_outside [OF draws_skip, of ?W ?H "surface_region s"] by simp
  next
    case False
    then have lt: "?a < ?b" "?c < ?d" by simp_all
    have le: "?b \<le> ?W" "?d \<le> ?H" by (simp_all add: clip_hi_def nat_le_iff del: of_nat_unat)
    have inr: "(x, y) \<in> surface_region s" if "?a \<le> x" "x < ?b" "?c \<le> y" "y < ?d" for x y
    proof -
      have "(x, y) \<in> {?a..<?b} \<times> {?c..<?d} \<inter> {..<?W} \<times> {..<?H}" using that le by simp
      then show ?thesis unfolding region [symmetric] by (rule IntD1)
    qed
    have "draws ?W ?H (unat pitch) n (for_each (draw_row s (mem (buffer_map s)) pitch (int ?a) (int ?b))
        [int ?c..int ?d - 1]) (\<Union>i \<in> set [int ?c..int ?d - 1]. {?a..<?b} \<times> {nat i}) (over mem s)"
    proof (rule draws_for_each)
      fix i assume i: "i \<in> set [int ?c..int ?d - 1]"
      have "draws ?W ?H (unat pitch) n (draw_row s (mem (buffer_map s)) pitch (int ?a) (int ?b) (int (nat i)))
          ({?a..<?b} \<times> {nat i}) (over mem s)"
        by (rule row_draws [of s mem, OF s p _ lt(1) le(1)]) (use i le inr in auto)
      with i show "draws ?W ?H (unat pitch) n (draw_row s (mem (buffer_map s)) pitch (int ?a) (int ?b) i)
          ({?a..<?b} \<times> {nat i}) (over mem s)" by simp
    qed auto
    moreover have "draw_surface mem dw dh pitch s =
        for_each (draw_row s (mem (buffer_map s)) pitch (int ?a) (int ?b)) [int ?c..int ?d - 1]"
      using ds False by (auto simp: fun_eq_iff)
    ultimately show ?thesis using draws_outside region unfolding rows_union by simp
  qed
qed

lemma slot_renders:
  assumes s: "surface_ok s" "shown_on layer s \<longrightarrow> buffer_size s \<le> length (mem (buffer_map s))"
    and p: "4 * unat dw \<le> unat pitch" and w: "unat dw < 2 ^ 31" "unat dh < 2 ^ 31"
  shows "renders (unat dw) (unat dh) (unat pitch) n (composite_slot mem dw dh pitch layer s)
     (paint_slot mem layer s)"
proof (cases "shown_on layer s")
  case True
  then have "composite_slot mem dw dh pitch layer s = draw_surface mem dw dh pitch s"
    by (simp add: composite_slot_def [abs_def] shown_on_def)
  with surface_draws [of s mem, OF s(1) _ _ _ p w] True s(2) show ?thesis
    by (simp add: draws_renders paint_slot_def shown_on_def)
next
  case False
  then have "composite_slot mem dw dh pitch layer s = Some"
    by (auto simp: composite_slot_def [abs_def] shown_on_def fun_eq_iff)
  with False renders_id show ?thesis by (simp add: paint_slot_def)
qed

lemma cursor_pixel_draws:
  assumes c: "- (2 ^ 30) \<le> cur_x c" "cur_x c \<le> 2 ^ 30"
    and p: "4 * unat dw \<le> unat pitch" and w: "unat dw < 2 ^ 31"
    and y: "0 \<le> cur_y c + int j" "cur_y c + int j < int h" and ij: "i < 8" "j < 12"
  shows "draws (unat dw) h (unat pitch) n
     (draw_cursor_pixel c dw pitch (cur_y c + int j) j i)
     ({q. cursor_value c q \<noteq> 0} \<inter> {q. int (fst q) = cur_x c + int i \<and> int (snd q) = cur_y c + int j})
     (cursor_color c)"
    (is "draws _ _ _ _ ?step ?A _")
proof -
  let ?x = "cur_x c + int i" and ?y = "cur_y c + int j" and ?v = "cursor_bitmap ! j ! i"
  have i32: "in_int32 ?x" using c ij by (simp add: in_int32_def)
  have dw: "sint dw = int (unat dw)" using w by (rule sint_small)
  have val: "cursor_value c (nat ?x, nat ?y) = ?v" if "0 \<le> ?x"
    using that y ij by (simp add: cursor_value_def)
  show ?thesis
  proof (cases "0 \<le> ?x \<and> ?x < int (unat dw) \<and> ?v \<noteq> 0")
    case True
    then have A: "?A = {(nat ?x, nat ?y)}" using val y by (auto simp: prod_eq_iff)
    have "draws (unat dw) h (unat pitch) n ?step {(nat ?x, nat ?y)} (cursor_color c)"
    proof (rule draws_pixel [where keep = False, OF p])
      fix d v
      show "?step d = (if False then Some d else
          memcpy d (nat ?y * unat pitch + nat ?x * 4) (lgp_write_u32_le (cursor_color c (nat ?x, nat ?y) v)) 0 4)"
        using True i32 dw val by (simp add: draw_cursor_pixel_def Let_def cursor_color_def)
    qed (use True y in \<open>auto simp: nat_less_iff\<close>)
    with A show ?thesis by simp
  next
    case False
    then have "?step = Some"
      using i32 dw by (auto simp: draw_cursor_pixel_def [abs_def] Let_def fun_eq_iff)
    moreover have "?A \<inter> {..<unat dw} \<times> {..<h} = {}"
    proof (rule equals0I)
      fix q assume "q \<in> ?A \<inter> {..<unat dw} \<times> {..<h}"
      then have q: "cursor_value c q \<noteq> 0" "int (fst q) = ?x" "int (snd q) = ?y" "fst q < unat dw" by auto
      then have "q = (nat ?x, nat ?y)" "0 \<le> ?x" "?x < int (unat dw)"
        by (simp_all add: prod_eq_iff flip: q(2,3)) (metis int_eq_iff of_nat_less_iff of_nat_unat uint_ge_0)
      with q(1) val False show False by simp
    qed
    ultimately show ?thesis using draws_outside [OF draws_skip, of _ _ ?A] by simp
  qed
qed

definition cursor_ok :: "lgp_cursor \<Rightarrow> bool" where
  "cursor_ok c \<longleftrightarrow> - (2 ^ 30) \<le> cur_x c \<and> cur_x c \<le> 2 ^ 30 \<and> - (2 ^ 30) \<le> cur_y c \<and> cur_y c \<le> 2 ^ 30"

lemma cursor_row_draws:
  assumes c: "cursor_ok c" and p: "4 * unat dw \<le> unat pitch"
    and w: "unat dw < 2 ^ 31" "unat dh < 2 ^ 31" and j: "j < 12"
  shows "draws (unat dw) (unat dh) (unat pitch) n (draw_cursor_row c dw dh pitch j)
     {q. cursor_value c q \<noteq> 0 \<and> int (snd q) = cur_y c + int j} (cursor_color c)"
    (is "draws _ _ _ _ _ ?A _")
proof -
  let ?y = "cur_y c + int j"
  let ?B = "\<lambda>i :: nat. {q. cursor_value c q \<noteq> 0} \<inter>
      {q. int (fst q) = cur_x c + int i \<and> int (snd q) = ?y}"
  have i32: "in_int32 ?y" using c j by (simp add: cursor_ok_def in_int32_def)
  have dh: "sint dh = int (unat dh)" using w(2) by (rule sint_small)
  show ?thesis
  proof (cases "0 \<le> ?y \<and> ?y < int (unat dh)")
    case True
    have "draws (unat dw) (unat dh) (unat pitch) n
        (for_each (draw_cursor_pixel c dw pitch ?y j) [0..<8]) (\<Union>i \<in> set [0..<8]. ?B i) (cursor_color c)"
    proof (rule draws_for_each)
      fix i assume "i \<in> set [0..<8 :: nat]"
      then show "draws (unat dw) (unat dh) (unat pitch) n (draw_cursor_pixel c dw pitch ?y j i)
          (?B i) (cursor_color c)"
        using cursor_pixel_draws [of c dw pitch j "unat dh" i n] c p w(1) True j
        by (simp add: cursor_ok_def)
    qed auto
    moreover have "(\<Union>i \<in> set [0..<8]. ?B i) = ?A"
    proof -
      have "q \<in> (\<Union>i \<in> set [0..<8]. ?B i)" if "q \<in> ?A" for q
      proof -
        from that have "0 \<le> int (fst q) - cur_x c" "int (fst q) - cur_x c < 8"
          by (auto simp: cursor_value_def Let_def split: if_splits)
        with that show ?thesis by (intro UN_I [of "nat (int (fst q) - cur_x c)"]) auto
      qed
      then show ?thesis by auto
    qed
    moreover have "draw_cursor_row c dw dh pitch j = for_each (draw_cursor_pixel c dw pitch ?y j) [0..<8]"
      unfolding draw_cursor_row_def [abs_def] Let_def dh using True i32 by (auto simp: fun_eq_iff)
    ultimately show ?thesis by simp
  next
    case False
    have "draw_cursor_row c dw dh pitch j = Some"
      unfolding draw_cursor_row_def [abs_def] Let_def dh using False i32 by (auto simp: fun_eq_iff)
    moreover have "{} \<inter> {..<unat dw} \<times> {..<unat dh} = ?A \<inter> {..<unat dw} \<times> {..<unat dh}"
    proof -
      have "q \<notin> ?A" if "q \<in> {..<unat dw} \<times> {..<unat dh}" for q
      proof
        assume "q \<in> ?A"
        then have "int (snd q) = ?y" by simp
        moreover from that have "snd q < unat dh" by auto
        then have "int (snd q) < int (unat dh)" by (simp only: of_nat_less_iff)
        ultimately show False using False by linarith
      qed
      then show ?thesis by blast
    qed
    ultimately show ?thesis using draws_outside [OF draws_skip, of "unat dw" "unat dh" ?A] by simp
  qed
qed

lemma cursor_draws:
  assumes c: "cursor_ok c" and p: "4 * unat dw \<le> unat pitch"
    and w: "unat dw < 2 ^ 31" "unat dh < 2 ^ 31"
  shows "draws (unat dw) (unat dh) (unat pitch) n (draw_software_cursor c dw dh pitch)
     {q. cursor_value c q \<noteq> 0} (cursor_color c)"
proof -
  let ?A = "\<lambda>j :: nat. {q. cursor_value c q \<noteq> 0 \<and> int (snd q) = cur_y c + int j}"
  have "draws (unat dw) (unat dh) (unat pitch) n (for_each (draw_cursor_row c dw dh pitch) [0..<12])
      (\<Union>j \<in> set [0..<12]. ?A j) (cursor_color c)"
    by (rule draws_for_each) (use cursor_row_draws [OF c p w] in auto)
  moreover have "(\<Union>j \<in> set [0..<12]. ?A j) = {q. cursor_value c q \<noteq> 0}"
  proof -
    have "q \<in> (\<Union>j \<in> set [0..<12]. ?A j)" if "cursor_value c q \<noteq> 0" for q
    proof -
      from that have "0 \<le> int (snd q) - cur_y c" "int (snd q) - cur_y c < 12"
        by (auto simp: cursor_value_def Let_def split: if_splits)
      with that show ?thesis by (intro UN_I [of "nat (int (snd q) - cur_y c)"]) auto
    qed
    then show ?thesis by auto
  qed
  ultimately show ?thesis by (simp add: draw_software_cursor_def [abs_def])
qed

text \<open>Every mapping the scene would read is backed by as many bytes as the client announced.\<close>

definition buffers_backed :: "(nat \<Rightarrow> u8 list) \<Rightarrow> lgp_surface_manager \<Rightarrow> bool" where
  "buffers_backed mem m \<longleftrightarrow>
     list_all (\<lambda>s. in_use s \<and> buffer_map s \<noteq> 0 \<longrightarrow> buffer_size s \<le> length (mem (buffer_map s))) (surfaces m)"

lemma pitch_nat:
  assumes "unat dw < 2 ^ 30" "\<not> pitch < dw * 4" shows "4 * unat dw \<le> unat (pitch :: u32)"
proof -
  have "unat (dw * 4) = 4 * unat dw" using assms(1) by (simp add: unat_mult_lem [THEN iffD1] mult.commute)
  with assms(2) show ?thesis by (simp add: word_less_nat_alt)
qed

lemma composite_picture:
  assumes m: "manager_ok m" "buffers_backed mem m" and c: "cursor_ok c"
    and d: "0 < unat dw" "0 < unat dh" "unat dw < 2 ^ 30" "unat dh < 2 ^ 30" "\<not> pitch < dw * 4"
    and l: "unat dh * unat pitch \<le> length dst"
  shows "\<exists>d'. lgp_surface_manager_composite mem c m dst dw dh pitch = Some (d', 0) \<and>
     length d' = length dst \<and> canvas (unat dw) (unat dh) (unat pitch) d' (scene_picture mem c m)"
proof -
  let ?W = "unat dw" and ?H = "unat dh" and ?P = "unat pitch" and ?n = "length dst"
  have p: "4 * ?W \<le> ?P" using pitch_nat [OF d(3,5)] .
  have w: "?W < 2 ^ 31" "?H < 2 ^ 31" using d by simp_all
  obtain f where f: "canvas ?W ?H ?P dst f" using canvas_exists [OF p d(1,2) l] by blast
  from fill_void_draws [OF p, of dh ?n] f obtain d1 where d1: "fill_void dw dh pitch dst = Some d1"
    "length d1 = ?n" "canvas ?W ?H ?P d1 (paint ({..<?W} \<times> {..<?H}) (\<lambda>q v. LGP_LUNA_VOID_XRGB8888) f)"
    by (auto simp: draws_def)
  have v: "canvas ?W ?H ?P d1 (\<lambda>q. LGP_LUNA_VOID_XRGB8888)"
    using d1(3) by (auto simp: canvas_def paint_def)
  have slot: "renders ?W ?H ?P ?n (composite_slot mem dw dh pitch layer s) (paint_slot mem layer s)"
    if "s \<in> set (surfaces m)" for s layer
    by (rule slot_renders [OF _ _ p w])
       (use that m in \<open>auto simp: manager_ok_def buffers_backed_def list_all_iff shown_on_def\<close>)
  have "renders ?W ?H ?P ?n (for_each (\<lambda>layer. for_each (composite_slot mem dw dh pitch layer) (surfaces m)) layer_order)
      (fold (\<lambda>layer. fold (paint_slot mem layer) (surfaces m)) layer_order)"
    by (intro renders_for_each slot)
  with d1(2) v obtain d2 where d2:
    "for_each (\<lambda>layer. for_each (composite_slot mem dw dh pitch layer) (surfaces m)) layer_order d1 = Some d2"
    "length d2 = ?n" "canvas ?W ?H ?P d2
      (fold (\<lambda>layer. fold (paint_slot mem layer) (surfaces m)) layer_order (\<lambda>q. LGP_LUNA_VOID_XRGB8888))"
    unfolding renders_def by blast
  with cursor_draws [OF c p w, of ?n] obtain d3 where d3: "draw_software_cursor c dw dh pitch d2 = Some d3"
    "length d3 = ?n" "canvas ?W ?H ?P d3 (scene_picture mem c m)"
    unfolding draws_def scene_picture_def by blast
  have "dw \<noteq> 0" "dh \<noteq> 0" using d(1,2) by auto
  with d(5) d1(1) d2(1) d3 show ?thesis by (simp add: lgp_surface_manager_composite_def)
qed

section \<open>What a completed frame has read\<close>

lemma for_each_all:
  "for_each f xs s = Some s' \<Longrightarrow> x \<in> set xs \<Longrightarrow> \<exists>t t'. f x t = Some t'"
proof (induction xs arbitrary: s)
  case (Cons y ys)
  then show ?case by (cases "f y s") auto
qed simp

lemma draw_row_reads:
  assumes "draw_row s src pitch (int a) (int b) (int y) d = Some d'" "a \<le> x" "x < b"
    "surf_x s \<le> int a"
    "pixel_format s = LGP_PIXEL_FORMAT_XRGB8888 \<or> pixel_format s = LGP_PIXEL_FORMAT_ARGB8888"
  shows "src_offset s (x, y) + 4 \<le> length src"
proof (cases "pixel_format s = LGP_PIXEL_FORMAT_ARGB8888")
  case True
  with assms(1) have "for_each (draw_argb_pixel src (nat (int y - surf_y s) * unat (stride s))
      (y * unat pitch) (surf_x s)) [int a..int b - 1] d = Some d'"
    by (simp add: draw_row_def Let_def)
  from for_each_all [OF this, of "int x"] assms(2,3) obtain t t' where
    "draw_argb_pixel src (nat (int y - surf_y s) * unat (stride s)) (y * unat pitch) (surf_x s) (int x) t = Some t'"
    by auto
  then have "lgp_read_u32_le src (src_offset s (x, y)) \<noteq> None"
    by (auto simp: draw_argb_pixel_def Let_def src_offset_def split: bind_splits)
  then show ?thesis by (simp add: lgp_read_u32_le_def split: if_splits)
next
  case False
  with assms(1,5) have "memcpy d (y * unat pitch + a * 4) src
      (nat (int y - surf_y s) * unat (stride s) + nat (int a - surf_x s) * 4) (nat (int b - int a) * 4) = Some d'"
    by (auto simp: draw_row_def Let_def)
  then have "nat (int y - surf_y s) * unat (stride s) + nat (int a - surf_x s) * 4 + nat (int b - int a) * 4
      \<le> length src"
    by (auto simp: memcpy_def split: if_splits)
  moreover have "nat (int x - surf_x s) * 4 + 4 \<le> nat (int a - surf_x s) * 4 + nat (int b - int a) * 4"
    using assms(2-4) by linarith
  ultimately show ?thesis by (simp add: src_offset_def)
qed

lemma draw_surface_reads:
  assumes s: "surface_ok s" "in_use s" "buffer_map s \<noteq> 0"
    and w: "unat dw < 2 ^ 31" "unat dh < 2 ^ 31"
    and d: "draw_surface mem dw dh pitch s dst = Some dst'"
    and q: "(x, y) \<in> surface_region s" "x < unat dw" "y < unat dh"
  shows "src_offset s (x, y) + 4 \<le> length (mem (buffer_map s))"
proof -
  let ?sw = "int (unat (surf_width s))" and ?sh = "int (unat (surf_height s))"
  have b: "unat (surf_width s) \<le> 16384" "unat (surf_height s) \<le> 16384"
    "- 16384 \<le> surf_x s" "surf_x s \<le> 65535" "- 16384 \<le> surf_y s" "surf_y s \<le> 65535"
    and fmt: "pixel_format s = LGP_PIXEL_FORMAT_XRGB8888 \<or> pixel_format s = LGP_PIXEL_FORMAT_ARGB8888"
    using s by (auto simp: surface_ok_def)
  have sw: "sint (surf_width s) = ?sw" "sint (surf_height s) = ?sh"
    using b by (simp_all add: sint_small)
  have dwh: "sint dw = int (unat dw)" "sint dh = int (unat dh)" using w by (simp_all add: sint_small)
  have p31: "(2 :: int) ^ 31 = 2147483648" by simp
  have i32: "in_int32 (surf_x s + ?sw)" "in_int32 (surf_y s + ?sh)"
    unfolding in_int32_def p31 using b by linarith+
  define a where "a = (if surf_x s < 0 then 0 else surf_x s)"
  define c where "c = (if surf_y s < 0 then 0 else surf_y s)"
  define ex where "ex = (if surf_x s + ?sw > int (unat dw) then int (unat dw) else surf_x s + ?sw)"
  define ey where "ey = (if surf_y s + ?sh > int (unat dh) then int (unat dh) else surf_y s + ?sh)"
  have r: "surf_x s \<le> int x" "int x < surf_x s + ?sw" "surf_y s \<le> int y" "int y < surf_y s + ?sh"
    using q(1) unfolding surface_region_def by blast+
  have xd: "int x < int (unat dw)" "int y < int (unat dh)"
    using q(2,3) by (simp_all only: of_nat_less_iff)
  have in_clip: "a \<le> int x" "int x < ex" "c \<le> int y" "int y < ey" "0 \<le> a" "surf_x s \<le> a"
    unfolding a_def c_def ex_def ey_def using r xd by auto
  have "for_each (draw_row s (mem (buffer_map s)) pitch a ex) [c..ey - 1] dst = Some dst'"
    using d in_clip i32
    unfolding draw_surface_def Let_def sw dwh a_def [symmetric] c_def [symmetric] ex_def [symmetric] ey_def [symmetric]
    by (simp split: if_splits del: of_nat_unat)
  from for_each_all [OF this, of "int y"] in_clip obtain t t' where
    t: "draw_row s (mem (buffer_map s)) pitch a ex (int y) t = Some t'" by auto
  have "a = int (nat a)" "ex = int (nat ex)" using in_clip by auto
  with t have "draw_row s (mem (buffer_map s)) pitch (int (nat a)) (int (nat ex)) (int y) t = Some t'" by simp
  then show ?thesis
    by (rule draw_row_reads) (use in_clip fmt in auto)
qed

lemma composite_reads:
  assumes m: "manager_ok m" and w: "unat dw < 2 ^ 31" "unat dh < 2 ^ 31"
    and r: "lgp_surface_manager_composite mem c m dst dw dh pitch = Some (d', 0)"
    and s: "s \<in> set (surfaces m)" "shown_on layer s" "layer \<in> set layer_order"
    and q: "(x, y) \<in> surface_region s" "x < unat dw" "y < unat dh"
  shows "src_offset s (x, y) + 4 \<le> length (mem (buffer_map s))"
proof -
  from r obtain d1 d2 where
    "for_each (\<lambda>layer. for_each (composite_slot mem dw dh pitch layer) (surfaces m)) layer_order d1 = Some d2"
    by (auto simp: lgp_surface_manager_composite_def split: if_splits bind_splits)
  from for_each_all [OF this s(3)] obtain t t' where
    "for_each (composite_slot mem dw dh pitch layer) (surfaces m) t = Some t'" by blast
  from for_each_all [OF this s(1)] obtain u u' where
    "composite_slot mem dw dh pitch layer s u = Some u'" by blast
  with s(2) have "draw_surface mem dw dh pitch s u = Some u'"
    by (simp add: composite_slot_def shown_on_def)
  moreover have "surface_ok s" using m s(1) by (simp add: manager_ok_def list_all_iff)
  ultimately show ?thesis
    using draw_surface_reads [of s dw dh mem pitch u u' x y] w q s(2) by (simp add: shown_on_def)
qed

section \<open>The cursor stays on the screen\<close>

lemma cursor_set_position_range:
  assumes "0 < sint (cur_screen_width c)" "0 < sint (cur_screen_height c)"
  shows "0 \<le> cur_x (lgp_cursor_set_position x y c)"
    "cur_x (lgp_cursor_set_position x y c) < sint (cur_screen_width c)"
    "0 \<le> cur_y (lgp_cursor_set_position x y c)"
    "cur_y (lgp_cursor_set_position x y c) < sint (cur_screen_height c)"
  using assms by (auto simp: lgp_cursor_set_position_def Let_def)

text \<open>
  C7: composition draws the scene. For a well-formed surface table whose buffers are backed by
  the announced number of bytes, and a destination of up to \<open>2\<^sup>3\<^sup>0\<close> columns and rows that holds its
  rows, composition succeeds, stays inside the destination and every source buffer, and leaves at
  every pixel the value of \<open>scene_picture\<close>: the void colour, then every shown surface from the
  lowest to the highest layer and within a layer in slot order, copied or blended by its format and
  clipped to the screen, then the cursor.
\<close>

theorem composite_draws_scene:
  assumes "manager_ok m" "buffers_backed mem m" "cursor_ok c"
    "0 < unat dw" "0 < unat dh" "unat dw < 2 ^ 30" "unat dh < 2 ^ 30" "\<not> pitch < dw * 4"
    "unat dh * unat pitch \<le> length dst"
  shows "\<exists>d'. lgp_surface_manager_composite mem c m dst dw dh pitch = Some (d', 0) \<and>
     length d' = length dst \<and>
     (\<forall>x y. x < unat dw \<longrightarrow> y < unat dh \<longrightarrow>
        lgp_read_u32_le d' (y * unat pitch + x * 4) = Some (scene_picture mem c m (x, y)))"
  using composite_picture [OF assms] unfolding canvas_def by blast

lemma fold_paint_zero: "fold (paint_slot mem l) (replicate n zero_surface) f = f"
  by (induction n) (simp_all add: paint_slot_def shown_on_def)

definition demo_surface :: lgp_surface where
  "demo_surface = \<lparr>in_use = True, surf_id = 1, owner_session_id = 3, surface_type = 4, surf_x = 0,
     surf_y = 0, surf_width = 1, surf_height = 1, surf_layer = 100, stride = 4,
     pixel_format = 0x34325258, buffer_size = 4, buffer_map = 5, wm_state = 0\<rparr>"

definition demo_manager :: lgp_surface_manager where
  "demo_manager = \<lparr>next_surface_id = 2, surfaces = demo_surface # replicate 63 zero_surface\<rparr>"

definition demo_cursor :: lgp_cursor where
  "demo_cursor = \<lparr>cur_x = 1, cur_y = 0, cur_screen_width = 2, cur_screen_height = 1\<rparr>"

lemma demo_manager_ok: "manager_ok demo_manager"
proof -
  have "surface_ok demo_surface"
    by (simp add: demo_surface_def surface_ok_def layer_allowed_def)
  then show ?thesis by (simp add: manager_ok_def demo_manager_def list_all_iff)
qed

theorem composite_draws_scene_witness:
  "\<exists>d'. lgp_surface_manager_composite (\<lambda>a. [0x11, 0x22, 0x33, 0]) demo_cursor demo_manager
       (replicate 8 0) 2 1 8 = Some (d', 0) \<and>
     lgp_read_u32_le d' 0 = Some 0x332211 \<and> lgp_read_u32_le d' 4 = Some 0"
proof -
  let ?mem = "\<lambda>a :: nat. [0x11, 0x22, 0x33, 0 :: u8]"
  have "buffers_backed ?mem demo_manager"
    by (simp add: buffers_backed_def demo_manager_def demo_surface_def list_all_iff)
  moreover have "cursor_ok demo_cursor" by (simp add: cursor_ok_def demo_cursor_def)
  ultimately obtain d' where
    d': "lgp_surface_manager_composite ?mem demo_cursor demo_manager (replicate 8 0) 2 1 8 = Some (d', 0)"
    and px: "\<And>x y. x < 2 \<Longrightarrow> y < 1 \<Longrightarrow>
      lgp_read_u32_le d' (y * 8 + x * 4) = Some (scene_picture ?mem demo_cursor demo_manager (x, y))"
    using composite_draws_scene [OF demo_manager_ok, of ?mem demo_cursor 2 1 8 "replicate 8 0"] by auto
  have s: "scene_picture ?mem demo_cursor demo_manager =
      paint {q. cursor_value demo_cursor q \<noteq> 0} (cursor_color demo_cursor)
        (paint (surface_region demo_surface) (over ?mem demo_surface) (\<lambda>q. 0x000A0A0F))"
    by (simp add: scene_picture_def layer_order_def demo_manager_def fold_paint_zero
        paint_slot_def shown_on_def demo_surface_def)
  have "scene_picture ?mem demo_cursor demo_manager (0, 0) = 0x332211"
    unfolding s
    by (simp add: paint_def cursor_value_def demo_cursor_def surface_region_def over_def src_pixel_def
        src_offset_def demo_surface_def lgp_read_u32_le_def)
  moreover have "scene_picture ?mem demo_cursor demo_manager (1, 0) = 0"
    unfolding s by (simp add: paint_def cursor_value_def demo_cursor_def cursor_bitmap_def cursor_color_def)
  ultimately show ?thesis using d' px [of 0 0] px [of 1 0] by auto
qed

text \<open>
  A client can make composition fault. \<open>lgp_surface_manager_commit\<close> checks the announced
  size against the stride and height but never against the size of the file behind the descriptor.
  Whenever the mapping of a shown surface on a drawn layer holds fewer bytes than one visible pixel
  of it needs, composition reads beyond the file and does not complete.
\<close>

theorem short_buffer_faults:
  assumes "manager_ok m" "unat dw < 2 ^ 30" "unat dh < 2 ^ 30" "dw \<noteq> 0" "dh \<noteq> 0" "\<not> pitch < dw * 4"
    "s \<in> set (surfaces m)" "shown_on layer s" "layer \<in> set layer_order"
    "(x, y) \<in> surface_region s" "x < unat dw" "y < unat dh"
    "length (mem (buffer_map s)) < src_offset s (x, y) + 4"
  shows "lgp_surface_manager_composite mem c m dst dw dh pitch = None"
proof (rule ccontr)
  assume "lgp_surface_manager_composite mem c m dst dw dh pitch \<noteq> None"
  then obtain d' where r: "lgp_surface_manager_composite mem c m dst dw dh pitch = Some (d', 0)"
    using assms(4-6) by (auto simp: lgp_surface_manager_composite_def split: bind_splits)
  have "unat dw < 2 ^ 31" "unat dh < 2 ^ 31" using assms(2,3) by simp_all
  from composite_reads [OF assms(1) this r assms(7-12)] assms(13) show False by simp
qed

theorem short_buffer_faults_witness:
  "lgp_surface_manager_composite (\<lambda>a. []) demo_cursor demo_manager (replicate 8 0) 2 1 8 = None"
proof -
  have "demo_surface \<in> set (surfaces demo_manager)" by (simp add: demo_manager_def)
  moreover have "shown_on 100 demo_surface" by (simp add: shown_on_def demo_surface_def)
  moreover have "(0, 0) \<in> surface_region demo_surface"
    by (simp add: surface_region_def demo_surface_def)
  ultimately show ?thesis
    using short_buffer_faults [OF demo_manager_ok, of 2 1 8 demo_surface 100 0 0 "\<lambda>a. []" demo_cursor "replicate 8 0"]
    by (simp add: layer_order_def)
qed

end
