(* ===== verification/Lgp_Server.thy ===== *)
theory Lgp_Server
  imports Composite
begin

text \<open>
  The compositor's server side (\<open>main.c\<close> of the compositor): the state, the routing of input to
  clients, one handler per message, the dispatcher and the loop that takes frames out of a client's
  receive buffer. What the kernel answers is an argument, indexed by the number of the call; the
  state records what was sent and closed. Log lines and the epoll registrations are not modelled.
\<close>

section \<open>State\<close>

text \<open>
  \<open>lgp_compositor_state_t\<close> with the cursor, the front buffer and the display mode the handlers use.
  The clipboard is the C string it holds. \<open>wm_client\<close> is the address of a client. Three fields
  record the effects: the number of kernel calls made so far, the bytes each send delivered and the
  descriptors closed.
\<close>

record lgp_state =
  running :: bool
  next_session_id :: u32
  clients :: "lgp_client list"
  surface_manager :: lgp_surface_manager
  keyboard_focus_session_id :: u32
  keyboard_focus_surface_id :: u32
  global_clipboard :: "u8 list"
  grabbed_keys :: "(u32 \<times> u32) list"
  wm_client :: "nat option"
  cursor :: lgp_cursor
  hdisplay :: u16
  vdisplay :: u16
  fb_map :: "u8 list"
  fb_width :: u32
  fb_height :: u32
  fb_pitch :: u32
  kcalls :: nat
  sent :: "(int \<times> u8 list) list"
  closed :: "int list"

text \<open>
  What the kernel answers, by the number of the call: to the \<open>write\<close> calls of a send, to \<open>mmap\<close> and
  to a page flip, and what the mappings hold when a frame is drawn.
\<close>

record lgp_kernel =
  k_write :: "nat \<Rightarrow> write_answer list"
  k_mmap :: "nat \<Rightarrow> nat option"
  k_flip :: "nat \<Rightarrow> int"
  k_mem :: "nat \<Rightarrow> nat \<Rightarrow> u8 list"

type_synonym handled = "(lgp_state \<times> bool) option"

definition lgp_send :: "lgp_kernel \<Rightarrow> int \<Rightarrow> u8 list \<Rightarrow> lgp_state \<Rightarrow> lgp_state \<times> bool" where
  "lgp_send k fd buf st =
     (case lgp_write_all (k_write k (kcalls st)) buf of
        (ok, out) \<Rightarrow> (st\<lparr>kcalls := kcalls st + 1, sent := sent st @ [(fd, out)]\<rparr>, ok))"

text \<open>The client at an address, storing it back, and the window manager's client.\<close>

definition client_at :: "nat \<Rightarrow> lgp_state \<Rightarrow> lgp_client option" where
  "client_at a st = find (\<lambda>c. cl_addr c = a) (clients st)"

definition put_client :: "lgp_client \<Rightarrow> lgp_state \<Rightarrow> lgp_state" where
  "put_client c st = st\<lparr>clients := map (\<lambda>d. if cl_addr d = cl_addr c then c else d) (clients st)\<rparr>"

text \<open>
  \<open>state->wm_client\<close> followed to its target: \<open>Some None\<close> for a null pointer, \<open>None\<close> for a pointer to
  a client that is no longer there.
\<close>

definition wm_target :: "lgp_state \<Rightarrow> lgp_client option option" where
  "wm_target st = (case wm_client st of None \<Rightarrow> Some None | Some a \<Rightarrow> map_option Some (client_at a st))"

section \<open>Routing input to clients\<close>

definition lgp_send_to_session :: "lgp_kernel \<Rightarrow> u32 \<Rightarrow> u8 list \<Rightarrow> lgp_state \<Rightarrow> lgp_state" where
  "lgp_send_to_session k session frame st =
     (if session = 0 then st
      else case find (\<lambda>c. session_id c = session) (clients st) of
        None \<Rightarrow> st
      | Some c \<Rightarrow> fst (lgp_send k (cl_fd c) frame st))"

definition lgp_send_pointer_motion_to_session ::
    "lgp_kernel \<Rightarrow> u32 \<Rightarrow> int \<Rightarrow> int \<Rightarrow> lgp_state \<Rightarrow> lgp_state" where
  "lgp_send_pointer_motion_to_session k session x y =
     lgp_send_to_session k session
       (lgp_frame LGP_MSG_POINTER_MOTION
         (lgp_write_u32_le (word_of_int x) @ lgp_write_u32_le (word_of_int y)))"

definition lgp_send_pointer_button_to_session ::
    "lgp_kernel \<Rightarrow> u32 \<Rightarrow> u8 \<Rightarrow> bool \<Rightarrow> lgp_state \<Rightarrow> lgp_state" where
  "lgp_send_pointer_button_to_session k session button pressed =
     lgp_send_to_session k session
       (lgp_frame LGP_MSG_POINTER_BUTTON [button, if pressed then 1 else 0])"

text \<open>The hit test, with its sums undefined outside \<open>int32_t\<close>.\<close>

definition pointer_hit :: "lgp_surface \<Rightarrow> int \<Rightarrow> int \<Rightarrow> bool option" where
  "pointer_hit s x y =
     (if \<not> surf_x s \<le> x then Some False
      else if \<not> in_int32 (surf_x s + sint (surf_width s)) then None
      else if \<not> x < surf_x s + sint (surf_width s) then Some False
      else if \<not> surf_y s \<le> y then Some False
      else if \<not> in_int32 (surf_y s + sint (surf_height s)) then None
      else Some (y < surf_y s + sint (surf_height s)))"

text \<open>One round of the loop of \<open>lgp_find_pointer_target\<close>; the state is \<open>top_layer\<close> and \<open>target\<close>.\<close>

definition pointer_target_step ::
    "lgp_client option \<Rightarrow> int \<Rightarrow> int \<Rightarrow> lgp_surface \<Rightarrow> int \<times> lgp_surface option
      \<Rightarrow> (int \<times> lgp_surface option) option" where
  "pointer_target_step wm x y s acc =
     (if \<not> in_use s then Some acc
      else if (case wm of Some c \<Rightarrow> owner_session_id s = session_id c | None \<Rightarrow> False) then Some acc
      else if surf_layer s < LGP_LAYER_APPLICATION \<or> surf_layer s \<ge> LGP_LAYER_SHELL then Some acc
      else if wm_state s = LGP_WM_STATE_HIDDEN \<or> wm_state s = LGP_WM_STATE_MINIMIZED then Some acc
      else case pointer_hit s x y of
        None \<Rightarrow> None
      | Some False \<Rightarrow> Some acc
      | Some True \<Rightarrow>
          if sint (surf_layer s) > fst acc then Some (sint (surf_layer s), Some s) else Some acc)"

definition lgp_find_pointer_target :: "int \<Rightarrow> int \<Rightarrow> lgp_state \<Rightarrow> lgp_surface option option" where
  "lgp_find_pointer_target x y st = do {
     wm \<leftarrow> wm_target st;
     r \<leftarrow> for_each (pointer_target_step wm x y) (surfaces (surface_manager st)) (- 1, None);
     Some (snd r)
   }"

definition lgp_dispatch_pointer_motion :: "lgp_kernel \<Rightarrow> int \<Rightarrow> int \<Rightarrow> lgp_state \<Rightarrow> lgp_state option" where
  "lgp_dispatch_pointer_motion k x y st = do {
     wm \<leftarrow> wm_target st;
     let st1 = (case wm of None \<Rightarrow> st
                | Some c \<Rightarrow> lgp_send_pointer_motion_to_session k (session_id c) x y st);
     target \<leftarrow> lgp_find_pointer_target x y st1;
     (case target of
        None \<Rightarrow> Some st1
      | Some s \<Rightarrow>
          if in_int32 (x - surf_x s) \<and> in_int32 (y - surf_y s)
          then Some (lgp_send_pointer_motion_to_session k (owner_session_id s)
                       (x - surf_x s) (y - surf_y s) st1)
          else None)
   }"

definition lgp_dispatch_pointer_button ::
    "lgp_kernel \<Rightarrow> int \<Rightarrow> int \<Rightarrow> u8 \<Rightarrow> bool \<Rightarrow> lgp_state \<Rightarrow> lgp_state option" where
  "lgp_dispatch_pointer_button k x y button pressed st = do {
     wm \<leftarrow> wm_target st;
     let st1 = (case wm of None \<Rightarrow> st
                | Some c \<Rightarrow> lgp_send_pointer_button_to_session k (session_id c) button pressed st);
     target \<leftarrow> lgp_find_pointer_target x y st1;
     (case target of
        None \<Rightarrow> Some st1
      | Some s \<Rightarrow>
          (let st2 = (if pressed then st1\<lparr>keyboard_focus_session_id := owner_session_id s,
                                          keyboard_focus_surface_id := surf_id s\<rparr> else st1)
           in Some (lgp_send_pointer_button_to_session k (owner_session_id s) button pressed st2)))
   }"

definition lgp_dispatch_keyboard_key :: "lgp_kernel \<Rightarrow> u32 \<Rightarrow> u32 \<Rightarrow> u32 \<Rightarrow> lgp_state \<Rightarrow> lgp_state option" where
  "lgp_dispatch_keyboard_key k key key_state modifiers st = do {
     wm \<leftarrow> wm_target st;
     let target = (case wm of
           Some c \<Rightarrow> if (key, modifiers) \<in> set (grabbed_keys st) then session_id c
                     else keyboard_focus_session_id st
         | None \<Rightarrow> keyboard_focus_session_id st);
     Some (lgp_send_to_session k target
       (lgp_frame LGP_MSG_KEYBOARD_KEY
         (lgp_write_u32_le key @ lgp_write_u32_le key_state @ lgp_write_u32_le modifiers)) st)
   }"

section \<open>Clients of the event loop\<close>

definition lgp_state_find_client :: "lgp_state \<Rightarrow> int \<Rightarrow> lgp_client option" where
  "lgp_state_find_client st fd = find (\<lambda>c. cl_fd c = fd) (clients st)"

definition lgp_state_add_client :: "lgp_state \<Rightarrow> lgp_client \<Rightarrow> lgp_state" where
  "lgp_state_add_client st c = st\<lparr>clients := c # clients st\<rparr>"

text \<open>\<open>lgp_state_remove_client\<close> unlinks the first node whose address is the client's.\<close>

fun unlink_client :: "nat \<Rightarrow> lgp_client list \<Rightarrow> lgp_client list" where
  "unlink_client a [] = []"
| "unlink_client a (c # cs) = (if cl_addr c = a then cs else c # unlink_client a cs)"

definition lgp_state_remove_client :: "lgp_state \<Rightarrow> lgp_client \<Rightarrow> lgp_state" where
  "lgp_state_remove_client st c = st\<lparr>clients := unlink_client (cl_addr c) (clients st)\<rparr>"

definition lgp_state_close_client :: "lgp_state \<Rightarrow> lgp_client \<Rightarrow> lgp_state" where
  "lgp_state_close_client st c =
     (let st1 = (if wm_client st = Some (cl_addr c) then st\<lparr>wm_client := None\<rparr> else st);
          st2 = st1\<lparr>surface_manager := fst (lgp_surface_manager_destroy_for_client (surface_manager st1) c)\<rparr>;
          st3 = lgp_state_remove_client st2 c
      in st3\<lparr>closed := closed st3 @ lgp_client_destroy c\<rparr>)"

lemma length_unlink: "length (unlink_client a cs) \<le> length cs"
  by (induction cs) auto

function lgp_state_close_all_clients :: "lgp_state \<Rightarrow> lgp_state" where
  "lgp_state_close_all_clients st =
     (case clients st of [] \<Rightarrow> st | c # cs \<Rightarrow> lgp_state_close_all_clients (lgp_state_close_client st c))"
  by pat_completeness auto
termination
  by (relation "measure (\<lambda>st. length (clients st))")
     (auto simp: lgp_state_close_client_def lgp_state_remove_client_def Let_def)

declare lgp_state_close_all_clients.simps [simp del]

section \<open>Message handlers\<close>

text \<open>
  A handler gets the client as it is when the message arrives and returns the new state and its
  result; \<open>None\<close> stands for undefined behaviour or a fault. Changes to the client are stored back
  with \<open>put_client\<close>.
\<close>

text \<open>\<open>kms_page_flip\<close> passes on a negative result of the driver and is 0 otherwise.\<close>

definition kms_page_flip :: "lgp_kernel \<Rightarrow> lgp_state \<Rightarrow> lgp_state \<times> int" where
  "kms_page_flip k st =
     (let ret = k_flip k (kcalls st) in
      (st\<lparr>kcalls := kcalls st + 1\<rparr>, if ret < 0 then ret else 0))"

definition fill_pixels :: "u32 \<Rightarrow> u8 list \<Rightarrow> u8 list" where
  "fill_pixels color pixels =
     (let pixel_count = length pixels div 4 in
      concat (replicate pixel_count (lgp_write_u32_le color)) @ drop (4 * pixel_count) pixels)"

definition lgp_handle_fill_rect :: "lgp_kernel \<Rightarrow> lgp_client \<Rightarrow> lgp_msg \<Rightarrow> lgp_state \<Rightarrow> handled" where
  "lgp_handle_fill_rect k client msg st =
     (if caps_granted client AND LGP_CAP_DIRECT_LGP = 0 then Some (st, False)
      else if m_length msg - 6 < 4 then Some (st, False)
      else if length (m_payload msg) < 3 then None
      else
        (let r = m_payload msg ! 0; g = m_payload msg ! 1; b = m_payload msg ! 2;
             color = push_bit 16 (ucast r) OR push_bit 8 (ucast g) OR ucast b;
             st1 = st\<lparr>fb_map := fill_pixels color (fb_map st)\<rparr>
         in case kms_page_flip k st1 of (st2, res) \<Rightarrow> Some (st2, res = 0)))"

definition lgp_send_create_surface_reply ::
    "lgp_kernel \<Rightarrow> lgp_client \<Rightarrow> surface_status \<Rightarrow> u32 \<Rightarrow> lgp_state \<Rightarrow> lgp_state \<times> bool" where
  "lgp_send_create_surface_reply k client status surface_id st =
     (case lgp_surface_encode_create_reply (LGP_HEADER_SIZE + 8) (status_code status) surface_id of
        None \<Rightarrow> (st, False)
      | Some reply \<Rightarrow> lgp_send k (cl_fd client) reply st)"

text \<open>A notification to the window manager when it is another client; its result is ignored.\<close>

definition notify_wm ::
    "lgp_kernel \<Rightarrow> lgp_client \<Rightarrow> u8 list option \<Rightarrow> lgp_state \<Rightarrow> lgp_state option" where
  "notify_wm k client frame st = do {
     wm \<leftarrow> wm_target st;
     Some (case wm of
             Some c \<Rightarrow> if cl_addr c \<noteq> cl_addr client
                       then (case frame of None \<Rightarrow> st | Some f \<Rightarrow> fst (lgp_send k (cl_fd c) f st))
                       else st
           | None \<Rightarrow> st)
   }"

definition lgp_handle_create_surface :: "lgp_kernel \<Rightarrow> lgp_client \<Rightarrow> lgp_msg \<Rightarrow> lgp_state \<Rightarrow> handled" where
  "lgp_handle_create_surface k client msg st =
     (case lgp_surface_decode_create msg of
        None \<Rightarrow> None
      | Some (Inl _) \<Rightarrow> Some (st, False)
      | Some (Inr payload) \<Rightarrow>
          (case lgp_surface_manager_create (surface_manager st) client payload
                  (ucast (hdisplay st)) (ucast (vdisplay st)) of
             (m, status, surface_id) \<Rightarrow>
               (case lgp_send_create_surface_reply k client status surface_id (st\<lparr>surface_manager := m\<rparr>) of
                  (st1, ok) \<Rightarrow>
                    if \<not> ok then Some (st1, False)
                    else if status \<noteq> STATUS_OK then Some (st1, True)
                    else
                      (let st2 = (if sc_layer payload = LGP_LAYER_APPLICATION
                                  then st1\<lparr>keyboard_focus_session_id := session_id client,
                                           keyboard_focus_surface_id := surface_id\<rparr>
                                  else st1)
                       in do {
                         st3 \<leftarrow> notify_wm k client
                           (lgp_wm_encode_surface_created 64 surface_id (sc_type payload)
                              (sc_width payload) (sc_height payload)) st2;
                         Some (st3, True)
                       }))))"

definition lgp_handle_destroy_surface :: "lgp_kernel \<Rightarrow> lgp_client \<Rightarrow> lgp_msg \<Rightarrow> lgp_state \<Rightarrow> handled" where
  "lgp_handle_destroy_surface k client msg st =
     (case lgp_surface_decode_destroy msg of
        None \<Rightarrow> None
      | Some (Inl _) \<Rightarrow> Some (st, False)
      | Some (Inr payload) \<Rightarrow>
          (case lgp_surface_manager_destroy (surface_manager st) client (sd_surface_id payload) of
             (m, status, unmapped) \<Rightarrow>
               if status \<noteq> STATUS_OK then Some (st, False)
               else do {
                 st1 \<leftarrow> notify_wm k client (lgp_wm_encode_surface_destroyed 32 (sd_surface_id payload))
                   (st\<lparr>surface_manager := m\<rparr>);
                 Some (st1, True)
               }))"

abbreviation (input) EBUSY :: int where "EBUSY \<equiv> 16"

definition lgp_repaint_surfaces :: "lgp_kernel \<Rightarrow> lgp_state \<Rightarrow> handled" where
  "lgp_repaint_surfaces k st =
     (case lgp_surface_manager_composite (k_mem k (kcalls st)) (cursor st) (surface_manager st)
             (fb_map st) (fb_width st) (fb_height st) (fb_pitch st) of
        None \<Rightarrow> None
      | Some (d, res) \<Rightarrow>
          (let st1 = st\<lparr>fb_map := d\<rparr> in
           if res \<noteq> 0 then Some (st1, False)
           else (case kms_page_flip k st1 of
                   (st2, flip_res) \<Rightarrow>
                     Some (st2, \<not> (flip_res \<noteq> 0 \<and> flip_res \<noteq> - EBUSY)))))"

definition lgp_handle_commit_buffer :: "lgp_kernel \<Rightarrow> lgp_client \<Rightarrow> lgp_msg \<Rightarrow> lgp_state \<Rightarrow> handled" where
  "lgp_handle_commit_buffer k client msg st =
     (case lgp_surface_decode_commit msg of
        None \<Rightarrow> None
      | Some (Inl _) \<Rightarrow> Some (st, False)
      | Some (Inr payload) \<Rightarrow>
          (case lgp_client_take_fd client of
             (client1, buffer_fd) \<Rightarrow>
               (case lgp_surface_manager_commit (surface_manager st) client1 payload buffer_fd
                       (k_mmap k (kcalls st)) of
                  (m, status, fds, unmapped) \<Rightarrow>
                    (let st1 = (put_client client1 st)
                           \<lparr>surface_manager := m, closed := closed st @ fds, kcalls := kcalls st + 1\<rparr>
                     in if status \<noteq> STATUS_OK then Some (st1, False)
                        else lgp_repaint_surfaces k st1))))"

text \<open>
  The bounds check of \<open>lgp_handle_wm_set_position\<close>, evaluated from left to right: \<open>Some True\<close> when
  the position is refused, \<open>None\<close> when a sum leaves \<open>int\<close>.
\<close>

definition position_refused :: "lgp_surface \<Rightarrow> int \<Rightarrow> int \<Rightarrow> int \<Rightarrow> int \<Rightarrow> bool option" where
  "position_refused s x y max_w max_h =
     (if x < - sint (surf_width s) then Some True
      else if \<not> in_int32 (x + sint (surf_width s)) then None
      else if x + sint (surf_width s) > max_w then Some True
      else if y < - sint (surf_height s) then Some True
      else if \<not> in_int32 (y + sint (surf_height s)) then None
      else Some (y + sint (surf_height s) > max_h))"

definition lgp_handle_wm_set_position :: "lgp_kernel \<Rightarrow> lgp_client \<Rightarrow> lgp_msg \<Rightarrow> lgp_state \<Rightarrow> handled" where
  "lgp_handle_wm_set_position k client msg st =
     (if caps_granted client AND LGP_CAP_WINDOW_MANAGER = 0 then Some (st, False)
      else case lgp_wm_decode_set_position msg of
        None \<Rightarrow> None
      | Some (Inl _) \<Rightarrow> Some (st, False)
      | Some (Inr payload) \<Rightarrow>
          (let m = surface_manager st in
           case first_index (\<lambda>s. in_use s \<and> surf_id s = sp_surface_id payload) (surfaces m) of
             None \<Rightarrow> Some (st, True)
           | Some i \<Rightarrow>
               (case position_refused (surfaces m ! i) (sp_x payload) (sp_y payload)
                       (int (unat (hdisplay st))) (int (unat (vdisplay st))) of
                  None \<Rightarrow> None
                | Some True \<Rightarrow> Some (st, True)
                | Some False \<Rightarrow>
                    lgp_repaint_surfaces k (st\<lparr>surface_manager := m\<lparr>surfaces := (surfaces m)[i :=
                      (surfaces m ! i)\<lparr>surf_x := sp_x payload, surf_y := sp_y payload\<rparr>]\<rparr>\<rparr>))))"

definition lgp_handle_wm_set_focus :: "lgp_client \<Rightarrow> lgp_msg \<Rightarrow> lgp_state \<Rightarrow> handled" where
  "lgp_handle_wm_set_focus client msg st =
     (if caps_granted client AND LGP_CAP_WINDOW_MANAGER = 0 then Some (st, False)
      else case lgp_wm_decode_set_focus msg of
        None \<Rightarrow> None
      | Some (Inl _) \<Rightarrow> Some (st, False)
      | Some (Inr payload) \<Rightarrow>
          if sf_surface_id payload = 0
          then Some (st\<lparr>keyboard_focus_session_id := 0, keyboard_focus_surface_id := 0\<rparr>, True)
          else (case lgp_surface_manager_find (surface_manager st) (sf_surface_id payload) of
                  Some s \<Rightarrow> Some (st\<lparr>keyboard_focus_session_id := owner_session_id s,
                                      keyboard_focus_surface_id := surf_id s\<rparr>, True)
                | None \<Rightarrow> Some (st, False)))"

definition lgp_handle_wm_set_state :: "lgp_kernel \<Rightarrow> lgp_client \<Rightarrow> lgp_msg \<Rightarrow> lgp_state \<Rightarrow> handled" where
  "lgp_handle_wm_set_state k client msg st =
     (if caps_granted client AND LGP_CAP_WINDOW_MANAGER = 0 then Some (st, False)
      else case lgp_wm_decode_set_state msg of
        None \<Rightarrow> None
      | Some (Inl _) \<Rightarrow> Some (st, False)
      | Some (Inr payload) \<Rightarrow>
          (let m = surface_manager st;
               st1 = (case first_index (\<lambda>s. in_use s \<and> surf_id s = ss_surface_id payload) (surfaces m) of
                        None \<Rightarrow> st
                      | Some i \<Rightarrow> st\<lparr>surface_manager := m\<lparr>surfaces := (surfaces m)[i :=
                                     (surfaces m ! i)\<lparr>wm_state := ss_state payload\<rparr>]\<rparr>\<rparr>)
           in lgp_repaint_surfaces k st1))"

definition lgp_handle_wm_grab_key :: "lgp_client \<Rightarrow> lgp_msg \<Rightarrow> lgp_state \<Rightarrow> handled" where
  "lgp_handle_wm_grab_key client msg st =
     (if caps_granted client AND LGP_CAP_WINDOW_MANAGER = 0 then Some (st, False)
      else case lgp_wm_decode_grab_key msg of
        None \<Rightarrow> None
      | Some (Inl _) \<Rightarrow> Some (st, False)
      | Some (Inr payload) \<Rightarrow>
          if length (grabbed_keys st) < 128
          then Some (st\<lparr>grabbed_keys := grabbed_keys st @ [(gk_key payload, gk_modifiers payload)]\<rparr>, True)
          else Some (st, True))"

section \<open>The dispatcher\<close>

definition handle_hello :: "lgp_kernel \<Rightarrow> lgp_client \<Rightarrow> lgp_msg \<Rightarrow> lgp_state \<Rightarrow> handled" where
  "handle_hello k client msg st =
     (case lgp_hello_handle (k_write k (kcalls st)) client msg of
        None \<Rightarrow> None
      | Some (client1, ok, out) \<Rightarrow>
          (let st1 = (put_client client1 st)\<lparr>kcalls := kcalls st + 1, sent := sent st @ [(cl_fd client, out)]\<rparr> in
           if \<not> ok then Some (st1, False)
           else
             (let st2 = (if caps_granted client1 AND LGP_CAP_WINDOW_MANAGER \<noteq> 0
                         then (if cl_uid client1 \<noteq> 0
                               then put_client (client1\<lparr>caps_granted :=
                                      caps_granted client1 AND NOT LGP_CAP_WINDOW_MANAGER\<rparr>) st1
                               else st1\<lparr>wm_client := Some (cl_addr client1)\<rparr>)
                         else st1);
                  geom = lgp_frame LGP_MSG_OUTPUT_GEOMETRY
                           (lgp_write_u32_le (ucast (hdisplay st2)) @ lgp_write_u32_le (ucast (vdisplay st2)))
              in Some (fst (lgp_send k (cl_fd client) geom st2), True))))"

definition handle_clipboard_set :: "lgp_client \<Rightarrow> lgp_msg \<Rightarrow> lgp_state \<Rightarrow> handled" where
  "handle_clipboard_set client msg st =
     (if caps_granted client AND LGP_CAP_CLIPBOARD = 0 then Some (st, False)
      else
        (let payload_len = unat (m_length msg - 6);
             n = (if payload_len \<ge> 4096 then 4095 else payload_len)
         in if length (m_payload msg) < n then None
            else Some (st\<lparr>global_clipboard := takeWhile (\<lambda>b. b \<noteq> 0) (take n (m_payload msg))\<rparr>, True)))"

text \<open>\<open>frame_mem\<close> says whether \<open>malloc\<close> succeeded.\<close>

definition handle_clipboard_get :: "lgp_kernel \<Rightarrow> bool \<Rightarrow> lgp_client \<Rightarrow> lgp_state \<Rightarrow> handled" where
  "handle_clipboard_get k frame_mem client st =
     (if caps_granted client AND LGP_CAP_CLIPBOARD = 0 then Some (st, False)
      else if frame_mem
      then Some (fst (lgp_send k (cl_fd client)
             (lgp_frame LGP_MSG_CLIPBOARD_DATA (global_clipboard st @ [0])) st), True)
      else Some (st, True))"

definition lgp_handle_client_message :: "lgp_kernel \<Rightarrow> bool \<Rightarrow> lgp_client \<Rightarrow> lgp_msg \<Rightarrow> lgp_state \<Rightarrow> handled" where
  "lgp_handle_client_message k frame_mem client msg st =
     (if \<not> hello_done client \<and> m_type msg \<noteq> LGP_MSG_HELLO then Some (st, False)
      else if hello_done client \<and> m_type msg = LGP_MSG_HELLO then Some (st, False)
      else if m_type msg = LGP_MSG_HELLO then handle_hello k client msg st
      else if m_type msg = LGP_MSG_FILL_RECT then lgp_handle_fill_rect k client msg st
      else if m_type msg = LGP_MSG_CREATE_SURFACE then lgp_handle_create_surface k client msg st
      else if m_type msg = LGP_MSG_DESTROY_SURFACE then lgp_handle_destroy_surface k client msg st
      else if m_type msg = LGP_MSG_COMMIT_BUFFER then lgp_handle_commit_buffer k client msg st
      else if m_type msg = LGP_MSG_CLIPBOARD_SET then handle_clipboard_set client msg st
      else if m_type msg = LGP_MSG_CLIPBOARD_GET then handle_clipboard_get k frame_mem client st
      else if m_type msg = LGP_MSG_WM_SET_SURFACE_POSITION then lgp_handle_wm_set_position k client msg st
      else if m_type msg = LGP_MSG_WM_SET_FOCUS then lgp_handle_wm_set_focus client msg st
      else if m_type msg = LGP_MSG_WM_SET_STATE then lgp_handle_wm_set_state k client msg st
      else if m_type msg = LGP_MSG_WM_GRAB_KEY then lgp_handle_wm_grab_key client msg st
      else Some (st, False))"

text \<open>
  \<open>lgp_client_process_messages\<close>: the loop over the frames in the receive buffer \<open>buf\<close> of the client
  at address \<open>a\<close>. Each handled frame is removed from the buffer.
\<close>

function lgp_client_process_messages ::
    "lgp_kernel \<Rightarrow> bool \<Rightarrow> nat \<Rightarrow> u8 list \<Rightarrow> lgp_state \<Rightarrow> handled" where
  "lgp_client_process_messages k frame_mem a buf st =
     (if length buf < LGP_HEADER_SIZE then Some (st, True)
      else case lgp_tlv_peek_header buf of
        None \<Rightarrow> Some (st, True)
      | Some (ty, len) \<Rightarrow>
          if unat len < LGP_HEADER_SIZE \<or> unat len > LGP_CLIENT_RX_BUFFER_SIZE then Some (st, False)
          else if length buf < unat len then Some (st, True)
          else case lgp_tlv_decode (take (unat len) buf) of
            None \<Rightarrow> Some (st, False)
          | Some msg \<Rightarrow>
              (case client_at a st of
                 None \<Rightarrow> None
               | Some client \<Rightarrow>
                   (case lgp_handle_client_message k frame_mem client msg st of
                      None \<Rightarrow> None
                    | Some (st1, False) \<Rightarrow> Some (st1, False)
                    | Some (st1, True) \<Rightarrow>
                        (case client_at a st1 of
                           None \<Rightarrow> None
                         | Some client1 \<Rightarrow>
                             lgp_client_process_messages k frame_mem a (drop (unat len) buf)
                               (put_client (client1\<lparr>rx_buf := drop (unat len) buf\<rparr>) st1)))))"
  by pat_completeness auto
termination
  by (relation "measure (\<lambda>(k, fm, a, buf, st). length buf)") auto

declare lgp_client_process_messages.simps [simp del]

end
