(* ===== verification/Lgp_Server_Inv.thy ===== *)
theory Lgp_Server_Inv
  imports Lgp_Server
begin

text \<open>
  The invariant of the compositor's server: which surfaces and clients may exist together. Every
  message handler of \<open>main.c\<close> is shown to meet one contract (locale \<open>message_handler\<close>): it keeps
  the invariant, and for a client of an ordinary user it never runs into undefined behaviour.
\<close>

section \<open>The server invariant\<close>

text \<open>What identifies a client; only these fields matter to the others.\<close>

definition ident :: "lgp_client \<Rightarrow> nat \<times> int \<times> u32 \<times> u32" where
  "ident c = (cl_addr c, cl_fd c, cl_uid c, session_id c)"

text \<open>A surface in use belongs to a connected client; above the application layer, to one of user 0.\<close>

definition surface_owned :: "lgp_client list \<Rightarrow> lgp_surface \<Rightarrow> bool" where
  "surface_owned cs s \<longleftrightarrow>
     (in_use s \<longrightarrow> (\<exists>c \<in> set cs. session_id c = owner_session_id s \<and>
        (surf_layer s \<noteq> LGP_LAYER_WALLPAPER \<and> surf_layer s \<noteq> LGP_LAYER_APPLICATION \<longrightarrow> cl_uid c = 0)))"

definition wm_ok :: "lgp_state \<Rightarrow> bool" where
  "wm_ok st \<longleftrightarrow>
     (\<forall>a. wm_client st = Some a \<longrightarrow> (\<exists>c \<in> set (clients st). cl_addr c = a \<and> cl_uid c = 0))"

text \<open>The cursor knows the screen and is on it.\<close>

definition cursor_on_screen :: "lgp_cursor \<Rightarrow> bool" where
  "cursor_on_screen c \<longleftrightarrow>
     sint (cur_screen_width c) \<le> 65535 \<and> 0 \<le> cur_x c \<and> cur_x c < sint (cur_screen_width c) \<and>
     sint (cur_screen_height c) \<le> 65535 \<and> 0 \<le> cur_y c \<and> cur_y c < sint (cur_screen_height c)"

lemma cursor_on_screen_ok: "cursor_on_screen c \<Longrightarrow> cursor_ok c"
  by (simp add: cursor_on_screen_def cursor_ok_def)

definition screen_ok :: "lgp_state \<Rightarrow> bool" where
  "screen_ok st \<longleftrightarrow>
     0 < unat (fb_width st) \<and> unat (fb_width st) < 2 ^ 30 \<and>
     0 < unat (fb_height st) \<and> unat (fb_height st) < 2 ^ 30 \<and>
     \<not> fb_pitch st < fb_width st * 4 \<and> unat (fb_height st) * unat (fb_pitch st) \<le> length (fb_map st) \<and>
     cursor_on_screen (cursor st)"

definition server_ok :: "lgp_state \<Rightarrow> bool" where
  "server_ok st \<longleftrightarrow>
     manager_ok (surface_manager st) \<and>
     list_all (\<lambda>s. buffer_size s < 2 ^ 32) (surfaces (surface_manager st)) \<and>
     list_all (surface_owned (clients st)) (surfaces (surface_manager st)) \<and>
     list_all client_ok (clients st) \<and> distinct (map cl_addr (clients st)) \<and>
     wm_ok st \<and> screen_ok st \<and>
     length (grabbed_keys st) \<le> 128 \<and>
     length (global_clipboard st) < 4096 \<and> 0 \<notin> set (global_clipboard st)"

text \<open>Every mapping is backed up to the largest size a commit can announce.\<close>

definition kernel_backs :: "lgp_kernel \<Rightarrow> bool" where
  "kernel_backs k \<longleftrightarrow> (\<forall>n a. 2 ^ 32 \<le> length (k_mem k n a))"

lemma server_okD:
  assumes "server_ok st"
  shows "manager_ok (surface_manager st)"
    and "\<And>s. s \<in> set (surfaces (surface_manager st)) \<Longrightarrow> buffer_size s < 2 ^ 32"
    and "\<And>s. s \<in> set (surfaces (surface_manager st)) \<Longrightarrow> surface_owned (clients st) s"
    and "\<And>c. c \<in> set (clients st) \<Longrightarrow> client_ok c"
    and "distinct (map cl_addr (clients st))" and "wm_ok st" and "screen_ok st"
  using assms unfolding server_ok_def list_all_iff by simp_all

section \<open>Clients and the invariant\<close>

lemma surface_owned_cong:
  assumes "map ident cs = map ident cs'" shows "surface_owned cs s \<longleftrightarrow> surface_owned cs' s"
proof -
  have "\<exists>c \<in> set b. session_id c = x \<and> (P \<longrightarrow> cl_uid c = 0)"
    if e: "map ident a = map ident b" and c: "\<exists>c \<in> set a. session_id c = x \<and> (P \<longrightarrow> cl_uid c = 0)"
    for a b x P
  proof -
    from c obtain c where c: "c \<in> set a" "session_id c = x \<and> (P \<longrightarrow> cl_uid c = 0)" by blast
    from e have "ident ` set a = ident ` set b" by (metis list.set_map)
    with c(1) obtain d where "d \<in> set b" "ident d = ident c" by (metis imageE imageI)
    with c(2) show ?thesis by (auto simp: ident_def)
  qed
  from this [OF assms] this [OF assms [symmetric]] show ?thesis
    unfolding surface_owned_def by blast
qed

lemma client_at_SomeD: "client_at a st = Some c \<Longrightarrow> c \<in> set (clients st) \<and> cl_addr c = a"
  by (auto simp: client_at_def List.find_Some_iff)

lemma client_at_exists: "c \<in> set (clients st) \<Longrightarrow> \<exists>d. client_at (cl_addr c) st = Some d"
  by (cases "client_at (cl_addr c) st") (auto simp: client_at_def find_None_iff)

lemma client_at_unique:
  assumes "distinct (map cl_addr (clients st))" "c \<in> set (clients st)"
  shows "client_at (cl_addr c) st = Some c"
proof -
  obtain d where d: "client_at (cl_addr c) st = Some d" using client_at_exists [OF assms(2)] by blast
  with client_at_SomeD [OF d] assms have "d = c" by (auto simp: distinct_map inj_on_def)
  with d show ?thesis by simp
qed

lemma put_client_simps [simp]:
  "surface_manager (put_client c st) = surface_manager st"
  "wm_client (put_client c st) = wm_client st"
  "map cl_addr (clients (put_client c st)) = map cl_addr (clients st)"
  "length (clients (put_client c st)) = length (clients st)"
  by (auto simp: put_client_def)

lemma put_client_ident:
  assumes "distinct (map cl_addr (clients st))" "d \<in> set (clients st)" "ident c = ident d"
  shows "map ident (clients (put_client c st)) = map ident (clients st)"
  using assms by (auto simp: put_client_def ident_def distinct_map inj_on_def)

lemma set_put_client:
  "x \<in> set (clients (put_client c st)) \<Longrightarrow> x = c \<or> x \<in> set (clients st)"
  by (auto simp: put_client_def)

lemma wm_ok_cong:
  assumes "map ident (clients st) = map ident (clients st')" "wm_client st = wm_client st'"
  shows "wm_ok st = wm_ok st'"
proof -
  have "\<exists>c \<in> set (clients b). cl_addr c = x \<and> cl_uid c = 0"
    if e: "map ident (clients a) = map ident (clients b)"
      and c: "\<exists>c \<in> set (clients a). cl_addr c = x \<and> cl_uid c = 0" for a b :: lgp_state and x
  proof -
    from c obtain c where c: "c \<in> set (clients a)" "cl_addr c = x \<and> cl_uid c = 0" by blast
    from e have "ident ` set (clients a) = ident ` set (clients b)" by (metis list.set_map)
    with c(1) obtain d where "d \<in> set (clients b)" "ident d = ident c" by (metis imageE imageI)
    with c(2) show ?thesis by (auto simp: ident_def)
  qed
  from this [OF assms(1)] this [OF assms(1) [symmetric]] assms(2) show ?thesis
    unfolding wm_ok_def by metis
qed

lemma wm_target_defined:
  assumes "wm_ok st" shows "wm_target st \<noteq> None"
proof (cases "wm_client st")
  case (Some a)
  with assms obtain c where "c \<in> set (clients st)" "cl_addr c = a" by (auto simp: wm_ok_def)
  with client_at_exists [of c st] Some show ?thesis by (auto simp: wm_target_def)
qed (simp add: wm_target_def)

text \<open>Two states that differ only in bookkeeping, focus and the contents of the frame buffer.\<close>

definition same_scene :: "lgp_state \<Rightarrow> lgp_state \<Rightarrow> bool" where
  "same_scene st st' \<longleftrightarrow>
     surface_manager st' = surface_manager st \<and> clients st' = clients st \<and> wm_client st' = wm_client st \<and>
     fb_width st' = fb_width st \<and> fb_height st' = fb_height st \<and> fb_pitch st' = fb_pitch st \<and>
     length (fb_map st') = length (fb_map st) \<and> cursor st' = cursor st \<and>
     grabbed_keys st' = grabbed_keys st \<and> global_clipboard st' = global_clipboard st"

lemma same_scene_refl [simp]: "same_scene st st"
  by (simp add: same_scene_def)

lemma same_scene_trans: "same_scene a b \<Longrightarrow> same_scene b c \<Longrightarrow> same_scene a c"
  by (simp add: same_scene_def)

lemma same_scene_ok: "server_ok st \<Longrightarrow> same_scene st st' \<Longrightarrow> server_ok st'"
  by (auto simp: server_ok_def same_scene_def wm_ok_def screen_ok_def)

lemma same_scene_send: "same_scene st (fst (lgp_send k fd buf st))"
  by (simp add: lgp_send_def same_scene_def split: prod.splits)

lemma same_scene_flip: "same_scene st (fst (kms_page_flip k st))"
  by (simp add: kms_page_flip_def same_scene_def Let_def)

lemma same_scene_to_session: "same_scene st (lgp_send_to_session k s f st)"
  by (auto simp: lgp_send_to_session_def same_scene_send split: option.splits)

lemma same_scene_notify: "notify_wm k c f st = Some st' \<Longrightarrow> same_scene st st'"
  by (auto simp: notify_wm_def same_scene_send split: option.splits if_splits bind_splits)

lemma notify_defined: "wm_ok st \<Longrightarrow> notify_wm k c f st \<noteq> None"
  using wm_target_defined [of st] by (auto simp: notify_wm_def)

lemma same_scene_reply: "same_scene st (fst (lgp_send_create_surface_reply k c s i st))"
  by (auto simp: lgp_send_create_surface_reply_def same_scene_send split: option.splits)

text \<open>A new surface table keeps the invariant when its surfaces are well formed and owned.\<close>

lemma server_ok_manager:
  assumes "server_ok st" "manager_ok m"
    "\<And>s. s \<in> set (surfaces m) \<Longrightarrow> in_use s \<Longrightarrow> buffer_size s < 2 ^ 32 \<and> surface_owned (clients st) s"
  shows "server_ok (st\<lparr>surface_manager := m\<rparr>)"
proof -
  have z: "buffer_size s < 2 ^ 32 \<and> surface_owned (clients st) s" if "s \<in> set (surfaces m)" for s
  proof (cases "in_use s")
    case False
    then have "s = zero_surface" using assms(2) that by (auto simp: manager_ok_def list_all_iff surface_ok_def)
    then show ?thesis by (simp add: surface_owned_def) (simp add: zero_surface_def)
  qed (use assms(3) that in blast)
  with assms(1,2) show ?thesis
    by (auto simp: server_ok_def list_all_iff wm_ok_def screen_ok_def)
qed

section \<open>Repainting\<close>

lemma for_each_length:
  assumes "\<And>x d d'. f x d = Some d' \<Longrightarrow> length d' = length d"
  shows "for_each f xs d = Some d' \<Longrightarrow> length d' = length d"
proof (induction xs arbitrary: d)
  case (Cons x xs)
  then obtain d1 where d1: "f x d = Some d1" "for_each f xs d1 = Some d'" by (auto split: option.splits)
  from Cons.IH [OF d1(2)] assms [OF d1(1)] show ?case by simp
qed simp

lemma draw_row_length: "draw_row s src pitch a b y d = Some d' \<Longrightarrow> length d' = length d"
proof -
  have px: "length t' = length t" if "draw_argb_pixel src r1 r2 x0 x t = Some t'" for r1 r2 x0 x t t'
    using that by (auto simp: draw_argb_pixel_def Let_def split: bind_splits if_splits dest: length_memcpy)
  assume "draw_row s src pitch a b y d = Some d'"
  then show ?thesis
    using for_each_length [of "draw_argb_pixel src (nat (y - surf_y s) * unat (stride s))
        (nat y * unat pitch) (surf_x s)" "[a..b - 1]" d d', OF px]
    by (auto simp: draw_row_def Let_def split: if_splits dest: length_memcpy)
qed

lemma composite_slot_length: "composite_slot mem w h p l s d = Some d' \<Longrightarrow> length d' = length d"
proof -
  have "length t' = length t" if "draw_surface mem w h p s t = Some t'" for t t'
    using that for_each_length [of "draw_row s (mem (buffer_map s)) p a b" for a b, OF draw_row_length]
    by (auto simp: draw_surface_def Let_def split: if_splits)
  moreover assume "composite_slot mem w h p l s d = Some d'"
  ultimately show ?thesis by (auto simp: composite_slot_def split: if_splits)
qed

lemma cursor_row_length: "draw_cursor_row c w h p y d = Some d' \<Longrightarrow> length d' = length d"
proof -
  have px: "length t' = length t" if "draw_cursor_pixel c w p yy j i t = Some t'" for yy j i t t'
    using that by (auto simp: draw_cursor_pixel_def Let_def split: if_splits dest: length_memcpy)
  assume "draw_cursor_row c w h p y d = Some d'"
  then show ?thesis
    using for_each_length [of "draw_cursor_pixel c w p (cur_y c + int y) y" "[0..<8]" d d', OF px]
    by (auto simp: draw_cursor_row_def Let_def split: if_splits)
qed

lemma composite_length:
  assumes "lgp_surface_manager_composite mem c m d w h p = Some (d', r)" shows "length d' = length d"
proof -
  have v: "length t' = length t" if "fill_void w h p t = Some t'" for t t'
    using that unfolding fill_void_def
    by (rule for_each_length [rotated]) (erule for_each_length [rotated], erule length_memcpy)
  have s: "length t' = length t"
    if "for_each (\<lambda>l. for_each (composite_slot mem w h p l) (surfaces m)) layer_order t = Some t'" for t t'
    using that
    by (rule for_each_length [rotated]) (erule for_each_length [rotated], erule composite_slot_length)
  have u: "length t' = length t" if "draw_software_cursor c w h p t = Some t'" for t t'
    using that unfolding draw_software_cursor_def
    by (rule for_each_length [rotated]) (erule cursor_row_length)
  show ?thesis
    using assms v s u
    by (fastforce simp: lgp_surface_manager_composite_def split: if_splits bind_splits)
qed

lemma same_scene_repaint:
  assumes "lgp_repaint_surfaces k st = Some (st', b)" shows "same_scene st st'"
proof -
  from assms obtain d r where c: "lgp_surface_manager_composite (k_mem k (kcalls st)) (cursor st)
      (surface_manager st) (fb_map st) (fb_width st) (fb_height st) (fb_pitch st) = Some (d, r)"
    by (auto simp: lgp_repaint_surfaces_def split: option.splits)
  have "same_scene st (st\<lparr>fb_map := d\<rparr>)" using composite_length [OF c] by (simp add: same_scene_def)
  with assms c same_scene_flip [of "st\<lparr>fb_map := d\<rparr>" k] show ?thesis
    by (auto simp: lgp_repaint_surfaces_def Let_def split: if_splits prod.splits
        intro: same_scene_trans)
qed

lemma repaint_defined:
  assumes "server_ok st" "kernel_backs k" shows "lgp_repaint_surfaces k st \<noteq> None"
proof -
  let ?mem = "k_mem k (kcalls st)"
  have "buffers_backed ?mem (surface_manager st)"
    unfolding buffers_backed_def list_all_iff
    using server_okD(2) [OF assms(1)] assms(2) unfolding kernel_backs_def by (meson less_imp_le le_trans)
  with composite_picture [OF server_okD(1) [OF assms(1)], of ?mem "cursor st" "fb_width st"
      "fb_height st" "fb_pitch st" "fb_map st"] server_okD(7) [OF assms(1)]
  obtain d where "lgp_surface_manager_composite ?mem (cursor st) (surface_manager st) (fb_map st)
      (fb_width st) (fb_height st) (fb_pitch st) = Some (d, 0)"
    by (auto simp: screen_ok_def dest: cursor_on_screen_ok)
  then show ?thesis by (simp add: lgp_repaint_surfaces_def Let_def split: prod.splits)
qed

section \<open>The contract of the message handlers\<close>

text \<open>
  Every handler keeps the invariant and the identity of the clients, and for a client of an
  ordinary user it has a defined result on every well-framed message, provided the kernel backs
  the mappings.
\<close>

locale message_handler =
  fixes handle :: "lgp_kernel \<Rightarrow> lgp_client \<Rightarrow> lgp_msg \<Rightarrow> lgp_state \<Rightarrow> handled"
  assumes keeps: "server_ok st \<Longrightarrow> client \<in> set (clients st) \<Longrightarrow> handle k client msg st = Some (st', b) \<Longrightarrow>
      server_ok st' \<and> map ident (clients st') = map ident (clients st)"
    and completes: "server_ok st \<Longrightarrow> client \<in> set (clients st) \<Longrightarrow> msg_ok msg \<Longrightarrow> kernel_backs k \<Longrightarrow>
      cl_uid client \<noteq> 0 \<Longrightarrow> handle k client msg st \<noteq> None"
begin

lemma safe:
  assumes "server_ok st" "client \<in> set (clients st)" "msg_ok msg" "kernel_backs k" "cl_uid client \<noteq> 0"
  shows "\<exists>st' b. handle k client msg st = Some (st', b) \<and> server_ok st' \<and>
     map ident (clients st') = map ident (clients st)"
  using completes [OF assms] keeps [OF assms(1,2)] by fastforce

lemma keeps_client:
  assumes "server_ok st" "client \<in> set (clients st)" "handle k client msg st = Some (st', b)"
  shows "\<exists>c. client_at (cl_addr client) st' = Some c \<and> ident c = ident client"
proof -
  from keeps [OF assms] have k: "server_ok st'" "map ident (clients st') = map ident (clients st)" by auto
  then have "ident ` set (clients st') = ident ` set (clients st)" by (metis list.set_map)
  with assms(2) obtain c where c: "c \<in> set (clients st')" "ident c = ident client" by (metis imageE imageI)
  then have "cl_addr c = cl_addr client" by (simp add: ident_def)
  with client_at_unique [OF server_okD(5) [OF k(1)] c(1)] c(2) show ?thesis by auto
qed

end

text \<open>Ordinary users have no window manager capability.\<close>

lemma no_wm_cap:
  assumes "client_ok c" "cl_uid c \<noteq> 0" shows "caps_granted c AND LGP_CAP_WINDOW_MANAGER = 0"
proof (rule ccontr)
  assume "caps_granted c AND LGP_CAP_WINDOW_MANAGER \<noteq> 0"
  then have "(caps_granted c AND caps_allowed (cl_uid c)) AND LGP_CAP_WINDOW_MANAGER \<noteq> 0"
    using assms(1) by (simp add: client_ok_def)
  from caps_allowed_privileged [OF _ this] assms(2) show False by simp
qed

interpretation fill_rect: message_handler lgp_handle_fill_rect
proof unfold_locales
  fix st st' :: lgp_state and client k msg b
  assume ok: "server_ok st" and h: "lgp_handle_fill_rect k client msg st = Some (st', b)"
  have "length (fill_pixels c (fb_map st)) = length (fb_map st)" for c
    by (simp add: fill_pixels_def Let_def length_concat sum_list_replicate)
  then have "same_scene st (st\<lparr>fb_map := fill_pixels c (fb_map st)\<rparr>)" for c
    by (simp add: same_scene_def)
  from same_scene_trans [OF this same_scene_flip]
  have "same_scene st (fst (kms_page_flip k (st\<lparr>fb_map := fill_pixels c (fb_map st)\<rparr>)))" for c .
  with h have "same_scene st st'"
    unfolding lgp_handle_fill_rect_def Let_def case_prod_beta by (clarsimp split: if_splits)
  with same_scene_ok [OF ok] show "server_ok st' \<and> map ident (clients st') = map ident (clients st)"
    by (simp add: same_scene_def)
next
  fix st :: lgp_state and client k and msg :: lgp_msg
  assume m: "msg_ok msg"
  then have "\<not> length (m_payload msg) < 3" if "\<not> m_length msg - 6 < 4"
    using that length_minus_header [OF m] by (auto simp: msg_ok_def word_less_nat_alt)
  then show "lgp_handle_fill_rect k client msg st \<noteq> None"
    by (auto simp: lgp_handle_fill_rect_def Let_def split: prod.splits)
qed

interpretation set_focus: message_handler "\<lambda>k. lgp_handle_wm_set_focus"
proof unfold_locales
  fix st st' :: lgp_state and client k msg b
  assume ok: "server_ok st" and h: "lgp_handle_wm_set_focus client msg st = Some (st', b)"
  have "same_scene st st'"
    using h by (auto simp: lgp_handle_wm_set_focus_def same_scene_def split: if_splits option.splits sum.splits)
  with same_scene_ok [OF ok] show "server_ok st' \<and> map ident (clients st') = map ident (clients st)"
    by (simp add: same_scene_def)
next
  fix st :: lgp_state and client k and msg :: lgp_msg
  assume "msg_ok msg"
  from set_focus_codec.in_bounds [OF this] show "lgp_handle_wm_set_focus client msg st \<noteq> None"
    by (auto simp: lgp_handle_wm_set_focus_def split: option.splits sum.splits)
qed

interpretation grab_key: message_handler "\<lambda>k. lgp_handle_wm_grab_key"
proof unfold_locales
  fix st st' :: lgp_state and client k msg b
  assume ok: "server_ok st" and h: "lgp_handle_wm_grab_key client msg st = Some (st', b)"
  have "st' = st \<or> (\<exists>g. st' = st\<lparr>grabbed_keys := g\<rparr> \<and> length g \<le> 128)"
    using h by (auto simp: lgp_handle_wm_grab_key_def split: if_splits option.splits sum.splits)
  with ok show "server_ok st' \<and> map ident (clients st') = map ident (clients st)"
    by (auto simp: server_ok_def wm_ok_def screen_ok_def)
next
  fix st :: lgp_state and client k and msg :: lgp_msg
  assume "msg_ok msg"
  from grab_key_codec.in_bounds [OF this] show "lgp_handle_wm_grab_key client msg st \<noteq> None"
    by (auto simp: lgp_handle_wm_grab_key_def split: option.splits sum.splits)
qed

interpretation clipboard_set: message_handler "\<lambda>k. handle_clipboard_set"
proof unfold_locales
  fix st st' :: lgp_state and client k msg b
  assume ok: "server_ok st" and h: "handle_clipboard_set client msg st = Some (st', b)"
  have t: "length (takeWhile P (take n xs)) < 4096" if "n \<le> 4095" for P n and xs :: "u8 list"
    using length_takeWhile_le [of P "take n xs"] that by simp
  have z: "0 \<notin> set (takeWhile (\<lambda>x. x \<noteq> 0) xs)" for xs :: "u8 list"
    by (auto dest: set_takeWhileD)
  have "st' = st \<or> (\<exists>g. st' = st\<lparr>global_clipboard := g\<rparr> \<and> length g < 4096 \<and> 0 \<notin> set g)"
    using h t z by (auto simp: handle_clipboard_set_def Let_def split: if_splits)
  with ok show "server_ok st' \<and> map ident (clients st') = map ident (clients st)"
    by (auto simp: server_ok_def wm_ok_def screen_ok_def)
next
  fix st :: lgp_state and client k and msg :: lgp_msg
  assume m: "msg_ok msg"
  then show "handle_clipboard_set client msg st \<noteq> None"
    using length_minus_header [OF m] by (auto simp: handle_clipboard_set_def Let_def msg_ok_def)
qed

interpretation clipboard_get: message_handler "\<lambda>k client msg. handle_clipboard_get k fm client" for fm
proof unfold_locales
  fix st st' :: lgp_state and client k b and msg :: lgp_msg
  assume ok: "server_ok st" and h: "handle_clipboard_get k fm client st = Some (st', b)"
  have "same_scene st st'"
    using h same_scene_send by (auto simp: handle_clipboard_get_def split: if_splits)
  with same_scene_ok [OF ok] show "server_ok st' \<and> map ident (clients st') = map ident (clients st)"
    by (simp add: same_scene_def)
qed (auto simp: handle_clipboard_get_def)

lemma owned_of_request:
  assumes ok: "server_ok st" and c: "c \<in> set (clients st)"
    and s: "s \<in> set (surfaces (serve_request c r (surface_manager st)))" "in_use s"
    and new: "owner_session_id s = session_id c \<Longrightarrow> s \<notin> set (surfaces (surface_manager st)) \<Longrightarrow>
       buffer_size s < 2 ^ 32 \<and> (surf_layer s \<noteq> 0 \<and> surf_layer s \<noteq> 100 \<longrightarrow> cl_uid c = 0)"
  shows "buffer_size s < 2 ^ 32 \<and> surface_owned (clients st) s"
proof (cases "s \<in> set (surfaces (surface_manager st))")
  case True
  with server_okD(2,3) [OF ok] show ?thesis by blast
next
  case False
  from s(1) obtain i where i: "i < length (surfaces (serve_request c r (surface_manager st)))"
    "surfaces (serve_request c r (surface_manager st)) ! i = s" by (auto simp: in_set_conv_nth)
  then have l: "i < length (surfaces (surface_manager st))" by (simp add: surface_slots.same_length)
  from surface_slots.gained [OF l, of c r] i(2) s(2) False l have "owner_session_id s = session_id c"
    by auto
  with new [OF this False] c show ?thesis by (auto simp: surface_owned_def)
qed

lemma has_cap_root:
  assumes "client_ok c" "lgp_surface_client_has_cap c cap"
    "cap = LGP_CAP_LAYER_SHELL \<or> cap = LGP_CAP_LUNA_ISLAND"
  shows "cl_uid c = 0"
proof -
  have "(caps_granted c AND caps_allowed (cl_uid c)) AND cap \<noteq> 0"
    using assms by (auto simp: client_ok_def lgp_surface_client_has_cap_def)
  with assms(3) caps_allowed_privileged [of cap "caps_granted c" "cl_uid c"] show ?thesis by blast
qed

lemma validate_privileged:
  assumes "client_ok c" "lgp_surface_validate_request c p dw dh = STATUS_OK"
    "sc_layer p \<noteq> 0" "sc_layer p \<noteq> 100"
  shows "cl_uid c = 0"
  using assms(2-4) has_cap_root [OF assms(1)]
  by (auto simp: lgp_surface_validate_request_def split: if_splits)

lemma create_server_ok:
  assumes ok: "server_ok st" and c: "c \<in> set (clients st)"
    and cr: "lgp_surface_manager_create (surface_manager st) c p dw dh = (m, status, k)"
  shows "server_ok (st\<lparr>surface_manager := m\<rparr>)"
proof (rule server_ok_manager [OF ok create_ok [OF server_okD(1) [OF ok] cr]])
  fix s assume s: "s \<in> set (surfaces m)" "in_use s"
  have m: "m = serve_request c (ReqCreate p dw dh) (surface_manager st)" using cr by simp
  show "buffer_size s < 2 ^ 32 \<and> surface_owned (clients st) s"
  proof (rule owned_of_request [OF ok c s(1) [unfolded m] s(2)])
    assume new: "s \<notin> set (surfaces (surface_manager st))"
    show "buffer_size s < 2 ^ 32 \<and> (surf_layer s \<noteq> 0 \<and> surf_layer s \<noteq> 100 \<longrightarrow> cl_uid c = 0)"
    proof (cases rule: create_cases [of "surface_manager st" c p dw dh])
      case (1 st)
      with cr s(1) new show ?thesis by simp
    next
      case (2 i)
      then have "s = (surfaces (surface_manager st) ! i)
            \<lparr>in_use := True, surf_id := next_surface_id (surface_manager st), owner_session_id := session_id c,
             surface_type := sc_type p, surf_x := sc_x p, surf_y := sc_y p,
             surf_width := sc_width p, surf_height := sc_height p, surf_layer := sc_layer p\<rparr>"
        using s(1) new cr set_update_subset_insert by fastforce
      moreover have "buffer_size (surfaces (surface_manager st) ! i) < 2 ^ 32"
        using server_okD(2) [OF ok] 2(2) by simp
      ultimately show ?thesis
        using validate_privileged [OF server_okD(4) [OF ok c] 2(1)] by auto
    qed
  qed
qed

lemma notify_bind_defined:
  assumes "wm_ok st" shows "(notify_wm k c f st \<bind> (\<lambda>x. Some (h x))) \<noteq> None"
  using notify_defined [OF assms, of k c f] by (cases "notify_wm k c f st") auto

text \<open>Apart from the surface table, a create or a destroy request changes bookkeeping and focus only.\<close>

lemma create_scene:
  assumes p: "lgp_surface_decode_create msg = Some (Inr p)"
    and h: "lgp_handle_create_surface k client msg st = Some (st', b)"
  shows "same_scene (st\<lparr>surface_manager := fst (lgp_surface_manager_create (surface_manager st) client p
     (ucast (hdisplay st)) (ucast (vdisplay st)))\<rparr>) st'"
proof -
  obtain m status i where cr: "lgp_surface_manager_create (surface_manager st) client p
      (ucast (hdisplay st)) (ucast (vdisplay st)) = (m, status, i)" by (metis prod_cases3)
  let ?st0 = "st\<lparr>surface_manager := m\<rparr>"
  obtain st1 r where re: "lgp_send_create_surface_reply k client status i ?st0 = (st1, r)" by fastforce
  have s1: "same_scene ?st0 st1" using same_scene_reply [of ?st0 k client status i] re by simp
  have foc: "same_scene st1 (if sc_layer p = 100 then st1\<lparr>keyboard_focus_session_id := session_id client,
        keyboard_focus_surface_id := i\<rparr> else st1)" by (simp add: same_scene_def)
  show ?thesis
    using h p cr re s1 same_scene_trans [OF s1 same_scene_trans [OF foc same_scene_notify]]
    by (auto simp: lgp_handle_create_surface_def Let_def split: if_splits bind_splits)
qed

lemma destroy_scene:
  assumes "lgp_handle_destroy_surface k client msg st = Some (st', b)"
  shows "st' = st \<or> (\<exists>m i status un. lgp_surface_manager_destroy (surface_manager st) client i = (m, status, un) \<and>
      same_scene (st\<lparr>surface_manager := m\<rparr>) st')"
  using assms same_scene_notify
  by (fastforce simp: lgp_handle_destroy_surface_def split: option.splits sum.splits prod.splits if_splits bind_splits)

interpretation create: message_handler lgp_handle_create_surface
proof unfold_locales
  fix st st' :: lgp_state and client k msg b
  assume ok: "server_ok st" and c: "client \<in> set (clients st)"
    and h: "lgp_handle_create_surface k client msg st = Some (st', b)"
  show "server_ok st' \<and> map ident (clients st') = map ident (clients st)"
  proof (cases "\<exists>p. lgp_surface_decode_create msg = Some (Inr p)")
    case False
    with h have "st' = st" by (auto simp: lgp_handle_create_surface_def split: option.splits sum.splits)
    with ok show ?thesis by simp
  next
    case True
    then obtain p where p: "lgp_surface_decode_create msg = Some (Inr p)" by blast
    obtain m status i where cr: "lgp_surface_manager_create (surface_manager st) client p
        (ucast (hdisplay st)) (ucast (vdisplay st)) = (m, status, i)" by (metis prod_cases3)
    have "same_scene (st\<lparr>surface_manager := m\<rparr>) st'" using create_scene [OF p h] cr by simp
    with same_scene_ok [OF create_server_ok [OF ok c cr]] show ?thesis by (simp add: same_scene_def)
  qed
next
  fix st :: lgp_state and client k and msg :: lgp_msg
  assume ok: "server_ok st" and c: "client \<in> set (clients st)" and m: "msg_ok msg"
  show "lgp_handle_create_surface k client msg st \<noteq> None"
  proof (cases "\<exists>p. lgp_surface_decode_create msg = Some (Inr p)")
    case False
    with create_codec.in_bounds [OF m] show ?thesis
      by (auto simp: lgp_handle_create_surface_def split: option.splits sum.splits)
  next
    case True
    then obtain p where p: "lgp_surface_decode_create msg = Some (Inr p)" by blast
    obtain m status i where cr: "lgp_surface_manager_create (surface_manager st) client p
        (ucast (hdisplay st)) (ucast (vdisplay st)) = (m, status, i)" by (metis prod_cases3)
    let ?st0 = "st\<lparr>surface_manager := m\<rparr>"
    obtain st1 r where re: "lgp_send_create_surface_reply k client status i ?st0 = (st1, r)" by fastforce
    have s1: "same_scene ?st0 st1" using same_scene_reply [of ?st0 k client status i] re by simp
    let ?st2 = "if sc_layer p = 100 then st1\<lparr>keyboard_focus_session_id := session_id client,
          keyboard_focus_surface_id := i\<rparr> else st1"
    have "same_scene ?st0 ?st2" using s1 by (simp add: same_scene_def)
    from server_okD(6) [OF same_scene_ok [OF create_server_ok [OF ok c cr] this]]
    have "wm_ok ?st2" .
    from notify_bind_defined [OF this, where h = "\<lambda>x. (x, True)"] p cr re show ?thesis
      by (auto simp add: lgp_handle_create_surface_def Let_def)
  qed
qed

lemma request_server_ok:
  assumes ok: "server_ok st" and c: "c \<in> set (clients st)"
    and r: "manager_ok (serve_request c r (surface_manager st))"
    and new: "\<And>s. s \<in> set (surfaces (serve_request c r (surface_manager st))) \<Longrightarrow> in_use s \<Longrightarrow>
       s \<notin> set (surfaces (surface_manager st)) \<Longrightarrow>
       buffer_size s < 2 ^ 32 \<and> (surf_layer s \<noteq> 0 \<and> surf_layer s \<noteq> 100 \<longrightarrow> cl_uid c = 0)"
  shows "server_ok (st\<lparr>surface_manager := serve_request c r (surface_manager st)\<rparr>)"
  by (rule server_ok_manager [OF ok r], rule owned_of_request [OF ok c]) (use new in auto)

lemma destroy_server_ok:
  assumes ok: "server_ok st" and c: "c \<in> set (clients st)"
    and d: "lgp_surface_manager_destroy (surface_manager st) c k = (m, status, un)"
  shows "server_ok (st\<lparr>surface_manager := m\<rparr>)"
proof -
  have m: "m = serve_request c (ReqDestroy k) (surface_manager st)" using d by simp
  have "s \<in> set (surfaces (surface_manager st))" if "s \<in> set (surfaces m)" "in_use s" for s
    using that d set_update_subset_insert
    by (cases rule: destroy_cases [of "surface_manager st" c k]) fastforce+
  then show ?thesis
    using request_server_ok [OF ok c, of "ReqDestroy k"] destroy_ok [OF server_okD(1) [OF ok] d]
    unfolding m by blast
qed

interpretation destroy: message_handler lgp_handle_destroy_surface
proof unfold_locales
  fix st st' :: lgp_state and client k msg b
  assume ok: "server_ok st" and c: "client \<in> set (clients st)"
    and h: "lgp_handle_destroy_surface k client msg st = Some (st', b)"
  from destroy_scene [OF h] show "server_ok st' \<and> map ident (clients st') = map ident (clients st)"
    using ok destroy_server_ok [OF ok c] same_scene_ok by (fastforce simp: same_scene_def)
next
  fix st :: lgp_state and client k and msg :: lgp_msg
  assume ok: "server_ok st" and c: "client \<in> set (clients st)" and m: "msg_ok msg"
  have "wm_ok (st\<lparr>surface_manager := x\<rparr>)" for x
    using server_okD(6) [OF ok] by (simp add: wm_ok_def)
  note n = notify_bind_defined [OF this, where h = "\<lambda>x. (x, True)"]
  show "lgp_handle_destroy_surface k client msg st \<noteq> None"
  proof (cases "lgp_surface_decode_destroy msg")
    case (Some d)
    then show ?thesis
      using n by (cases d) (auto simp: lgp_handle_destroy_surface_def split: prod.split)
  qed (use destroy_codec.in_bounds [OF m] in simp)
qed

text \<open>A surface changed in place, and a client stored back, keep the invariant.\<close>

lemma server_ok_slot:
  assumes ok: "server_ok st" and i: "i < length (surfaces (surface_manager st))"
    and s: "s = surfaces (surface_manager st) ! i"
    and s': "surface_ok s'" "buffer_size s' < 2 ^ 32" "owner_session_id s' = owner_session_id s"
      "surf_layer s' = surf_layer s" "in_use s' = in_use s"
  shows "server_ok (st\<lparr>surface_manager := (surface_manager st)
            \<lparr>surfaces := (surfaces (surface_manager st))[i := s']\<rparr>\<rparr>)"
proof (rule server_ok_manager [OF ok])
  show "manager_ok ((surface_manager st)\<lparr>surfaces := (surfaces (surface_manager st))[i := s']\<rparr>)"
    using server_okD(1) [OF ok] s'(1) by (rule manager_ok_update)
next
  fix t assume "t \<in> set (surfaces ((surface_manager st)\<lparr>surfaces := (surfaces (surface_manager st))[i := s']\<rparr>))"
  then consider "t = s'" | "t \<in> set (surfaces (surface_manager st))"
    using set_update_subset_insert by fastforce
  then show "buffer_size t < 2 ^ 32 \<and> surface_owned (clients st) t"
  proof cases
    case 1
    have "surface_owned (clients st) s" using server_okD(3) [OF ok] i s by simp
    with 1 s' show ?thesis by (simp add: surface_owned_def)
  qed (use server_okD(2,3) [OF ok] in blast)
qed

lemma server_ok_put_client:
  assumes ok: "server_ok st" and d: "d \<in> set (clients st)" and c: "ident c = ident d" "client_ok c"
  shows "server_ok (put_client c st) \<and> map ident (clients (put_client c st)) = map ident (clients st)"
proof -
  have e: "map ident (clients (put_client c st)) = map ident (clients st)"
    by (rule put_client_ident [OF server_okD(5) [OF ok] d c(1)])
  have "wm_ok (put_client c st)" using wm_ok_cong [OF e] server_okD(6) [OF ok] by simp
  moreover have "screen_ok (put_client c st)"
    using server_okD(7) [OF ok] by (simp add: screen_ok_def put_client_def)
  moreover have "list_all client_ok (clients (put_client c st))"
    using server_okD(4) [OF ok] c(2) by (auto simp: list_all_iff dest: set_put_client)
  moreover have "surface_owned (clients (put_client c st)) = surface_owned (clients st)"
    using surface_owned_cong [OF e] by (rule ext)
  moreover have "grabbed_keys (put_client c st) = grabbed_keys st"
    "global_clipboard (put_client c st) = global_clipboard st" by (simp_all add: put_client_def)
  ultimately show ?thesis
    using ok e by (simp add: server_ok_def)
qed

lemma same_scene_effects:
  "same_scene st (st\<lparr>kcalls := n, sent := o'\<rparr>)" "same_scene st (st\<lparr>closed := c, kcalls := n\<rparr>)"
  by (simp_all add: same_scene_def)

lemma repaint_keeps:
  assumes "server_ok st" "lgp_repaint_surfaces k st = Some (st', b)"
  shows "server_ok st' \<and> clients st' = clients st"
  using same_scene_ok [OF assms(1)] same_scene_repaint [OF assms(2)] by (auto simp: same_scene_def)

lemma find_slot:
  assumes "first_index (\<lambda>s. in_use s \<and> surf_id s = k) (surfaces (surface_manager st)) = Some i" "server_ok st"
  shows "i < length (surfaces (surface_manager st)) \<and> in_use (surfaces (surface_manager st) ! i) \<and>
    surface_ok (surfaces (surface_manager st) ! i) \<and> buffer_size (surfaces (surface_manager st) ! i) < 2 ^ 32"
  using first_index_Some [OF assms(1)] server_okD(1,2) [OF assms(2)]
  by (auto simp: manager_ok_def list_all_length)

lemma position_accepted:
  assumes "position_refused s x y (int (unat (w :: u16))) (int (unat (h :: u16))) = Some False"
    "surface_ok s" "in_use s"
  shows "- 16384 \<le> x \<and> x \<le> 65535 \<and> - 16384 \<le> y \<and> y \<le> 65535"
proof -
  have "sint (surf_width s) = int (unat (surf_width s))" "sint (surf_height s) = int (unat (surf_height s))"
    using assms(2,3) sint_small [of "surf_width s"] sint_small [of "surf_height s"] by (auto simp: surface_ok_def)
  moreover have "unat w < 65536" "unat h < 65536" using unsigned_less [of w, where ?'a = nat] unsigned_less [of h, where ?'a = nat] by simp_all
  ultimately show ?thesis
    using assms by (auto simp del: of_nat_unat simp: position_refused_def surface_ok_def split: if_splits)
qed

interpretation set_position: message_handler lgp_handle_wm_set_position
proof unfold_locales
  fix st st' :: lgp_state and client k msg b
  assume ok: "server_ok st" and h: "lgp_handle_wm_set_position k client msg st = Some (st', b)"
  let ?m = "surface_manager st"
  show "server_ok st' \<and> map ident (clients st') = map ident (clients st)"
  proof (cases "st' = st")
    case False
    with h obtain p where d: "lgp_wm_decode_set_position msg = Some (Inr p)"
      by (auto simp: lgp_handle_wm_set_position_def split: if_splits option.splits sum.splits)
    with h False obtain i where
      p: "first_index (\<lambda>s. in_use s \<and> surf_id s = sp_surface_id p) (surfaces ?m) = Some i"
      by (auto simp: lgp_handle_wm_set_position_def Let_def split: if_splits option.splits)
    let ?r = "position_refused (surfaces ?m ! i) (sp_x p) (sp_y p)
         (int (unat (hdisplay st))) (int (unat (vdisplay st)))"
    from h False d p have a: "?r = Some False"
      by (cases ?r) (auto simp: lgp_handle_wm_set_position_def Let_def simp del: of_nat_unat
          split: if_splits bool.splits)
    with h False d p have r: "lgp_repaint_surfaces k (st\<lparr>surface_manager := ?m\<lparr>surfaces := (surfaces ?m)[i :=
                      (surfaces ?m ! i)\<lparr>surf_x := sp_x p, surf_y := sp_y p\<rparr>]\<rparr>\<rparr>) = Some (st', b)"
      by (auto simp: lgp_handle_wm_set_position_def Let_def simp del: of_nat_unat split: if_splits)
    note s = find_slot [OF p ok]
    from position_accepted [OF a] s
    have "surface_ok ((surfaces ?m ! i)\<lparr>surf_x := sp_x p, surf_y := sp_y p\<rparr>)" by (simp add: surface_ok_def)
    from server_ok_slot [OF ok _ refl this] s
    have "server_ok (st\<lparr>surface_manager := ?m\<lparr>surfaces := (surfaces ?m)[i :=
                      (surfaces ?m ! i)\<lparr>surf_x := sp_x p, surf_y := sp_y p\<rparr>]\<rparr>\<rparr>)" by simp
    from repaint_keeps [OF this r] show ?thesis by simp
  qed (use ok in simp)
next
  fix st :: lgp_state and client k and msg :: lgp_msg
  assume "server_ok st" "client \<in> set (clients st)" "cl_uid client \<noteq> 0"
  with no_wm_cap server_okD(4) show "lgp_handle_wm_set_position k client msg st \<noteq> None"
    by (auto simp: lgp_handle_wm_set_position_def)
qed

interpretation set_state: message_handler lgp_handle_wm_set_state
proof unfold_locales
  fix st st' :: lgp_state and client k msg b
  assume ok: "server_ok st" and h: "lgp_handle_wm_set_state k client msg st = Some (st', b)"
  let ?m = "surface_manager st"
  show "server_ok st' \<and> map ident (clients st') = map ident (clients st)"
  proof (cases "st' = st")
    case False
    with h obtain p where "lgp_wm_decode_set_state msg = Some (Inr p)"
      by (auto simp: lgp_handle_wm_set_state_def split: if_splits option.splits sum.splits)
    with h False have r: "lgp_repaint_surfaces k (case first_index
          (\<lambda>s. in_use s \<and> surf_id s = ss_surface_id p) (surfaces ?m) of None \<Rightarrow> st
        | Some i \<Rightarrow> st\<lparr>surface_manager := ?m\<lparr>surfaces := (surfaces ?m)[i :=
             (surfaces ?m ! i)\<lparr>wm_state := ss_state p\<rparr>]\<rparr>\<rparr>) = Some (st', b)"
      (is "lgp_repaint_surfaces k ?st1 = _")
      by (simp add: lgp_handle_wm_set_state_def Let_def split: if_splits)
    have "server_ok ?st1 \<and> clients ?st1 = clients st"
    proof (cases "first_index (\<lambda>s. in_use s \<and> surf_id s = ss_surface_id p) (surfaces ?m)")
      case (Some i)
      note s = find_slot [OF Some ok]
      then have "surface_ok ((surfaces ?m ! i)\<lparr>wm_state := ss_state p\<rparr>)" by (simp add: surface_ok_def)
      from server_ok_slot [OF ok _ refl this] s Some show ?thesis by simp
    qed (use ok in simp)
    with repaint_keeps [OF _ r] show ?thesis by simp
  qed (use ok in simp)
next
  fix st :: lgp_state and client k and msg :: lgp_msg
  assume "server_ok st" "client \<in> set (clients st)" "cl_uid client \<noteq> 0"
  with no_wm_cap server_okD(4) show "lgp_handle_wm_set_state k client msg st \<noteq> None"
    by (auto simp: lgp_handle_wm_set_state_def)
qed

lemma commit_server_ok:
  assumes ok: "server_ok st"
    and d: "lgp_surface_manager_commit (surface_manager st) c p fd mapping = (m, status, cl, un)"
  shows "server_ok (st\<lparr>surface_manager := m\<rparr>)"
proof (cases rule: commit_cases [of "surface_manager st" c p fd mapping])
  case (1 st' cl')
  with d ok show ?thesis by (simp add: server_ok_def wm_ok_def screen_ok_def)
next
  case (2 i addr)
  let ?s = "(surfaces (surface_manager st) ! i)
      \<lparr>buffer_map := addr, buffer_size := unat (sm_byte_size p), stride := sm_stride p,
       pixel_format := sm_pixel_format p\<rparr>"
  have m: "m = (surface_manager st)\<lparr>surfaces := (surfaces (surface_manager st))[i := ?s]\<rparr>"
    using 2 d by simp
  have "manager_ok m" by (rule commit_ok [OF server_okD(1) [OF ok] d])
  then have "surface_ok ?s" using m 2(2) by (auto simp: manager_ok_def list_all_length)
  moreover have "unat (sm_byte_size p) < 2 ^ 32" using unsigned_less [of "sm_byte_size p", where ?'a = nat] by simp
  ultimately show ?thesis unfolding m using server_ok_slot [OF ok 2(2) refl] by simp
qed

lemma take_fd_ident: "lgp_client_take_fd c = (c', fd) \<Longrightarrow> ident c' = ident c"
  by (auto simp: lgp_client_take_fd_def ident_def split: list.splits)

lemma commit_state_ok:
  assumes ok: "server_ok st" and c: "client \<in> set (clients st)"
    and t: "lgp_client_take_fd client = (client1, fd)"
    and d: "lgp_surface_manager_commit (surface_manager st) client1 p fd mapping = (m, status, cl, un)"
  shows "server_ok ((put_client client1 st)\<lparr>surface_manager := m, closed := cls, kcalls := n\<rparr>) \<and>
    map ident (clients (put_client client1 st)) = map ident (clients st)"
proof -
  have p: "server_ok (put_client client1 st) \<and> map ident (clients (put_client client1 st)) = map ident (clients st)"
    by (rule server_ok_put_client [OF ok c take_fd_ident [OF t] take_fd_ok [OF server_okD(4) [OF ok c] t]])
  then have "server_ok ((put_client client1 st)\<lparr>surface_manager := m\<rparr>)"
    using commit_server_ok [of "put_client client1 st" client1 p fd mapping m] d by simp
  from same_scene_ok [OF this same_scene_effects(2)] p show ?thesis by simp
qed

interpretation commit: message_handler lgp_handle_commit_buffer
proof unfold_locales
  fix st st' :: lgp_state and client k msg b
  assume ok: "server_ok st" and c: "client \<in> set (clients st)"
    and h: "lgp_handle_commit_buffer k client msg st = Some (st', b)"
  show "server_ok st' \<and> map ident (clients st') = map ident (clients st)"
  proof (cases "\<exists>p. lgp_surface_decode_commit msg = Some (Inr p)")
    case False
    with h have "st' = st" by (auto simp: lgp_handle_commit_buffer_def split: option.splits sum.splits)
    with ok show ?thesis by simp
  next
    case True
    then obtain p where p: "lgp_surface_decode_commit msg = Some (Inr p)" by blast
    obtain client1 fd where t: "lgp_client_take_fd client = (client1, fd)" by fastforce
    obtain m status cl un where d: "lgp_surface_manager_commit (surface_manager st) client1 p fd
        (k_mmap k (kcalls st)) = (m, status, cl, un)" by (metis prod_cases4)
    note s = commit_state_ok [OF ok c t d, where cls = "closed st @ cl" and n = "kcalls st + 1"]
    show ?thesis
    proof (cases "status = STATUS_OK")
      case True
      with h p t d have "lgp_repaint_surfaces k ((put_client client1 st)\<lparr>surface_manager := m,
          closed := closed st @ cl, kcalls := kcalls st + 1\<rparr>) = Some (st', b)"
        by (simp add: lgp_handle_commit_buffer_def)
      from repaint_keeps [OF conjunct1 [OF s] this] s show ?thesis by simp
    next
      case False
      with h p t d s show ?thesis by (auto simp: lgp_handle_commit_buffer_def)
    qed
  qed
next
  fix st :: lgp_state and client k and msg :: lgp_msg
  assume ok: "server_ok st" and c: "client \<in> set (clients st)" and m: "msg_ok msg" and kb: "kernel_backs k"
  show "lgp_handle_commit_buffer k client msg st \<noteq> None"
  proof (cases "\<exists>p. lgp_surface_decode_commit msg = Some (Inr p)")
    case False
    with commit_codec.in_bounds [OF m] show ?thesis
      by (auto simp: lgp_handle_commit_buffer_def split: option.splits sum.splits)
  next
    case True
    then obtain p where p: "lgp_surface_decode_commit msg = Some (Inr p)" by blast
    obtain client1 fd where t: "lgp_client_take_fd client = (client1, fd)" by fastforce
    obtain m status cl un where d: "lgp_surface_manager_commit (surface_manager st) client1 p fd
        (k_mmap k (kcalls st)) = (m, status, cl, un)" by (metis prod_cases4)
    from repaint_defined [OF conjunct1 [OF commit_state_ok [OF ok c t d]] kb] p t d
    show ?thesis by (auto simp: lgp_handle_commit_buffer_def Let_def)
  qed
qed

lemma hello_handle_ident:
  "lgp_hello_handle answers c msg = Some (c', ok, out) \<Longrightarrow> ident c' = ident c"
  by (auto simp: lgp_hello_handle_def ident_def Let_def split: if_splits bind_splits prod.splits bool.splits)

lemma hello_handle_defined:
  assumes m: "msg_ok msg" shows "lgp_hello_handle answers c msg \<noteq> None"
proof (cases "m_length msg - 6 < 8")
  case False
  then have "8 \<le> length (m_payload msg)"
    using length_minus_header [OF m] m by (auto simp: msg_ok_def word_less_nat_alt)
  then show ?thesis
    by (auto simp: lgp_hello_handle_def lgp_read_u16_le_def lgp_read_u32_le_def Let_def split: prod.split bool.split)
qed (simp add: lgp_hello_handle_def)

interpretation hello: message_handler handle_hello
proof unfold_locales
  fix st st' :: lgp_state and client k msg b
  assume ok: "server_ok st" and c: "client \<in> set (clients st)" and h: "handle_hello k client msg st = Some (st', b)"
  from h obtain c1 r out where g: "lgp_hello_handle (k_write k (kcalls st)) client msg = Some (c1, r, out)"
    by (auto simp: handle_hello_def split: option.splits)
  note i = hello_handle_ident [OF g] and co = hello_handle_ok [OF server_okD(4) [OF ok c] g]
  let ?st1 = "(put_client c1 st)\<lparr>kcalls := kcalls st + 1, sent := sent st @ [(cl_fd client, out)]\<rparr>"
  have p: "server_ok (put_client c1 st) \<and> map ident (clients (put_client c1 st)) = map ident (clients st)"
    by (rule server_ok_put_client [OF ok c i co])
  with same_scene_ok [OF _ same_scene_effects(1)] have s1: "server_ok ?st1" by blast
  have c1: "c1 \<in> set (clients ?st1)" using c i by (auto simp: put_client_def ident_def image_iff)
  let ?c2 = "c1\<lparr>caps_granted := caps_granted c1 AND NOT LGP_CAP_WINDOW_MANAGER\<rparr>"
  have "(caps_granted c1 AND m) AND a = (caps_granted c1 AND a) AND m" for m a :: u32
    by (simp add: ac_simps)
  with co have "client_ok ?c2" by (simp add: client_ok_def)
  with server_ok_put_client [OF s1 c1, of ?c2] p
  have s2: "server_ok (put_client ?c2 ?st1) \<and> map ident (clients (put_client ?c2 ?st1)) = map ident (clients st)"
    by (simp add: ident_def)
  have s3: "server_ok (?st1\<lparr>wm_client := Some (cl_addr c1)\<rparr>)" if "cl_uid c1 = 0"
    using s1 c1 that by (auto simp: server_ok_def wm_ok_def screen_ok_def)
  show "server_ok st' \<and> map ident (clients st') = map ident (clients st)"
  proof (cases r)
    case False
    with h g s1 p show ?thesis by (auto simp: handle_hello_def Let_def)
  next
    case True
    let ?st2 = "if caps_granted c1 AND LGP_CAP_WINDOW_MANAGER \<noteq> 0
                then (if cl_uid c1 \<noteq> 0 then put_client ?c2 ?st1 else ?st1\<lparr>wm_client := Some (cl_addr c1)\<rparr>)
                else ?st1"
    have s: "server_ok ?st2 \<and> map ident (clients ?st2) = map ident (clients st)"
      using s1 s2 s3 p by simp
    let ?geom = "lgp_frame LGP_MSG_OUTPUT_GEOMETRY
        (lgp_write_u32_le (ucast (hdisplay ?st2)) @ lgp_write_u32_le (ucast (vdisplay ?st2)))"
    have "handle_hello k client msg st = Some (fst (lgp_send k (cl_fd client) ?geom ?st2), True)"
      unfolding handle_hello_def Let_def g option.case prod.case by (simp only: True not_True_eq_False if_False)
    with h have "same_scene ?st2 st'" using same_scene_send [of ?st2 k "cl_fd client" ?geom]
      by (simp only: option.inject prod.inject)
    with same_scene_ok s show ?thesis by (auto simp: same_scene_def)
  qed
next
  fix st :: lgp_state and client and k :: lgp_kernel and msg :: lgp_msg
  assume "msg_ok msg"
  then have "lgp_hello_handle (k_write k (kcalls st)) client msg \<noteq> None"
    by (rule hello_handle_defined)
  then show "handle_hello k client msg st \<noteq> None"
    by (auto simp: handle_hello_def Let_def)
qed

section \<open>The dispatcher and the loop over the frames\<close>

lemmas handler_keeps = hello.keeps fill_rect.keeps create.keeps destroy.keeps commit.keeps
  clipboard_set.keeps clipboard_get.keeps set_position.keeps set_focus.keeps set_state.keeps grab_key.keeps

lemmas handler_completes = hello.completes fill_rect.completes create.completes destroy.completes
  commit.completes clipboard_set.completes clipboard_get.completes set_position.completes
  set_focus.completes set_state.completes grab_key.completes

interpretation message: message_handler "\<lambda>k. lgp_handle_client_message k fm" for fm
proof unfold_locales
  fix st st' :: lgp_state and client k msg b
  assume "server_ok st" "client \<in> set (clients st)"
    and h: "lgp_handle_client_message k fm client msg st = Some (st', b)"
  note keeps = handler_keeps [OF this(1,2)]
  have "st' = st \<or> (server_ok st' \<and> map ident (clients st') = map ident (clients st))"
    using h unfolding lgp_handle_client_message_def
    by (simp split: if_splits) (drule keeps; simp)+
  with \<open>server_ok st\<close> show "server_ok st' \<and> map ident (clients st') = map ident (clients st)" by auto
next
  fix st :: lgp_state and client k and msg :: lgp_msg
  assume ok: "server_ok st" "client \<in> set (clients st)" "msg_ok msg" "kernel_backs k" "cl_uid client \<noteq> 0"
  show "lgp_handle_client_message k fm client msg st \<noteq> None"
    unfolding lgp_handle_client_message_def
    using ok by (simp add: handler_completes del: not_None_eq)
qed

lemma client_same_ident:
  assumes "server_ok st'" "map ident (clients st') = map ident (clients st)" "client \<in> set (clients st)"
  shows "\<exists>c. client_at (cl_addr client) st' = Some c \<and> c \<in> set (clients st') \<and> ident c = ident client"
proof -
  have "ident ` set (clients st') = ident ` set (clients st)" using arg_cong [OF assms(2), of set] by simp
  then have "ident client \<in> ident ` set (clients st')" using assms(3) by simp
  then obtain c where c: "c \<in> set (clients st')" "ident c = ident client" by auto
  then have "cl_addr c = cl_addr client" by (simp add: ident_def)
  with client_at_unique [OF server_okD(5) [OF assms(1)] c(1)] c show ?thesis by auto
qed

text \<open>Taking a handled frame out of the buffer.\<close>

lemma consume_frame_ok:
  assumes "server_ok st" "c \<in> set (clients st)" "length buf \<le> LGP_CLIENT_RX_BUFFER_SIZE"
  shows "server_ok (put_client (c\<lparr>rx_buf := buf\<rparr>) st) \<and>
    map ident (clients (put_client (c\<lparr>rx_buf := buf\<rparr>) st)) = map ident (clients st)"
  by (rule server_ok_put_client [OF assms(1,2)])
     (use server_okD(4) [OF assms(1,2)] assms(3) in \<open>simp_all add: ident_def client_ok_def\<close>)

definition served :: "lgp_state \<Rightarrow> lgp_state \<Rightarrow> bool" where
  "served st st' \<longleftrightarrow> server_ok st' \<and> map ident (clients st') = map ident (clients st)"

lemma process_messages_keeps:
  assumes "server_ok st" "client \<in> set (clients st)" "cl_addr client = a"
    "length buf \<le> LGP_CLIENT_RX_BUFFER_SIZE"
    "lgp_client_process_messages k fm a buf st = Some (st', b)"
  shows "served st st'"
  using assms
proof (induction k fm a buf st arbitrary: client rule: lgp_client_process_messages.induct)
  case (1 k fm a buf st)
  note ih = 1(1) and ok = 1(2) and c = 1(3) and a = 1(4) and l = 1(5) and r = 1(6)
  have at: "client_at a st = Some client" using client_at_unique [OF server_okD(5) [OF ok] c] a by simp
  show ?case
  proof (cases "st' = st")
    case False
    with r at obtain ty len msg st1 ok1 where
      p: "\<not> length buf < 6" "lgp_tlv_peek_header buf = Some (ty, len)"
        "\<not> (unat len < 6 \<or> unat len > 4096)" "\<not> length buf < unat len"
        "lgp_tlv_decode (take (unat len) buf) = Some msg"
        "lgp_handle_client_message k fm client msg st = Some (st1, ok1)"
      by (auto simp: lgp_client_process_messages.simps [of k fm a buf st]
          split: if_splits option.splits prod.splits)
    from message.keeps [OF ok c p(6)] have s1: "server_ok st1" "map ident (clients st1) = map ident (clients st)"
      by simp_all
    from client_same_ident [OF s1 c] a obtain c1 where
      c1: "client_at a st1 = Some c1" "c1 \<in> set (clients st1)" "ident c1 = ident client" by auto
    show ?thesis
    proof (cases ok1)
      case False
      with r p at s1 show ?thesis by (simp add: lgp_client_process_messages.simps [of k fm a buf st] served_def)
    next
      case True
      let ?c2 = "c1\<lparr>rx_buf := drop (unat len) buf\<rparr>"
      have s2: "server_ok (put_client ?c2 st1)"
          "map ident (clients (put_client ?c2 st1)) = map ident (clients st1)"
        using consume_frame_ok [OF s1(1) c1(2), of "drop (unat len) buf"] l by auto
      have r2: "lgp_client_process_messages k fm a (drop (unat len) buf) (put_client ?c2 st1) = Some (st', b)"
        using r p at True c1 by (simp add: lgp_client_process_messages.simps [of k fm a buf st])
      have "served (put_client ?c2 st1) st'"
        by (rule ih [of "(ty, len)" ty len msg client "(st1, ok1)" st1 ok1 c1 ?c2])
           (use p True at c1 s2 r2 a l in \<open>auto simp: put_client_def ident_def image_iff\<close>)
      then show ?thesis using s1 s2 by (simp add: served_def)
    qed
  qed (use ok in \<open>simp add: served_def\<close>)
qed

lemma process_messages_defined:
  assumes "server_ok st" "client \<in> set (clients st)" "cl_addr client = a" "cl_uid client \<noteq> 0"
    "length buf \<le> LGP_CLIENT_RX_BUFFER_SIZE" "kernel_backs k"
  shows "lgp_client_process_messages k fm a buf st \<noteq> None"
  using assms
proof (induction k fm a buf st arbitrary: client rule: lgp_client_process_messages.induct)
  case (1 k fm a buf st)
  note ih = 1(1) and ok = 1(2) and c = 1(3) and a = 1(4) and u = 1(5) and l = 1(6) and kb = 1(7)
  have at: "client_at a st = Some client" using client_at_unique [OF server_okD(5) [OF ok] c] a by simp
  show ?case
  proof (rule ccontr)
    assume n: "\<not> ?case"
    with at obtain ty len msg where
      p: "\<not> length buf < 6" "lgp_tlv_peek_header buf = Some (ty, len)"
        "\<not> (unat len < 6 \<or> unat len > 4096)" "\<not> length buf < unat len"
        "lgp_tlv_decode (take (unat len) buf) = Some msg"
      by (auto simp: lgp_client_process_messages.simps [of k fm a buf st]
          split: if_splits option.splits prod.splits)
    from message.safe [OF ok c lgp_tlv_decode_ok [OF p(5)] kb u] obtain st1 ok1 where
      h: "lgp_handle_client_message k fm client msg st = Some (st1, ok1)" and
      s1: "server_ok st1" "map ident (clients st1) = map ident (clients st)" by blast
    from client_same_ident [OF s1 c] a obtain c1 where
      c1: "client_at a st1 = Some c1" "c1 \<in> set (clients st1)" "ident c1 = ident client" by auto
    let ?c2 = "c1\<lparr>rx_buf := drop (unat len) buf\<rparr>"
    have s2: "server_ok (put_client ?c2 st1)"
      using consume_frame_ok [OF s1(1) c1(2), of "drop (unat len) buf"] l by auto
    have t: ok1 using n p at h by (cases ok1) (auto simp: lgp_client_process_messages.simps [of k fm a buf st])
    have "lgp_client_process_messages k fm a (drop (unat len) buf) (put_client ?c2 st1) \<noteq> None"
      by (rule ih [of "(ty, len)" ty len msg client "(st1, ok1)" st1 ok1 c1 ?c2])
         (use p t at h c1 s2 a l u kb in \<open>auto simp: put_client_def ident_def image_iff\<close>)
    with n p at h t c1 show False by (simp add: lgp_client_process_messages.simps [of k fm a buf st])
  qed
qed

text \<open>Closing a client.\<close>

lemma set_unlink_client:
  assumes "distinct (map cl_addr cs)"
  shows "set (unlink_client a cs) = {c \<in> set cs. cl_addr c \<noteq> a} \<and> distinct (map cl_addr (unlink_client a cs))"
  using assms by (induction cs) (auto simp: image_iff)

lemma close_client_ok:
  assumes ok: "server_ok st" and c: "c \<in> set (clients st)"
  shows "server_ok (lgp_state_close_client st c)"
proof -
  let ?st = "lgp_state_close_client st c"
  note d = server_okD(5) [OF ok]
  have cl: "set (clients ?st) = {d \<in> set (clients st). cl_addr d \<noteq> cl_addr c}" "distinct (map cl_addr (clients ?st))"
    using set_unlink_client [OF d, of "cl_addr c"]
    by (simp_all add: lgp_state_close_client_def lgp_state_remove_client_def Let_def)
  have m: "surface_manager ?st = fst (lgp_surface_manager_destroy_for_client (surface_manager st) c)"
    by (simp add: lgp_state_close_client_def lgp_state_remove_client_def Let_def)
  have other: "d \<in> set (clients ?st)" if "d \<in> set (clients st)" "session_id d \<noteq> session_id c" for d
    using that c d cl(1) by (auto simp: distinct_map inj_on_def)
  have su: "buffer_size s < 2 ^ 32 \<and> surface_owned (clients ?st) s" if "s \<in> set (surfaces (surface_manager ?st))" for s
  proof (cases "in_use s")
    case True
    with that m have s: "s \<in> set (surfaces (surface_manager st))" "owner_session_id s \<noteq> session_id c"
      by (auto simp: lgp_surface_manager_destroy_for_client_def Let_def lgp_surface_release_def split: if_splits)
    with server_okD(2,3) [OF ok] True other show ?thesis unfolding surface_owned_def by metis
  next
    case False
    with that m server_okD(2) [OF ok] have "buffer_size s < 2 ^ 32"
      by (auto simp: lgp_surface_manager_destroy_for_client_def Let_def lgp_surface_release_def zero_surface_def split: if_splits)
    with False show ?thesis by (simp add: surface_owned_def)
  qed
  have w: "wm_ok ?st"
    using server_okD(6) [OF ok] cl(1)
    by (auto simp: wm_ok_def lgp_state_close_client_def lgp_state_remove_client_def Let_def split: if_splits)
  have "manager_ok (surface_manager ?st)" unfolding m by (rule destroy_for_client_ok [OF server_okD(1) [OF ok]])
  moreover have "screen_ok ?st" "grabbed_keys ?st = grabbed_keys st" "global_clipboard ?st = global_clipboard st"
    using server_okD(7) [OF ok]
    by (simp_all add: screen_ok_def lgp_state_close_client_def lgp_state_remove_client_def Let_def)
  moreover have "list_all client_ok (clients ?st)" using server_okD(4) [OF ok] cl(1) by (auto simp: list_all_iff)
  ultimately show ?thesis
    using ok w su cl(2) unfolding server_ok_def list_all_iff by simp
qed

end
