(* ===== verification/Lgp_Input.thy ===== *)
theory Lgp_Input
  imports Lgp_Server_Inv
begin

text \<open>
  The compositor's input: \<open>input/input.c\<close> with its raw back end and the integer handlers of its
  libinput back end, and the older drivers \<open>input/mouse.c\<close> and \<open>input/keyboard.c\<close>. The packets and
  events the devices deliver are arguments. It is shown that input keeps the server invariant and
  has a defined result, which surface the pointer addresses, and that the raw back end behaves like
  the two separate drivers.
\<close>

section \<open>Shared input state\<close>

text \<open>
  \<open>g_input\<close> with the button states that \<open>lgp_input_pump_raw_mouse\<close> keeps in static variables. The
  raw back end only ever adds whole numbers below 256 to a clamped pointer, which a \<open>double\<close> holds
  exactly, so the pointer is an integer here.
\<close>

record lgp_input =
  screen_w :: int
  screen_h :: int
  pointer_x :: int
  pointer_y :: int
  modifiers :: u32
  last_left :: bool
  last_right :: bool

abbreviation (input) LGP_MOD_SHIFT :: u32 where "LGP_MOD_SHIFT \<equiv> 1"
abbreviation (input) LGP_MOD_CTRL :: u32 where "LGP_MOD_CTRL \<equiv> 2"
abbreviation (input) LGP_MOD_ALT :: u32 where "LGP_MOD_ALT \<equiv> 4"
abbreviation (input) LGP_MOD_SUPER :: u32 where "LGP_MOD_SUPER \<equiv> 8"

abbreviation (input) KEY_LEFTCTRL :: u32 where "KEY_LEFTCTRL \<equiv> 29"
abbreviation (input) KEY_LEFTSHIFT :: u32 where "KEY_LEFTSHIFT \<equiv> 42"
abbreviation (input) KEY_RIGHTSHIFT :: u32 where "KEY_RIGHTSHIFT \<equiv> 54"
abbreviation (input) KEY_LEFTALT :: u32 where "KEY_LEFTALT \<equiv> 56"
abbreviation (input) KEY_RIGHTCTRL :: u32 where "KEY_RIGHTCTRL \<equiv> 97"
abbreviation (input) KEY_RIGHTALT :: u32 where "KEY_RIGHTALT \<equiv> 100"
abbreviation (input) KEY_LEFTMETA :: u32 where "KEY_LEFTMETA \<equiv> 125"
abbreviation (input) KEY_RIGHTMETA :: u32 where "KEY_RIGHTMETA \<equiv> 126"

definition lgp_input_set_screen :: "u32 \<Rightarrow> u32 \<Rightarrow> lgp_input \<times> lgp_state \<Rightarrow> lgp_input \<times> lgp_state" where
  "lgp_input_set_screen screen_width screen_height = (\<lambda>(inp, st).
     let w = (if screen_width > 0 then sint screen_width else 1920);
         h = (if screen_height > 0 then sint screen_height else 1080);
         inp1 = inp\<lparr>screen_w := w, screen_h := h, pointer_x := c_half w, pointer_y := c_half h, modifiers := 0\<rparr>
     in (inp1, st\<lparr>cursor := lgp_cursor_set_position (pointer_x inp1) (pointer_y inp1)
                             (lgp_cursor_init (word_of_int w) (word_of_int h))\<rparr>))"

definition lgp_input_clamp_pointer :: "lgp_input \<Rightarrow> lgp_input" where
  "lgp_input_clamp_pointer inp =
     (let i1 = (if pointer_x inp < 0 then inp\<lparr>pointer_x := 0\<rparr> else inp);
          i2 = (if pointer_y i1 < 0 then i1\<lparr>pointer_y := 0\<rparr> else i1);
          i3 = (if pointer_x i2 \<ge> screen_w i2 then i2\<lparr>pointer_x := screen_w i2 - 1\<rparr> else i2)
      in if pointer_y i3 \<ge> screen_h i3 then i3\<lparr>pointer_y := screen_h i3 - 1\<rparr> else i3)"

definition modifier_mask :: "u32 \<Rightarrow> u32" where
  "modifier_mask code =
     (if code = KEY_LEFTSHIFT \<or> code = KEY_RIGHTSHIFT then LGP_MOD_SHIFT
      else if code = KEY_LEFTCTRL \<or> code = KEY_RIGHTCTRL then LGP_MOD_CTRL
      else if code = KEY_LEFTALT \<or> code = KEY_RIGHTALT then LGP_MOD_ALT
      else if code = KEY_LEFTMETA \<or> code = KEY_RIGHTMETA then LGP_MOD_SUPER
      else 0)"

definition lgp_input_update_modifiers :: "u32 \<Rightarrow> bool \<Rightarrow> lgp_input \<Rightarrow> lgp_input" where
  "lgp_input_update_modifiers code pressed inp =
     (let mask = modifier_mask code in
      if mask = 0 then inp
      else if pressed then inp\<lparr>modifiers := modifiers inp OR mask\<rparr>
      else inp\<lparr>modifiers := modifiers inp AND NOT mask\<rparr>)"

section \<open>The libinput back end\<close>

text \<open>
  The handlers of button and key events, which work on integers; \<open>button\<close>, \<open>key\<close> and \<open>pressed\<close> are
  what libinput reports. Relative motion arrives as fractions; it is modelled in \<open>Lgp_Devices\<close>.
\<close>

definition lgp_input_button_from_evdev :: "u32 \<Rightarrow> u8" where
  "lgp_input_button_from_evdev button =
     (if button = 0x110 then 0 else if button = 0x111 then 1 else if button = 0x112 then 2 else 3)"

definition lgp_input_handle_pointer_button ::
    "lgp_kernel \<Rightarrow> u32 \<Rightarrow> bool \<Rightarrow> lgp_input \<Rightarrow> lgp_state \<Rightarrow> lgp_state option" where
  "lgp_input_handle_pointer_button k button pressed inp st =
     lgp_dispatch_pointer_button k (pointer_x inp) (pointer_y inp)
       (lgp_input_button_from_evdev button) pressed st"

definition lgp_input_handle_keyboard_key ::
    "lgp_kernel \<Rightarrow> u32 \<Rightarrow> bool \<Rightarrow> lgp_input \<times> lgp_state \<Rightarrow> (lgp_input \<times> lgp_state) option" where
  "lgp_input_handle_keyboard_key k key pressed = (\<lambda>(inp, st). do {
     let inp1 = lgp_input_update_modifiers key pressed inp;
     st1 \<leftarrow> lgp_dispatch_keyboard_key k key (if pressed then 1 else 0) (modifiers inp1) st;
     Some (inp1, st1)
   })"

section \<open>The raw back end\<close>

text \<open>
  The packets read from \<open>/dev/input/mice\<close> and the events read from the keyboard until a short read
  are arguments. A packet has three bytes; an event has type, code and value.
\<close>

abbreviation (input) EV_KEY :: u16 where "EV_KEY \<equiv> 1"

type_synonym mouse_packet = "u8 \<times> u8 \<times> u8"
type_synonym input_event = "u16 \<times> u16 \<times> int"

definition mouse_delta :: "u8 \<Rightarrow> u8 \<Rightarrow> u8 \<Rightarrow> int" where
  "mouse_delta flags sign b = (if flags AND sign \<noteq> 0 then int (unat b) - 256 else int (unat b))"

definition lgp_input_mouse_packet ::
    "lgp_kernel \<Rightarrow> mouse_packet \<Rightarrow> lgp_input \<times> lgp_state \<Rightarrow> (lgp_input \<times> lgp_state) option" where
  "lgp_input_mouse_packet k = (\<lambda>(d0, d1, d2) (inp, st). do {
     let inp1 = lgp_input_clamp_pointer
                  (inp\<lparr>pointer_x := pointer_x inp + mouse_delta d0 0x10 d1,
                       pointer_y := pointer_y inp - mouse_delta d0 0x20 d2\<rparr>);
     let x = pointer_x inp1;
     let y = pointer_y inp1;
     let st1 = st\<lparr>cursor := lgp_cursor_set_position x y (cursor st)\<rparr>;
     st2 \<leftarrow> lgp_dispatch_pointer_motion k x y st1;
     let left_button = (d0 AND 1 \<noteq> 0);
     let right_button = (d0 AND 2 \<noteq> 0);
     st3 \<leftarrow> (if left_button \<noteq> last_left inp1 then lgp_dispatch_pointer_button k x y 0 left_button st2
             else Some st2);
     st4 \<leftarrow> (if right_button \<noteq> last_right inp1 then lgp_dispatch_pointer_button k x y 1 right_button st3
             else Some st3);
     Some (inp1\<lparr>last_left := left_button, last_right := right_button\<rparr>, st4)
   })"

definition lgp_input_pump_raw_mouse ::
    "lgp_kernel \<Rightarrow> mouse_packet list \<Rightarrow> lgp_input \<times> lgp_state \<Rightarrow> (lgp_input \<times> lgp_state) option" where
  "lgp_input_pump_raw_mouse k packets = for_each (lgp_input_mouse_packet k) packets"

definition lgp_input_key_event ::
    "lgp_kernel \<Rightarrow> input_event \<Rightarrow> lgp_input \<times> lgp_state \<Rightarrow> (lgp_input \<times> lgp_state) option" where
  "lgp_input_key_event k = (\<lambda>(ty, code, val) (inp, st).
     if ty \<noteq> EV_KEY then Some (inp, st)
     else
       (let pressed = (val = 1 \<or> val = 2);
            inp1 = lgp_input_update_modifiers (ucast code) pressed inp
        in if keyboard_focus_session_id st > 0
           then do {
             st1 \<leftarrow> lgp_dispatch_keyboard_key k (ucast code) (word_of_int val) (modifiers inp1) st;
             Some (inp1, st1)
           }
           else Some (inp1, st)))"

definition lgp_input_pump_raw_keyboard ::
    "lgp_kernel \<Rightarrow> input_event list \<Rightarrow> lgp_input \<times> lgp_state \<Rightarrow> (lgp_input \<times> lgp_state) option" where
  "lgp_input_pump_raw_keyboard k events = for_each (lgp_input_key_event k) events"

text \<open>A device that is not open yields no packets or no events.\<close>

definition lgp_input_pump ::
    "lgp_kernel \<Rightarrow> mouse_packet list \<Rightarrow> input_event list \<Rightarrow> lgp_input \<times> lgp_state
      \<Rightarrow> (lgp_input \<times> lgp_state) option" where
  "lgp_input_pump k packets events is = do {
     is1 \<leftarrow> lgp_input_pump_raw_mouse k packets is;
     lgp_input_pump_raw_keyboard k events is1
   }"

text \<open>
  Finding the devices. \<open>opens\<close> lists, for \<open>/dev/input/event0\<close> to \<open>event9\<close>, the descriptor the
  kernel returned (negative for a failure) and the key bitmap, if the \<open>ioctl\<close> succeeded. The result
  is the keyboard's descriptor and the descriptors closed on the way.
\<close>

abbreviation (input) KEY_A :: nat where "KEY_A \<equiv> 30"

fun lgp_input_init_raw_keyboard :: "(int \<times> 64 word list option) list \<Rightarrow> int \<times> int list" where
  "lgp_input_init_raw_keyboard [] = (- 1, [])"
| "lgp_input_init_raw_keyboard ((fd, bitmask) # rest) =
     (if fd < 0 then lgp_input_init_raw_keyboard rest
      else if (case bitmask of None \<Rightarrow> False
               | Some ws \<Rightarrow> (ws ! (KEY_A div 64)) AND push_bit (KEY_A mod 64) 1 \<noteq> 0)
      then (fd, [])
      else (case lgp_input_init_raw_keyboard rest of (k, cl) \<Rightarrow> (k, fd # cl)))"

definition lgp_input_get_fd :: "int \<Rightarrow> int \<Rightarrow> int" where
  "lgp_input_get_fd mouse_fd keyboard_fd = (if 0 \<le> mouse_fd then mouse_fd else keyboard_fd)"

definition lgp_input_get_aux_fd :: "int \<Rightarrow> int \<Rightarrow> int" where
  "lgp_input_get_aux_fd mouse_fd keyboard_fd =
     (if 0 \<le> mouse_fd \<and> 0 \<le> keyboard_fd then keyboard_fd else - 1)"

section \<open>The separate drivers\<close>

text \<open>
  \<open>mouse.c\<close> and \<open>keyboard.c\<close>: drivers for the same two devices with a state of their own.
\<close>

record lgp_mouse =
  g_screen_w :: int
  g_screen_h :: int
  g_mouse_x :: int
  g_mouse_y :: int
  g_last_left :: bool
  g_last_right :: bool

definition lgp_mouse_init :: "u32 \<Rightarrow> u32 \<Rightarrow> lgp_mouse \<times> lgp_state \<Rightarrow> lgp_mouse \<times> lgp_state" where
  "lgp_mouse_init screen_width screen_height = (\<lambda>(ms, st).
     let ms1 = ms\<lparr>g_screen_w := sint screen_width, g_screen_h := sint screen_height,
                  g_mouse_x := c_half (sint screen_width), g_mouse_y := c_half (sint screen_height)\<rparr>
     in (ms1, st\<lparr>cursor := lgp_cursor_set_position (g_mouse_x ms1) (g_mouse_y ms1)
                            (lgp_cursor_init screen_width screen_height)\<rparr>))"

definition lgp_mouse_packet ::
    "lgp_kernel \<Rightarrow> mouse_packet \<Rightarrow> lgp_mouse \<times> lgp_state \<Rightarrow> (lgp_mouse \<times> lgp_state) option" where
  "lgp_mouse_packet k = (\<lambda>(d0, d1, d2) (ms, st). do {
     let dx = (if d0 AND 0x10 \<noteq> 0 then int (unat d1) - 256 else int (unat d1));
     let dy = (if d0 AND 0x20 \<noteq> 0 then int (unat d2) - 256 else int (unat d2));
     let x1 = g_mouse_x ms + dx;
     let y1 = g_mouse_y ms - dy;
     let x2 = (if x1 < 0 then 0 else x1);
     let x = (if x2 \<ge> g_screen_w ms then g_screen_w ms - 1 else x2);
     let y2 = (if y1 < 0 then 0 else y1);
     let y = (if y2 \<ge> g_screen_h ms then g_screen_h ms - 1 else y2);
     let st1 = st\<lparr>cursor := lgp_cursor_set_position x y (cursor st)\<rparr>;
     st2 \<leftarrow> lgp_dispatch_pointer_motion k x y st1;
     let left_button = (d0 AND 1 \<noteq> 0);
     let right_button = (d0 AND 2 \<noteq> 0);
     st3 \<leftarrow> (if left_button \<noteq> g_last_left ms then lgp_dispatch_pointer_button k x y 0 left_button st2
             else Some st2);
     st4 \<leftarrow> (if right_button \<noteq> g_last_right ms then lgp_dispatch_pointer_button k x y 1 right_button st3
             else Some st3);
     Some (ms\<lparr>g_mouse_x := x, g_mouse_y := y, g_last_left := left_button, g_last_right := right_button\<rparr>, st4)
   })"

definition lgp_mouse_pump ::
    "lgp_kernel \<Rightarrow> mouse_packet list \<Rightarrow> lgp_mouse \<times> lgp_state \<Rightarrow> (lgp_mouse \<times> lgp_state) option" where
  "lgp_mouse_pump k packets = for_each (lgp_mouse_packet k) packets"

definition update_modifiers :: "u16 \<Rightarrow> int \<Rightarrow> u32 \<Rightarrow> u32" where
  "update_modifiers code val mods =
     (let pressed = (val = 1 \<or> val = 2);
          mask = (if code = 42 \<or> code = 54 then LGP_MOD_SHIFT
                  else if code = 29 \<or> code = 97 then LGP_MOD_CTRL
                  else if code = 56 \<or> code = 100 then LGP_MOD_ALT
                  else if code = 125 \<or> code = 126 then LGP_MOD_SUPER
                  else 0)
      in if mask \<noteq> 0 then (if pressed then mods OR mask else mods AND NOT mask) else mods)"

definition lgp_keyboard_event ::
    "lgp_kernel \<Rightarrow> input_event \<Rightarrow> u32 \<times> lgp_state \<Rightarrow> (u32 \<times> lgp_state) option" where
  "lgp_keyboard_event k = (\<lambda>(ty, code, val) (mods, st).
     if ty = EV_KEY
     then (let mods1 = update_modifiers code val mods in
           if keyboard_focus_session_id st > 0
           then do {
             st1 \<leftarrow> lgp_dispatch_keyboard_key k (ucast code) (word_of_int val) mods1 st;
             Some (mods1, st1)
           }
           else Some (mods1, st))
     else Some (mods, st))"

definition lgp_keyboard_pump ::
    "lgp_kernel \<Rightarrow> input_event list \<Rightarrow> u32 \<times> lgp_state \<Rightarrow> (u32 \<times> lgp_state) option" where
  "lgp_keyboard_pump k events = for_each (lgp_keyboard_event k) events"

section \<open>The state at the start\<close>

text \<open>
  The state \<open>main\<close> sets up: no client, an empty surface table, and the front buffer of the selected
  mode painted black. \<open>pitch\<close> is what the kernel chose and \<open>pixels\<close> the mapped buffer before it is
  cleared. The cursor is still the zeroed static variable.
\<close>

definition lgp_initial_state :: "u16 \<Rightarrow> u16 \<Rightarrow> u32 \<Rightarrow> u8 list \<Rightarrow> lgp_state" where
  "lgp_initial_state hdisp vdisp pitch pixels =
     \<lparr>running = True, next_session_id = 1, clients = [], surface_manager = lgp_surface_manager_init,
      keyboard_focus_session_id = 0, keyboard_focus_surface_id = 0, global_clipboard = [],
      grabbed_keys = [], wm_client = None,
      cursor = \<lparr>cur_x = 0, cur_y = 0, cur_screen_width = 0, cur_screen_height = 0\<rparr>,
      hdisplay = hdisp, vdisplay = vdisp, fb_map = map (\<lambda>_. 0) pixels, fb_width = ucast hdisp, fb_height = ucast vdisp,
      fb_pitch = pitch, kcalls = 0, sent = [], closed = []\<rparr>"

section \<open>The surface under the pointer\<close>

definition covers :: "lgp_surface \<Rightarrow> int \<Rightarrow> int \<Rightarrow> bool" where
  "covers s x y \<longleftrightarrow> surf_x s \<le> x \<and> x < surf_x s + int (unat (surf_width s)) \<and>
     surf_y s \<le> y \<and> y < surf_y s + int (unat (surf_height s))"

text \<open>A surface that may receive the pointer at a position.\<close>

definition pointer_candidate :: "lgp_client option \<Rightarrow> int \<Rightarrow> int \<Rightarrow> lgp_surface \<Rightarrow> bool" where
  "pointer_candidate wm x y s \<longleftrightarrow>
     in_use s \<and> (\<forall>c. wm = Some c \<longrightarrow> owner_session_id s \<noteq> session_id c) \<and>
     LGP_LAYER_APPLICATION \<le> surf_layer s \<and> surf_layer s < LGP_LAYER_SHELL \<and>
     wm_state s \<noteq> LGP_WM_STATE_HIDDEN \<and> wm_state s \<noteq> LGP_WM_STATE_MINIMIZED \<and> covers s x y"

lemma pointer_hit_covers:
  assumes "surface_ok s" "in_use s" shows "pointer_hit s x y = Some (covers s x y)"
proof -
  have "sint (surf_width s) = int (unat (surf_width s))" "sint (surf_height s) = int (unat (surf_height s))"
    using assms sint_small [of "surf_width s"] sint_small [of "surf_height s"] by (auto simp: surface_ok_def)
  with assms show ?thesis
    by (simp add: pointer_hit_def covers_def in_int32_def surface_ok_def del: of_nat_unat)
qed

lemma pointer_target_step_candidate:
  assumes "surface_ok s"
  shows "pointer_target_step wm x y s (l, t) =
     Some (if pointer_candidate wm x y s \<and> int (unat (surf_layer s)) > l
           then (int (unat (surf_layer s)), Some s) else (l, t))"
proof (cases "in_use s \<and> LGP_LAYER_APPLICATION \<le> surf_layer s \<and> surf_layer s < LGP_LAYER_SHELL")
  case True
  then have "unat (surf_layer s) < 2 ^ 31" by (simp add: word_less_nat_alt)
  from sint_small [OF this] True pointer_hit_covers [OF assms] show ?thesis
    by (auto simp: pointer_target_step_def pointer_candidate_def not_less [symmetric] bool.case_eq_if
        simp del: of_nat_unat split: option.splits)
next
  case False
  then show ?thesis by (auto simp: pointer_target_step_def pointer_candidate_def not_less split: option.splits)
qed

lemma for_each_append: "for_each f (xs @ ys) s = for_each f xs s \<bind> for_each f ys"
  by (induction xs arbitrary: s) (auto split: option.splits)

text \<open>The result of the search among the surfaces \<open>ss\<close>.\<close>

definition first_topmost :: "(lgp_surface \<Rightarrow> bool) \<Rightarrow> lgp_surface list \<Rightarrow> lgp_surface option \<Rightarrow> bool" where
  "first_topmost P ss t \<longleftrightarrow>
     (case t of
        None \<Rightarrow> \<forall>s \<in> set ss. \<not> P s
      | Some s \<Rightarrow> \<exists>pre post. ss = pre @ s # post \<and> P s \<and>
          (\<forall>r \<in> set pre. P r \<longrightarrow> surf_layer r < surf_layer s) \<and>
          (\<forall>r \<in> set post. P r \<longrightarrow> surf_layer r \<le> surf_layer s))"

lemma first_topmost_SomeI:
  assumes "ss = pre @ s # post" "P s" "\<forall>r \<in> set pre. P r \<longrightarrow> surf_layer r < surf_layer s"
    "\<forall>r \<in> set post. P r \<longrightarrow> surf_layer r \<le> surf_layer s"
  shows "first_topmost P ss (Some s)"
  using assms unfolding first_topmost_def by auto

lemma first_topmost_snoc:
  assumes "first_topmost P ss t"
  shows "first_topmost P (ss @ [s])
    (if P s \<and> (\<forall>r. t = Some r \<longrightarrow> surf_layer r < surf_layer s) then Some s else t)"
proof (cases t)
  case None
  with assms have n: "\<forall>r \<in> set ss. \<not> P r" by (simp add: first_topmost_def)
  show ?thesis
  proof (cases "P s")
    case True
    with n None first_topmost_SomeI [of "ss @ [s]" ss s "[]" P] show ?thesis by simp
  qed (use None n in \<open>simp add: first_topmost_def\<close>)
next
  case (Some r)
  with assms obtain pre post where r: "ss = pre @ r # post" "P r"
    "\<forall>q \<in> set pre. P q \<longrightarrow> surf_layer q < surf_layer r" "\<forall>q \<in> set post. P q \<longrightarrow> surf_layer q \<le> surf_layer r"
    by (auto simp: first_topmost_def)
  show ?thesis
  proof (cases "P s \<and> surf_layer r < surf_layer s")
    case True
    then have "\<forall>q \<in> set ss. P q \<longrightarrow> surf_layer q < surf_layer s" using r by force
    with Some True first_topmost_SomeI [of "ss @ [s]" ss s "[]" P] show ?thesis by simp
  next
    case False
    then have "first_topmost P (ss @ [s]) (Some r)"
      using r by (intro first_topmost_SomeI [of _ pre _ "post @ [s]"]) auto
    with Some False show ?thesis by auto
  qed
qed

lemma pointer_search:
  assumes "list_all surface_ok ss"
  shows "\<exists>t. for_each (pointer_target_step wm x y) ss (- 1, None) =
      Some (case t of None \<Rightarrow> - 1 | Some s \<Rightarrow> int (unat (surf_layer s)), t) \<and>
    first_topmost (pointer_candidate wm x y) ss t"
  using assms
proof (induction ss rule: rev_induct)
  case (snoc s ss)
  then obtain t where t: "for_each (pointer_target_step wm x y) ss (- 1, None) =
      Some (case t of None \<Rightarrow> - 1 | Some s \<Rightarrow> int (unat (surf_layer s)), t)"
    "first_topmost (pointer_candidate wm x y) ss t" by auto
  have "surface_ok s" using snoc.prems by simp
  note p = pointer_target_step_candidate [OF this]
  let ?t = "if pointer_candidate wm x y s \<and> (\<forall>r. t = Some r \<longrightarrow> surf_layer r < surf_layer s) then Some s else t"
  have "for_each (pointer_target_step wm x y) (ss @ [s]) (- 1, None) =
      Some (case ?t of None \<Rightarrow> - 1 | Some s \<Rightarrow> int (unat (surf_layer s)), ?t)"
    by (auto simp: for_each_append t(1) p word_less_nat_alt simp del: of_nat_unat split: option.splits)
  with first_topmost_snoc [OF t(2), of s] show ?case by blast
qed (simp add: first_topmost_def)

lemma find_pointer_target_defined:
  assumes "server_ok st"
  shows "\<exists>wm t. wm_target st = Some wm \<and> lgp_find_pointer_target x y st = Some t \<and>
    first_topmost (pointer_candidate wm x y) (surfaces (surface_manager st)) t"
proof -
  obtain wm where w: "wm_target st = Some wm" using wm_target_defined [OF server_okD(6) [OF assms]] by auto
  have "list_all surface_ok (surfaces (surface_manager st))"
    using server_okD(1) [OF assms] by (simp add: manager_ok_def)
  from pointer_search [OF this, of wm x y] w show ?thesis
    by (auto simp: lgp_find_pointer_target_def)
qed

lemma candidate_layer:
  assumes "surface_ok s" "pointer_candidate wm x y s" shows "surf_layer s = LGP_LAYER_APPLICATION"
  using assms by (auto simp: surface_ok_def pointer_candidate_def layer_allowed_def not_less [symmetric])

lemma first_topmost_find:
  assumes "first_topmost P ss t" "\<And>s. s \<in> set ss \<Longrightarrow> P s \<Longrightarrow> surf_layer s = l"
  shows "t = find P ss"
proof (cases t)
  case None
  with assms(1) have "find P ss = None" by (simp add: first_topmost_def find_None_iff)
  with None show ?thesis by simp
next
  case (Some s)
  with assms(1) obtain pre post where s: "ss = pre @ s # post" "P s"
    "\<forall>r \<in> set pre. P r \<longrightarrow> surf_layer r < surf_layer s" by (auto simp: first_topmost_def)
  have "\<not> P r" if "r \<in> set pre" for r
    using s assms(2) [of r] assms(2) [of s] that by fastforce
  then have "find P (pre @ s # post) = Some s" using s(2) by (induction pre) auto
  with Some s show ?thesis by simp
qed

text \<open>
  The pointer addresses the first slot of the surface table that may receive it: a surface in
  use, on the application layer, not owned by the window manager, neither hidden nor minimised, that
  covers the position. The search by layer never decides anything, because no client can place a
  surface strictly between the application and the shell layer. Composition draws the slots in
  order, so where windows overlap the window on top is the last one and the pointer goes to another.
\<close>

theorem pointer_target_first_slot:
  assumes "server_ok st" "wm_target st = Some wm"
  shows "lgp_find_pointer_target x y st =
    Some (find (pointer_candidate wm x y) (surfaces (surface_manager st)))"
proof -
  obtain t where t: "lgp_find_pointer_target x y st = Some t"
    "first_topmost (pointer_candidate wm x y) (surfaces (surface_manager st)) t"
    using find_pointer_target_defined [OF assms(1), of x y] assms(2) by auto
  have "surf_layer s = LGP_LAYER_APPLICATION"
    if "s \<in> set (surfaces (surface_manager st))" "pointer_candidate wm x y s" for s
    using server_okD(1) [OF assms(1)] that candidate_layer by (auto simp: manager_ok_def list_all_iff)
  from first_topmost_find [OF t(2) this] t(1) show ?thesis by simp
qed

section \<open>Input and the server invariant\<close>

definition input_ok :: "lgp_input \<Rightarrow> bool" where
  "input_ok inp \<longleftrightarrow>
     screen_w inp \<le> 65535 \<and> 0 \<le> pointer_x inp \<and> pointer_x inp < screen_w inp \<and>
     screen_h inp \<le> 65535 \<and> 0 \<le> pointer_y inp \<and> pointer_y inp < screen_h inp"

lemma cursor_set_position_on_screen:
  "cursor_on_screen c \<Longrightarrow> cursor_on_screen (lgp_cursor_set_position x y c)"
  by (auto simp: cursor_on_screen_def lgp_cursor_set_position_def Let_def)

lemma server_ok_cursor:
  "server_ok st \<Longrightarrow> cursor_on_screen c \<Longrightarrow> server_ok (st\<lparr>cursor := c\<rparr>)"
  by (simp add: server_ok_def wm_ok_def screen_ok_def)

lemma clamp_ok:
  "0 < screen_w inp \<Longrightarrow> screen_w inp \<le> 65535 \<Longrightarrow> 0 < screen_h inp \<Longrightarrow> screen_h inp \<le> 65535 \<Longrightarrow>
   input_ok (lgp_input_clamp_pointer inp)"
  by (simp add: input_ok_def lgp_input_clamp_pointer_def Let_def)

lemma same_scene_motion:
  assumes "server_ok st" "0 \<le> x" "x \<le> 65535" "0 \<le> y" "y \<le> 65535"
  shows "\<exists>st'. lgp_dispatch_pointer_motion k x y st = Some st' \<and> same_scene st st'"
proof -
  obtain wm where w: "wm_target st = Some wm" using wm_target_defined [OF server_okD(6) [OF assms(1)]] by auto
  define st1 where "st1 = (case wm of None \<Rightarrow> st
      | Some c \<Rightarrow> lgp_send_pointer_motion_to_session k (session_id c) x y st)"
  have s1: "same_scene st st1"
    by (simp add: st1_def lgp_send_pointer_motion_to_session_def same_scene_to_session split: option.split)
  note ok1 = same_scene_ok [OF assms(1) s1]
  obtain t where t: "lgp_find_pointer_target x y st1 = Some t"
      "\<And>s. t = Some s \<Longrightarrow> s \<in> set (surfaces (surface_manager st1)) \<and> in_use s"
    using find_pointer_target_defined [OF ok1, of x y]
    by (fastforce simp: first_topmost_def pointer_candidate_def)
  have "in_int32 (x - surf_x s) \<and> in_int32 (y - surf_y s)" if "t = Some s" for s
  proof -
    have "surface_ok s" using t(2) [OF that] server_okD(1) [OF ok1] by (auto simp: manager_ok_def list_all_iff)
    then show ?thesis using t(2) [OF that] assms(2-5) by (simp add: surface_ok_def in_int32_def)
  qed
  with w t(1) s1 same_scene_trans [OF s1 same_scene_to_session] show ?thesis
    by (cases t) (auto simp: lgp_dispatch_pointer_motion_def st1_def Let_def lgp_send_pointer_motion_to_session_def)
qed

lemma same_scene_button:
  assumes "server_ok st"
  shows "\<exists>st'. lgp_dispatch_pointer_button k x y b p st = Some st' \<and> same_scene st st'"
proof -
  obtain wm where w: "wm_target st = Some wm" using wm_target_defined [OF server_okD(6) [OF assms(1)]] by auto
  define st1 where "st1 = (case wm of None \<Rightarrow> st
      | Some c \<Rightarrow> lgp_send_pointer_button_to_session k (session_id c) b p st)"
  have s1: "same_scene st st1"
    by (simp add: st1_def lgp_send_pointer_button_to_session_def same_scene_to_session split: option.split)
  obtain t where t: "lgp_find_pointer_target x y st1 = Some t"
    using find_pointer_target_defined [OF same_scene_ok [OF assms(1) s1], of x y] by auto
  have f: "same_scene st1 (st1\<lparr>keyboard_focus_session_id := i, keyboard_focus_surface_id := j\<rparr>)" for i j
    by (simp add: same_scene_def)
  show ?thesis
    using w t s1 same_scene_trans [OF s1 same_scene_to_session]
      same_scene_trans [OF s1 same_scene_trans [OF f same_scene_to_session]]
    by (cases t) (auto simp: lgp_dispatch_pointer_button_def st1_def Let_def lgp_send_pointer_button_to_session_def)
qed

lemma same_scene_key:
  assumes "server_ok st"
  shows "\<exists>st'. lgp_dispatch_keyboard_key k key v m st = Some st' \<and> same_scene st st'"
proof -
  obtain wm where "wm_target st = Some wm" using wm_target_defined [OF server_okD(6) [OF assms(1)]] by auto
  then show ?thesis by (auto simp: lgp_dispatch_keyboard_key_def Let_def same_scene_to_session)
qed

text \<open>What input leaves alone: the surfaces, the clients and the window manager.\<close>

definition input_keeps :: "lgp_input \<times> lgp_state \<Rightarrow> lgp_input \<times> lgp_state \<Rightarrow> bool" where
  "input_keeps = (\<lambda>(inp, st) (inp', st').
     input_ok inp' \<and> server_ok st' \<and> clients st' = clients st \<and> running st' = running st \<and>
     surface_manager st' = surface_manager st \<and> wm_client st' = wm_client st)"

lemma input_keeps_trans: "input_keeps a b \<Longrightarrow> input_keeps b c \<Longrightarrow> input_keeps a c"
  by (auto simp: input_keeps_def split: prod.splits)

text \<open>
  The contract of a device driver: every event has a defined result that keeps the invariants. A
  whole batch then has one too.
\<close>

locale input_driver =
  fixes event :: "'e \<Rightarrow> lgp_input \<times> lgp_state \<Rightarrow> (lgp_input \<times> lgp_state) option"
  assumes event_defined: "input_ok inp \<Longrightarrow> server_ok st \<Longrightarrow>
    \<exists>is'. event e (inp, st) = Some is' \<and> input_keeps (inp, st) is'"
begin

lemma pump_defined:
  assumes "input_ok (fst is)" "server_ok (snd is)"
  shows "\<exists>is'. for_each event es is = Some is' \<and> input_keeps is is'"
  using assms
proof (induction es arbitrary: "is")
  case (Cons e es)
  obtain is1 where s1: "event e is = Some is1" "input_keeps is is1"
    using event_defined [of "fst is" "snd is" e] Cons.prems by auto
  then have "input_ok (fst is1)" "server_ok (snd is1)" by (auto simp: input_keeps_def split: prod.splits)
  from Cons.IH [OF this] s1 input_keeps_trans show ?case by fastforce
qed (auto simp: input_keeps_def split: prod.splits)

end

lemma same_running:
  "running (fst (lgp_send k fd buf st)) = running st"
  "running (lgp_send_to_session k s f st) = running st"
  by (auto simp: lgp_send_to_session_def lgp_send_def split: prod.splits option.splits)

lemma dispatch_running:
  "lgp_dispatch_pointer_motion k x y st = Some st' \<Longrightarrow> running st' = running st"
  "lgp_dispatch_pointer_button k x y b p st = Some st' \<Longrightarrow> running st' = running st"
  "lgp_dispatch_keyboard_key k key v m st = Some st' \<Longrightarrow> running st' = running st"
  by (auto simp: lgp_dispatch_pointer_motion_def lgp_dispatch_pointer_button_def lgp_dispatch_keyboard_key_def
      lgp_send_pointer_motion_to_session_def lgp_send_pointer_button_to_session_def Let_def same_running
      split: bind_splits option.splits if_splits)

lemma clamp_simps [simp]:
  "screen_w (lgp_input_clamp_pointer inp) = screen_w inp" "screen_h (lgp_input_clamp_pointer inp) = screen_h inp"
  "last_left (lgp_input_clamp_pointer inp) = last_left inp" "last_right (lgp_input_clamp_pointer inp) = last_right inp"
  "modifiers (lgp_input_clamp_pointer inp) = modifiers inp"
  by (simp_all add: lgp_input_clamp_pointer_def Let_def)

lemma same_sceneD: "same_scene st st' \<Longrightarrow> clients st' = clients st \<and> surface_manager st' = surface_manager st \<and>
  wm_client st' = wm_client st"
  by (simp add: same_scene_def)

lemma same_scene_button_if:
  assumes "server_ok st"
  shows "\<exists>st'. (if c then lgp_dispatch_pointer_button k x y b p st else Some st) = Some st' \<and> same_scene st st'"
  using same_scene_button [OF assms, of k x y b p] by (cases c) auto

interpretation mouse: input_driver "lgp_input_mouse_packet k" for k
proof
  fix inp st and e :: mouse_packet
  assume i: "input_ok inp" and ok: "server_ok st"
  obtain d0 d1 d2 where e: "e = (d0, d1, d2)" by (cases e)
  define inp1 where "inp1 = lgp_input_clamp_pointer
      (inp\<lparr>pointer_x := pointer_x inp + mouse_delta d0 0x10 d1, pointer_y := pointer_y inp - mouse_delta d0 0x20 d2\<rparr>)"
  let ?x = "pointer_x inp1" and ?y = "pointer_y inp1"
  have i1: "input_ok inp1" unfolding inp1_def by (rule clamp_ok) (use i in \<open>auto simp: input_ok_def\<close>)
  let ?st1 = "st\<lparr>cursor := lgp_cursor_set_position ?x ?y (cursor st)\<rparr>"
  have ok1: "server_ok ?st1"
    by (rule server_ok_cursor [OF ok cursor_set_position_on_screen])
       (use server_okD(7) [OF ok] in \<open>simp add: screen_ok_def\<close>)
  obtain st2 where st2: "lgp_dispatch_pointer_motion k ?x ?y ?st1 = Some st2" "same_scene ?st1 st2"
    using same_scene_motion [OF ok1, of ?x ?y k] i1 by (auto simp: input_ok_def)
  note ok2 = same_scene_ok [OF ok1 st2(2)]
  let ?l = "d0 AND 1 \<noteq> 0" and ?r = "d0 AND 2 \<noteq> 0"
  obtain st3 where st3: "(if ?l \<noteq> last_left inp1 then lgp_dispatch_pointer_button k ?x ?y 0 ?l st2 else Some st2) = Some st3"
      "same_scene st2 st3" using same_scene_button_if [OF ok2] by blast
  note ok3 = same_scene_ok [OF ok2 st3(2)]
  obtain st4 where st4: "(if ?r \<noteq> last_right inp1 then lgp_dispatch_pointer_button k ?x ?y 1 ?r st3 else Some st3) = Some st4"
      "same_scene st3 st4" using same_scene_button_if [OF ok3] by blast
  note ok4 = same_scene_ok [OF ok3 st4(2)]
  have r: "running st4 = running st"
    using dispatch_running(1) [OF st2(1)] dispatch_running(2) st3(1) st4(1) by (auto split: if_splits)
  have "lgp_input_mouse_packet k e (inp, st) = Some (inp1\<lparr>last_left := ?l, last_right := ?r\<rparr>, st4)"
    unfolding lgp_input_mouse_packet_def e prod.case Let_def inp1_def [symmetric] st2(1) bind.bind_lunit st3(1) st4(1) ..
  moreover have "input_keeps (inp, st) (inp1\<lparr>last_left := ?l, last_right := ?r\<rparr>, st4)"
    using i1 ok4 r same_sceneD [OF st2(2)] same_sceneD [OF st3(2)] same_sceneD [OF st4(2)]
    by (simp add: input_keeps_def input_ok_def)
  ultimately show "\<exists>is'. lgp_input_mouse_packet k e (inp, st) = Some is' \<and> input_keeps (inp, st) is'" by blast
qed

lemma update_modifiers_ok: "input_ok (lgp_input_update_modifiers c p inp) = input_ok inp"
  by (simp add: lgp_input_update_modifiers_def input_ok_def Let_def)

lemma key_keeps:
  assumes "input_ok inp" "server_ok st"
  shows "\<exists>st'. lgp_dispatch_keyboard_key k key v m st = Some st' \<and>
    input_keeps (inp, st) (lgp_input_update_modifiers c p inp, st')"
  using same_scene_key [OF assms(2), of k key v m] assms
  by (auto simp: input_keeps_def update_modifiers_ok dest: same_sceneD dispatch_running(3) same_scene_ok)

interpretation keyboard: input_driver "lgp_input_key_event k" for k
proof
  fix inp st and e :: input_event
  assume ok: "input_ok inp" "server_ok st"
  have "input_keeps (inp, st) (lgp_input_update_modifiers c p inp, st)" for c p
    using ok by (simp add: input_keeps_def update_modifiers_ok)
  moreover have "input_keeps (inp, st) (inp, st)" using ok by (simp add: input_keeps_def)
  moreover obtain ty code v where e: "e = (ty, code, v)" by (cases e)
  moreover obtain st' where "lgp_dispatch_keyboard_key k (ucast code) (word_of_int v)
      (modifiers (lgp_input_update_modifiers (ucast code) (v = 1 \<or> v = 2) inp)) st = Some st'"
      "input_keeps (inp, st) (lgp_input_update_modifiers (ucast code) (v = 1 \<or> v = 2) inp, st')"
    using key_keeps [OF ok] by blast
  ultimately show "\<exists>is'. lgp_input_key_event k e (inp, st) = Some is' \<and> input_keeps (inp, st) is'"
    by (simp add: lgp_input_key_event_def Let_def)
qed

interpretation libinput_keyboard: input_driver "\<lambda>(key, pressed). lgp_input_handle_keyboard_key k key pressed" for k
proof
  fix inp st and e :: "u32 \<times> bool"
  assume ok: "input_ok inp" "server_ok st"
  show "\<exists>is'. (case e of (key, pressed) \<Rightarrow> lgp_input_handle_keyboard_key k key pressed) (inp, st) = Some is' \<and>
      input_keeps (inp, st) is'"
    using key_keeps [OF ok, of k "fst e" "if snd e then 1 else 0"
        "modifiers (lgp_input_update_modifiers (fst e) (snd e) inp)" "fst e" "snd e"]
    by (cases e) (auto simp: lgp_input_handle_keyboard_key_def Let_def)
qed

lemma input_pump_defined:
  assumes "input_ok inp" "server_ok st"
  shows "\<exists>is'. lgp_input_pump k packets events (inp, st) = Some is' \<and> input_keeps (inp, st) is'"
proof -
  obtain is1 where s1: "lgp_input_pump_raw_mouse k packets (inp, st) = Some is1" "input_keeps (inp, st) is1"
    using mouse.pump_defined [of "(inp, st)" k packets] assms by (auto simp: lgp_input_pump_raw_mouse_def)
  then have "input_ok (fst is1)" "server_ok (snd is1)" by (auto simp: input_keeps_def split: prod.splits)
  from keyboard.pump_defined [OF this, of k events] s1 input_keeps_trans show ?thesis
    by (fastforce simp: lgp_input_pump_def lgp_input_pump_raw_keyboard_def)
qed

lemma set_screen_ok:
  assumes "unat w < 65536" "unat h < 65536" "lgp_input_set_screen w h (inp, st) = (inp', st')"
  shows "input_ok inp' \<and> cursor_on_screen (cursor st') \<and> st' = st\<lparr>cursor := cursor st'\<rparr>"
proof -
  let ?w = "if w > 0 then sint w else 1920" and ?h = "if h > 0 then sint h else 1080"
  have b: "0 < (if v > 0 then sint v else d)" "(if v > 0 then sint v else d) \<le> 65535"
    if "unat v < 65536" "0 < d" "d \<le> 65535" for v :: u32 and d :: int
    using that sint_small [of v] by (auto simp: word_greater_zero_iff unat_gt_0 simp del: of_nat_unat)
  have s: "sint (word_of_int i :: u32) = i" if "0 < i" "i \<le> 65535" for i
    using that by (simp add: sint_word_of_int32 in_int32_def)
  have c: "0 \<le> c_half i \<and> c_half i < i" if "0 < i" for i using that by (simp add: c_half_def)
  show ?thesis
    using assms(3) b [OF assms(1), of 1920] b [OF assms(2), of 1080] s c
    by (auto simp: lgp_input_set_screen_def Let_def input_ok_def cursor_on_screen_def lgp_cursor_set_position_def
        lgp_cursor_init_def)
qed

section \<open>The raw back end and the separate drivers\<close>

lemma for_each_sim:
  assumes "\<And>x a b. R a b \<Longrightarrow> rel_option R (f x a) (g x b)" "R a b"
  shows "rel_option R (for_each f xs a) (for_each g xs b)"
  using assms(2)
proof (induction xs arbitrary: a b)
  case (Cons x xs)
  from assms(1) [OF Cons.prems, of x] Cons.IH show ?case
    by (cases "f x a"; cases "g x b") auto
qed simp

definition mouse_related :: "u32 \<Rightarrow> lgp_input \<times> lgp_state \<Rightarrow> lgp_mouse \<times> lgp_state \<Rightarrow> bool" where
  "mouse_related mods = (\<lambda>(inp, st) (ms, st').
     st = st' \<and> modifiers inp = mods \<and> screen_w inp = g_screen_w ms \<and> screen_h inp = g_screen_h ms \<and>
     pointer_x inp = g_mouse_x ms \<and> pointer_y inp = g_mouse_y ms \<and>
     last_left inp = g_last_left ms \<and> last_right inp = g_last_right ms)"

definition keys_related :: "lgp_input \<times> lgp_state \<Rightarrow> u32 \<times> lgp_state \<Rightarrow> bool" where
  "keys_related = (\<lambda>(inp, st) (mods, st'). st = st' \<and> modifiers inp = mods)"

text \<open>What both drivers do once the pointer is at its new position.\<close>

definition pointer_events ::
    "lgp_kernel \<Rightarrow> int \<Rightarrow> int \<Rightarrow> u8 \<Rightarrow> bool \<Rightarrow> bool \<Rightarrow> lgp_state \<Rightarrow> lgp_state option" where
  "pointer_events k x y d0 was_left was_right st = do {
     st2 \<leftarrow> lgp_dispatch_pointer_motion k x y (st\<lparr>cursor := lgp_cursor_set_position x y (cursor st)\<rparr>);
     st3 \<leftarrow> (if (d0 AND 1 \<noteq> 0) \<noteq> was_left then lgp_dispatch_pointer_button k x y 0 (d0 AND 1 \<noteq> 0) st2
             else Some st2);
     (if (d0 AND 2 \<noteq> 0) \<noteq> was_right then lgp_dispatch_pointer_button k x y 1 (d0 AND 2 \<noteq> 0) st3 else Some st3)
   }"

lemma map_option_of_bind: "map_option f (m \<bind> g) = m \<bind> (\<lambda>x. map_option f (g x))"
  by (cases m) auto

lemma bind_Some_map: "m \<bind> (\<lambda>x. Some (f x)) = map_option f m"
  by (cases m) auto

lemma bind_Some_snd: "m \<bind> (\<lambda>(a, b). Some b) = map_option snd m"
  by (cases m) auto

lemma input_mouse_packet_events:
  "lgp_input_mouse_packet k (d0, d1, d2) (inp, st) =
     (let inp1 = lgp_input_clamp_pointer (inp\<lparr>pointer_x := pointer_x inp + mouse_delta d0 0x10 d1,
                    pointer_y := pointer_y inp - mouse_delta d0 0x20 d2\<rparr>)
      in map_option (\<lambda>st'. (inp1\<lparr>last_left := d0 AND 1 \<noteq> 0, last_right := d0 AND 2 \<noteq> 0\<rparr>, st'))
           (pointer_events k (pointer_x inp1) (pointer_y inp1) d0 (last_left inp1) (last_right inp1) st))"
  unfolding lgp_input_mouse_packet_def pointer_events_def prod.case Let_def map_option_of_bind bind_Some_map ..

lemma mouse_packet_events:
  "lgp_mouse_packet k (d0, d1, d2) (ms, st) =
     (let x1 = g_mouse_x ms + mouse_delta d0 0x10 d1; x2 = if x1 < 0 then 0 else x1;
          x = if x2 \<ge> g_screen_w ms then g_screen_w ms - 1 else x2;
          y1 = g_mouse_y ms - mouse_delta d0 0x20 d2; y2 = if y1 < 0 then 0 else y1;
          y = if y2 \<ge> g_screen_h ms then g_screen_h ms - 1 else y2
      in map_option (\<lambda>st'. (ms\<lparr>g_mouse_x := x, g_mouse_y := y, g_last_left := d0 AND 1 \<noteq> 0,
             g_last_right := d0 AND 2 \<noteq> 0\<rparr>, st'))
           (pointer_events k x y d0 (g_last_left ms) (g_last_right ms) st))"
  unfolding lgp_mouse_packet_def pointer_events_def prod.case Let_def map_option_of_bind bind_Some_map mouse_delta_def ..

lemma clamp_position:
  "pointer_x (lgp_input_clamp_pointer i) = (let x = if pointer_x i < 0 then 0 else pointer_x i in
        if x \<ge> screen_w i then screen_w i - 1 else x)"
  "pointer_y (lgp_input_clamp_pointer i) = (let y = if pointer_y i < 0 then 0 else pointer_y i in
        if y \<ge> screen_h i then screen_h i - 1 else y)"
  by (simp_all add: lgp_input_clamp_pointer_def Let_def)

lemma mouse_packet_related:
  assumes "mouse_related m a b"
  shows "rel_option (mouse_related m) (lgp_input_mouse_packet k p a) (lgp_mouse_packet k p b)"
proof -
  obtain d0 d1 d2 inp st ms where e: "p = (d0, d1, d2)" "a = (inp, st)" "b = (ms, st)"
    and r: "mouse_related m (inp, st) (ms, st)"
    using assms by (cases p; cases a; cases b) (auto simp: mouse_related_def)
  define i1 where "i1 = lgp_input_clamp_pointer (inp\<lparr>pointer_x := pointer_x inp + mouse_delta d0 0x10 d1,
                    pointer_y := pointer_y inp - mouse_delta d0 0x20 d2\<rparr>)"
  let ?ms = "ms\<lparr>g_mouse_x := pointer_x i1, g_mouse_y := pointer_y i1\<rparr>"
  have i1: "modifiers i1 = m" "screen_w i1 = g_screen_w ms" "screen_h i1 = g_screen_h ms"
    "last_left i1 = g_last_left ms" "last_right i1 = g_last_right ms"
    using r by (simp_all add: i1_def mouse_related_def)
  have "lgp_mouse_packet k p b = map_option (\<lambda>st'. (ms\<lparr>g_mouse_x := pointer_x i1, g_mouse_y := pointer_y i1,
        g_last_left := d0 AND 1 \<noteq> 0, g_last_right := d0 AND 2 \<noteq> 0\<rparr>, st'))
      (pointer_events k (pointer_x i1) (pointer_y i1) d0 (last_left i1) (last_right i1) st)"
    using r unfolding e mouse_packet_events i1_def clamp_position clamp_simps
    by (simp add: mouse_related_def Let_def)
  moreover have "lgp_input_mouse_packet k p a =
     map_option (\<lambda>st'. (i1\<lparr>last_left := d0 AND 1 \<noteq> 0, last_right := d0 AND 2 \<noteq> 0\<rparr>, st'))
      (pointer_events k (pointer_x i1) (pointer_y i1) d0 (last_left i1) (last_right i1) st)"
    unfolding e input_mouse_packet_events i1_def Let_def ..
  ultimately show ?thesis
    using i1 by (simp add: option.rel_map option.rel_refl mouse_related_def)
qed

lemma update_modifiers_same:
  "modifiers (lgp_input_update_modifiers (ucast c) (v = 1 \<or> v = 2) inp) = update_modifiers c v (modifiers inp)"
proof -
  have n: "unat (ucast c :: u32) = unat c"
    using unsigned_less [of c, where ?'a = nat] by (simp add: unsigned_ucast_eq take_bit_nat_eq_self)
  show ?thesis
    by (simp add: lgp_input_update_modifiers_def modifier_mask_def update_modifiers_def Let_def
        word_unat_eq_iff [of "ucast c :: u32"] n word_unat_eq_iff [of c])
qed

lemma key_event_related:
  assumes "keys_related a b"
  shows "rel_option keys_related (lgp_input_key_event k p a) (lgp_keyboard_event k p b)"
proof -
  obtain ty c v inp st where e: "p = (ty, c, v)" "a = (inp, st)" "b = (modifiers inp, st)"
    using assms by (cases p; cases a; cases b) (auto simp: keys_related_def)
  show ?thesis
    unfolding e by (auto simp: lgp_input_key_event_def lgp_keyboard_event_def Let_def update_modifiers_same
        keys_related_def rel_option_iff split: bind_splits option.splits)
qed

text \<open>
  C40: the raw input back end behaves like the two separate drivers. Initialised for the same screen
  and fed the same mouse packets and key events, both leave the same server: the same frames sent to
  the same clients, the same cursor and the same keyboard focus, and neither is undefined where the
  other is not. For a screen width or height of 0 they differ, since only the back end then falls
  back to 1920 by 1080.
\<close>

theorem raw_backend_equals_drivers:
  assumes "w \<noteq> 0" "h \<noteq> 0" "last_left inp = g_last_left ms" "last_right inp = g_last_right ms"
  shows "map_option snd (lgp_input_pump k packets events (lgp_input_set_screen w h (inp, st))) =
    do {
      (ms1, st1) \<leftarrow> lgp_mouse_pump k packets (lgp_mouse_init w h (ms, st));
      (mods, st2) \<leftarrow> lgp_keyboard_pump k events (0, st1);
      Some st2
    }"
proof -
  have "mouse_related 0 (lgp_input_set_screen w h (inp, st)) (lgp_mouse_init w h (ms, st))"
    using assms by (simp add: mouse_related_def lgp_input_set_screen_def lgp_mouse_init_def Let_def word_gt_0)
  from for_each_sim [where f = "lgp_input_mouse_packet k" and g = "lgp_mouse_packet k" and xs = packets,
      OF mouse_packet_related this]
  have m: "rel_option (mouse_related 0) (lgp_input_pump_raw_mouse k packets (lgp_input_set_screen w h (inp, st)))
      (lgp_mouse_pump k packets (lgp_mouse_init w h (ms, st)))"
    by (simp add: lgp_input_pump_raw_mouse_def lgp_mouse_pump_def)
  have e: "map_option snd (lgp_input_pump_raw_keyboard k events a) = map_option snd (lgp_keyboard_pump k events (0, st1))"
    if "mouse_related 0 a (ms1, st1)" for a ms1 st1
  proof -
    have "keys_related a (0, st1)" using that by (cases a) (simp add: mouse_related_def keys_related_def)
    from for_each_sim [where f = "lgp_input_key_event k" and g = "lgp_keyboard_event k" and xs = events,
        OF key_event_related this] show ?thesis
      by (auto simp: lgp_input_pump_raw_keyboard_def lgp_keyboard_pump_def rel_option_iff keys_related_def
          split: option.splits)
  qed
  show ?thesis
    using m e unfolding lgp_input_pump_def
    by (cases "lgp_input_pump_raw_mouse k packets (lgp_input_set_screen w h (inp, st))";
        cases "lgp_mouse_pump k packets (lgp_mouse_init w h (ms, st))")
       (auto simp: bind_Some_snd)
qed

theorem raw_backend_equals_drivers_witness:
  "map_option snd (lgp_input_pump \<lparr>k_write = \<lambda>_. [], k_mmap = \<lambda>_. None, k_flip = \<lambda>_. 0, k_mem = \<lambda>_ _. []\<rparr>
       [(9, 5, 3), (0, 250, 0)] [(1, 42, 1), (1, 30, 1)]
       (lgp_input_set_screen 1024 768 (\<lparr>screen_w = 1920, screen_h = 1080, pointer_x = 960, pointer_y = 540,
          modifiers = 0, last_left = False, last_right = False\<rparr>, lgp_initial_state 1024 768 4096 []))) =
    do {
      (ms1, st1) \<leftarrow> lgp_mouse_pump \<lparr>k_write = \<lambda>_. [], k_mmap = \<lambda>_. None, k_flip = \<lambda>_. 0, k_mem = \<lambda>_ _. []\<rparr>
         [(9, 5, 3), (0, 250, 0)]
         (lgp_mouse_init 1024 768 (\<lparr>g_screen_w = 1920, g_screen_h = 1080, g_mouse_x = 0, g_mouse_y = 0,
            g_last_left = False, g_last_right = False\<rparr>, lgp_initial_state 1024 768 4096 []));
      (mods, st2) \<leftarrow> lgp_keyboard_pump \<lparr>k_write = \<lambda>_. [], k_mmap = \<lambda>_. None, k_flip = \<lambda>_. 0, k_mem = \<lambda>_ _. []\<rparr>
         [(1, 42, 1), (1, 30, 1)] (0, st1);
      Some st2
    }"
  by (rule raw_backend_equals_drivers) simp_all

text \<open>An example: a server with two overlapping application windows of two clients.\<close>

definition example_window :: "u32 \<Rightarrow> u32 \<Rightarrow> lgp_surface" where
  "example_window i owner = zero_surface\<lparr>in_use := True, surf_id := i, owner_session_id := owner, surface_type := 4,
     surf_x := 0, surf_y := 0, surf_width := 2, surf_height := 2, surf_layer := 100\<rparr>"

definition example_client :: "nat \<Rightarrow> u32 \<Rightarrow> lgp_client" where
  "example_client a session = \<lparr>cl_addr = a, cl_fd = int a, cl_pid = 50, cl_uid = 1000, cl_gid = 1000,
     session_id = session, caps_granted = 0, hello_done = True, rx_buf = [], pending_fds = []\<rparr>"

definition example_state :: lgp_state where
  "example_state = (lgp_initial_state 2 2 8 (replicate 16 0))
     \<lparr>clients := [example_client 20 2, example_client 10 1], next_session_id := 3,
      surface_manager := \<lparr>next_surface_id = 3,
        surfaces = example_window 1 1 # example_window 2 2 # replicate (LGP_SURFACE_MAX - 2) zero_surface\<rparr>,
      cursor := \<lparr>cur_x = 1, cur_y = 1, cur_screen_width = 2, cur_screen_height = 2\<rparr>\<rparr>"

lemmas example_defs = example_state_def example_window_def example_client_def lgp_initial_state_def zero_surface_def

lemma example_window_ok: "surface_ok (example_window i owner)"
  by (simp add: example_window_def surface_ok_def layer_allowed_def)

lemma example_state_ok: "server_ok example_state"
proof -
  have "manager_ok (surface_manager example_state)"
    by (simp add: example_state_def manager_ok_def example_window_ok list_all_iff)
  moreover have "list_all (\<lambda>s. buffer_size s < 2 ^ 32) (surfaces (surface_manager example_state))"
    by (simp add: list_all_iff example_defs)
  moreover have "list_all (surface_owned (clients example_state)) (surfaces (surface_manager example_state))"
    by (simp add: list_all_iff example_defs surface_owned_def)
  ultimately show ?thesis
    by (simp add: server_ok_def example_state_def lgp_initial_state_def example_client_def client_ok_def wm_ok_def
        screen_ok_def cursor_on_screen_def)
qed

theorem pointer_target_first_slot_witness:
  "server_ok example_state \<and> wm_target example_state = Some None \<and>
   pointer_candidate None 1 1 (example_window 1 1) \<and> pointer_candidate None 1 1 (example_window 2 2) \<and>
   lgp_find_pointer_target 1 1 example_state = Some (Some (example_window 1 1))"
proof -
  have w: "wm_target example_state = Some None" by (simp add: wm_target_def example_state_def lgp_initial_state_def)
  have p: "pointer_candidate None 1 1 (example_window 1 1)" "pointer_candidate None 1 1 (example_window 2 2)"
    by (simp_all add: pointer_candidate_def covers_def example_window_def zero_surface_def)
  show ?thesis
    using pointer_target_first_slot [OF example_state_ok w, of 1 1] example_state_ok w p by (simp add: example_state_def)
qed

end
