(* ===== verification/Lgp_Setup.thy ===== *)
theory Lgp_Setup
  imports Lgp_Server
begin

text \<open>
  How the compositor starts: its arguments (\<open>config/args.c\<close>), the listening socket and its
  permissions (\<open>ipc/socket_server.c\<close>), the selection of connector, CRTC and mode
  (\<open>drm/connector.c\<close>), the front buffer (\<open>kms/dumb_buffer.c\<close>) and the order of \<open>main\<close>. What libdrm
  and the kernel answer is an argument.
\<close>

section \<open>Arguments\<close>

record lgp_args =
  arg_help :: bool
  arg_version :: bool

fun parse_args :: "string list \<Rightarrow> lgp_args \<Rightarrow> lgp_args option" where
  "parse_args [] out = Some out"
| "parse_args (a # as) out =
     (if a = ''--help'' \<or> a = ''-h'' then parse_args as (out\<lparr>arg_help := True\<rparr>)
      else if a = ''--version'' \<or> a = ''-v'' then parse_args as (out\<lparr>arg_version := True\<rparr>)
      else None)"

definition lgp_args_parse :: "string list \<Rightarrow> lgp_args option" where
  "lgp_args_parse argv = parse_args (drop 1 argv) \<lparr>arg_help = False, arg_version = False\<rparr>"

section \<open>The listening socket\<close>

text \<open>The lines of \<open>/etc/group\<close> as \<open>fgets\<close> delivers them; \<open>- 1\<close> when there is no such group.\<close>

fun video_gid_lines :: "string list \<Rightarrow> u32" where
  "video_gid_lines [] = - 1"
| "video_gid_lines (line # lines) =
     (if strncmp_eq 6 line ''video:''
      then (case split_chr CHR '':'' (drop 6 line) of
              Some (_, rest) \<Rightarrow>
                (case strtoll10 rest of None \<Rightarrow> 0 | Some (v, _) \<Rightarrow> word_of_int (clamp_int64 v))
            | None \<Rightarrow> video_gid_lines lines)
      else video_gid_lines lines)"

definition lookup_video_gid :: "string option \<Rightarrow> u32" where
  "lookup_video_gid file =
     (case file of None \<Rightarrow> - 1 | Some bytes \<Rightarrow> video_gid_lines (map cstr (fgets_chunks 256 bytes)))"

text \<open>What the system calls answer, and what the function does to the file system.\<close>

record socket_io =
  si_stale :: bool
  si_unlink :: bool
  si_socket :: int
  si_bind :: bool
  si_listen :: bool
  si_group :: "string option"

datatype socket_action = SockMkdir | SockUnlink | SockClose int | SockChmod nat | SockChown u32 u32

definition lgp_socket_server_init :: "socket_io \<Rightarrow> int \<times> socket_action list" where
  "lgp_socket_server_init io =
     (let a0 = [SockMkdir] @ (if si_stale io then [SockUnlink] else []);
          fd = si_socket io
      in if si_stale io \<and> \<not> si_unlink io then (- 1, a0)
         else if fd < 0 then (- 1, a0)
         else if \<not> si_bind io then (- 1, a0 @ [SockClose fd])
         else if \<not> si_listen io then (- 1, a0 @ [SockClose fd])
         else (let video_gid = lookup_video_gid (si_group io) in
               (fd, a0 @ (if video_gid \<noteq> - 1 then [SockChmod 432, SockChown 0 video_gid]
                          else [SockChmod 438]))))"

section \<open>Selecting the output\<close>

text \<open>
  The data libdrm reports: modes, connectors and encoders. \<open>get_connector\<close> and \<open>get_encoder\<close> stand
  for \<open>drmModeGetConnector\<close> and \<open>drmModeGetEncoder\<close>; \<open>None\<close> is their null pointer.
\<close>

record drm_mode =
  mode_hdisplay :: u16
  mode_vdisplay :: u16

record drm_encoder =
  enc_crtc_id :: u32
  enc_possible_crtcs :: u32

record drm_connector =
  conn_id :: u32
  conn_connected :: bool
  conn_modes :: "drm_mode list"
  conn_encoder_id :: u32
  conn_encoders :: "u32 list"

text \<open>
  The mode with the largest area; the product of two \<open>uint16_t\<close> is computed in \<open>int\<close> and is
  undefined where it leaves it. The state is \<open>best_area\<close> and \<open>mode\<close>.
\<close>

definition mode_area :: "drm_mode \<Rightarrow> nat" where
  "mode_area m = unat (mode_hdisplay m) * unat (mode_vdisplay m)"

definition best_mode_step :: "drm_mode \<Rightarrow> nat \<times> drm_mode \<Rightarrow> (nat \<times> drm_mode) option" where
  "best_mode_step m = (\<lambda>(best_area, mode).
     if mode_area m \<ge> 2 ^ 31 then None
     else if mode_area m > best_area then Some (mode_area m, m)
     else Some (best_area, mode))"

definition best_mode :: "drm_mode list \<Rightarrow> drm_mode option" where
  "best_mode modes = map_option snd (for_each best_mode_step modes (0, hd modes))"

text \<open>\<open>find_crtc_for_encoder\<close>; the shift \<open>1 << i\<close> is undefined from 31 on.\<close>

fun possible_crtc :: "u32 \<Rightarrow> nat \<Rightarrow> u32 list \<Rightarrow> int option" where
  "possible_crtc possible i [] = Some (- 1)"
| "possible_crtc possible i (c # cs) =
     (if i \<ge> 31 then None
      else if possible AND push_bit i 1 \<noteq> 0 then Some (sint c)
      else possible_crtc possible (Suc i) cs)"

definition find_crtc_for_encoder :: "u32 list \<Rightarrow> drm_encoder \<Rightarrow> int option" where
  "find_crtc_for_encoder crtcs enc =
     (if enc_crtc_id enc \<noteq> 0 then Some (sint (enc_crtc_id enc))
      else possible_crtc (enc_possible_crtcs enc) 0 crtcs)"

fun crtc_of_encoders :: "u32 list \<Rightarrow> (u32 \<Rightarrow> drm_encoder option) \<Rightarrow> u32 list \<Rightarrow> int option" where
  "crtc_of_encoders crtcs get_encoder [] = Some (- 1)"
| "crtc_of_encoders crtcs get_encoder (e # es) =
     (case get_encoder e of
        None \<Rightarrow> crtc_of_encoders crtcs get_encoder es
      | Some enc \<Rightarrow>
          (case find_crtc_for_encoder crtcs enc of
             None \<Rightarrow> None
           | Some crtc \<Rightarrow> if crtc \<ge> 0 then Some crtc else crtc_of_encoders crtcs get_encoder es))"

definition find_crtc_for_connector ::
    "u32 list \<Rightarrow> (u32 \<Rightarrow> drm_encoder option) \<Rightarrow> drm_connector \<Rightarrow> int option" where
  "find_crtc_for_connector crtcs get_encoder conn =
     crtc_of_encoders crtcs get_encoder
       ((if conn_encoder_id conn \<noteq> 0 then [conn_encoder_id conn] else []) @ conn_encoders conn)"

abbreviation (input) ENODEV :: int where "ENODEV \<equiv> 19"

text \<open>The connector, the CRTC and the mode, or the error number.\<close>

fun drm_connector_setup ::
    "u32 list \<Rightarrow> (u32 \<Rightarrow> drm_encoder option) \<Rightarrow> (u32 \<Rightarrow> drm_connector option) \<Rightarrow> u32 list
      \<Rightarrow> (int + (u32 \<times> u32 \<times> drm_mode)) option" where
  "drm_connector_setup crtcs get_encoder get_connector [] = Some (Inl (- ENODEV))"
| "drm_connector_setup crtcs get_encoder get_connector (c # cs) =
     (case get_connector c of
        None \<Rightarrow> drm_connector_setup crtcs get_encoder get_connector cs
      | Some conn \<Rightarrow>
          if conn_connected conn \<and> conn_modes conn \<noteq> []
          then (case best_mode (conn_modes conn) of
                  None \<Rightarrow> None
                | Some mode \<Rightarrow>
                    (case find_crtc_for_connector crtcs get_encoder conn of
                       None \<Rightarrow> None
                     | Some crtc_id \<Rightarrow>
                         if crtc_id \<ge> 0 then Some (Inr (conn_id conn, word_of_int crtc_id, mode))
                         else drm_connector_setup crtcs get_encoder get_connector cs))
          else drm_connector_setup crtcs get_encoder get_connector cs)"

section \<open>The front buffer\<close>

text \<open>
  What the kernel answers: the handle, pitch and size of a new dumb buffer, the frame buffer ids of
  the two ways to add it, and whether mapping works. The actions undo earlier ones on failure.
\<close>

record dumb_io =
  di_memory :: bool
  di_create :: "(u32 \<times> u32 \<times> 64 word) option"
  di_addfb2 :: "u32 option"
  di_addfb :: "u32 option"
  di_map_dumb :: bool
  di_mmap :: "nat option"

record dumb_buffer =
  db_handle :: u32
  db_fb_id :: u32
  db_width :: u32
  db_height :: u32
  db_pitch :: u32
  db_size :: "64 word"
  db_map :: nat

datatype kms_action = CreateDumb u32 | AddFb u32 | MapBuffer | RmFb u32 | DestroyDumb u32 | UnmapBuffer

definition kms_dumb_buffer_create :: "dumb_io \<Rightarrow> u32 \<Rightarrow> u32 \<Rightarrow> dumb_buffer option \<times> kms_action list" where
  "kms_dumb_buffer_create io width height =
     (if \<not> di_memory io then (None, [])
      else case di_create io of
        None \<Rightarrow> (None, [])
      | Some (handle, pitch, nbytes) \<Rightarrow>
          (case (case di_addfb2 io of Some i \<Rightarrow> Some i | None \<Rightarrow> di_addfb io) of
             None \<Rightarrow> (None, [CreateDumb handle, DestroyDumb handle])
           | Some fb_id \<Rightarrow>
               if \<not> di_map_dumb io
               then (None, [CreateDumb handle, AddFb fb_id, RmFb fb_id, DestroyDumb handle])
               else case di_mmap io of
                 None \<Rightarrow> (None, [CreateDumb handle, AddFb fb_id, RmFb fb_id, DestroyDumb handle])
               | Some a \<Rightarrow>
                   (Some \<lparr>db_handle = handle, db_fb_id = fb_id, db_width = width, db_height = height,
                          db_pitch = pitch, db_size = nbytes, db_map = a\<rparr>,
                    [CreateDumb handle, AddFb fb_id, MapBuffer])))"

definition kms_dumb_buffer_destroy :: "dumb_buffer \<Rightarrow> kms_action list" where
  "kms_dumb_buffer_destroy buf =
     (if db_map buf \<noteq> 0 then [UnmapBuffer] else []) @
     (if db_fb_id buf \<noteq> 0 then [RmFb (db_fb_id buf)] else []) @
     (if db_handle buf \<noteq> 0 then [DestroyDumb (db_handle buf)] else [])"

section \<open>Lemmas\<close>

lemma best_mode_loop:
  assumes "for_each best_mode_step modes (a, m) = Some (a', m')" "mode_area m \<le> a"
  shows "a \<le> a' \<and> (\<forall>x \<in> set modes. mode_area x \<le> a') \<and> (m' = m \<and> a' = a \<or> m' \<in> set modes \<and> mode_area m' = a')"
  using assms
proof (induction modes arbitrary: a m)
  case (Cons x xs)
  then obtain a1 m1 where s: "best_mode_step x (a, m) = Some (a1, m1)"
    "for_each best_mode_step xs (a1, m1) = Some (a', m')" by (auto split: option.splits)
  then have l: "mode_area m1 \<le> a1" "a \<le> a1" "mode_area x \<le> a1" "m1 = m \<and> a1 = a \<or> m1 = x \<and> a1 = mode_area x"
    using Cons.prems(2) by (auto simp: best_mode_step_def split: if_splits)
  from Cons.IH [OF s(2) l(1)] l show ?case by auto
qed simp

text \<open>The selected mode is one of the connector's and none has a larger area.\<close>

lemma best_mode_largest:
  assumes "best_mode modes = Some m" "modes \<noteq> []"
  shows "m \<in> set modes \<and> (\<forall>x \<in> set modes. mode_area x \<le> mode_area m)"
proof -
  obtain a where l: "for_each best_mode_step modes (0, hd modes) = Some (a, m)"
    using assms(1) by (auto simp: best_mode_def)
  show ?thesis
  proof (cases "mode_area (hd modes) = 0")
    case True
    with best_mode_loop [OF l] assms(2) show ?thesis by (auto simp: hd_in_set)
  next
    case False
    obtain x xs where e: "modes = x # xs" using assms(2) by (cases modes) auto
    with l False obtain r where "best_mode_step x (0, x) = Some r" "for_each best_mode_step xs r = Some (a, m)"
      by (auto split: option.splits)
    with False e have "for_each best_mode_step xs (mode_area x, x) = Some (a, m)"
      by (auto simp: best_mode_step_def split: if_splits)
    from best_mode_loop [OF this] e show ?thesis by auto
  qed
qed

lemma best_mode_defined:
  assumes "\<forall>x \<in> set modes. mode_area x < 2 ^ 31" shows "best_mode modes \<noteq> None"
proof -
  have "for_each best_mode_step modes s \<noteq> None" for s
    using assms by (induction modes arbitrary: s) (auto simp: best_mode_step_def split: prod.splits if_splits)
  then show ?thesis by (auto simp: best_mode_def)
qed

text \<open>A failed creation has released what it acquired, and destroying a buffer releases it too.\<close>

definition kms_live :: "kms_action list \<Rightarrow> u32 set \<times> u32 set" where
  "kms_live as = ({h. CreateDumb h \<in> set as \<and> DestroyDumb h \<notin> set as}, {f. AddFb f \<in> set as \<and> RmFb f \<notin> set as})"

lemma dumb_buffer_no_leak:
  "kms_dumb_buffer_create io w h = (None, as) \<Longrightarrow> kms_live as = ({}, {})"
  "kms_dumb_buffer_create io w h = (Some b, as) \<Longrightarrow> db_handle b \<noteq> 0 \<Longrightarrow> db_fb_id b \<noteq> 0 \<Longrightarrow>
     kms_live (as @ kms_dumb_buffer_destroy b) = ({}, {})"
  by (auto simp: kms_dumb_buffer_create_def kms_live_def kms_dumb_buffer_destroy_def
      split: if_splits option.splits prod.splits)

section \<open>Startup\<close>

text \<open>
  The sequence of \<open>main\<close> before the event loop. The answers say which step succeeded; the result is
  the exit status, or \<open>None\<close> when the loop is entered, with the resources acquired and those
  released again, in order.
\<close>

datatype lgp_resource = ResLog | ResEpoll | ResSignal | ResDrm | ResInput | ResBuffer | ResListen

record start_io =
  io_argv :: "string list"
  io_log :: bool
  io_epoll :: bool
  io_signal :: bool
  io_add_signal :: bool
  io_drm_open :: bool
  io_connector :: bool
  io_buffer :: bool
  io_crtc :: bool
  io_listen :: bool

definition lgp_main_setup :: "start_io \<Rightarrow> int option \<times> lgp_resource list \<times> lgp_resource list" where
  "lgp_main_setup io =
     (case lgp_args_parse (io_argv io) of
        None \<Rightarrow> (Some 1, [], [])
      | Some args \<Rightarrow>
          if arg_help args then (Some 0, [], [])
          else if arg_version args then (Some 0, [], [])
          else if \<not> io_log io then (Some 1, [], [])
          else
            (let a1 = [ResLog] @ (if io_epoll io then [ResEpoll] else []) @ (if io_signal io then [ResSignal] else []) in
             if \<not> io_epoll io \<or> \<not> io_signal io then (Some 1, a1, [ResLog])
             else if \<not> io_add_signal io then (Some 1, a1, [ResSignal, ResEpoll, ResLog])
             else if \<not> io_drm_open io then (Some 1, a1, [ResSignal, ResEpoll, ResLog])
             else
               (let a2 = a1 @ [ResDrm] in
                if \<not> io_connector io then (Some 1, a2, [ResDrm, ResSignal, ResEpoll, ResLog])
                else
                  (let a3 = a2 @ [ResInput] in
                   if \<not> io_buffer io then (Some 1, a3, [ResDrm, ResSignal, ResEpoll, ResLog])
                   else
                     (let a4 = a3 @ [ResBuffer] in
                      if \<not> io_crtc io then (Some 1, a4, [ResBuffer, ResDrm, ResSignal, ResEpoll, ResLog])
                      else if \<not> io_listen io
                      then (Some 1, a4, [ResBuffer, ResDrm, ResSignal, ResEpoll, ResLog])
                      else (None, a4 @ [ResListen], []))))))"

text \<open>
  A failed start releases everything but two things: the one of epoll and signal descriptor that was
  obtained when the other was not, and the input devices. The process exits, so the kernel closes them.
\<close>

lemma setup_leaks:
  assumes "lgp_main_setup io = (Some code, got, released)"
  shows "set got - set released \<subseteq> {ResEpoll, ResSignal, ResInput}"
    and "io_epoll io \<Longrightarrow> io_signal io \<Longrightarrow> set got - set released \<subseteq> {ResInput}"
    and "set released \<subseteq> set got"
  using assms by (auto simp: lgp_main_setup_def Let_def split: option.splits if_splits)

text \<open>What \<open>main\<close> releases after the loop.\<close>

definition lgp_main_cleanup :: "lgp_resource list" where
  "lgp_main_cleanup = [ResInput, ResListen, ResBuffer, ResDrm, ResSignal, ResEpoll, ResLog]"

lemma cleanup_complete: "lgp_main_setup io = (None, got, released) \<Longrightarrow> set lgp_main_cleanup = set got"
  by (auto simp: lgp_main_setup_def lgp_main_cleanup_def Let_def split: option.splits if_splits)

end
