(* ===== verification/Lgp_Devices.thy ===== *)
theory Lgp_Devices
  imports Complex_Main "HOL-Library.Multiset" Lgp_Input Lgp_Setup
begin

text \<open>
  Devices of the compositor: opening and closing the graphics device (\<open>drm/device.c\<close>), the mode setting
  call (\<open>kms/crtc.c\<close>), set-up and cleanup of both input back ends and the libinput event loop with pointer
  motion in fractions (\<open>input/input.c\<close>). Shown: everything acquired is released once on every path, and the
  pointer stays on the screen however it is moved.
\<close>

section \<open>The graphics device\<close>

text \<open>
  The fields of \<open>drm_device_t\<close> that opening and closing change. The answers are the descriptor, the results
  of the calls of libdrm, and \<open>errno\<close> as it is when the code returns it, which is after the message was
  logged and the descriptor closed.
\<close>

record drm_device =
  dev_fd :: int
  atomic_supported :: bool
  dev_resources :: bool

record drm_io =
  dr_fd :: int
  dr_master :: int
  dr_atomic :: int
  dr_resources :: bool
  dr_errno :: int

datatype drm_action = DrmOpened int | DrmClosed int | DrmMaster int | DrmDropMaster int | DrmResources | DrmFreeResources

abbreviation (input) EIO :: int where "EIO \<equiv> 5"

definition drm_device_open :: "drm_io \<Rightarrow> int \<times> drm_device \<times> drm_action list" where
  "drm_device_open io =
     (let dev = \<lparr>dev_fd = dr_fd io, atomic_supported = False, dev_resources = False\<rparr> in
      if dr_fd io < 0 then (- dr_errno io, dev, [])
      else if dr_master io \<noteq> 0
      then (- dr_errno io, dev\<lparr>dev_fd := - 1\<rparr>, [DrmOpened (dr_fd io), DrmClosed (dr_fd io)])
      else
        (let dev1 = dev\<lparr>atomic_supported := (dr_atomic io = 0)\<rparr>;
             got = [DrmOpened (dr_fd io), DrmMaster (dr_fd io)]
         in if \<not> dr_resources io then (- EIO, dev1\<lparr>dev_fd := - 1\<rparr>, got @ [DrmClosed (dr_fd io)])
            else (0, dev1\<lparr>dev_resources := True\<rparr>, got @ [DrmResources])))"

definition drm_device_close :: "drm_device \<Rightarrow> drm_device \<times> drm_action list" where
  "drm_device_close dev =
     (dev\<lparr>dev_resources := False, dev_fd := (if dev_fd dev \<ge> 0 then - 1 else dev_fd dev)\<rparr>,
      (if dev_resources dev then [DrmFreeResources] else []) @
      (if dev_fd dev \<ge> 0 then [DrmDropMaster (dev_fd dev), DrmClosed (dev_fd dev)] else []))"

text \<open>The descriptors that are open, and whether resources are held, after a sequence of actions.\<close>

fun drm_held :: "drm_action \<Rightarrow> int list \<times> bool \<Rightarrow> int list \<times> bool" where
  "drm_held (DrmOpened fd) (fds, r) = (fd # fds, r)"
| "drm_held (DrmClosed fd) (fds, r) = (remove1 fd fds, r)"
| "drm_held DrmResources (fds, r) = (fds, True)"
| "drm_held DrmFreeResources (fds, r) = (fds, False)"
| "drm_held _ h = h"

lemma drm_open_failed:
  assumes "drm_device_open io = (rc, dev, as)"
  shows "rc \<noteq> 0 \<Longrightarrow> fold drm_held as ([], False) = ([], False) \<and> dev_fd dev < 0 \<and> \<not> dev_resources dev"
    and "rc = 0 \<Longrightarrow> dr_errno io \<noteq> 0 \<Longrightarrow> dev_fd dev = dr_fd io \<and> 0 \<le> dev_fd dev \<and> dev_resources dev"
    and "drm_device_close dev = (dev', as') \<Longrightarrow> fold drm_held (as @ as') ([], False) = ([], False) \<and>
           drm_device_close dev' = (dev', [])"
  using assms by (auto simp: drm_device_open_def drm_device_close_def Let_def split: if_splits)

abbreviation (input) EINVAL :: int where "EINVAL \<equiv> 22"

text \<open>\<open>None\<close> is a null pointer; \<open>set_crtc\<close> is what \<open>drmModeSetCrtc\<close> answers for the two.\<close>

definition kms_crtc_commit :: "(drm_device \<Rightarrow> dumb_buffer \<Rightarrow> int) \<Rightarrow> drm_device option \<Rightarrow> dumb_buffer option \<Rightarrow> int" where
  "kms_crtc_commit set_crtc dev fb =
     (case (dev, fb) of
        (Some d, Some b) \<Rightarrow> (let ret = set_crtc d b in if ret < 0 then ret else 0)
      | _ \<Rightarrow> - EINVAL)"

section \<open>Input devices\<close>

text \<open>The two objects of the libinput back end, whether each exists, and what is done to them.\<close>

datatype input_object = Udev | Libinput
datatype input_action = InNew input_object | InUnref input_object

record libinput_ctx =
  g_udev :: bool
  g_libinput :: bool

definition lgp_input_init_libinput :: "bool \<Rightarrow> bool \<Rightarrow> bool \<Rightarrow> libinput_ctx \<times> input_action list" where
  "lgp_input_init_libinput udev_ok context_ok seat_ok =
     (if \<not> udev_ok then (\<lparr>g_udev = False, g_libinput = False\<rparr>, [])
      else if \<not> context_ok then (\<lparr>g_udev = False, g_libinput = False\<rparr>, [InNew Udev, InUnref Udev])
      else if \<not> seat_ok
      then (\<lparr>g_udev = False, g_libinput = False\<rparr>, [InNew Udev, InNew Libinput, InUnref Libinput, InUnref Udev])
      else (\<lparr>g_udev = True, g_libinput = True\<rparr>, [InNew Udev, InNew Libinput]))"

definition lgp_input_cleanup_libinput :: "libinput_ctx \<Rightarrow> libinput_ctx \<times> input_action list" where
  "lgp_input_cleanup_libinput ctx =
     (\<lparr>g_udev = False, g_libinput = False\<rparr>,
      (if g_libinput ctx then [InUnref Libinput] else []) @ (if g_udev ctx then [InUnref Udev] else []))"

lemma libinput_released:
  assumes "lgp_input_init_libinput u c s = (ctx, as)" "lgp_input_cleanup_libinput ctx = (ctx', as')"
  shows "count_list (as @ as') (InNew x) = count_list (as @ as') (InUnref x)"
    and "lgp_input_cleanup_libinput ctx' = (ctx', [])"
  using assms by (cases x; auto simp: lgp_input_init_libinput_def lgp_input_cleanup_libinput_def split: if_splits)+

text \<open>The raw back end: the descriptors of mouse and keyboard, and what cleanup closes.\<close>

definition lgp_input_init_raw :: "int \<Rightarrow> (int \<times> 64 word list option) list \<Rightarrow> (int \<times> int) \<times> int list" where
  "lgp_input_init_raw mouse_fd opens =
     (case lgp_input_init_raw_keyboard (take 10 opens) of (kbd, cl) \<Rightarrow> ((mouse_fd, kbd), cl))"

definition lgp_input_cleanup_raw :: "int \<times> int \<Rightarrow> (int \<times> int) \<times> int list" where
  "lgp_input_cleanup_raw fds =
     (case fds of (mouse_fd, keyboard_fd) \<Rightarrow>
        ((if mouse_fd \<ge> 0 then - 1 else mouse_fd, if keyboard_fd \<ge> 0 then - 1 else keyboard_fd),
         (if mouse_fd \<ge> 0 then [mouse_fd] else []) @ (if keyboard_fd \<ge> 0 then [keyboard_fd] else [])))"

fun raw_opened :: "(int \<times> 64 word list option) list \<Rightarrow> int list" where
  "raw_opened [] = []"
| "raw_opened ((fd, bitmask) # rest) =
     (if fd < 0 then raw_opened rest
      else fd # (if fst (lgp_input_init_raw_keyboard [(fd, bitmask)]) = fd then [] else raw_opened rest))"

lemma raw_keyboard_closes:
  "lgp_input_init_raw_keyboard opens = (kbd, cl) \<Longrightarrow> cl @ (if kbd \<ge> 0 then [kbd] else []) = raw_opened opens"
  by (induction opens arbitrary: kbd cl rule: lgp_input_init_raw_keyboard.induct)
    (auto split: if_splits prod.splits option.splits)

text \<open>The same search in \<open>keyboard.c\<close>, the driver of its own, finds the same device.\<close>

fun keyboard_search :: "(int \<times> 64 word list option) list \<Rightarrow> int \<times> int list" where
  "keyboard_search [] = (- 1, [])"
| "keyboard_search ((fd, bitmask) # rest) =
     (if fd \<ge> 0
      then (case bitmask of
              Some ws \<Rightarrow>
                if (ws ! (KEY_A div 64)) AND push_bit (KEY_A mod 64) 1 \<noteq> 0 then (fd, [])
                else apsnd ((#) fd) (keyboard_search rest)
            | None \<Rightarrow> apsnd ((#) fd) (keyboard_search rest))
      else keyboard_search rest)"

definition lgp_keyboard_init :: "(int \<times> 64 word list option) list \<Rightarrow> int \<times> int list" where
  "lgp_keyboard_init opens = keyboard_search (take 10 opens)"

lemma keyboard_init_same: "lgp_keyboard_init opens = (case lgp_input_init_raw m opens of ((_, kbd), cl) \<Rightarrow> (kbd, cl))"
proof -
  have "keyboard_search os = lgp_input_init_raw_keyboard os" for os
    by (induction os rule: keyboard_search.induct) (auto split: prod.split option.split)
  then show ?thesis by (simp add: lgp_keyboard_init_def lgp_input_init_raw_def split: prod.split)
qed

text \<open>Every descriptor the raw back end opens is closed exactly once, by the search or by the cleanup.\<close>

lemma raw_released:
  assumes "lgp_input_init_raw mouse_fd opens = (fds, cl)" "lgp_input_cleanup_raw fds = (fds', cl')"
  shows "mset (cl @ cl') = mset ((if mouse_fd \<ge> 0 then [mouse_fd] else []) @ raw_opened (take 10 opens))"
    and "lgp_input_cleanup_raw fds' = (fds', [])"
proof -
  obtain kbd where k: "lgp_input_init_raw_keyboard (take 10 opens) = (kbd, cl)" "fds = (mouse_fd, kbd)"
    using assms(1) by (auto simp: lgp_input_init_raw_def split: prod.splits)
  note c = raw_keyboard_closes [OF k(1), symmetric]
  show "mset (cl @ cl') = mset ((if mouse_fd \<ge> 0 then [mouse_fd] else []) @ raw_opened (take 10 opens))"
    using assms(2) k(2) unfolding c by (auto simp: lgp_input_cleanup_raw_def split: if_splits)
  show "lgp_input_cleanup_raw fds' = (fds', [])"
    using assms(2) k(2) by (auto simp: lgp_input_cleanup_raw_def split: if_splits)
qed

section \<open>Pointer motion with fractions\<close>

text \<open>
  libinput reports motion as fractions. The pointer is a real number here and \<open>rnd\<close> the rounding of a sum
  to a \<open>double\<close>, an argument; infinities and NaN do not occur, since the pointer is clamped. The integer
  fields of \<open>lgp_input\<close> hold the truncated pointer, which is what the code passes on.
\<close>

definition clamp_real :: "int \<Rightarrow> real \<Rightarrow> real" where
  "clamp_real n v = (let v1 = (if v < 0 then 0 else v) in if v1 \<ge> of_int n then of_int (n - 1) else v1)"

definition c_trunc :: "real \<Rightarrow> int" where
  "c_trunc v = (if v < 0 then \<lceil>v\<rceil> else \<lfloor>v\<rfloor>)"

type_synonym libinput_state = "(real \<times> real) \<times> lgp_input \<times> lgp_state"

definition lgp_input_handle_pointer_motion ::
  "(real \<Rightarrow> real) \<Rightarrow> lgp_kernel \<Rightarrow> real \<Rightarrow> real \<Rightarrow> libinput_state \<Rightarrow> libinput_state option" where
  "lgp_input_handle_pointer_motion rnd k dx dy = (\<lambda>((px, py), inp, st). do {
     let px1 = clamp_real (screen_w inp) (rnd (px + dx));
     let py1 = clamp_real (screen_h inp) (rnd (py + dy));
     let x = c_trunc px1;
     let y = c_trunc py1;
     st1 \<leftarrow> lgp_dispatch_pointer_motion k x y (st\<lparr>cursor := lgp_cursor_set_position x y (cursor st)\<rparr>);
     Some ((px1, py1), inp\<lparr>pointer_x := x, pointer_y := y\<rparr>, st1)
   })"

datatype libinput_event = LiMotion real real | LiButton u32 bool | LiKey u32 bool | LiOther

definition libinput_event_step ::
  "(real \<Rightarrow> real) \<Rightarrow> lgp_kernel \<Rightarrow> libinput_event \<Rightarrow> libinput_state \<Rightarrow> libinput_state option" where
  "libinput_event_step rnd k ev s =
     (case (ev, s) of
        (LiMotion dx dy, _) \<Rightarrow> lgp_input_handle_pointer_motion rnd k dx dy s
      | (LiButton button pressed, p, inp, st) \<Rightarrow>
          map_option (\<lambda>st'. (p, inp, st')) (lgp_input_handle_pointer_button k button pressed inp st)
      | (LiKey key pressed, p, is) \<Rightarrow>
          map_option (Pair p) (lgp_input_handle_keyboard_key k key pressed is)
      | (LiOther, _) \<Rightarrow> Some s)"

text \<open>The events libinput delivers until it has none left; without a context nothing happens.\<close>

definition lgp_input_pump_libinput ::
  "(real \<Rightarrow> real) \<Rightarrow> lgp_kernel \<Rightarrow> bool \<Rightarrow> libinput_event list \<Rightarrow> libinput_state \<Rightarrow> libinput_state option" where
  "lgp_input_pump_libinput rnd k has_ctx events s =
     (if \<not> has_ctx then Some s else for_each (libinput_event_step rnd k) events s)"

definition libinput_ok :: "libinput_state \<Rightarrow> bool" where
  "libinput_ok = (\<lambda>((px, py), inp, st).
     input_ok inp \<and> server_ok st \<and>
     0 \<le> px \<and> px < of_int (screen_w inp) \<and> pointer_x inp = \<lfloor>px\<rfloor> \<and>
     0 \<le> py \<and> py < of_int (screen_h inp) \<and> pointer_y inp = \<lfloor>py\<rfloor>)"

lemma clamp_real_range:
  assumes "0 < n" shows "0 \<le> clamp_real n v" "clamp_real n v < of_int n" "c_trunc (clamp_real n v) = \<lfloor>clamp_real n v\<rfloor>"
    "0 \<le> \<lfloor>clamp_real n v\<rfloor>" "\<lfloor>clamp_real n v\<rfloor> < n"
proof -
  show r: "0 \<le> clamp_real n v" "clamp_real n v < of_int n" using assms by (auto simp: clamp_real_def Let_def)
  show "c_trunc (clamp_real n v) = \<lfloor>clamp_real n v\<rfloor>" "0 \<le> \<lfloor>clamp_real n v\<rfloor>" "\<lfloor>clamp_real n v\<rfloor> < n"
    using r by (simp_all add: c_trunc_def floor_less_iff)
qed

lemma motion_ok:
  assumes "libinput_ok s" shows "\<exists>s'. lgp_input_handle_pointer_motion rnd k dx dy s = Some s' \<and> libinput_ok s'"
proof -
  obtain px py inp st where s: "s = ((px, py), inp, st)" by (metis prod.collapse)
  have ok: "input_ok inp" "server_ok st" using assms s by (simp_all add: libinput_ok_def)
  define px1 where "px1 = clamp_real (screen_w inp) (rnd (px + dx))"
  define py1 where "py1 = clamp_real (screen_h inp) (rnd (py + dy))"
  have wh: "0 < screen_w inp" "screen_w inp \<le> 65535" "0 < screen_h inp" "screen_h inp \<le> 65535"
    using ok(1) by (auto simp: input_ok_def)
  note cx = clamp_real_range [OF wh(1), of "rnd (px + dx)", folded px1_def]
    and cy = clamp_real_range [OF wh(3), of "rnd (py + dy)", folded py1_def]
  let ?st1 = "st\<lparr>cursor := lgp_cursor_set_position \<lfloor>px1\<rfloor> \<lfloor>py1\<rfloor> (cursor st)\<rparr>"
  have ok1: "server_ok ?st1"
    by (rule server_ok_cursor [OF ok(2) cursor_set_position_on_screen])
       (use server_okD(7) [OF ok(2)] in \<open>simp add: screen_ok_def\<close>)
  obtain st2 where st2: "lgp_dispatch_pointer_motion k \<lfloor>px1\<rfloor> \<lfloor>py1\<rfloor> ?st1 = Some st2" "same_scene ?st1 st2"
    using same_scene_motion [OF ok1, of "\<lfloor>px1\<rfloor>" "\<lfloor>py1\<rfloor>" k] cx cy wh by auto
  have "lgp_input_handle_pointer_motion rnd k dx dy s =
      Some ((px1, py1), inp\<lparr>pointer_x := \<lfloor>px1\<rfloor>, pointer_y := \<lfloor>py1\<rfloor>\<rparr>, st2)"
    unfolding s lgp_input_handle_pointer_motion_def prod.case Let_def px1_def [symmetric] py1_def [symmetric]
      cx(3) cy(3) st2(1) bind.bind_lunit ..
  moreover have "libinput_ok ((px1, py1), inp\<lparr>pointer_x := \<lfloor>px1\<rfloor>, pointer_y := \<lfloor>py1\<rfloor>\<rparr>, st2)"
    using cx cy wh same_scene_ok [OF ok1 st2(2)] by (simp add: libinput_ok_def input_ok_def)
  ultimately show ?thesis by blast
qed

lemma libinput_step_ok:
  assumes "libinput_ok s" shows "\<exists>s'. libinput_event_step rnd k ev s = Some s' \<and> libinput_ok s'"
proof -
  obtain px py inp st where s: "s = ((px, py), inp, st)" by (metis prod.collapse)
  have ok: "input_ok inp" "server_ok st" using assms s by (simp_all add: libinput_ok_def)
  show ?thesis
  proof (cases ev)
    case (LiMotion dx dy)
    with motion_ok [OF assms, of rnd k dx dy] show ?thesis by (simp add: libinput_event_step_def)
  next
    case (LiButton button pressed)
    obtain st' where "lgp_dispatch_pointer_button k (pointer_x inp) (pointer_y inp)
        (lgp_input_button_from_evdev button) pressed st = Some st'" "same_scene st st'"
      using same_scene_button [OF ok(2)] by blast
    with LiButton s assms same_scene_ok [OF ok(2)] show ?thesis
      by (simp add: libinput_event_step_def lgp_input_handle_pointer_button_def libinput_ok_def)
  next
    case (LiKey key pressed)
    obtain st' where "lgp_dispatch_keyboard_key k key (if pressed then 1 else 0)
        (modifiers (lgp_input_update_modifiers key pressed inp)) st = Some st'" "same_scene st st'"
      using same_scene_key [OF ok(2)] by blast
    moreover have "screen_w (lgp_input_update_modifiers key pressed inp) = screen_w inp"
      "screen_h (lgp_input_update_modifiers key pressed inp) = screen_h inp"
      "pointer_x (lgp_input_update_modifiers key pressed inp) = pointer_x inp"
      "pointer_y (lgp_input_update_modifiers key pressed inp) = pointer_y inp"
      by (simp_all add: lgp_input_update_modifiers_def Let_def)
    ultimately show ?thesis using LiKey s assms same_scene_ok [OF ok(2)]
      by (simp add: libinput_event_step_def lgp_input_handle_keyboard_key_def libinput_ok_def Let_def update_modifiers_ok)
  next
    case LiOther
    with assms show ?thesis by (simp add: libinput_event_step_def)
  qed
qed

interpretation libinput: safe_loop libinput_ok "\<lambda>ev. True" "libinput_event_step rnd k" for rnd k
  by unfold_locales (rule libinput_step_ok)

text \<open>
  However libinput moves the pointer and however sums are rounded, the pump has a defined result and keeps
  the pointer on the screen and the server invariant.
\<close>

theorem libinput_pump_safe:
  assumes "libinput_ok s" shows "\<exists>s'. lgp_input_pump_libinput rnd k ctx events s = Some s' \<and> libinput_ok s'"
  using libinput.all_ok [OF assms, of events rnd k] assms
  by (cases ctx) (auto simp: lgp_input_pump_libinput_def list_all_iff)

text \<open>
  With whole numbers, which a rounding keeps, the pointer of libinput moves like that of the raw back end,
  so the integer model of the latter is exact.
\<close>

lemma clamp_real_int:
  "clamp_real n (of_int v) = of_int (let v1 = (if v < 0 then 0 else v) in if v1 \<ge> n then n - 1 else v1)"
  by (simp add: clamp_real_def Let_def)

lemma c_trunc_int [simp]: "c_trunc (of_int v) = v"
  by (simp add: c_trunc_def)

theorem motion_like_raw:
  assumes "\<And>v. rnd (of_int v) = of_int v"
    and "inp1 = lgp_input_clamp_pointer (inp\<lparr>pointer_x := pointer_x inp + dx, pointer_y := pointer_y inp + dy\<rparr>)"
  shows "lgp_input_handle_pointer_motion rnd k (of_int dx) (of_int dy)
      ((of_int (pointer_x inp), of_int (pointer_y inp)), inp, st) =
    map_option (\<lambda>st'. ((of_int (pointer_x inp1), of_int (pointer_y inp1)), inp1, st'))
      (lgp_dispatch_pointer_motion k (pointer_x inp1) (pointer_y inp1)
         (st\<lparr>cursor := lgp_cursor_set_position (pointer_x inp1) (pointer_y inp1) (cursor st)\<rparr>))"
proof -
  let ?inp = "inp\<lparr>pointer_x := pointer_x inp + dx, pointer_y := pointer_y inp + dy\<rparr>"
  have c: "clamp_real (screen_w inp) (of_int (pointer_x inp + dx)) = of_int (pointer_x inp1)"
    "clamp_real (screen_h inp) (of_int (pointer_y inp + dy)) = of_int (pointer_y inp1)"
    unfolding clamp_real_int assms(2) by (simp_all add: lgp_input_clamp_pointer_def Let_def)
  have i: "inp\<lparr>pointer_x := pointer_x inp1, pointer_y := pointer_y inp1\<rparr> = inp1"
    unfolding assms(2) by (simp add: lgp_input_clamp_pointer_def Let_def)
  show ?thesis
    using c assms(1) i
    by (simp add: lgp_input_handle_pointer_motion_def Let_def bind_eq_Some_conv map_option_case
        flip: of_int_add split: bind_split option.split)
qed

end
