(* ===== verification/Lgp_Log.thy ===== *)
theory Lgp_Log
  imports Init_Log
begin

text \<open>
  The logger of the compositor (\<open>lgp-compositor/logging/log.c\<close>): one entry, opening and closing. The time
  and the formatted message are arguments. Shown: when it stores past its buffer, and what it writes.
\<close>

section \<open>State and entries\<close>

text \<open>The descriptor of the log, -1 when it is closed. Opening: the answer of \<open>open\<close>, or the error it sets.\<close>

definition lgp_log_init :: "int \<Rightarrow> int \<Rightarrow> int \<Rightarrow> int \<times> int" where
  "lgp_log_init opened errno g_log_fd =
     (if g_log_fd \<ge> 0 then (g_log_fd, 0) else if opened < 0 then (opened, - errno) else (opened, 0))"

definition lgp_log_close :: "int \<Rightarrow> int \<times> log_call list" where
  "lgp_log_close g_log_fd = (if g_log_fd \<ge> 0 then (- 1, [LcClose g_log_fd]) else (g_log_fd, []))"

definition lgp_time_str :: "broken_time \<Rightarrow> int \<Rightarrow> string" where
  "lgp_time_str tm tv_usec =
     bounded_copy 32
       (show_padded 4 (tm_year tm + 1900) @ ''-'' @ show_padded 2 (tm_mon tm + 1) @ ''-'' @
        show_padded 2 (tm_mday tm) @ ''T'' @ show_padded 2 (tm_hour tm) @ '':'' @ show_padded 2 (tm_min tm) @ '':'' @
        show_padded 2 (tm_sec tm) @ ''.'' @ show_padded 3 (c_div tv_usec 1000) @ ''Z'')"

definition lgp_log_prefix :: "broken_time \<Rightarrow> int \<Rightarrow> luna_log_level \<Rightarrow> string \<Rightarrow> string" where
  "lgp_log_prefix tm tv_usec level component =
     ''['' @ lgp_time_str tm tv_usec @ ''] ['' @ LEVEL_NAMES level @ ''] ['' @ component @ ''] ''"

abbreviation (input) LGP_LOG_BUF :: nat where "LGP_LOG_BUF \<equiv> 4096"

text \<open>
  The message is the text the format makes. The line end is stored at \<open>len\<close> and the NUL behind it;
  \<open>None\<close> is a store behind the end of the buffer.
\<close>

definition lgp_log :: "int \<Rightarrow> broken_time \<Rightarrow> int \<Rightarrow> luna_log_level \<Rightarrow> string \<Rightarrow> string \<Rightarrow> log_call list option" where
  "lgp_log g_log_fd tm tv_usec level component msg =
     (let prefix = lgp_log_prefix tm tv_usec level component;
          sync = (if level = LOG_FATAL \<and> g_log_fd \<ge> 0 then [LcFsync g_log_fd] else [])
      in if length prefix < LGP_LOG_BUF \<and> length msg > 0
         then
           (let buf = bounded_copy LGP_LOG_BUF (prefix @ msg);
                total = length prefix + length msg;
                len = (if total \<ge> LGP_LOG_BUF then LGP_LOG_BUF - 2 else total);
                entry = take len buf @ [LF]
            in if len + 1 \<ge> LGP_LOG_BUF then None
               else Some ((if g_log_fd \<ge> 0 then [LcWrite g_log_fd entry] else []) @ [LcWrite STDERR_FILENO entry] @ sync))
         else Some sync)"

section \<open>What an entry looks like\<close>

lemma prefix_no_LF: "LF \<notin> set component \<Longrightarrow> LF \<notin> set (lgp_log_prefix tm usec level component)"
  using show_padded_no_LF
  by (cases level) (auto simp: lgp_log_prefix_def lgp_time_str_def bounded_copy_def dest: in_set_takeD)

text \<open>The line that is written, without its end.\<close>

definition log_line :: "string \<Rightarrow> string" where
  "log_line txt = (if length txt < LGP_LOG_BUF then txt else take (LGP_LOG_BUF - 2) txt)"

lemma lgp_log_result:
  assumes "length (lgp_log_prefix tm usec level component) < LGP_LOG_BUF" "msg \<noteq> []"
  shows "lgp_log fd tm usec level component msg =
    (let txt = lgp_log_prefix tm usec level component @ msg; entry = log_line txt @ [LF]
     in if length txt = 4095 then None
        else Some ((if fd \<ge> 0 then [LcWrite fd entry] else []) @ [LcWrite STDERR_FILENO entry] @
                   (if level = LOG_FATAL \<and> fd \<ge> 0 then [LcFsync fd] else [])))"
  using assms by (simp add: lgp_log_def log_line_def bounded_copy_def Let_def min_def)

text \<open>
  C37: the compositor's logger writes past its buffer of 4096 bytes exactly when the text of an entry has
  4095 characters, which the check for too long texts misses by one. In every other case it writes one
  line of at most 4095 bytes, to the log and to standard error alike, and keeps texts that fit whole.
\<close>

theorem lgp_log_bounds:
  assumes "LF \<notin> set component" "LF \<notin> set msg" "msg \<noteq> []"
    and "length (lgp_log_prefix tm usec level component) < LGP_LOG_BUF"
    and "txt = lgp_log_prefix tm usec level component @ msg"
  shows "(lgp_log fd tm usec level component msg = None \<longleftrightarrow> length txt = 4095) \<and>
    (\<forall>calls. lgp_log fd tm usec level component msg = Some calls \<longrightarrow>
      (\<exists>line. LF \<notin> set line \<and> length line < 4095 \<and> line = take (length line) txt \<and> (length txt < 4095 \<longrightarrow> line = txt) \<and>
        [c \<leftarrow> calls. \<forall>d. c \<noteq> LcFsync d] =
          (if fd \<ge> 0 then [LcWrite fd (line @ [LF])] else []) @ [LcWrite STDERR_FILENO (line @ [LF])]))"
proof (intro conjI allI impI)
  note r = lgp_log_result [OF assms(4,3), of fd, folded assms(5), unfolded Let_def]
  show "lgp_log fd tm usec level component msg = None \<longleftrightarrow> length txt = 4095" by (simp add: r)
  fix calls assume s: "lgp_log fd tm usec level component msg = Some calls"
  let ?line = "log_line txt"
  have "LF \<notin> set txt" using prefix_no_LF [OF assms(1)] assms(2,5) by simp
  then have "LF \<notin> set ?line" by (auto simp: log_line_def dest: in_set_takeD)
  moreover have "length ?line < 4095" "?line = take (length ?line) txt" "length txt < 4095 \<longrightarrow> ?line = txt"
    using s by (auto simp: r log_line_def split: if_splits)
  moreover have "[c \<leftarrow> calls. \<forall>d. c \<noteq> LcFsync d] =
      (if fd \<ge> 0 then [LcWrite fd (?line @ [LF])] else []) @ [LcWrite STDERR_FILENO (?line @ [LF])]"
    using s by (auto simp: r split: if_splits)
  ultimately show "\<exists>line. LF \<notin> set line \<and> length line < 4095 \<and> line = take (length line) txt \<and> (length txt < 4095 \<longrightarrow> line = txt) \<and>
        [c \<leftarrow> calls. \<forall>d. c \<noteq> LcFsync d] =
          (if fd \<ge> 0 then [LcWrite fd (line @ [LF])] else []) @ [LcWrite STDERR_FILENO (line @ [LF])]" by blast
qed

definition log_tm :: broken_time where
  "log_tm = \<lparr>tm_year = 126, tm_mon = 0, tm_mday = 2, tm_hour = 3, tm_min = 4, tm_sec = 5\<rparr>"

lemma replicate_2: "replicate 2 c = [c, c]"
  by (simp add: numeral_2_eq_2)

lemma log_prefix_example: "lgp_log_prefix log_tm 6000 LOG_INFO ''drm'' = ''[2026-01-02T03:04:05.006Z] [INFO ] [drm] ''"
  by (simp add: lgp_log_prefix_def lgp_time_str_def log_tm_def show_padded_def pad_left_def show_nat.simps
      char_of_def bit_0 c_div_def bounded_copy_def replicate_2)

theorem lgp_log_bounds_witness:
  "lgp_log 5 log_tm 6000 LOG_INFO ''drm'' (replicate 4054 CHR ''x'') = None \<and>
   lgp_log 5 log_tm 6000 LOG_INFO ''drm'' (replicate 4053 CHR ''x'') \<noteq> None"
proof -
  have "lgp_log 5 log_tm 6000 LOG_INFO ''drm'' (replicate n CHR ''x'') = None \<longleftrightarrow> n + 41 = 4095" if "0 < n" for n
    using lgp_log_bounds [of "''drm''" "replicate n CHR ''x''" log_tm 6000 LOG_INFO, OF _ _ _ _ refl, of 5] that
    by (simp add: log_prefix_example)
  from this [of 4054] this [of 4053] show ?thesis by simp
qed

lemma log_closed_once:
  "lgp_log_close fd = (fd', calls) \<Longrightarrow> calls = (if fd \<ge> 0 then [LcClose fd] else []) \<and> lgp_log_close fd' = (fd', [])"
  by (auto simp: lgp_log_close_def split: if_splits)

end
