(* ===== verification/Lgp_Main.thy ===== *)
theory Lgp_Main
  imports Lgp_Input
begin

text \<open>
  The compositor's event loop (\<open>main\<close> of the compositor with \<open>util/signal.c\<close>): which events arrive,
  what each does to the server, and the states a run can reach. The server invariant is proved for
  all of them, and that events of ordinary clients have a defined result when the files behind the
  buffers are long enough. What system calls answer is part of the event; the descriptors of the epoll set themselves are not modelled.
\<close>

section \<open>Signals\<close>

datatype lgp_signal_action = LGP_SIGNAL_NONE | LGP_SIGNAL_SHUTDOWN | LGP_SIGNAL_RELOAD

text \<open>The argument is the signal number read from the descriptor, if a whole record was read.\<close>

definition lgp_signal_read :: "u32 option \<Rightarrow> lgp_signal_action" where
  "lgp_signal_read info =
     (case info of
        None \<Rightarrow> LGP_SIGNAL_NONE
      | Some signo \<Rightarrow>
          if signo = 15 \<or> signo = 2 then LGP_SIGNAL_SHUTDOWN
          else if signo = 1 then LGP_SIGNAL_RELOAD
          else LGP_SIGNAL_NONE)"

section \<open>The event loop\<close>

text \<open>
  What \<open>epoll_wait\<close> reports and what the system calls of its handling answer: the signal read; a
  completed page flip; the packets and key events of the input devices; the descriptor \<open>accept4\<close>
  returned, the address \<open>calloc\<close> returned, the peer's credentials and whether \<open>epoll_ctl\<close> succeeded;
  a client's descriptor, the answer of \<open>recvmsg\<close> and whether a later \<open>malloc\<close> succeeds.
\<close>

datatype lgp_event =
    EvSignal "u32 option"
  | EvFlip
  | EvInput "mouse_packet list" "input_event list"
  | EvListen int "nat option" "(int \<times> u32 \<times> u32) option" bool
  | EvClient int recv_answer bool

definition lgp_accept_client ::
    "int \<Rightarrow> nat option \<Rightarrow> (int \<times> u32 \<times> u32) option \<Rightarrow> bool \<Rightarrow> lgp_state \<Rightarrow> lgp_state" where
  "lgp_accept_client client_fd mem cred registered st =
     (if client_fd < 0 then st
      else case lgp_client_create mem client_fd cred of
        None \<Rightarrow> st\<lparr>closed := closed st @ [client_fd]\<rparr>
      | Some client \<Rightarrow>
          (let client1 = client\<lparr>session_id := next_session_id st\<rparr>;
               st1 = st\<lparr>next_session_id := next_session_id st + 1\<rparr>
           in if \<not> registered then st1\<lparr>closed := closed st1 @ lgp_client_destroy client1\<rparr>
              else lgp_state_add_client st1 client1))"

definition lgp_client_event :: "lgp_kernel \<Rightarrow> int \<Rightarrow> recv_answer \<Rightarrow> bool \<Rightarrow> lgp_state \<Rightarrow> lgp_state option" where
  "lgp_client_event k fd answer frame_mem st =
     (case lgp_state_find_client st fd of
        None \<Rightarrow> Some (st\<lparr>closed := closed st @ [fd]\<rparr>)
      | Some client \<Rightarrow>
          (case lgp_client_read_available answer client of
             (client1, read_status, fds) \<Rightarrow>
               (let st1 = (put_client client1 st)\<lparr>closed := closed st @ fds\<rparr> in
                if read_status \<le> 0 then Some (lgp_state_close_client st1 client1)
                else case lgp_client_process_messages k frame_mem (cl_addr client1) (rx_buf client1) st1 of
                  None \<Rightarrow> None
                | Some (st2, True) \<Rightarrow> Some st2
                | Some (st2, False) \<Rightarrow>
                    (case client_at (cl_addr client1) st2 of
                       None \<Rightarrow> None
                     | Some client2 \<Rightarrow> Some (lgp_state_close_client st2 client2)))))"

fun lgp_event_step :: "lgp_kernel \<Rightarrow> lgp_event \<Rightarrow> lgp_input \<times> lgp_state \<Rightarrow> (lgp_input \<times> lgp_state) option" where
  "lgp_event_step k (EvSignal info) (inp, st) =
     Some (inp, if lgp_signal_read info = LGP_SIGNAL_SHUTDOWN then st\<lparr>running := False\<rparr> else st)"
| "lgp_event_step k EvFlip (inp, st) = Some (inp, st)"
| "lgp_event_step k (EvInput packets events) (inp, st) = lgp_input_pump k packets events (inp, st)"
| "lgp_event_step k (EvListen fd mem cred registered) (inp, st) =
     Some (inp, lgp_accept_client fd mem cred registered st)"
| "lgp_event_step k (EvClient fd answer frame_mem) (inp, st) =
     map_option (\<lambda>st1. (inp, st1)) (lgp_client_event k fd answer frame_mem st)"

text \<open>Each round handles one batch of events; a failed \<open>epoll_wait\<close> is an empty batch.\<close>

fun lgp_event_loop ::
    "lgp_kernel \<Rightarrow> lgp_event list list \<Rightarrow> lgp_input \<times> lgp_state \<Rightarrow> (lgp_input \<times> lgp_state) option" where
  "lgp_event_loop k [] is = Some is"
| "lgp_event_loop k (batch # batches) is =
     (if running (snd is) then for_each (lgp_event_step k) batch is \<bind> lgp_event_loop k batches
      else Some is)"

text \<open>The state in which the loop starts; \<open>g_input\<close> has its initial value.\<close>

definition g_input :: lgp_input where
  "g_input = \<lparr>screen_w = 1920, screen_h = 1080, pointer_x = 960, pointer_y = 540, modifiers = 0,
     last_left = False, last_right = False\<rparr>"

definition lgp_main_start :: "u16 \<Rightarrow> u16 \<Rightarrow> u32 \<Rightarrow> u8 list \<Rightarrow> lgp_input \<times> lgp_state" where
  "lgp_main_start hdisp vdisp pitch pixels =
     lgp_input_set_screen (ucast hdisp) (ucast vdisp) (g_input, lgp_initial_state hdisp vdisp pitch pixels)"

section \<open>The server invariant over whole runs\<close>

text \<open>
  What is assumed of the allocator: an address it returns is not that of a client still in use. Of
  the kernel's display driver: the rows of the buffer do not overlap and the buffer holds all rows.
\<close>

fun event_fresh :: "lgp_state \<Rightarrow> lgp_event \<Rightarrow> bool" where
  "event_fresh st (EvListen fd (Some a) cred registered) \<longleftrightarrow> a \<notin> cl_addr ` set (clients st)"
| "event_fresh st _ \<longleftrightarrow> True"

definition framebuffer_ok :: "u16 \<Rightarrow> u16 \<Rightarrow> u32 \<Rightarrow> u8 list \<Rightarrow> bool" where
  "framebuffer_ok hdisp vdisp pitch pixels \<longleftrightarrow>
     hdisp \<noteq> 0 \<and> vdisp \<noteq> 0 \<and> \<not> pitch < ucast hdisp * 4 \<and> unat vdisp * unat pitch \<le> length pixels"

inductive server_reach :: "lgp_kernel \<Rightarrow> lgp_input \<times> lgp_state \<Rightarrow> bool" for k where
  reach_start: "framebuffer_ok hdisp vdisp pitch pixels \<Longrightarrow> server_reach k (lgp_main_start hdisp vdisp pitch pixels)"
| reach_event: "server_reach k (inp, st) \<Longrightarrow> event_fresh st ev \<Longrightarrow>
    lgp_event_step k ev (inp, st) = Some is' \<Longrightarrow> server_reach k is'"

lemma unat_u16: "unat (ucast w :: u32) = unat w" for w :: u16
  using unsigned_less [of w, where ?'a = nat] by (simp add: unsigned_ucast_eq take_bit_nat_eq_self)

lemma start_ok:
  assumes "framebuffer_ok hdisp vdisp pitch pixels" "lgp_main_start hdisp vdisp pitch pixels = (inp, st)"
  shows "input_ok inp \<and> server_ok st"
proof -
  have u: "unat hdisp < 65536" "unat vdisp < 65536"
    using unsigned_less [of hdisp, where ?'a = nat] unsigned_less [of vdisp, where ?'a = nat] by simp_all
  then have s: "input_ok inp" "cursor_on_screen (cursor st)"
      "st = (lgp_initial_state hdisp vdisp pitch pixels)\<lparr>cursor := cursor st\<rparr>"
    using set_screen_ok [OF _ _ assms(2) [unfolded lgp_main_start_def]] by (simp_all add: unat_u16)
  have "0 < unat hdisp" "0 < unat vdisp" using assms(1) by (simp_all add: framebuffer_ok_def unat_gt_0)
  then have "screen_ok (lgp_initial_state hdisp vdisp pitch pixels\<lparr>cursor := cursor st\<rparr>)"
    using assms(1) u s(2) by (simp add: screen_ok_def lgp_initial_state_def framebuffer_ok_def unat_u16)
  moreover have "list_all (\<lambda>s. buffer_size s < 2 ^ 32) (surfaces lgp_surface_manager_init)"
    "list_all (surface_owned []) (surfaces lgp_surface_manager_init)"
    by (simp_all add: lgp_surface_manager_init_def list_all_iff surface_owned_def zero_surface_def)
  ultimately have "server_ok (lgp_initial_state hdisp vdisp pitch pixels\<lparr>cursor := cursor st\<rparr>)"
    by (simp add: server_ok_def init_ok lgp_initial_state_def wm_ok_def)
  with s show ?thesis by simp
qed

lemma same_scene_closed: "same_scene st (st\<lparr>closed := x\<rparr>)" "same_scene st (st\<lparr>next_session_id := n\<rparr>)"
  "same_scene st (st\<lparr>next_session_id := n, closed := x\<rparr>)"
  by (simp_all add: same_scene_def)

lemma add_client_ok:
  assumes ok: "server_ok st" and c: "client_ok c" "cl_addr c \<notin> cl_addr ` set (clients st)"
  shows "server_ok (lgp_state_add_client st c)"
proof -
  have "surface_owned (c # clients st) s" if "surface_owned (clients st) s" for s
    using that by (auto simp: surface_owned_def)
  with ok c show ?thesis
    by (auto simp: server_ok_def lgp_state_add_client_def list_all_iff wm_ok_def screen_ok_def)
qed

lemma accept_ok:
  assumes ok: "server_ok st" and f: "event_fresh st (EvListen fd mem cred registered)"
  shows "server_ok (lgp_accept_client fd mem cred registered st)"
proof (cases "lgp_client_create mem fd cred")
  case None
  with same_scene_ok [OF ok] same_scene_closed ok show ?thesis by (simp add: lgp_accept_client_def)
next
  case (Some c)
  then have a: "mem = Some (cl_addr c)"
    by (auto simp: lgp_client_create_def Let_def split: option.splits)
  let ?c = "c\<lparr>session_id := next_session_id st\<rparr>"
  have "client_ok ?c" using client_create_ok [OF Some] by (simp add: client_ok_def)
  moreover have "server_ok (st\<lparr>next_session_id := next_session_id st + 1\<rparr>)"
    by (rule same_scene_ok [OF ok same_scene_closed(2)])
  ultimately show ?thesis
    using Some f a ok add_client_ok [of "st\<lparr>next_session_id := next_session_id st + 1\<rparr>" ?c]
      same_scene_ok [OF ok same_scene_closed(3)]
    by (simp add: lgp_accept_client_def Let_def)
qed

lemma read_available_ident: "lgp_client_read_available answer c = (c', r, cl) \<Longrightarrow> client_ok c \<Longrightarrow> ident c' = ident c"
  by (cases answer) (auto simp: lgp_client_read_available_def Let_def ident_def queue_received_fds_result client_ok_def
      split: if_splits)

lemma find_client_SomeD: "lgp_state_find_client st fd = Some c \<Longrightarrow> c \<in> set (clients st)"
  by (auto simp: lgp_state_find_client_def List.find_Some_iff)

lemma read_state_ok:
  assumes ok: "server_ok st" and f: "lgp_state_find_client st fd = Some c"
    and r: "lgp_client_read_available answer c = (c1, status, cl)"
  shows "server_ok ((put_client c1 st)\<lparr>closed := x\<rparr>) \<and> c1 \<in> set (clients (put_client c1 st)) \<and> client_ok c1"
proof -
  note c = find_client_SomeD [OF f]
  have co: "client_ok c" "client_ok c1" using server_okD(4) [OF ok c] read_available_ok r by blast+
  note i = read_available_ident [OF r co(1)]
  have "c1 \<in> set (clients (put_client c1 st))" using c i by (auto simp: put_client_def ident_def image_iff)
  moreover have "server_ok (put_client c1 st)" using server_ok_put_client [OF ok c i co(2)] by simp
  ultimately show ?thesis using same_scene_ok [OF _ same_scene_closed(1)] co by blast
qed

lemma client_event_ok:
  assumes ok: "server_ok st" and e: "lgp_client_event k fd answer fm st = Some st'"
  shows "server_ok st'"
proof (cases "lgp_state_find_client st fd")
  case None
  with e have "st' = st\<lparr>closed := closed st @ [fd]\<rparr>" by (simp add: lgp_client_event_def)
  with same_scene_ok [OF ok same_scene_closed(1)] show ?thesis by simp
next
  case (Some c)
  obtain c1 status cl where r: "lgp_client_read_available answer c = (c1, status, cl)" by (metis prod_cases3)
  let ?st1 = "(put_client c1 st)\<lparr>closed := closed st @ cl\<rparr>"
  have s: "server_ok ?st1" "c1 \<in> set (clients ?st1)" "length (rx_buf c1) \<le> 4096"
    using read_state_ok [OF ok Some r] by (simp_all add: client_ok_def)
  show ?thesis
  proof (cases "status \<le> 0")
    case True
    with e Some r close_client_ok [OF s(1,2)] show ?thesis by (simp add: lgp_client_event_def Let_def)
  next
    case False
    let ?p = "lgp_client_process_messages k fm (cl_addr c1) (rx_buf c1) ?st1"
    from e Some r False obtain st2 b where p: "?p = Some (st2, b)"
      by (auto simp: lgp_client_event_def Let_def split: option.splits)
    have ok2: "server_ok st2"
      using process_messages_keeps [OF s(1,2) refl s(3) p] by (simp add: served_def)
    show ?thesis
    proof (cases b)
      case True
      with e Some r False p ok2 show ?thesis by (simp add: lgp_client_event_def Let_def)
    next
      case nb: False
      with e Some r False p obtain c2 where "client_at (cl_addr c1) st2 = Some c2"
          "st' = lgp_state_close_client st2 c2"
        by (auto simp: lgp_client_event_def Let_def split: option.splits)
      with close_client_ok [OF ok2] client_at_SomeD show ?thesis by blast
    qed
  qed
qed

lemma client_event_defined:
  assumes ok: "server_ok st" and kb: "kernel_backs k"
    and u: "\<And>c. lgp_state_find_client st fd = Some c \<Longrightarrow> cl_uid c \<noteq> 0"
  shows "lgp_client_event k fd answer fm st \<noteq> None"
proof (cases "lgp_state_find_client st fd")
  case (Some c)
  obtain c1 status cl where r: "lgp_client_read_available answer c = (c1, status, cl)" by (metis prod_cases3)
  let ?st1 = "(put_client c1 st)\<lparr>closed := closed st @ cl\<rparr>"
  have s: "server_ok ?st1" "c1 \<in> set (clients ?st1)" "length (rx_buf c1) \<le> 4096"
    using read_state_ok [OF ok Some r] by (simp_all add: client_ok_def)
  have "ident c1 = ident c" using read_available_ident [OF r] server_okD(4) [OF ok find_client_SomeD [OF Some]] .
  then have u1: "cl_uid c1 \<noteq> 0" using u [OF Some] by (simp add: ident_def)
  obtain st2 b where p: "lgp_client_process_messages k fm (cl_addr c1) (rx_buf c1) ?st1 = Some (st2, b)"
    using process_messages_defined [OF s(1,2) refl u1 s(3) kb, of fm] by auto
  have v: "server_ok st2" "map ident (clients st2) = map ident (clients ?st1)"
    using process_messages_keeps [OF s(1,2) refl s(3) p] by (simp_all add: served_def)
  from client_same_ident [OF v s(2)] obtain c2 where "client_at (cl_addr c1) st2 = Some c2" by auto
  with Some r p show ?thesis by (cases b) (simp_all add: lgp_client_event_def Let_def)
qed (simp add: lgp_client_event_def)

lemma event_step_ok:
  assumes "input_ok inp" "server_ok st" "event_fresh st ev" "lgp_event_step k ev (inp, st) = Some (inp', st')"
  shows "input_ok inp' \<and> server_ok st'"
proof (cases ev)
  case (EvSignal info)
  have "server_ok (st\<lparr>running := False\<rparr>)" using assms(2) by (simp add: server_ok_def wm_ok_def screen_ok_def)
  with EvSignal assms show ?thesis by auto
next
  case (EvInput packets events)
  with input_pump_defined [OF assms(1,2), of k packets events] assms(4) show ?thesis
    by (auto simp: input_keeps_def)
qed (use assms accept_ok client_event_ok in auto)

lemma reach_ok: "server_reach k is \<Longrightarrow> input_ok (fst is) \<and> server_ok (snd is)"
proof (induction rule: server_reach.induct)
  case (reach_start hdisp vdisp pitch pixels)
  with start_ok [OF this] show ?case by (metis prod.collapse)
next
  case (reach_event inp st ev is')
  with event_step_ok [of inp st ev k "fst is'" "snd is'"] show ?case by simp
qed

text \<open>
  C1: in every state the event loop can reach, whatever clients send and however the kernel answers,
  every surface belongs to a connected client, and one above the application layer to a client of
  user 0; the window manager the server remembers is a connected client of user 0; no two clients
  share an address; every surface, client and table is well formed; the clipboard is a terminated
  string within its buffer; and pointer and cursor are on the screen.
\<close>

theorem server_invariant:
  assumes "server_reach k (inp, st)"
  shows "(\<forall>s \<in> set (surfaces (surface_manager st)). in_use s \<longrightarrow>
           (\<exists>c \<in> set (clients st). session_id c = owner_session_id s \<and>
              (surf_layer s > LGP_LAYER_APPLICATION \<longrightarrow> cl_uid c = 0))) \<and>
         (\<forall>a. wm_client st = Some a \<longrightarrow> (\<exists>c \<in> set (clients st). cl_addr c = a \<and> cl_uid c = 0)) \<and>
         distinct (map cl_addr (clients st)) \<and> list_all client_ok (clients st) \<and>
         manager_ok (surface_manager st) \<and> length (grabbed_keys st) \<le> 128 \<and>
         length (global_clipboard st) < 4096 \<and> 0 \<notin> set (global_clipboard st) \<and>
         cursor_on_screen (cursor st) \<and> input_ok inp"
proof -
  have r: "input_ok inp" "server_ok st" using reach_ok [OF assms] by simp_all
  have "\<exists>c \<in> set (clients st). session_id c = owner_session_id s \<and> (surf_layer s > LGP_LAYER_APPLICATION \<longrightarrow> cl_uid c = 0)"
    if "s \<in> set (surfaces (surface_manager st))" "in_use s" for s
    using server_okD(3) [OF r(2) that(1)] that(2) unfolding surface_owned_def by force
  with r show ?thesis by (simp add: server_ok_def wm_ok_def screen_ok_def)
qed

text \<open>A run: the server starts on a small screen and a client of user 1000 connects.\<close>

definition example_kernel :: lgp_kernel where
  "example_kernel = \<lparr>k_write = \<lambda>_. [], k_mmap = \<lambda>_. Some 1, k_flip = \<lambda>_. 0, k_mem = \<lambda>_ _. replicate (2 ^ 32) 0\<rparr>"

definition example_client1 :: lgp_client where
  "example_client1 = \<lparr>cl_addr = 40, cl_fd = 7, cl_pid = 99, cl_uid = 1000, cl_gid = 1000, session_id = 1,
     caps_granted = 0, hello_done = False, rx_buf = [], pending_fds = []\<rparr>"

definition example_run :: "lgp_input \<times> lgp_state" where
  "example_run = (case lgp_main_start 2 2 8 (replicate 16 0) of
     (inp, st) \<Rightarrow> (inp, st\<lparr>clients := [example_client1], next_session_id := 2\<rparr>))"

lemma example_accept:
  "lgp_event_step k (EvListen 7 (Some 40) (Some (99, 1000, 1000)) True) (lgp_main_start 2 2 8 (replicate 16 0)) =
     Some example_run"
  by (simp add: example_run_def example_client1_def lgp_main_start_def lgp_input_set_screen_def Let_def
      lgp_accept_client_def lgp_client_create_def lgp_state_add_client_def lgp_initial_state_def)

lemma example_run_reach: "server_reach k example_run"
proof -
  have "server_reach k (lgp_main_start 2 2 8 (replicate 16 0))"
    by (rule reach_start) (simp add: framebuffer_ok_def)
  moreover obtain inp st where s: "lgp_main_start 2 2 8 (replicate 16 0) = (inp, st)" by fastforce
  moreover have "event_fresh st (EvListen 7 (Some 40) (Some (99, 1000, 1000)) True)"
    using s by (auto simp: lgp_main_start_def lgp_input_set_screen_def Let_def lgp_initial_state_def)
  ultimately show ?thesis using reach_event example_accept by metis
qed

theorem server_invariant_witness:
  "clients (snd example_run) = [example_client1] \<and> manager_ok (surface_manager (snd example_run)) \<and>
   cursor_on_screen (cursor (snd example_run)) \<and> input_ok (fst example_run)"
proof -
  have "server_reach example_kernel (fst example_run, snd example_run)" using example_run_reach by simp
  from server_invariant [OF this] show ?thesis by (simp add: example_run_def split: prod.split)
qed

text \<open>
  A window manager can make the server overflow. When it moves a surface so far to the right that
  the right edge leaves \<open>int32_t\<close>, the bounds check of \<open>lgp_handle_wm_set_position\<close> computes that edge
  as a signed sum before it compares, which has no defined result. Coordinates the check should
  refuse are read straight from the message.
\<close>

theorem set_position_overflows:
  assumes "server_ok st" "caps_granted client AND LGP_CAP_WINDOW_MANAGER \<noteq> 0"
    "lgp_wm_decode_set_position msg = Some (Inr p)"
    "first_index (\<lambda>s. in_use s \<and> surf_id s = sp_surface_id p) (surfaces (surface_manager st)) = Some i"
    "2 ^ 31 - int (unat (surf_width (surfaces (surface_manager st) ! i))) \<le> sp_x p"
  shows "lgp_handle_wm_set_position k client msg st = None"
proof -
  let ?s = "surfaces (surface_manager st) ! i"
  have s: "unat (surf_width ?s) \<le> 16384" using find_slot [OF assms(4,1)] by (simp add: surface_ok_def)
  then have "sint (surf_width ?s) = int (unat (surf_width ?s))" using sint_small [of "surf_width ?s"] by simp
  then have "position_refused ?s (sp_x p) (sp_y p) mw mh = None" for mw mh
    using assms(5) s by (simp add: position_refused_def in_int32_def del: of_nat_unat)
  with assms(2-4) show ?thesis by (simp add: lgp_handle_wm_set_position_def Let_def)
qed

theorem set_position_overflows_witness:
  "server_ok example_state \<and>
   lgp_handle_wm_set_position example_kernel (example_client1\<lparr>cl_uid := 0, caps_granted := LGP_CAP_WINDOW_MANAGER\<rparr>)
     \<lparr>m_type = 0x0202, m_length = 18, m_payload = [1, 0, 0, 0, 0xFF, 0xFF, 0xFF, 0x7F, 0, 0, 0, 0]\<rparr> example_state = None"
proof -
  let ?msg = "\<lparr>m_type = 0x0202, m_length = 18, m_payload = [1, 0, 0, 0, 0xFF, 0xFF, 0xFF, 0x7F, 0, 0, 0, 0]\<rparr>"
  let ?p = "\<lparr>sp_surface_id = 1, sp_x = 2 ^ 31 - 1, sp_y = 0\<rparr>"
  have "enc_set_position ?p = m_payload ?msg"
    by (simp add: enc_set_position_def lgp_write_i32_le_def lgp_write_u32_le_def)
  then have d: "lgp_wm_decode_set_position ?msg = Some (Inr ?p)"
    by (intro set_position_codec.accepts) (simp_all add: in_int32_def)
  have i: "first_index (\<lambda>s. in_use s \<and> surf_id s = sp_surface_id ?p) (surfaces (surface_manager example_state)) = Some 0"
    by (simp add: example_state_def example_window_def)
  show ?thesis
    using set_position_overflows [OF example_state_ok _ d i,
        of "example_client1\<lparr>cl_uid := 0, caps_granted := LGP_CAP_WINDOW_MANAGER\<rparr>" example_kernel] example_state_ok
    by (simp add: example_client1_def example_state_def example_window_def)
qed

section \<open>Shutdown\<close>

lemma close_all_step:
  "clients st = c # cs \<Longrightarrow> lgp_state_close_all_clients st = lgp_state_close_all_clients (lgp_state_close_client st c)"
  by (simp add: lgp_state_close_all_clients.simps [of st])

lemma close_first:
  assumes "clients st = c # cs"
  shows "clients (lgp_state_close_client st c) = cs"
    and "closed (lgp_state_close_client st c) = closed st @ lgp_client_destroy c"
  using assms by (simp_all add: lgp_state_close_client_def lgp_state_remove_client_def Let_def)

lemma close_all:
  assumes "server_ok st"
  shows "server_ok (lgp_state_close_all_clients st) \<and> clients (lgp_state_close_all_clients st) = [] \<and>
    closed (lgp_state_close_all_clients st) = closed st @ concat (map lgp_client_destroy (clients st))"
  using assms
proof (induction "clients st" arbitrary: st)
  case Nil
  then show ?case by (simp add: lgp_state_close_all_clients.simps [of st])
next
  case (Cons c cs)
  note e = Cons.hyps(2) [symmetric]
  have ok: "server_ok (lgp_state_close_client st c)" by (rule close_client_ok [OF Cons.prems]) (simp add: e)
  from Cons.hyps(1) [OF close_first(1) [OF e, symmetric] ok] show ?case
    by (simp add: close_all_step [OF e] close_first [OF e] e)
qed

text \<open>
  C23: when the loop has ended, closing the clients ends too and leaves nothing behind: no client, no
  window manager, every slot of the surface table released, and the descriptors of all clients closed,
  the pending ones included, one client after the other.
\<close>

theorem shutdown_releases_everything:
  assumes "server_reach k (inp, st)"
  shows "clients (lgp_state_close_all_clients st) = [] \<and> wm_client (lgp_state_close_all_clients st) = None \<and>
    surfaces (surface_manager (lgp_state_close_all_clients st)) = replicate LGP_SURFACE_MAX zero_surface \<and>
    closed (lgp_state_close_all_clients st) = closed st @ concat (map lgp_client_destroy (clients st))"
proof -
  let ?st = "lgp_state_close_all_clients st"
  have "server_ok st" using reach_ok [OF assms] by simp
  then have s: "server_ok ?st" "clients ?st = []"
    "closed ?st = closed st @ concat (map lgp_client_destroy (clients st))" using close_all by blast+
  have w: "wm_client ?st = None" using server_okD(6) [OF s(1)] s(2) by (auto simp: wm_ok_def)
  have "x = zero_surface" if "x \<in> set (surfaces (surface_manager ?st))" for x
    using server_okD(1,3) [OF s(1)] that s(2)
    by (auto simp: surface_owned_def manager_ok_def list_all_iff surface_ok_def)
  moreover have "length (surfaces (surface_manager ?st)) = LGP_SURFACE_MAX"
    using server_okD(1) [OF s(1)] by (simp add: manager_ok_def)
  ultimately show ?thesis using s w by (metis replicate_length_same)
qed

theorem shutdown_releases_everything_witness:
  "closed (lgp_state_close_all_clients (snd example_run)) = [7] \<and>
   clients (lgp_state_close_all_clients (snd example_run)) = []"
proof -
  have "server_reach example_kernel (fst example_run, snd example_run)" using example_run_reach by simp
  from shutdown_releases_everything [OF this] show ?thesis
    by (simp add: example_run_def example_client1_def lgp_client_destroy_def lgp_main_start_def
        lgp_input_set_screen_def Let_def lgp_initial_state_def)
qed

end
