(* ===== verification/Lgp_Test_Client.thy ===== *)
theory Lgp_Test_Client
  imports Lgp_Main
begin

text \<open>
  The compositor's test client, \<open>src/lgp-compositor/test_client.c\<close>, and its session with the server of
  \<open>Lgp_Main\<close>: the client greets, asks for a surface and commits a shared-memory picture to it. The client is
  a program of its own with its own copies of the codec; what it reads is the server's byte stream in any
  pieces. The session is composed from the two models through the events of the server.
\<close>

section \<open>Reading and writing\<close>

text \<open>
  What arrives on the socket, in pieces, and failures in between; a read takes at most what it asks for and
  leaves the rest of a piece. \<open>write_all\<close> is the same loop as in the server.
\<close>

datatype read_answer = ReadBytes "u8 list" | ReadInterrupted | ReadFailed

function read_exact :: "read_answer list \<Rightarrow> nat \<Rightarrow> (u8 list \<times> read_answer list) option" where
  "read_exact answers len =
     (if len = 0 then Some ([], answers)
      else
        (case answers of
           [] \<Rightarrow> None
         | ReadInterrupted # as \<Rightarrow> read_exact as len
         | ReadFailed # as \<Rightarrow> None
         | ReadBytes bs # as \<Rightarrow>
             if bs = [] then None
             else if length bs \<le> len
             then map_option (\<lambda>(got, rest). (bs @ got, rest)) (read_exact as (len - length bs))
             else Some (take len bs, ReadBytes (drop len bs) # as)))"
  by pat_completeness auto
termination by (relation "measure (\<lambda>(answers, len). length answers)") auto

declare read_exact.simps [simp del]

definition test_write_all :: "write_answer list \<Rightarrow> u8 list \<Rightarrow> bool \<times> u8 list" where
  "test_write_all answers buf = lgp_write_all answers buf"

section \<open>The messages\<close>

abbreviation (input) TEST_SURFACE_WIDTH :: u32 where "TEST_SURFACE_WIDTH \<equiv> 360"
abbreviation (input) TEST_SURFACE_HEIGHT :: u32 where "TEST_SURFACE_HEIGHT \<equiv> 220"
abbreviation (input) TEST_SURFACE_STRIDE :: u32 where "TEST_SURFACE_STRIDE \<equiv> 1440"
abbreviation (input) TEST_SURFACE_SIZE :: u32 where "TEST_SURFACE_SIZE \<equiv> 316800"

definition encode_header :: "u16 \<Rightarrow> u32 \<Rightarrow> u8 list" where
  "encode_header ty len = lgp_write_u16_le ty @ lgp_write_u32_le len"

definition test_hello :: "u8 list" where
  "test_hello = encode_header LGP_MSG_HELLO 14 @ lgp_write_u16_le 1 @ lgp_write_u16_le 0 @
     lgp_write_u32_le (LGP_CAP_CANVAS_SURFACE OR LGP_CAP_DIRECT_LGP)"

definition test_create :: "u8 list" where
  "test_create = encode_header LGP_MSG_CREATE_SURFACE 30 @ lgp_write_u32_le LGP_SURFACE_CANVAS_SURFACE @
     lgp_write_u32_le (word_of_int 96) @ lgp_write_u32_le (word_of_int 84) @
     lgp_write_u32_le TEST_SURFACE_WIDTH @ lgp_write_u32_le TEST_SURFACE_HEIGHT @ lgp_write_u32_le LGP_LAYER_APPLICATION"

definition test_commit :: "u32 \<Rightarrow> u8 list" where
  "test_commit surface_id = encode_header LGP_MSG_COMMIT_BUFFER 30 @ lgp_write_u32_le surface_id @
     lgp_write_u32_le TEST_SURFACE_WIDTH @ lgp_write_u32_le TEST_SURFACE_HEIGHT @ lgp_write_u32_le TEST_SURFACE_STRIDE @
     lgp_write_u32_le LGP_PIXEL_FORMAT_XRGB8888 @ lgp_write_u32_le TEST_SURFACE_SIZE"

definition test_destroy :: "u32 \<Rightarrow> u8 list" where
  "test_destroy surface_id = encode_header LGP_MSG_DESTROY_SURFACE 10 @ lgp_write_u32_le surface_id"

section \<open>The picture\<close>

definition pattern_pixel :: "u32 \<Rightarrow> u32 \<Rightarrow> u32" where
  "pattern_pixel x y =
     (let r = (x * 255) div TEST_SURFACE_WIDTH; g = (y * 255) div TEST_SURFACE_HEIGHT; b = 0x80;
          (r, g, b) = (if x < 8 \<or> y < 8 \<or> x \<ge> TEST_SURFACE_WIDTH - 8 \<or> y \<ge> TEST_SURFACE_HEIGHT - 8
                       then (0x48, 0xD1, 0xCC) else (r AND 0xFF, g AND 0xFF, b))
      in push_bit 16 r OR push_bit 8 g OR b)"

text \<open>The pixels in the order of their addresses.\<close>

definition render_pattern :: "u32 list" where
  "render_pattern = concat (map (\<lambda>y. map (\<lambda>x. pattern_pixel (of_nat x) (of_nat y)) [0..<360]) [0..<220])"

text \<open>
  The answers to \<open>shm_open\<close>, \<open>ftruncate\<close> and \<open>mmap\<close>: the descriptor of the buffer, if all succeed, and the
  descriptors closed on the way.
\<close>

definition create_shm_buffer :: "int \<Rightarrow> bool \<Rightarrow> bool \<Rightarrow> int \<times> int list" where
  "create_shm_buffer fd truncated mapped =
     (if fd < 0 then (- 1, []) else if \<not> truncated \<or> \<not> mapped then (- 1, [fd]) else (fd, []))"

text \<open>The result of sending \<open>len\<close> bytes with a descriptor, from what \<open>sendmsg\<close> returns.\<close>

definition send_with_fd :: "int \<Rightarrow> nat \<Rightarrow> int" where
  "send_with_fd n len = (if n < 0 \<or> nat n \<noteq> len then - 1 else 0)"

section \<open>The program\<close>

record test_io =
  ti_socket :: bool
  ti_connect :: bool
  ti_hello_write :: "write_answer list"
  ti_create_write :: "write_answer list"
  ti_reads :: "read_answer list"
  ti_shm :: int
  ti_truncated :: bool
  ti_mapped :: bool
  ti_sendmsg :: int
  ti_destroy_write :: "write_answer list"

datatype test_send = TsBytes "u8 list" | TsWithFd "u8 list" int "u32 list"

text \<open>
  Exit code and what was sent; a descriptor is sent with what its memory holds. The reply to a surface request
  is taken apart without a look at its header.
\<close>

definition test_surface :: "test_io \<Rightarrow> u32 \<Rightarrow> int \<times> test_send list" where
  "test_surface io surface_id =
     (case create_shm_buffer (ti_shm io) (ti_truncated io) (ti_mapped io) of
        (shm_fd, _) \<Rightarrow>
          if shm_fd < 0 then (1, [])
          else if send_with_fd (ti_sendmsg io) (length (test_commit surface_id)) \<noteq> 0
          then (1, if ti_sendmsg io \<le> 0 then []
                   else [TsWithFd (take (nat (ti_sendmsg io)) (test_commit surface_id)) shm_fd render_pattern])
          else (0, [TsWithFd (test_commit surface_id) shm_fd render_pattern,
                    TsBytes (snd (test_write_all (ti_destroy_write io) (test_destroy surface_id)))]))"

definition test_created :: "test_io \<Rightarrow> u8 list \<Rightarrow> int \<times> test_send list" where
  "test_created io create_reply =
     (case (lgp_read_u32_le create_reply 6, lgp_read_u32_le create_reply 10) of
        (Some status, Some surface_id) \<Rightarrow>
          if status \<noteq> status_code STATUS_OK \<or> surface_id = 0 then (1, []) else test_surface io surface_id
      | _ \<Rightarrow> (1, []))"

definition test_client_main :: "test_io \<Rightarrow> int \<times> test_send list" where
  "test_client_main io =
     (if \<not> ti_socket io \<or> \<not> ti_connect io then (1, [])
      else
        (case test_write_all (ti_hello_write io) test_hello of
           (hello_ok, hello_out) \<Rightarrow>
             if \<not> hello_ok then (1, [TsBytes hello_out])
             else
               (case read_exact (ti_reads io) 14 of
                  None \<Rightarrow> (1, [TsBytes hello_out])
                | Some (hello_reply, reads) \<Rightarrow>
                    (case test_write_all (ti_create_write io) test_create of
                       (create_ok, create_out) \<Rightarrow>
                         if \<not> create_ok then (1, [TsBytes hello_out, TsBytes create_out])
                         else
                           (case read_exact reads 14 of
                              None \<Rightarrow> (1, [TsBytes hello_out, TsBytes create_out])
                            | Some (create_reply, _) \<Rightarrow>
                                (case test_created io create_reply of
                                   (code, out) \<Rightarrow> (code, [TsBytes hello_out, TsBytes create_out] @ out)))))))"

section \<open>Reading a stream in pieces\<close>

fun piece :: "read_answer \<Rightarrow> u8 list option" where
  "piece (ReadBytes bs) = (if bs = [] then None else Some bs)"
| "piece ReadInterrupted = Some []"
| "piece ReadFailed = None"

text \<open>The pieces make up a stream: no failure, and no end of file.\<close>

definition stream_of :: "read_answer list \<Rightarrow> u8 list \<Rightarrow> bool" where
  "stream_of answers bytes \<longleftrightarrow> (\<forall>a \<in> set answers. piece a \<noteq> None) \<and> concat (map (the \<circ> piece) answers) = bytes"

lemma stream_of_Cons:
  "stream_of (a # as) bytes \<longleftrightarrow> (\<exists>bs rest. piece a = Some bs \<and> bytes = bs @ rest \<and> stream_of as rest)"
  by (auto simp: stream_of_def)

lemma read_exact_stream:
  "stream_of answers bytes \<Longrightarrow> len \<le> length bytes \<Longrightarrow>
   \<exists>rest. read_exact answers len = Some (take len bytes, rest) \<and> stream_of rest (drop len bytes)"
proof (induction answers len arbitrary: bytes rule: read_exact.induct)
  case (1 answers len)
  show ?case
  proof (cases "len = 0")
    case True
    with "1.prems" show ?thesis by (simp add: read_exact.simps)
  next
    case len: False
    with "1.prems" obtain a as where as: "answers = a # as" by (cases answers) (auto simp: stream_of_def)
    then obtain bs rest where s: "piece a = Some bs" "bytes = bs @ rest" "stream_of as rest"
      using "1.prems"(1) by (auto simp: stream_of_Cons)
    show ?thesis
    proof (cases a)
      case ReadInterrupted
      with s have "stream_of as bytes" by simp
      with "1.IH"(2) [OF len as ReadInterrupted] "1.prems"(2) show ?thesis
        by (simp add: as ReadInterrupted len read_exact.simps [of "ReadInterrupted # as" len])
    next
      case (ReadBytes bs')
      with s(1) have b: "bs' = bs" "bs \<noteq> []" by (auto split: if_splits)
      show ?thesis
      proof (cases "length bs \<le> len")
        case True
        have "\<exists>r. read_exact as (len - length bs) = Some (take (len - length bs) rest, r) \<and>
            stream_of r (drop (len - length bs) rest)"
          using "1.IH"(1) [OF len as ReadBytes] b True s "1.prems"(2) by auto
        with True b show ?thesis
          by (auto simp: as ReadBytes len read_exact.simps [of "ReadBytes bs # as" len] s(2))
      next
        case False
        with b s(3) show ?thesis
          by (auto simp: as ReadBytes len read_exact.simps [of "ReadBytes bs # as" len] s(2) stream_of_Cons)
      qed
    next
      case ReadFailed
      with s(1) show ?thesis by simp
    qed
  qed
qed

section \<open>One frame at the server\<close>

lemma frame_bytes:
  assumes "length payload < 4000"
  shows "lgp_frame ty payload = encode_header ty (of_nat (6 + length payload)) @ payload"
proof -
  have "unat (of_nat (6 + length payload) :: u32) = 6 + length payload"
    by (rule unat_of_nat_u32) (use assms in simp)
  then have "\<not> (of_nat (6 + length payload) :: u32) < 6" unfolding word_less_nat_alt by simp
  then show ?thesis by (simp add: lgp_frame_def lgp_tlv_encode_header_def encode_header_def Let_def)
qed

definition test_create_payload :: lgp_surface_create_payload where
  "test_create_payload = \<lparr>sc_type = LGP_SURFACE_CANVAS_SURFACE, sc_x = 96, sc_y = 84, sc_width = TEST_SURFACE_WIDTH,
     sc_height = TEST_SURFACE_HEIGHT, sc_layer = LGP_LAYER_APPLICATION\<rparr>"

lemma test_frames:
  "test_hello = lgp_frame LGP_MSG_HELLO (lgp_write_u16_le 1 @ lgp_write_u16_le 0 @ lgp_write_u32_le 6)"
  "test_create = lgp_frame LGP_MSG_CREATE_SURFACE (enc_create test_create_payload)"
  by (simp_all add: test_hello_def test_create_def frame_bytes enc_create_def test_create_payload_def lgp_write_i32_le_def)

text \<open>A client found by its descriptor, when no other has its address.\<close>

lemma found_client:
  assumes "lgp_state_find_client st fd = Some c" "distinct (map cl_addr (clients st))"
  shows "c \<in> set (clients st)" "cl_fd c = fd" "client_at (cl_addr c) st = Some c"
proof -
  show c: "c \<in> set (clients st)" "cl_fd c = fd"
    using assms(1) by (auto simp: lgp_state_find_client_def List.find_Some_iff)
  show "client_at (cl_addr c) st = Some c" by (rule client_at_unique [OF assms(2) c(1)])
qed

lemma find_put:
  "find P xs = Some c \<Longrightarrow> distinct (map f xs) \<Longrightarrow> f d = f c \<Longrightarrow> P d \<Longrightarrow>
   find P (map (\<lambda>x. if f x = f d then d else x) xs) = Some d"
  by (induction xs) (auto split: if_splits simp: List.find_Some_iff image_iff)

lemma put_found:
  assumes "lgp_state_find_client st fd = Some c" "distinct (map cl_addr (clients st))" "cl_addr d = cl_addr c" "cl_fd d = fd"
  shows "lgp_state_find_client (put_client d st) fd = Some d" "client_at (cl_addr c) (put_client d st) = Some d"
proof -
  show "lgp_state_find_client (put_client d st) fd = Some d"
    using find_put [of "\<lambda>c. cl_fd c = fd" "clients st" c cl_addr d] assms
    by (simp add: lgp_state_find_client_def put_client_def)
  show "client_at (cl_addr c) (put_client d st) = Some d"
    using find_put [of "\<lambda>x. cl_addr x = cl_addr c" "clients st" c cl_addr d] assms found_client(3) [OF assms(1,2)]
    by (simp add: client_at_def put_client_def)
qed

lemma put_put: "cl_addr d = cl_addr c \<Longrightarrow> put_client d (put_client c st) = put_client d st"
  by (simp add: put_client_def)

text \<open>One whole frame arrives at a client with an empty buffer, and its handler accepts it.\<close>

lemma client_event_frame:
  assumes "lgp_state_find_client st fd = Some c" "distinct (map cl_addr (clients st))" "rx_buf c = []" "length payload < 4000"
    and h: "lgp_handle_client_message k fm (c\<lparr>rx_buf := lgp_frame ty payload\<rparr>)
        \<lparr>m_type = ty, m_length = of_nat (6 + length payload), m_payload = payload\<rparr>
        (put_client (c\<lparr>rx_buf := lgp_frame ty payload\<rparr>) st) = Some (st2, True)"
    and "client_at (cl_addr c) st2 = Some c2"
  shows "lgp_client_event k fd (Received (lgp_frame ty payload) False []) fm st =
     Some (put_client (c2\<lparr>rx_buf := []\<rparr>) st2)"
proof -
  let ?f = "lgp_frame ty payload" and ?c = "c\<lparr>rx_buf := lgp_frame ty payload\<rparr>"
  have u: "unat (of_nat (6 + length payload) :: u32) = 6 + length payload"
    by (rule unat_of_nat_u32) (use assms(4) in simp)
  have ne: "?f \<noteq> []" using length_lgp_frame [of ty payload] by fastforce
  have r: "lgp_client_read_available (Received ?f False []) c = (?c, 1, [])"
    using assms(3,4) ne by (simp add: lgp_client_read_available_def Let_def)
  have at: "client_at (cl_addr c) (put_client ?c st) = Some ?c"
    using put_found(2) [OF assms(1,2), of ?c] found_client [OF assms(1,2)] by simp
  have p: "lgp_tlv_peek_header ?f = Some (ty, of_nat (6 + length payload))"
    "lgp_tlv_decode ?f = Some \<lparr>m_type = ty, m_length = of_nat (6 + length payload), m_payload = payload\<rparr>"
    using peek_frame [of payload ty "[]"] decode_frame [of payload ty "[]"] assms(4) by simp_all
  have "lgp_client_process_messages k fm (cl_addr c) ?f (put_client ?c st) = Some (put_client (c2\<lparr>rx_buf := []\<rparr>) st2, True)"
    using assms(4,6) h at by (simp add: lgp_client_process_messages.simps p u del: of_nat_add)
  with r assms(1) show ?thesis by (simp add: lgp_client_event_def Let_def put_client_def)
qed

section \<open>The session\<close>

text \<open>A kernel that takes every small reply whole.\<close>

definition writes_complete :: "lgp_kernel \<Rightarrow> bool" where
  "writes_complete k \<longleftrightarrow> (\<forall>n buf. length buf \<le> 64 \<longrightarrow> lgp_write_all (k_write k n) buf = (True, buf))"

lemma writes_completeD: "writes_complete k \<Longrightarrow> length buf \<le> 64 \<Longrightarrow> lgp_write_all (k_write k n) buf = (True, buf)"
  by (simp add: writes_complete_def)

definition hello_reply_frame :: "u8 list" where
  "hello_reply_frame = lgp_frame LGP_MSG_HELLO_REPLY (lgp_write_u16_le 1 @ lgp_write_u16_le 0 @ lgp_write_u32_le 6)"

definition geometry_frame :: "u16 \<Rightarrow> u16 \<Rightarrow> u8 list" where
  "geometry_frame w h = lgp_frame LGP_MSG_OUTPUT_GEOMETRY (lgp_write_u32_le (ucast w) @ lgp_write_u32_le (ucast h))"

definition create_reply_frame :: "surface_status \<Rightarrow> u32 \<Rightarrow> u8 list" where
  "create_reply_frame status surface_id = lgp_frame LGP_MSG_CREATE_SURFACE_REPLY
     (lgp_write_u32_le (status_code status) @ lgp_write_u32_le surface_id)"

lemma reply_frame: "lgp_surface_encode_create_reply 14 (status_code s) i = Some (create_reply_frame s i)"
  by (simp add: lgp_surface_encode_create_reply_def create_reply_frame_def lgp_frame_def
      lgp_tlv_encode_header_def Let_def)

lemma reply_frame_length: "length hello_reply_frame = 14" "length (geometry_frame w h) = 14" "length (create_reply_frame s i) = 14"
  by (simp_all add: hello_reply_frame_def geometry_frame_def create_reply_frame_def)

lemma granted6: "(6 :: u32) AND caps_allowed uid = 6" by (simp add: caps_allowed_def)

lemma hello_event:
  assumes f: "lgp_state_find_client st fd = Some c" "distinct (map cl_addr (clients st))"
    and c: "rx_buf c = []" "\<not> hello_done c" and w: "writes_complete k"
  shows "lgp_client_event k fd (Received test_hello False []) fm st =
     Some ((put_client (c\<lparr>caps_granted := 6, hello_done := True\<rparr>) st)
       \<lparr>kcalls := kcalls st + 2,
        sent := sent st @ [(fd, hello_reply_frame), (fd, geometry_frame (hdisplay st) (vdisplay st))]\<rparr>)"
proof -
  let ?p = "lgp_write_u16_le 1 @ lgp_write_u16_le 0 @ lgp_write_u32_le 6"
  let ?c = "c\<lparr>rx_buf := lgp_frame LGP_MSG_HELLO ?p\<rparr>"
  let ?d = "?c\<lparr>caps_granted := 6, hello_done := True\<rparr>"
  let ?st = "(put_client ?d st)\<lparr>kcalls := kcalls st + 2,
        sent := sent st @ [(fd, hello_reply_frame), (fd, geometry_frame (hdisplay st) (vdisplay st))]\<rparr>"
  note fc = found_client [OF f]
  have ww: "lgp_write_all (k_write k n) hello_reply_frame = (True, hello_reply_frame)"
    "lgp_write_all (k_write k n) (geometry_frame x y) = (True, geometry_frame x y)" for n x y
    using w by (simp_all add: writes_completeD reply_frame_length)
  have "lgp_hello_handle answers ?c \<lparr>m_type = LGP_MSG_HELLO, m_length = of_nat (6 + length ?p), m_payload = ?p\<rparr> =
      (let w = lgp_write_all answers hello_reply_frame in
       Some (?c\<lparr>caps_granted := 6, hello_done := fst w\<rparr>, fst w, snd w))" for answers
    using hello_handle_frame [of _ "[]" 1 0 6 answers ?c] c(2)
    by (simp add: hello_reply_frame_def granted6)
  then have h: "lgp_handle_client_message k fm ?c \<lparr>m_type = LGP_MSG_HELLO, m_length = of_nat (6 + length ?p), m_payload = ?p\<rparr>
      (put_client ?c st) = Some (?st, True)"
    using c(2) fc(2)
    by (simp add: lgp_handle_client_message_def handle_hello_def ww Let_def put_put lgp_send_def
        flip: geometry_frame_def) (simp add: put_client_def)
  have "client_at (cl_addr c) ?st = Some ?d"
    using put_found(2) [OF f, of ?d] fc(2) by (simp add: client_at_def)
  from client_event_frame [OF f c(1) _ h this] c(1) show ?thesis
    by (simp add: test_frames put_client_def)
qed

definition to_client :: "int \<Rightarrow> lgp_state \<Rightarrow> u8 list" where
  "to_client fd st = concat (map snd (filter (\<lambda>(f, _). f = fd) (sent st)))"

lemma create_rx_buf: "lgp_surface_manager_create m (c\<lparr>rx_buf := b\<rparr>) p w h = lgp_surface_manager_create m c p w h"
proof -
  have "lgp_surface_validate_request (c\<lparr>rx_buf := b\<rparr>) p w h = lgp_surface_validate_request c p w h"
    by (simp add: lgp_surface_validate_request_def lgp_surface_client_has_cap_def)
  then show ?thesis by (simp add: lgp_surface_manager_create_def Let_def split: option.split)
qed

text \<open>A notification changes nothing but what other clients are sent.\<close>

lemma notify_other:
  assumes "wm_ok st" "c \<in> set (clients st)" "distinct (map cl_fd (clients st))"
  shows "\<exists>n xs. notify_wm k c frame st = Some (st\<lparr>kcalls := n, sent := sent st @ xs\<rparr>) \<and>
     filter (\<lambda>(f, _). f = cl_fd c) xs = []"
proof -
  obtain t where t: "wm_target st = Some t" using wm_target_defined [OF assms(1)] by blast
  show ?thesis
  proof (cases "\<exists>d f. t = Some d \<and> cl_addr d \<noteq> cl_addr c \<and> frame = Some f")
    case False
    with t have "notify_wm k c frame st = Some (st\<lparr>kcalls := kcalls st, sent := sent st @ []\<rparr>)"
      by (auto simp: notify_wm_def split: option.split)
    then show ?thesis by (intro exI [of _ "kcalls st"] exI [of _ "[]"]) simp
  next
    case True
    then obtain d f where d: "t = Some d" "cl_addr d \<noteq> cl_addr c" "frame = Some f" by blast
    with t have "d \<in> set (clients st)"
      by (auto simp: wm_target_def split: option.splits dest!: client_at_SomeD)
    with assms(2,3) d(2) have "cl_fd d \<noteq> cl_fd c" by (auto simp: distinct_map inj_on_def)
    with t d show ?thesis
      by (intro exI [of _ "kcalls st + 1"] exI [of _ "[(cl_fd d, snd (lgp_write_all (k_write k (kcalls st)) f))]"])
         (simp add: notify_wm_def lgp_send_def split: prod.split)
  qed
qed

lemma create_surface_cases:
  assumes "lgp_surface_decode_create msg = Some (Inr p)" "sc_layer p = LGP_LAYER_APPLICATION"
    "lgp_surface_manager_create (surface_manager st) c p (ucast (hdisplay st)) (ucast (vdisplay st)) = (m, status, i)"
    "lgp_send_create_surface_reply k c status i (st\<lparr>surface_manager := m\<rparr>) = (st1, True)"
    "notify_wm k c (lgp_wm_encode_surface_created 64 i (sc_type p) (sc_width p) (sc_height p))
       (st1\<lparr>keyboard_focus_session_id := session_id c, keyboard_focus_surface_id := i\<rparr>) = Some st3"
  shows "lgp_handle_create_surface k c msg st = Some (if status = STATUS_OK then st3 else st1, True)"
  using assms by (simp add: lgp_handle_create_surface_def)

text \<open>Storing a client back keeps what the others see of it.\<close>

lemma put_same_peers:
  assumes "distinct (map cl_addr (clients st))" "c \<in> set (clients st)" "ident d = ident c"
  shows "map cl_fd (clients (put_client d st)) = map cl_fd (clients st)" and "wm_ok (put_client d st) = wm_ok st"
proof -
  note ids = put_client_ident [OF assms]
  have "map cl_fd cs = map (\<lambda>(a, f, u, s). f) (map ident cs)" for cs by (simp add: ident_def)
  then show "map cl_fd (clients (put_client d st)) = map cl_fd (clients st)" using ids by metis
  show "wm_ok (put_client d st) = wm_ok st" using wm_ok_cong [OF ids] by simp
qed

lemma create_event:
  assumes f: "lgp_state_find_client st fd = Some c" "distinct (map cl_addr (clients st))"
    and c: "rx_buf c = []" "hello_done c" and w: "writes_complete k"
    and wm: "wm_ok st" "distinct (map cl_fd (clients st))"
    and m: "lgp_surface_manager_create (surface_manager st) c test_create_payload (ucast (hdisplay st)) (ucast (vdisplay st)) =
      (m, status, i)"
  shows "\<exists>st'. lgp_client_event k fd (Received test_create False []) fm st = Some st' \<and> surface_manager st' = m \<and>
     next_session_id st' = next_session_id st \<and> to_client fd st' = to_client fd st @ create_reply_frame status i"
proof -
  let ?p = "enc_create test_create_payload"
  let ?msg = "\<lparr>m_type = LGP_MSG_CREATE_SURFACE, m_length = of_nat (6 + length ?p), m_payload = ?p\<rparr>"
  let ?c = "c\<lparr>rx_buf := lgp_frame LGP_MSG_CREATE_SURFACE ?p\<rparr>"
  let ?st = "(put_client ?c st)\<lparr>surface_manager := m, kcalls := kcalls st + 1, sent := sent st @ [(fd, create_reply_frame status i)]\<rparr>"
  let ?st2 = "?st\<lparr>keyboard_focus_session_id := session_id c, keyboard_focus_surface_id := i\<rparr>"
  note fc = found_client [OF f]
  have len: "length ?p = 24" by (simp add: enc_create_def)
  have dec: "lgp_surface_decode_create ?msg = Some (Inr test_create_payload)"
    by (rule create_codec.accepts) (simp_all add: test_create_payload_def in_int32_def)
  have cr: "lgp_send_create_surface_reply k ?c status i ((put_client ?c st)\<lparr>surface_manager := m\<rparr>) = (?st, True)"
    using w fc(2)
    by (simp add: lgp_send_create_surface_reply_def reply_frame lgp_send_def writes_completeD reply_frame_length put_client_def)
  have same: "ident ?c = ident c" by (simp add: ident_def)
  have wm2: "wm_ok ?st2" using put_same_peers(2) [OF f(2) fc(1) same] wm(1) by (simp add: wm_ok_def)
  have fds: "distinct (map cl_fd (clients ?st2))" using put_same_peers(1) [OF f(2) fc(1) same] wm(2) by simp
  have at: "client_at (cl_addr c) (put_client ?c st) = Some ?c" using put_found(2) [OF f, of ?c] fc(2) by simp
  then have mem: "?c \<in> set (clients ?st2)" using client_at_SomeD [of "cl_addr c" "put_client ?c st"] by simp
  have cfd: "cl_fd ?c = fd" using fc(2) by simp
  obtain n xs where n: "notify_wm k ?c (lgp_wm_encode_surface_created 64 i (sc_type test_create_payload)
        (sc_width test_create_payload) (sc_height test_create_payload)) ?st2 = Some (?st2\<lparr>kcalls := n, sent := sent ?st2 @ xs\<rparr>)"
      "filter (\<lambda>(f, _). f = fd) xs = []"
    using notify_other [OF wm2 mem fds] unfolding cfd by blast
  let ?st3 = "if status = STATUS_OK then ?st2\<lparr>kcalls := n, sent := sent ?st2 @ xs\<rparr> else ?st"
  have m': "lgp_surface_manager_create (surface_manager (put_client ?c st)) ?c test_create_payload
      (ucast (hdisplay (put_client ?c st))) (ucast (vdisplay (put_client ?c st))) = (m, status, i)"
    using m unfolding create_rx_buf by (simp add: put_client_def)
  have "sc_layer test_create_payload = LGP_LAYER_APPLICATION" by (simp add: test_create_payload_def)
  moreover have "session_id ?c = session_id c" by simp
  ultimately have "lgp_handle_create_surface k ?c ?msg (put_client ?c st) = Some (?st3, True)"
    using create_surface_cases [OF dec _ m' cr, of "?st2\<lparr>kcalls := n, sent := sent ?st2 @ xs\<rparr>"] n(1) by presburger
  then have h: "lgp_handle_client_message k fm ?c ?msg (put_client ?c st) = Some (?st3, True)"
    using c(2) by (simp add: lgp_handle_client_message_def)
  have "client_at (cl_addr c) ?st3 = Some ?c" using at by (simp add: client_at_def)
  from client_event_frame [OF f c(1) _ h this] len
  have e: "lgp_client_event k fd (Received test_create False []) fm st = Some (put_client (?c\<lparr>rx_buf := []\<rparr>) ?st3)"
    by (simp add: test_frames)
  have "to_client fd (put_client (?c\<lparr>rx_buf := []\<rparr>) ?st3) = to_client fd st @ create_reply_frame status i"
    using n(2) by (simp add: to_client_def put_client_def)
  moreover have "surface_manager (put_client (?c\<lparr>rx_buf := []\<rparr>) ?st3) = m" by simp
  moreover have "next_session_id (put_client (?c\<lparr>rx_buf := []\<rparr>) ?st3) = next_session_id st"
    by (simp add: put_client_def)
  ultimately show ?thesis using e by blast
qed

text \<open>
  What the client reads of the stream: it expects two replies of 14 bytes, and the second is the frame with
  the size of the screen.
\<close>

lemma client_reads_geometry:
  assumes "stream_of (ti_reads io) (hello_reply_frame @ geometry_frame w h @ rest)" "w \<noteq> 0"
  shows "fst (test_client_main io) = 1 \<and> set (snd (test_client_main io)) \<subseteq> range TsBytes"
proof -
  obtain r where r: "read_exact (ti_reads io) 14 = Some (hello_reply_frame, r)" "stream_of r (geometry_frame w h @ rest)"
    using read_exact_stream [OF assms(1), of 14] by (auto simp: reply_frame_length)
  obtain r' where r': "read_exact r 14 = Some (geometry_frame w h, r')"
    using read_exact_stream [OF r(2), of 14] by (auto simp: reply_frame_length)
  have "geometry_frame w h = encode_header LGP_MSG_OUTPUT_GEOMETRY 14 @ lgp_write_u32_le (ucast w) @ lgp_write_u32_le (ucast h)"
    by (simp add: geometry_frame_def frame_bytes)
  then have g: "lgp_read_u32_le (geometry_frame w h) 6 = Some (ucast w)" "lgp_read_u32_le (geometry_frame w h) 10 = Some (ucast h)"
    by (simp_all add: encode_header_def read_write_u32 read_write_u32_0)
  note unat_u16 [of w]
  then have "(ucast w :: u32) \<noteq> 0" using assms(2) by (metis unat_eq_zero)
  with g have "test_created io (geometry_frame w h) = (1, [])"
    by (simp add: test_created_def)
  with r r' show ?thesis by (auto simp: test_client_main_def split: prod.split)
qed


text \<open>Had it read the reply, its buffer would have been accepted.\<close>

lemma test_commit_accepted:
  assumes "lgp_surface_manager_find_mut m i = Some j" "owner_session_id (surfaces m ! j) = session_id c"
    "surf_width (surfaces m ! j) = TEST_SURFACE_WIDTH" "surf_height (surfaces m ! j) = TEST_SURFACE_HEIGHT" "0 \<le> fd"
  shows "\<exists>p m' un. lgp_tlv_decode (test_commit i) \<bind> lgp_surface_decode_commit = Some (Inr p) \<and>
     lgp_surface_manager_commit m c p fd (Some addr) = (m', STATUS_OK, [fd], un)"
proof -
  let ?p = "\<lparr>sm_surface_id = i, sm_width = TEST_SURFACE_WIDTH, sm_height = TEST_SURFACE_HEIGHT, sm_stride = TEST_SURFACE_STRIDE,
     sm_pixel_format = LGP_PIXEL_FORMAT_XRGB8888, sm_byte_size = TEST_SURFACE_SIZE\<rparr>"
  have f: "test_commit i = lgp_frame LGP_MSG_COMMIT_BUFFER (enc_commit ?p)"
    by (simp add: test_commit_def frame_bytes enc_commit_def)
  have "lgp_tlv_decode (test_commit i) \<bind> lgp_surface_decode_commit = Some (Inr ?p)"
    using decode_frame [of "enc_commit ?p" LGP_MSG_COMMIT_BUFFER "[]"] unfolding f
    by (simp add: commit_codec.accepts enc_commit_def)
  moreover have "\<exists>m' un. lgp_surface_manager_commit m c ?p fd (Some addr) = (m', STATUS_OK, [fd], un)"
    using assms by (simp add: lgp_surface_manager_commit_def commit_buffer_bad_def Let_def)
  ultimately show ?thesis by blast
qed

text \<open>What the server does with the greeting and the request of the test client.\<close>

lemma test_session_served:
  assumes ok: "server_ok st" and fds: "distinct (map cl_fd (clients st))"
    and f: "lgp_state_find_client st fd = Some c" and c: "rx_buf c = []" "\<not> hello_done c" and w: "writes_complete k"
    and j: "first_index (\<lambda>s. \<not> in_use s) (surfaces (surface_manager st)) = Some j"
  shows "\<exists>st1 st2. lgp_client_event k fd (Received test_hello False []) fm st = Some st1 \<and>
     lgp_client_event k fd (Received test_create False []) fm st1 = Some st2 \<and>
     to_client fd st2 = to_client fd st @ hello_reply_frame @ geometry_frame (hdisplay st) (vdisplay st) @
       create_reply_frame STATUS_OK (next_surface_id (surface_manager st)) \<and>
     in_use (surfaces (surface_manager st2) ! j) \<and> owner_session_id (surfaces (surface_manager st2) ! j) = session_id c \<and>
     surf_id (surfaces (surface_manager st2) ! j) = next_surface_id (surface_manager st) \<and>
     next_session_id st2 = next_session_id st"
proof -
  note d = server_okD(5) [OF ok] and fc = found_client [OF f server_okD(5) [OF ok]]
  let ?c = "c\<lparr>caps_granted := 6, hello_done := True\<rparr>"
  define st1 where "st1 = (put_client ?c st)\<lparr>kcalls := kcalls st + 2,
        sent := sent st @ [(fd, hello_reply_frame), (fd, geometry_frame (hdisplay st) (vdisplay st))]\<rparr>"
  have e1: "lgp_client_event k fd (Received test_hello False []) fm st = Some st1"
    unfolding st1_def by (rule hello_event [OF f d c w])
  have same: "ident ?c = ident c" by (simp add: ident_def)
  have fds1: "distinct (map cl_fd (clients st1))" using put_same_peers(1) [OF d fc(1) same] fds by (simp add: st1_def)
  have st1: "surface_manager st1 = surface_manager st" "wm_client st1 = wm_client st" "distinct (map cl_addr (clients st1))"
    using d by (simp_all add: st1_def)
  have wm1: "wm_ok st1" using put_same_peers(2) [OF d fc(1) same] server_okD(6) [OF ok] by (simp add: st1_def wm_ok_def)
  have f1: "lgp_state_find_client st1 fd = Some ?c"
    using put_found(1) [OF f d, of ?c] fc(2) by (simp add: st1_def lgp_state_find_client_def)
  have "lgp_surface_validate_request ?c test_create_payload dw dh = STATUS_OK" for dw dh
    by (simp add: lgp_surface_validate_request_def test_create_payload_def lgp_surface_type_known_def
        lgp_surface_is_in_display_def lgp_surface_client_has_cap_def)
  then obtain m where m: "lgp_surface_manager_create (surface_manager st1) ?c test_create_payload
      (ucast (hdisplay st1)) (ucast (vdisplay st1)) = (m, STATUS_OK, next_surface_id (surface_manager st))"
    and mj: "surfaces m = (surfaces (surface_manager st))[j := surfaces m ! j]" "in_use (surfaces m ! j)"
      "owner_session_id (surfaces m ! j) = session_id c" "surf_id (surfaces m ! j) = next_surface_id (surface_manager st)"
    using j first_index_Some [OF j] by (auto simp: lgp_surface_manager_create_def Let_def st1(1))
  obtain st2 where st2: "lgp_client_event k fd (Received test_create False []) fm st1 = Some st2" "surface_manager st2 = m" "next_session_id st2 = next_session_id st"
    "to_client fd st2 = to_client fd st1 @ create_reply_frame STATUS_OK (next_surface_id (surface_manager st))"
    using create_event [OF f1 st1(3) _ _ w wm1 fds1 m] c(1) by (auto simp: st1_def put_client_def)
  have t: "to_client fd st2 = to_client fd st @ hello_reply_frame @ geometry_frame (hdisplay st) (vdisplay st) @
       create_reply_frame STATUS_OK (next_surface_id (surface_manager st))"
    unfolding st2(4) by (simp add: to_client_def st1_def)
  show ?thesis by (rule exI [of _ st1], rule exI [of _ st2]) (use e1 st2(1-3) t mj(2-4) in blast)
qed

text \<open>
  C26: the test client does not work against this server. When a fresh client sends its greeting and its
  request, the server answers both, with a free slot it creates the surface, and it sends the reply to the
  greeting, the size of the screen and the reply to the request, in this order. The client expects the two
  replies only. However the stream is cut into reads, it takes the screen size for the reply to its
  request, reads the width as an error status, exits with 1 and never sends a buffer.
\<close>

theorem test_client_session:
  assumes ok: "server_ok st" and fds: "distinct (map cl_fd (clients st))"
    and f: "lgp_state_find_client st fd = Some c" and c: "rx_buf c = []" "\<not> hello_done c" and w: "writes_complete k"
    and j: "first_index (\<lambda>s. \<not> in_use s) (surfaces (surface_manager st)) = Some j"
  shows "\<exists>st1 st2. lgp_client_event k fd (Received test_hello False []) fm st = Some st1 \<and>
     lgp_client_event k fd (Received test_create False []) fm st1 = Some st2 \<and>
     to_client fd st2 = to_client fd st @ hello_reply_frame @ geometry_frame (hdisplay st) (vdisplay st) @
       create_reply_frame STATUS_OK (next_surface_id (surface_manager st)) \<and>
     in_use (surfaces (surface_manager st2) ! j) \<and> owner_session_id (surfaces (surface_manager st2) ! j) = session_id c \<and>
     surf_id (surfaces (surface_manager st2) ! j) = next_surface_id (surface_manager st) \<and>
     (\<forall>io. hdisplay st \<noteq> 0 \<and> stream_of (ti_reads io) (drop (length (to_client fd st)) (to_client fd st2)) \<longrightarrow>
        fst (test_client_main io) = 1 \<and> set (snd (test_client_main io)) \<subseteq> range TsBytes)"
proof -
  from test_session_served [OF assms, of fm] obtain st1 st2 where s:
    "lgp_client_event k fd (Received test_hello False []) fm st = Some st1"
    "lgp_client_event k fd (Received test_create False []) fm st1 = Some st2"
    "to_client fd st2 = to_client fd st @ hello_reply_frame @ geometry_frame (hdisplay st) (vdisplay st) @
       create_reply_frame STATUS_OK (next_surface_id (surface_manager st))"
    "in_use (surfaces (surface_manager st2) ! j)" "owner_session_id (surfaces (surface_manager st2) ! j) = session_id c"
    "surf_id (surfaces (surface_manager st2) ! j) = next_surface_id (surface_manager st)" by blast
  have r: "fst (test_client_main io) = 1 \<and> set (snd (test_client_main io)) \<subseteq> range TsBytes"
    if "hdisplay st \<noteq> 0" "stream_of (ti_reads io) (drop (length (to_client fd st)) (to_client fd st2))" for io
    using client_reads_geometry [of io "hdisplay st" "vdisplay st"] that unfolding s(3) by simp
  show ?thesis by (rule exI [of _ st1], rule exI [of _ st2]) (use s r in blast)
qed

definition session_kernel :: lgp_kernel where
  "session_kernel = example_kernel\<lparr>k_write := \<lambda>_. [Wrote 4096]\<rparr>"

lemma session_kernel_writes: "writes_complete session_kernel"
  by (auto simp: writes_complete_def session_kernel_def)

definition session_io :: test_io where
  "session_io = \<lparr>ti_socket = True, ti_connect = True, ti_hello_write = [Wrote 14], ti_create_write = [Wrote 30],
     ti_reads = [ReadInterrupted, ReadBytes (hello_reply_frame @ geometry_frame 2 2 @ create_reply_frame STATUS_OK 1)],
     ti_shm = 5, ti_truncated = True, ti_mapped = True, ti_sendmsg = 30, ti_destroy_write = [Wrote 10]\<rparr>"

theorem test_client_session_witness:
  "fst (test_client_main session_io) = 1 \<and> set (snd (test_client_main session_io)) \<subseteq> range TsBytes"
proof -
  let ?st = "snd example_run"
  have ok: "server_ok ?st" using reach_ok [OF example_run_reach [of session_kernel]] by simp
  have s: "clients ?st = [example_client1]" "surface_manager ?st = lgp_surface_manager_init" "hdisplay ?st = 2" "vdisplay ?st = 2"
    "sent ?st = []"
    by (simp_all add: example_run_def lgp_main_start_def lgp_input_set_screen_def Let_def lgp_initial_state_def)
  have j: "first_index (\<lambda>s. \<not> in_use s) (surfaces (surface_manager ?st)) = Some 0"
    by (simp add: s(2) lgp_surface_manager_init_def numeral_eq_Suc)
  have f: "distinct (map cl_fd (clients ?st))" "lgp_state_find_client ?st 7 = Some example_client1"
    by (simp_all add: s(1) lgp_state_find_client_def example_client1_def)
  have "stream_of (ti_reads session_io) (hello_reply_frame @ geometry_frame 2 2 @ create_reply_frame STATUS_OK 1)"
    using reply_frame_length(1) by (auto simp: stream_of_def session_io_def)
  with test_client_session [OF ok f _ _ session_kernel_writes j] s show ?thesis
    by (fastforce simp: example_client1_def to_client_def lgp_surface_manager_init_def)
qed

text \<open>The picture fills the buffer exactly, and leaves the unused byte of every pixel zero.\<close>

lemma render_pattern_fits: "4 * length render_pattern = unat TEST_SURFACE_SIZE"
  by (simp add: render_pattern_def length_concat comp_def sum_list_triv)

lemma pattern_pixel_opaque: "drop_bit 24 (pattern_pixel x y) = 0"
proof -
  have "drop_bit 24 (push_bit 16 (r AND 0xFF) OR push_bit 8 (g AND 0xFF) OR 0x80) = 0" for r g :: u32
    by (rule bit_word_eqI) (auto simp: bit_simps mask_numeral simp flip: mask_eq_exp_minus_1)
  then show ?thesis by (simp add: pattern_pixel_def Let_def)
qed

end
