(* ===== verification/Lgp_Isolation.thy ===== *)
theory Lgp_Isolation
  imports Lgp_Test_Client "HOL-Library.Sublist"
begin

text \<open>
  What a client of an ordinary user can and cannot do to the compositor. First, how the content of the
  files behind committed buffers matters: the server's result does not depend on bytes it does not read,
  so that a fault of an ordinary event is always a read behind the end of a file that is shorter than its
  buffer. Second, isolation: whatever frames such a client sends, window manager requests included, the
  surfaces of other sessions, the other clients, the grabbed keys and the window manager stay as they are.
  Every message handler is shown to meet this contract (locale \<open>isolating_handler\<close>).
\<close>

section \<open>Short files\<close>

text \<open>A kernel that answers the same calls, with files that may be longer.\<close>

definition extends :: "lgp_kernel \<Rightarrow> lgp_kernel \<Rightarrow> bool" where
  "extends k k' \<longleftrightarrow> k_write k' = k_write k \<and> k_mmap k' = k_mmap k \<and> k_flip k' = k_flip k \<and>
     (\<forall>n a. prefix (k_mem k n a) (k_mem k' n a))"

text \<open>Painting that succeeds reads inside the files, so it does the same on longer ones.\<close>

lemma for_each_mono:
  assumes "\<And>x d d'. f x d = Some d' \<Longrightarrow> g x d = Some d'"
  shows "for_each f xs d = Some d' \<Longrightarrow> for_each g xs d = Some d'"
proof (induction xs arbitrary: d)
  case (Cons x xs)
  then obtain d1 where "f x d = Some d1" "for_each f xs d1 = Some d'" by (auto split: option.splits)
  with Cons.IH assms show ?case by simp
qed simp

lemma read_prefix:
  "prefix src src' \<Longrightarrow> lgp_read_u32_le src i = Some v \<Longrightarrow> lgp_read_u32_le src' i = Some v"
  by (auto simp: lgp_read_u32_le_def prefix_def nth_append split: if_splits)

lemma memcpy_prefix: "prefix src src' \<Longrightarrow> memcpy d i src j n = Some d' \<Longrightarrow> memcpy d i src' j n = Some d'"
  by (auto simp: memcpy_def prefix_def split: if_splits)

lemma draw_argb_prefix:
  "prefix src src' \<Longrightarrow> draw_argb_pixel src r1 r2 x0 x d = Some d' \<Longrightarrow> draw_argb_pixel src' r1 r2 x0 x d = Some d'"
  by (auto simp: draw_argb_pixel_def Let_def bind_eq_Some_conv dest: read_prefix)

lemma draw_row_prefix:
  assumes "prefix src src'" "draw_row s src p a b y d = Some d'" shows "draw_row s src' p a b y d = Some d'"
  using assms(2) for_each_mono [OF draw_argb_prefix [OF assms(1)]] memcpy_prefix [OF assms(1)]
  unfolding draw_row_def Let_def by (simp split: if_splits)

lemma guarded_mono:
  assumes "(if A then None else if B then x else f) = Some r" "f = Some r \<Longrightarrow> g = Some r"
  shows "(if A then None else if B then x else g) = Some r"
  using assms by (simp split: if_splits)

lemma composite_slot_prefix:
  assumes "\<And>a. prefix (mem a) (mem' a)" "composite_slot mem w h p l s d = Some d'"
  shows "composite_slot mem' w h p l s d = Some d'"
proof -
  have "draw_surface mem w h p s d = Some d' \<Longrightarrow> draw_surface mem' w h p s d = Some d'"
    unfolding draw_surface_def Let_def
    by (erule guarded_mono) (erule for_each_mono [rotated], erule draw_row_prefix [OF assms(1)])
  with assms(2) show ?thesis unfolding composite_slot_def by (auto split: if_splits)
qed

lemma composite_prefix:
  assumes m: "\<And>a. prefix (mem a) (mem' a)"
    and c: "lgp_surface_manager_composite mem c mg d w h p = Some r"
  shows "lgp_surface_manager_composite mem' c mg d w h p = Some r"
proof -
  have s: "for_each (\<lambda>l. for_each (composite_slot mem' w h p l) (surfaces mg)) layer_order t = Some t'"
    if "for_each (\<lambda>l. for_each (composite_slot mem w h p l) (surfaces mg)) layer_order t = Some t'" for t t'
    using that by (rule for_each_mono [rotated]) (erule for_each_mono [rotated], erule composite_slot_prefix [OF m])
  from c s show ?thesis
    unfolding lgp_surface_manager_composite_def by (auto simp: bind_eq_Some_conv split: if_splits)
qed

lemma extends_send:
  assumes "extends k k'"
  shows "lgp_send k' = lgp_send k" "kms_page_flip k' = kms_page_flip k" "k_mmap k' = k_mmap k" "k_write k' = k_write k"
  using assms by (simp_all add: fun_eq_iff lgp_send_def kms_page_flip_def extends_def Let_def)

lemma extends_repaint:
  assumes "extends k k'" "lgp_repaint_surfaces k st = Some r" shows "lgp_repaint_surfaces k' st = Some r"
proof -
  from assms(2) obtain x where x: "lgp_surface_manager_composite (k_mem k (kcalls st)) (cursor st) (surface_manager st)
      (fb_map st) (fb_width st) (fb_height st) (fb_pitch st) = Some x"
    by (auto simp: lgp_repaint_surfaces_def split: option.splits)
  have "lgp_surface_manager_composite (k_mem k' (kcalls st)) (cursor st) (surface_manager st)
      (fb_map st) (fb_width st) (fb_height st) (fb_pitch st) = Some x"
    by (rule composite_prefix [OF _ x]) (use assms(1) in \<open>simp add: extends_def\<close>)
  with assms(2) x show ?thesis unfolding lgp_repaint_surfaces_def extends_send [OF assms(1)] by simp
qed

lemma extends_message:
  assumes e: "extends k k'" and h: "lgp_handle_client_message k fm client msg st = Some r"
  shows "lgp_handle_client_message k' fm client msg st = Some r"
proof -
  note eq = extends_send [OF e]
  have same: "lgp_send_create_surface_reply k' = lgp_send_create_surface_reply k" "notify_wm k' = notify_wm k"
    "lgp_handle_fill_rect k' = lgp_handle_fill_rect k" "handle_hello k' = handle_hello k"
    "handle_clipboard_get k' = handle_clipboard_get k"
    unfolding fun_eq_iff lgp_send_create_surface_reply_def notify_wm_def lgp_handle_fill_rect_def
        handle_hello_def handle_clipboard_get_def eq by simp_all
  have same2: "lgp_handle_create_surface k' = lgp_handle_create_surface k"
    "lgp_handle_destroy_surface k' = lgp_handle_destroy_surface k"
    unfolding fun_eq_iff lgp_handle_create_surface_def lgp_handle_destroy_surface_def same by simp_all
  have c: "lgp_handle_commit_buffer k client msg st = Some r \<Longrightarrow> lgp_handle_commit_buffer k' client msg st = Some r"
    unfolding lgp_handle_commit_buffer_def Let_def eq
    by (auto simp: extends_repaint [OF e] split: option.splits sum.splits prod.splits if_splits)
  have p: "lgp_handle_wm_set_position k client msg st = Some r \<Longrightarrow> lgp_handle_wm_set_position k' client msg st = Some r"
    unfolding lgp_handle_wm_set_position_def Let_def
    by (auto simp: extends_repaint [OF e] split: option.splits sum.splits bool.splits if_splits)
  have s: "lgp_handle_wm_set_state k client msg st = Some r \<Longrightarrow> lgp_handle_wm_set_state k' client msg st = Some r"
    unfolding lgp_handle_wm_set_state_def Let_def
    by (auto simp: extends_repaint [OF e] split: option.splits sum.splits if_splits)
  from h c p s show ?thesis unfolding lgp_handle_client_message_def same same2 by (simp split: if_splits)
qed

lemma extends_process_messages:
  assumes "extends k k'" "lgp_client_process_messages k fm a buf st = Some r"
  shows "lgp_client_process_messages k' fm a buf st = Some r"
  using assms
proof (induction k fm a buf st rule: lgp_client_process_messages.induct)
  case (1 k fm a buf st)
  note e = 1(2) and r = 1(3)
  show ?case
  proof (cases "\<exists>ty len msg client. \<not> length buf < 6 \<and> lgp_tlv_peek_header buf = Some (ty, len) \<and>
      \<not> (unat len < 6 \<or> unat len > 4096) \<and> \<not> length buf < unat len \<and>
      lgp_tlv_decode (take (unat len) buf) = Some msg \<and> client_at a st = Some client")
    case False
    with r show ?thesis
      unfolding lgp_client_process_messages.simps [of _ fm a buf st]
      by (auto split: if_splits option.splits prod.splits)
  next
    case True
    then obtain ty len msg client where p: "\<not> length buf < 6" "lgp_tlv_peek_header buf = Some (ty, len)"
      "\<not> (unat len < 6 \<or> unat len > 4096)" "\<not> length buf < unat len"
      "lgp_tlv_decode (take (unat len) buf) = Some msg" "client_at a st = Some client" by blast
    from r p obtain st1 b where h: "lgp_handle_client_message k fm client msg st = Some (st1, b)"
      unfolding lgp_client_process_messages.simps [of _ fm a buf st] by (auto split: option.splits)
    note h' = extends_message [OF e h]
    show ?thesis
    proof (cases b)
      case False
      with r p h have "r = (st1, False)" unfolding lgp_client_process_messages.simps [of _ fm a buf st] by simp
      with False p h' show ?thesis unfolding lgp_client_process_messages.simps [of _ fm a buf st] by simp
    next
      case True
      with r p h obtain c1 where c1: "client_at a st1 = Some c1"
        "lgp_client_process_messages k fm a (drop (unat len) buf)
          (put_client (c1\<lparr>rx_buf := drop (unat len) buf\<rparr>) st1) = Some r"
        unfolding lgp_client_process_messages.simps [of _ fm a buf st] by (auto split: option.splits)
      have "lgp_client_process_messages k' fm a (drop (unat len) buf)
          (put_client (c1\<lparr>rx_buf := drop (unat len) buf\<rparr>) st1) = Some r"
        by (rule 1(1) [of "(ty, len)" ty len msg client "(st1, b)" st1 b c1])
          (use p h True c1 e in auto)
      with p h' True c1(1) show ?thesis unfolding lgp_client_process_messages.simps [of _ fm a buf st] by simp
    qed
  qed
qed

lemma extends_input: "extends k k' \<Longrightarrow> lgp_input_pump k' = lgp_input_pump k"
proof -
  assume e: "extends k k'"
  have 1: "lgp_send_to_session k' = lgp_send_to_session k"
    unfolding fun_eq_iff lgp_send_to_session_def extends_send [OF e] by simp
  have 2: "lgp_dispatch_pointer_motion k' = lgp_dispatch_pointer_motion k"
    "lgp_dispatch_pointer_button k' = lgp_dispatch_pointer_button k"
    "lgp_dispatch_keyboard_key k' = lgp_dispatch_keyboard_key k"
    unfolding fun_eq_iff lgp_dispatch_pointer_motion_def lgp_dispatch_pointer_button_def
        lgp_dispatch_keyboard_key_def lgp_send_pointer_motion_to_session_def lgp_send_pointer_button_to_session_def 1
    by simp_all
  have 3: "lgp_input_mouse_packet k' = lgp_input_mouse_packet k" "lgp_input_key_event k' = lgp_input_key_event k"
    unfolding fun_eq_iff lgp_input_mouse_packet_def lgp_input_key_event_def 2 by simp_all
  show ?thesis
    unfolding fun_eq_iff lgp_input_pump_def lgp_input_pump_raw_mouse_def lgp_input_pump_raw_keyboard_def 3 by simp
qed

lemma extends_event:
  assumes e: "extends k k'" and s: "lgp_event_step k ev is = Some is'"
  shows "lgp_event_step k' ev is = Some is'"
proof -
  obtain inp st where "is": "is = (inp, st)" by fastforce
  show ?thesis
  proof (cases ev)
    case (EvClient fd answer fm)
    have "lgp_client_event k fd answer fm st = Some st' \<Longrightarrow> lgp_client_event k' fd answer fm st = Some st'" for st'
      unfolding lgp_client_event_def Let_def
      by (fastforce dest: extends_process_messages [OF e] split: option.splits prod.splits if_splits bool.splits)
    with s EvClient "is" show ?thesis by auto
  qed (use s "is" extends_input [OF e] in auto)
qed

text \<open>The same kernel with enough zero bytes behind every file.\<close>

definition padded :: "lgp_kernel \<Rightarrow> lgp_kernel" where
  "padded k = k\<lparr>k_mem := \<lambda>n a. k_mem k n a @ replicate (2 ^ 32) 0\<rparr>"

lemma padded_extends: "extends k (padded k)"
  by (simp add: extends_def padded_def)

lemma padded_backs: "kernel_backs (padded k)"
  by (simp add: kernel_backs_def padded_def)


text \<open>A kernel whose files are all empty, and a client that sends a frame with an impossible length.\<close>

definition short_kernel :: lgp_kernel where
  "short_kernel = example_kernel\<lparr>k_mem := \<lambda>_ _. []\<rparr>"


section \<open>Isolation of clients\<close>

text \<open>
  What a step on behalf of the client \<open>c\<close> leaves alone: the slots that other sessions use, the other
  clients, the grabbed keys and the window manager. A slot in use afterwards belongs to the client's
  session or is as it was.
\<close>

definition keeps_others :: "lgp_client \<Rightarrow> lgp_state \<Rightarrow> lgp_state \<Rightarrow> bool" where
  "keeps_others c st st' \<longleftrightarrow>
     length (surfaces (surface_manager st')) = length (surfaces (surface_manager st)) \<and>
     (\<forall>i < length (surfaces (surface_manager st)).
        (in_use (surfaces (surface_manager st) ! i) \<and>
           owner_session_id (surfaces (surface_manager st) ! i) \<noteq> session_id c \<longrightarrow>
           surfaces (surface_manager st') ! i = surfaces (surface_manager st) ! i) \<and>
        (in_use (surfaces (surface_manager st') ! i) \<longrightarrow>
           owner_session_id (surfaces (surface_manager st') ! i) = session_id c \<or>
           surfaces (surface_manager st') ! i = surfaces (surface_manager st) ! i)) \<and>
     filter (\<lambda>d. cl_addr d \<noteq> cl_addr c) (clients st') = filter (\<lambda>d. cl_addr d \<noteq> cl_addr c) (clients st) \<and>
     grabbed_keys st' = grabbed_keys st \<and> wm_client st' = wm_client st"

lemma keeps_others_refl [simp]: "keeps_others c st st"
  by (simp add: keeps_others_def)

lemma keeps_others_trans: "keeps_others c st st1 \<Longrightarrow> keeps_others c st1 st2 \<Longrightarrow> keeps_others c st st2"
  unfolding keeps_others_def by (intro conjI allI impI; elim conjE; simp; metis)

lemma keeps_others_ident: "ident d = ident c \<Longrightarrow> keeps_others d = keeps_others c"
  by (simp add: keeps_others_def ident_def fun_eq_iff)

lemma keeps_others_scene: "same_scene st st' \<Longrightarrow> keeps_others c st st'"
  by (simp add: keeps_others_def same_scene_def)

lemma keeps_others_put:
  "cl_addr d = cl_addr c \<Longrightarrow> keeps_others c st (put_client d st)"
proof -
  assume a: "cl_addr d = cl_addr c"
  then have "filter (\<lambda>x. cl_addr x \<noteq> cl_addr c) (map (\<lambda>x. if cl_addr x = cl_addr d then d else x) cs) =
      filter (\<lambda>x. cl_addr x \<noteq> cl_addr c) cs" for cs
    by (induction cs) auto
  with a show ?thesis by (simp add: keeps_others_def put_client_def)
qed

lemma keeps_others_request:
  "session_id d = session_id c \<Longrightarrow> keeps_others c st (st\<lparr>surface_manager := serve_request d r (surface_manager st)\<rparr>)"
  using surface_slots.same_length [of d r "surface_manager st"] surface_slots.foreign [of _ "surface_manager st" d r]
    surface_slots.gained [of _ "surface_manager st" d r]
  by (simp add: keeps_others_def)

text \<open>The contract of the handlers for clients of ordinary users, on top of the invariant.\<close>

locale isolating_handler = message_handler +
  assumes isolates: "server_ok st \<Longrightarrow> client \<in> set (clients st) \<Longrightarrow> cl_uid client \<noteq> 0 \<Longrightarrow>
      handle k client msg st = Some (st', b) \<Longrightarrow> keeps_others client st st'"
begin

lemma isolates_again:
  assumes "keeps_others c st0 st" "server_ok st" "client \<in> set (clients st)" "cl_uid client \<noteq> 0" "ident client = ident c"
    "handle k client msg st = Some (st', b)"
  shows "server_ok st' \<and> map ident (clients st') = map ident (clients st) \<and> keeps_others c st0 st'"
  using keeps [OF assms(2,3,6)] keeps_others_trans [OF assms(1)] isolates [OF assms(2-4,6)] keeps_others_ident [OF assms(5)]
  by simp

end

text \<open>Handlers that only the window manager may call refuse an ordinary client.\<close>

lemma wm_handlers_refuse:
  assumes "server_ok st" "client \<in> set (clients st)" "cl_uid client \<noteq> 0"
  shows "lgp_handle_wm_set_position k client msg st = Some (st, False)"
    "lgp_handle_wm_set_focus client msg st = Some (st, False)"
    "lgp_handle_wm_set_state k client msg st = Some (st, False)"
    "lgp_handle_wm_grab_key client msg st = Some (st, False)"
  using no_wm_cap [OF server_okD(4) [OF assms(1,2)] assms(3)]
  by (simp_all add: lgp_handle_wm_set_position_def lgp_handle_wm_set_focus_def lgp_handle_wm_set_state_def
      lgp_handle_wm_grab_key_def)

interpretation iso_set_position: isolating_handler lgp_handle_wm_set_position
  by unfold_locales (simp add: wm_handlers_refuse)

interpretation iso_set_focus: isolating_handler "\<lambda>k. lgp_handle_wm_set_focus"
  by unfold_locales (simp add: wm_handlers_refuse)

interpretation iso_set_state: isolating_handler lgp_handle_wm_set_state
  by unfold_locales (simp add: wm_handlers_refuse)

interpretation iso_grab_key: isolating_handler "\<lambda>k. lgp_handle_wm_grab_key"
  by unfold_locales (simp add: wm_handlers_refuse)

interpretation iso_fill_rect: isolating_handler lgp_handle_fill_rect
  by unfold_locales
    (auto simp: lgp_handle_fill_rect_def kms_page_flip_def keeps_others_def Let_def split: if_splits)

interpretation iso_clipboard_set: isolating_handler "\<lambda>k. handle_clipboard_set"
  by unfold_locales (auto simp: handle_clipboard_set_def keeps_others_def Let_def split: if_splits)

interpretation iso_clipboard_get: isolating_handler "\<lambda>k client msg. handle_clipboard_get k fm client" for fm
  by unfold_locales
    (auto simp: handle_clipboard_get_def split: if_splits intro: keeps_others_scene same_scene_send)

lemma commit_scene:
  assumes "lgp_handle_commit_buffer k client msg st = Some (st', b)"
  shows "st' = st \<or> (\<exists>p. same_scene ((put_client (fst (lgp_client_take_fd client)) st)\<lparr>surface_manager :=
     fst (lgp_surface_manager_commit (surface_manager st) (fst (lgp_client_take_fd client)) p
       (snd (lgp_client_take_fd client)) (k_mmap k (kcalls st)))\<rparr>) st')"
proof (cases "\<exists>p. lgp_surface_decode_commit msg = Some (Inr p)")
  case False
  with assms show ?thesis by (auto simp: lgp_handle_commit_buffer_def split: option.splits sum.splits)
next
  case True
  then obtain p where p: "lgp_surface_decode_commit msg = Some (Inr p)" by blast
  obtain c1 fd where t: "lgp_client_take_fd client = (c1, fd)" by fastforce
  obtain m status cl un where d: "lgp_surface_manager_commit (surface_manager st) c1 p fd (k_mmap k (kcalls st)) =
      (m, status, cl, un)" by (metis prod_cases4)
  let ?st1 = "(put_client c1 st)\<lparr>surface_manager := m\<rparr>"
  have "same_scene ?st1 (?st1\<lparr>closed := closed st @ cl, kcalls := kcalls st + 1\<rparr>)" by (rule same_scene_effects)
  moreover have "st' = ?st1\<lparr>closed := closed st @ cl, kcalls := kcalls st + 1\<rparr> \<or>
      lgp_repaint_surfaces k (?st1\<lparr>closed := closed st @ cl, kcalls := kcalls st + 1\<rparr>) = Some (st', b)"
    using assms p t d by (auto simp: lgp_handle_commit_buffer_def Let_def split: if_splits)
  ultimately have "same_scene ?st1 st'" using same_scene_repaint same_scene_trans by blast
  with t d show ?thesis by (intro disjI2 exI [of _ p]) simp
qed

interpretation iso_create: isolating_handler lgp_handle_create_surface
proof unfold_locales
  fix st st' :: lgp_state and client k msg b
  assume h: "lgp_handle_create_surface k client msg st = Some (st', b)"
  show "keeps_others client st st'"
  proof (cases "\<exists>p. lgp_surface_decode_create msg = Some (Inr p)")
    case False
    with h have "st' = st" by (auto simp: lgp_handle_create_surface_def split: option.splits sum.splits)
    then show ?thesis by simp
  next
    case True
    then obtain p where p: "lgp_surface_decode_create msg = Some (Inr p)" by blast
    note s = create_scene [OF p h]
    show ?thesis
      using keeps_others_trans [OF keeps_others_request [OF refl, where r = "ReqCreate p (ucast (hdisplay st)) (ucast (vdisplay st))"]
        keeps_others_scene] s by simp
  qed
qed

interpretation iso_destroy: isolating_handler lgp_handle_destroy_surface
proof unfold_locales
  fix st st' :: lgp_state and client k msg b
  assume "lgp_handle_destroy_surface k client msg st = Some (st', b)"
  from destroy_scene [OF this] show "keeps_others client st st'"
    using keeps_others_trans [OF keeps_others_request [OF refl, where r = "ReqDestroy i" for i] keeps_others_scene]
    unfolding serve_request.simps by (metis fst_conv keeps_others_refl)
qed

lemma keeps_others_commit:
  assumes "ident d = ident c"
  shows "keeps_others c st ((put_client d st)\<lparr>surface_manager := fst (lgp_surface_manager_commit (surface_manager st) d p fd mapping)\<rparr>)"
proof -
  from assms have d: "cl_addr d = cl_addr c" "session_id d = session_id c" by (simp_all add: ident_def)
  from keeps_others_trans [OF keeps_others_put [OF d(1)] keeps_others_request [OF d(2), where r = "ReqCommit p fd mapping"]]
  show ?thesis by simp
qed

interpretation iso_commit: isolating_handler lgp_handle_commit_buffer
proof unfold_locales
  fix st st' :: lgp_state and client k msg b
  assume "lgp_handle_commit_buffer k client msg st = Some (st', b)"
  from commit_scene [OF this] show "keeps_others client st st'"
    using keeps_others_trans [OF keeps_others_commit [OF take_fd_ident [OF prod.collapse [symmetric]]] keeps_others_scene]
    by auto
qed

interpretation iso_hello: isolating_handler handle_hello
proof unfold_locales
  fix st st' :: lgp_state and client k msg b
  assume u: "cl_uid client \<noteq> 0" and h: "handle_hello k client msg st = Some (st', b)"
  from h obtain c1 r out where g: "lgp_hello_handle (k_write k (kcalls st)) client msg = Some (c1, r, out)"
    by (auto simp: handle_hello_def split: option.splits)
  have i: "cl_addr c1 = cl_addr client" "cl_uid c1 \<noteq> 0" using hello_handle_ident [OF g] u by (simp_all add: ident_def)
  let ?st1 = "(put_client c1 st)\<lparr>kcalls := kcalls st + 1, sent := sent st @ [(cl_fd client, out)]\<rparr>"
  let ?st2 = "if caps_granted c1 AND LGP_CAP_WINDOW_MANAGER \<noteq> 0
    then put_client (c1\<lparr>caps_granted := caps_granted c1 AND NOT LGP_CAP_WINDOW_MANAGER\<rparr>) ?st1 else ?st1"
  have 1: "keeps_others client st ?st1"
    by (rule keeps_others_trans [OF keeps_others_put [OF i(1)] keeps_others_scene [OF same_scene_effects(1)]])
  then have 2: "keeps_others client st ?st2"
    using keeps_others_trans [OF 1 keeps_others_put] i(1) by simp
  have "st' = ?st1 \<or> (\<exists>f. st' = fst (lgp_send k (cl_fd client) f ?st2))"
    using h g i(2) by (auto simp: handle_hello_def Let_def split: if_splits)
  then show "keeps_others client st st'"
    using 1 keeps_others_trans [OF 2 keeps_others_scene [OF same_scene_send]] by blast
qed

lemmas handler_isolates = iso_hello.isolates iso_fill_rect.isolates iso_create.isolates iso_destroy.isolates iso_commit.isolates
  iso_clipboard_set.isolates iso_clipboard_get.isolates iso_set_position.isolates iso_set_focus.isolates iso_set_state.isolates iso_grab_key.isolates

interpretation iso_message: isolating_handler "\<lambda>k. lgp_handle_client_message k fm" for fm
proof unfold_locales
  fix st st' :: lgp_state and client k msg b
  assume "server_ok st" "client \<in> set (clients st)" "cl_uid client \<noteq> 0"
    and h: "lgp_handle_client_message k fm client msg st = Some (st', b)"
  note isolates = handler_isolates [OF this(1-3)]
  have "st' = st \<or> keeps_others client st st'"
    using h unfolding lgp_handle_client_message_def
    by (simp split: if_splits) (drule isolates; simp)+
  then show "keeps_others client st st'" by auto
qed

lemma process_messages_isolates:
  assumes "server_ok st" "client \<in> set (clients st)" "cl_addr client = a" "cl_uid client \<noteq> 0"
    "length buf \<le> LGP_CLIENT_RX_BUFFER_SIZE"
    "lgp_client_process_messages k fm a buf st = Some (st', b)"
  shows "keeps_others client st st'"
  using assms
proof (induction k fm a buf st arbitrary: client rule: lgp_client_process_messages.induct)
  case (1 k fm a buf st)
  note ih = 1(1) and ok = 1(2) and c = 1(3) and a = 1(4) and u = 1(5) and l = 1(6) and r = 1(7)
  have at: "client_at a st = Some client" using client_at_unique [OF server_okD(5) [OF ok] c] a by simp
  show ?case
  proof (cases "st' = st")
    case False
    with r at obtain ty len msg st1 ok1 where
      p: "\<not> length buf < 6" "lgp_tlv_peek_header buf = Some (ty, len)"
        "\<not> (unat len < 6 \<or> unat len > 4096)" "\<not> length buf < unat len"
        "lgp_tlv_decode (take (unat len) buf) = Some msg"
        "lgp_handle_client_message k fm client msg st = Some (st1, ok1)"
      by (auto simp: lgp_client_process_messages.simps [of k fm a buf st]
          split: if_splits option.splits prod.splits)
    from iso_message.isolates_again [OF keeps_others_refl ok c u refl p(6)]
    have s1: "server_ok st1" "map ident (clients st1) = map ident (clients st)" "keeps_others client st st1" by simp_all
    from client_same_ident [OF s1(1,2) c] a obtain c1 where
      c1: "client_at a st1 = Some c1" "c1 \<in> set (clients st1)" "ident c1 = ident client" by auto
    show ?thesis
    proof (cases ok1)
      case False
      with r p at s1(3) show ?thesis by (simp add: lgp_client_process_messages.simps [of k fm a buf st])
    next
      case True
      let ?c2 = "c1\<lparr>rx_buf := drop (unat len) buf\<rparr>"
      have i2: "ident ?c2 = ident client" using c1(3) by (simp add: ident_def)
      have s2: "server_ok (put_client ?c2 st1)"
        using consume_frame_ok [OF s1(1) c1(2), of "drop (unat len) buf"] l by auto
      have r2: "lgp_client_process_messages k fm a (drop (unat len) buf) (put_client ?c2 st1) = Some (st', b)"
        using r p at True c1 by (simp add: lgp_client_process_messages.simps [of k fm a buf st])
      have "keeps_others ?c2 (put_client ?c2 st1) st'"
        by (rule ih [of "(ty, len)" ty len msg client "(st1, ok1)" st1 ok1 c1 ?c2])
           (use p True at c1 s2 r2 a l u in \<open>auto simp: put_client_def ident_def image_iff\<close>)
      moreover have "keeps_others client st1 (put_client ?c2 st1)"
        by (rule keeps_others_put) (use c1(3) in \<open>simp add: ident_def\<close>)
      ultimately show ?thesis
        using s1(3) keeps_others_trans unfolding keeps_others_ident [OF i2] by blast
    qed
  qed simp
qed

lemma close_client_isolates:
  assumes ok: "server_ok st" and c: "c \<in> set (clients st)" and u: "cl_uid c \<noteq> 0"
  shows "keeps_others c st (lgp_state_close_client st c)"
proof -
  have w: "wm_client st \<noteq> Some (cl_addr c)"
    using server_okD(5,6) [OF ok] c u by (auto simp: wm_ok_def distinct_map inj_on_def)
  have f: "filter (\<lambda>d. cl_addr d \<noteq> a) (unlink_client a cs) = filter (\<lambda>d. cl_addr d \<noteq> a) cs" for a cs
    by (induction cs) auto
  let ?st = "st\<lparr>surface_manager := serve_request c ReqLeave (surface_manager st)\<rparr>"
  have "keeps_others c ?st (lgp_state_close_client st c)"
    using w f by (simp add: keeps_others_def lgp_state_close_client_def lgp_state_remove_client_def Let_def)
  with keeps_others_request [OF refl] show ?thesis using keeps_others_trans by blast
qed

lemma client_event_isolates:
  assumes ok: "server_ok st" and c: "lgp_state_find_client st fd = Some c" "cl_uid c \<noteq> 0"
    and e: "lgp_client_event k fd answer fm st = Some st'"
  shows "keeps_others c st st'"
proof -
  obtain c1 status cl where r: "lgp_client_read_available answer c = (c1, status, cl)" by (metis prod_cases3)
  let ?st1 = "(put_client c1 st)\<lparr>closed := closed st @ cl\<rparr>"
  have s: "server_ok ?st1" "c1 \<in> set (clients ?st1)" "length (rx_buf c1) \<le> 4096"
    using read_state_ok [OF ok c(1) r] by (simp_all add: client_ok_def)
  have i: "ident c1 = ident c" using read_available_ident [OF r] server_okD(4) [OF ok find_client_SomeD [OF c(1)]] .
  then have u: "cl_uid c1 \<noteq> 0" "cl_addr c1 = cl_addr c" using c(2) by (simp_all add: ident_def)
  note ko = keeps_others_ident [OF i]
  have k1: "keeps_others c st ?st1"
    by (rule keeps_others_trans [OF keeps_others_put [OF u(2)] keeps_others_scene [OF same_scene_closed(1)]])
  show ?thesis
  proof (cases "status \<le> 0")
    case True
    with e c r have "st' = lgp_state_close_client ?st1 c1" by (simp add: lgp_client_event_def Let_def)
    with keeps_others_trans [OF k1] close_client_isolates [OF s(1,2) u(1)] show ?thesis by (simp add: ko)
  next
    case False
    let ?p = "lgp_client_process_messages k fm (cl_addr c1) (rx_buf c1) ?st1"
    from e c r False obtain st2 b where p: "?p = Some (st2, b)"
      by (auto simp: lgp_client_event_def Let_def split: option.splits)
    have k2: "keeps_others c st st2"
      using keeps_others_trans [OF k1] process_messages_isolates [OF s(1,2) refl u(1) s(3) p] by (simp add: ko)
    have v: "server_ok st2" "map ident (clients st2) = map ident (clients ?st1)"
      using process_messages_keeps [OF s(1,2) refl s(3) p] by (simp_all add: served_def)
    from client_same_ident [OF v s(2)] obtain c2 where c2: "client_at (cl_addr c1) st2 = Some c2" "c2 \<in> set (clients st2)"
      "ident c2 = ident c1" by auto
    then have i2: "ident c2 = ident c" "cl_uid c2 \<noteq> 0" using i u by (simp_all add: ident_def)
    have "st' = st2 \<or> st' = lgp_state_close_client st2 c2"
      using e c r False p c2 by (cases b) (auto simp: lgp_client_event_def Let_def)
    with k2 keeps_others_trans [OF k2] close_client_isolates [OF v(1) c2(2) i2(2)] show ?thesis
      by (auto simp: keeps_others_ident [OF i2(1)])
  qed
qed

text \<open>
  C8: clients cannot touch each other. Whatever a client of an ordinary user sends, in frames of any kind
  and window manager requests included, or when it leaves, a slot that another session uses keeps its
  surface; every surface in use afterwards belongs to this client's session or stood in the same slot,
  unchanged, before; and the other clients, the grabbed keys and the window manager stay as they were.
\<close>

theorem client_isolation:
  assumes "server_reach k (inp, st)" "lgp_state_find_client st fd = Some c" "cl_uid c \<noteq> 0"
    "lgp_event_step k (EvClient fd answer fm) (inp, st) = Some (inp', st')"
  shows "length (surfaces (surface_manager st')) = length (surfaces (surface_manager st)) \<and>
     (\<forall>i < length (surfaces (surface_manager st)).
        (in_use (surfaces (surface_manager st) ! i) \<and>
           owner_session_id (surfaces (surface_manager st) ! i) \<noteq> session_id c \<longrightarrow>
           surfaces (surface_manager st') ! i = surfaces (surface_manager st) ! i) \<and>
        (in_use (surfaces (surface_manager st') ! i) \<longrightarrow>
           owner_session_id (surfaces (surface_manager st') ! i) = session_id c \<or>
           surfaces (surface_manager st') ! i = surfaces (surface_manager st) ! i)) \<and>
     filter (\<lambda>d. cl_addr d \<noteq> cl_addr c) (clients st') = filter (\<lambda>d. cl_addr d \<noteq> cl_addr c) (clients st) \<and>
     grabbed_keys st' = grabbed_keys st \<and> wm_client st' = wm_client st"
proof -
  have "lgp_client_event k fd answer fm st = Some st'" using assms(4) by auto
  with client_event_isolates [of st fd c] reach_ok [OF assms(1)] assms(2,3) have "keeps_others c st st'" by simp
  then show ?thesis unfolding keeps_others_def .
qed

text \<open>
  A run: the test client creates a window; a second client of another user connects and sends a request to
  destroy that window.
\<close>

lemma reach_client_event:
  assumes "server_reach k (inp, st)" "lgp_client_event k fd answer fm st = Some st'"
  shows "server_reach k (inp, st')"
  by (rule reach_event [OF assms(1), of "EvClient fd answer fm"]) (simp_all add: assms(2))

lemma window_run:
  "\<exists>inp st. server_reach session_kernel (inp, st) \<and>
     filter (\<lambda>d. cl_addr d \<noteq> 40) (clients st) = [] \<and> next_session_id st = 2 \<and>
     in_use (surfaces (surface_manager st) ! 0) \<and> owner_session_id (surfaces (surface_manager st) ! 0) = 1"
proof -
  obtain inp st where run: "example_run = (inp, st)" by fastforce
  have s: "clients st = [example_client1]" "surface_manager st = lgp_surface_manager_init" "next_session_id st = 2"
    using run by (auto simp: example_run_def lgp_main_start_def lgp_input_set_screen_def Let_def lgp_initial_state_def)
  have r: "server_reach session_kernel (inp, st)" using example_run_reach run by metis
  have ok: "server_ok st" using reach_ok [OF r] by simp
  have f: "lgp_state_find_client st 7 = Some example_client1" "distinct (map cl_fd (clients st))"
    by (simp_all add: lgp_state_find_client_def s(1) example_client1_def)
  have j: "first_index (\<lambda>s. \<not> in_use s) (surfaces (surface_manager st)) = Some 0"
    by (simp add: s(2) lgp_surface_manager_init_def numeral_eq_Suc)
  have c: "rx_buf example_client1 = []" "\<not> hello_done example_client1" "cl_uid example_client1 \<noteq> 0"
    "cl_addr example_client1 = 40" "session_id example_client1 = 1" by (simp_all add: example_client1_def)
  from test_session_served [OF ok f(2,1) c(1,2) session_kernel_writes j, of True] obtain st1 st2 where e:
    "lgp_client_event session_kernel 7 (Received test_hello False []) True st = Some st1"
    "lgp_client_event session_kernel 7 (Received test_create False []) True st1 = Some st2"
    and w: "in_use (surfaces (surface_manager st2) ! 0)" "owner_session_id (surfaces (surface_manager st2) ! 0) = 1"
      "next_session_id st2 = 2" unfolding c(5) s(3) by blast
  note r1 = reach_client_event [OF r e(1)]
  have f1: "lgp_state_find_client st1 7 = Some (example_client1\<lparr>caps_granted := 6, hello_done := True\<rparr>)"
    using e(1) hello_event [OF f(1) _ c(1,2) session_kernel_writes, of True] s(1)
    by (auto simp: lgp_state_find_client_def put_client_def example_client1_def)
  have "keeps_others example_client1 st st1" by (rule client_event_isolates [OF ok f(1) c(3) e(1)])
  moreover have "keeps_others example_client1 st1 st2"
    using client_event_isolates [OF _ f1 _ e(2)] reach_ok [OF r1] c(3)
    by (simp add: keeps_others_def)
  ultimately have "filter (\<lambda>d. cl_addr d \<noteq> 40) (clients st2) = []"
    by (simp add: keeps_others_def c(4) s(1))
  with reach_client_event [OF r1 e(2)] w show ?thesis by blast
qed

definition foreign_destroy :: "u8 list" where
  "foreign_destroy = lgp_frame LGP_MSG_DESTROY_SURFACE (lgp_write_u32_le 1)"

theorem client_isolation_witness:
  "\<exists>inp st c inp' st'. lgp_state_find_client st 8 = Some c \<and> cl_uid c = 1001 \<and>
     in_use (surfaces (surface_manager st) ! 0) \<and> owner_session_id (surfaces (surface_manager st) ! 0) = 1 \<and>
     lgp_event_step session_kernel (EvClient 8 (Received foreign_destroy False []) True) (inp, st) = Some (inp', st') \<and>
     surfaces (surface_manager st') ! 0 = surfaces (surface_manager st) ! 0"
proof -
  from window_run obtain inp st where r: "server_reach session_kernel (inp, st)"
    and f: "filter (\<lambda>d. cl_addr d \<noteq> 40) (clients st) = []"
    and w: "in_use (surfaces (surface_manager st) ! 0)" "owner_session_id (surfaces (surface_manager st) ! 0) = 1"
    and n: "next_session_id st = 2" by blast
  let ?ev = "EvListen 8 (Some 41) (Some (100, 1001, 1001)) True"
  let ?c = "\<lparr>cl_addr = 41, cl_fd = 8, cl_pid = 100, cl_uid = 1001, cl_gid = 1001, session_id = 2,
     caps_granted = 0, hello_done = False, rx_buf = [], pending_fds = []\<rparr>"
  let ?st = "st\<lparr>next_session_id := 3, clients := ?c # clients st\<rparr>"
  have "event_fresh st ?ev" using f by (auto simp: filter_empty_conv)
  moreover have "lgp_event_step session_kernel ?ev (inp, st) = Some (inp, ?st)"
    by (simp add: lgp_accept_client_def lgp_client_create_def lgp_state_add_client_def n Let_def)
  ultimately have r2: "server_reach session_kernel (inp, ?st)" using reach_event [OF r] by blast
  then have ok: "server_ok ?st" using reach_ok [OF r2] by simp
  have c: "lgp_state_find_client ?st 8 = Some ?c" by (simp add: lgp_state_find_client_def)
  have "kernel_backs session_kernel" by (simp add: kernel_backs_def session_kernel_def example_kernel_def)
  from client_event_defined [OF ok this, of 8 "Received foreign_destroy False []" True] c
  obtain st' where e: "lgp_event_step session_kernel (EvClient 8 (Received foreign_destroy False []) True) (inp, ?st) =
      Some (inp, st')" by auto
  have l: "0 < length (surfaces (surface_manager ?st))" using server_okD(1) [OF ok] by (simp add: manager_ok_def)
  from client_isolation [OF r2 c _ e] w l have "surfaces (surface_manager st') ! 0 = surfaces (surface_manager ?st) ! 0" by simp
  with c w e show ?thesis by (intro exI [of _ inp] exI [of _ ?st] exI [of _ ?c] exI [of _ inp] exI [of _ st']) simp
qed

end
