(* ===== verification/Lpkg.thy ===== *)
theory Lpkg
  imports Mahina_Prelude
begin

text \<open>
  The package manager (\<open>lpkg\<close>): the database file (\<open>db.c\<close>), signatures (\<open>verify.c\<close>) and the commands
  (\<open>main.c\<close>). Files, the child processes \<open>tar\<close> and \<open>curl\<close>, and libsodium are arguments; a command
  returns the database in memory and what it did outside. Messages on the terminal are not modelled,
  but for the table \<open>list\<close> prints. It is shown that the database survives writing and reading, that
  only signed archives are unpacked, and that the commands act on a map from names to packages.
\<close>

section \<open>Packages and the database\<close>

text \<open>\<open>lpkg_t\<close>: the character arrays as the strings they hold, \<open>files\<close> as its used part.\<close>

record lpkg =
  pk_name :: string
  pk_version :: string
  pk_description :: string
  pk_files :: "string list"

abbreviation (input) LPKG_MAX_NAME :: nat where "LPKG_MAX_NAME \<equiv> 64"
abbreviation (input) LPKG_MAX_VER :: nat where "LPKG_MAX_VER \<equiv> 32"
abbreviation (input) MAX_DB_PKGS :: nat where "MAX_DB_PKGS \<equiv> 128"
abbreviation (input) MAX_FILES :: nat where "MAX_FILES \<equiv> 256"

definition zero_lpkg :: lpkg where
  "zero_lpkg = \<lparr>pk_name = [], pk_version = [], pk_description = [], pk_files = []\<rparr>"

text \<open>Leading blanks and the line end are removed in place.\<close>

definition strip_eol :: "string \<Rightarrow> string" where
  "strip_eol s = rev (dropWhile (\<lambda>c. c = LF \<or> c = CR) (rev s))"

definition strip_line :: "char list \<Rightarrow> string" where
  "strip_line chunk = strip_eol (dropWhile (\<lambda>c. c = CHR '' '' \<or> c = CHR 0x09) (cstr chunk))"

text \<open>The text between position \<open>n\<close> and the next quote.\<close>

definition quoted_from :: "nat \<Rightarrow> string \<Rightarrow> string option" where
  "quoted_from n lnk = map_option fst (split_chr DQUOTE (drop n lnk))"

definition db_field :: "string \<Rightarrow> lpkg \<Rightarrow> lpkg" where
  "db_field lnk cur =
     (if strncmp_eq 8 lnk (''name = '' @ [DQUOTE])
      then (case quoted_from 8 lnk of None \<Rightarrow> cur | Some v \<Rightarrow> cur\<lparr>pk_name := bounded_copy LPKG_MAX_NAME v\<rparr>)
      else if strncmp_eq 11 lnk (''version = '' @ [DQUOTE])
      then (case quoted_from 11 lnk of None \<Rightarrow> cur | Some v \<Rightarrow> cur\<lparr>pk_version := bounded_copy LPKG_MAX_VER v\<rparr>)
      else if strncmp_eq 15 lnk (''description = '' @ [DQUOTE])
      then (case quoted_from 15 lnk of None \<Rightarrow> cur | Some v \<Rightarrow> cur\<lparr>pk_description := bounded_copy 256 v\<rparr>)
      else if strncmp_eq 2 lnk (DQUOTE # ''/'')
      then (case quoted_from 1 lnk of
              None \<Rightarrow> cur
            | Some v \<Rightarrow> if length (pk_files cur) < MAX_FILES
                        then cur\<lparr>pk_files := pk_files cur @ [bounded_copy 256 v]\<rparr> else cur)
      else cur)"

text \<open>
  The loop of \<open>db_load_installed\<close>. \<open>cur\<close> always points to the last package of the filled part of
  the array, so the filled part is the state.
\<close>

fun db_load_lines :: "nat \<Rightarrow> string list \<Rightarrow> lpkg list \<Rightarrow> lpkg list" where
  "db_load_lines max_pkgs [] pkgs = pkgs"
| "db_load_lines max_pkgs (lnk # rest) pkgs =
     (if lnk = ''[[package]]''
      then if length pkgs \<ge> max_pkgs then pkgs else db_load_lines max_pkgs rest (pkgs @ [zero_lpkg])
      else if pkgs = [] then db_load_lines max_pkgs rest pkgs
      else db_load_lines max_pkgs rest (butlast pkgs @ [db_field lnk (last pkgs)]))"

text \<open>The argument is the content of the database file, if it can be opened.\<close>

definition db_load_installed :: "nat \<Rightarrow> string option \<Rightarrow> lpkg list" where
  "db_load_installed max_pkgs file =
     (case file of
        None \<Rightarrow> []
      | Some bytes \<Rightarrow> db_load_lines max_pkgs (map strip_line (fgets_chunks 512 bytes)) [])"

fun render_files :: "string list \<Rightarrow> string" where
  "render_files [] = []"
| "render_files (f # fs) =
     ''  '' @ [DQUOTE] @ f @ [DQUOTE] @ (if fs \<noteq> [] then '','' else []) @ [LF] @ render_files fs"

definition render_pkg :: "lpkg \<Rightarrow> string" where
  "render_pkg p =
     ''[[package]]'' @ [LF] @
     ''name = '' @ [DQUOTE] @ pk_name p @ [DQUOTE, LF] @
     ''version = '' @ [DQUOTE] @ pk_version p @ [DQUOTE, LF] @
     ''description = '' @ [DQUOTE] @ pk_description p @ [DQUOTE, LF] @
     ''files = ['' @ [LF] @ render_files (pk_files p) @ '']'' @ [LF, LF]"

definition render_db :: "lpkg list \<Rightarrow> string" where
  "render_db pkgs =
     ''# /var/lib/lpkg/installed.toml '' @ [CHR 0xE2, CHR 0x80, CHR 0x94] @ '' Managed by lpkg'' @ [LF, LF] @
     concat (map render_pkg pkgs)"

text \<open>
  The result of \<open>db_save_installed\<close> and what the file then holds. The disk answers \<open>None\<close> when the file
  cannot be opened, otherwise how many characters it takes before a write fails: the results of
  \<open>fprintf\<close> and \<open>fclose\<close> are not looked at.
\<close>

definition db_save_installed :: "nat option \<Rightarrow> lpkg list \<Rightarrow> int \<times> string option" where
  "db_save_installed disk pkgs =
     (case disk of None \<Rightarrow> (- 1, None) | Some room \<Rightarrow> (0, Some (take room (render_db pkgs))))"

section \<open>Signatures\<close>

definition hex2val :: "char \<Rightarrow> int" where
  "hex2val c =
     (let v = int (of_char c :: nat) in
      if 48 \<le> v \<and> v \<le> 57 then v - 48
      else if 97 \<le> v \<and> v \<le> 102 then v - 97 + 10
      else if 65 \<le> v \<and> v \<le> 70 then v - 65 + 10
      else - 1)"

text \<open>The decoded bytes; \<open>None\<close> when the text is too long or not hexadecimal.\<close>

fun hex_pairs :: "string \<Rightarrow> string option" where
  "hex_pairs (h # l # rest) =
     (if hex2val h < 0 \<or> hex2val l < 0 then None
      else map_option ((#) (char_of (nat (16 * hex2val h + hex2val l)))) (hex_pairs rest))"
| "hex_pairs _ = Some []"

definition hex2bin :: "string \<Rightarrow> nat \<Rightarrow> string option" where
  "hex2bin hex bin_len = (if length hex div 2 > bin_len then None else hex_pairs hex)"

text \<open>
  Reading a key or signature of \<open>n\<close> bytes from a file through a buffer of \<open>size\<close> bytes: line ends
  at the end are removed; what is left is the raw value or its hexadecimal form. \<open>hex2bin\<close> works on
  a C string; bytes it does not set keep the content \<open>junk\<close> of the uninitialised array.
\<close>

definition load_value :: "nat \<Rightarrow> nat \<Rightarrow> string \<Rightarrow> string \<Rightarrow> string option" where
  "load_value n buf_size junk file =
     (let buf = strip_eol (take (buf_size - 1) file) in
      if length buf = n then Some buf
      else if length buf = 2 * n
      then (case hex2bin (cstr buf) n of
              None \<Rightarrow> None
            | Some bin \<Rightarrow> Some (bin @ drop (length bin) (take n junk)))
      else None)"

text \<open>
  What the files, libsodium and the allocator provide. \<open>li_verify\<close> is
  \<open>crypto_sign_verify_detached\<close>, on signature, message and public key.
\<close>

record lpkg_io =
  li_exists :: "string \<Rightarrow> bool"
  li_read :: "string \<Rightarrow> string option"
  li_sodium :: bool
  li_alloc :: bool
  li_junk :: string
  li_verify :: "string \<Rightarrow> string \<Rightarrow> string \<Rightarrow> bool"
  li_extract :: "string \<Rightarrow> bool"
  li_tar :: "string \<Rightarrow> string option"
  li_save :: "nat option"
  li_curl :: "string \<Rightarrow> string \<Rightarrow> bool"

abbreviation (input) PUBKEY_PATH :: string where "PUBKEY_PATH \<equiv> ''/etc/luna/lpkg.pub''"

definition verify_signature :: "lpkg_io \<Rightarrow> string \<Rightarrow> string \<Rightarrow> bool" where
  "verify_signature io lpkg_path sig_path =
     (if \<not> li_sodium io then False
      else case li_read io PUBKEY_PATH of
        None \<Rightarrow> False
      | Some pf \<Rightarrow>
          (case load_value 32 128 (li_junk io) pf of
             None \<Rightarrow> False
           | Some pubkey \<Rightarrow>
               (case li_read io sig_path of
                  None \<Rightarrow> False
                | Some sf \<Rightarrow>
                    (case load_value 64 256 (li_junk io) sf of
                       None \<Rightarrow> False
                     | Some sig \<Rightarrow>
                         (case li_read io lpkg_path of
                            None \<Rightarrow> False
                          | Some data \<Rightarrow>
                              if data = [] then False
                              else if \<not> li_alloc io then False
                              else li_verify io sig data pubkey)))))"

section \<open>Commands\<close>

text \<open>
  What a command does outside the process. \<open>Extracted\<close> is the call of \<open>tar\<close> on an archive, also
  when it fails half-way; \<open>Saved\<close> is the new content of the database file.
\<close>

datatype lpkg_action = Extracted string | Saved string | Fetched string string | Unlinked string

text \<open>The loop of \<open>get_tar_file_list\<close> over the lines \<open>tar -tf\<close> prints; directories are skipped.\<close>

fun tar_files :: "string list \<Rightarrow> string list \<Rightarrow> string list" where
  "tar_files [] files = files"
| "tar_files (chunk # rest) files =
     (if length files \<ge> MAX_FILES then files
      else (let line = strip_eol (cstr chunk) in
            if line \<noteq> [] \<and> last line \<noteq> CHR ''/''
            then tar_files rest (files @ [bounded_copy 256 (''/'' @ line)])
            else tar_files rest files))"

definition get_tar_file_list :: "lpkg_io \<Rightarrow> string \<Rightarrow> lpkg \<Rightarrow> lpkg" where
  "get_tar_file_list io lpkg_path pkg =
     (case li_tar io lpkg_path of
        None \<Rightarrow> pkg
      | Some out \<Rightarrow> pkg\<lparr>pk_files := tar_files (fgets_chunks 256 out) []\<rparr>)"

text \<open>Name and version from the file name: up to and after the first dash, without the extension.\<close>

definition guess_package :: "string \<Rightarrow> string \<times> string" where
  "guess_package path =
     (let base = (case split_last_chr CHR ''/'' path of None \<Rightarrow> path | Some (_, b) \<Rightarrow> b);
          name_buf = bounded_copy 128 base;
          stem = (case split_last_chr CHR ''.'' name_buf of None \<Rightarrow> name_buf | Some (a, _) \<Rightarrow> a)
      in case split_chr CHR ''-'' stem of
           Some (n, v) \<Rightarrow> (bounded_copy LPKG_MAX_NAME n, bounded_copy LPKG_MAX_VER v)
         | None \<Rightarrow> (bounded_copy LPKG_MAX_NAME stem, ''1.0''))"

definition db_index :: "string \<Rightarrow> lpkg list \<Rightarrow> nat option" where
  "db_index name db = first_index (\<lambda>p. pk_name p = name) db"

text \<open>The exit status of the step, the database array and the actions.\<close>

definition install_local_lpkg :: "lpkg_io \<Rightarrow> string \<Rightarrow> lpkg list \<Rightarrow> int \<times> lpkg list \<times> lpkg_action list" where
  "install_local_lpkg io path db =
     (let sig_path = bounded_copy 512 (path @ ''.sig'') in
      if \<not> li_exists io sig_path then (- 1, db, [])
      else if \<not> verify_signature io path sig_path then (- 1, db, [])
      else if \<not> li_extract io path then (- 1, db, [Extracted path])
      else
        (let (name, version) = guess_package path;
             slot = db_index name db
         in if slot = None \<and> length db \<ge> MAX_DB_PKGS then (- 1, db, [Extracted path])
            else
              (let pkg = get_tar_file_list io path
                           (zero_lpkg\<lparr>pk_name := bounded_copy LPKG_MAX_NAME name,
                                      pk_version := bounded_copy LPKG_MAX_VER version,
                                      pk_description := bounded_copy 256 (name @ '' package'')\<rparr>);
                   db1 = (case slot of Some i \<Rightarrow> db[i := pkg] | None \<Rightarrow> db @ [pkg])
               in case db_save_installed (li_save io) db1 of
                    (rc, None) \<Rightarrow> (- 1, db1, [Extracted path])
                  | (rc, Some text) \<Rightarrow> (0, db1, [Extracted path, Saved text]))))"

text \<open>
  The search of the repository index: the state is the name and the address read since the last
  \<open>[[package]]\<close> line.
\<close>

definition index_line :: "string \<Rightarrow> string \<times> string \<Rightarrow> string \<times> string" where
  "index_line lnk = (\<lambda>(name_buf, found_url).
     if lnk = ''[[package]]'' then ([], [])
     else if strncmp_eq 8 lnk (''name = '' @ [DQUOTE])
     then (case quoted_from 8 lnk of None \<Rightarrow> (name_buf, found_url) | Some v \<Rightarrow> (bounded_copy 128 v, found_url))
     else if strncmp_eq 7 lnk (''url = '' @ [DQUOTE])
     then (case quoted_from 7 lnk of None \<Rightarrow> (name_buf, found_url) | Some v \<Rightarrow> (name_buf, bounded_copy 256 v))
     else (name_buf, found_url))"

fun index_lookup :: "string \<Rightarrow> string list \<Rightarrow> string \<times> string \<Rightarrow> string option" where
  "index_lookup target [] st = None"
| "index_lookup target (lnk # rest) st =
     (case index_line lnk st of
        (name_buf, found_url) \<Rightarrow>
          if name_buf \<noteq> [] \<and> name_buf = target \<and> found_url \<noteq> [] then Some found_url
          else index_lookup target rest (name_buf, found_url))"

abbreviation (input) INDEX_PATH :: string where "INDEX_PATH \<equiv> ''/var/lib/lpkg/index.toml''"

definition handle_install :: "lpkg_io \<Rightarrow> string \<Rightarrow> lpkg list \<Rightarrow> int \<times> lpkg list \<times> lpkg_action list" where
  "handle_install io target db =
     (if split_str ''.lpkg'' target \<noteq> None then install_local_lpkg io target db
      else case li_read io INDEX_PATH of
        None \<Rightarrow> (- 1, db, [])
      | Some bytes \<Rightarrow>
          (case index_lookup target (map strip_line (fgets_chunks 512 bytes)) ([], []) of
             None \<Rightarrow> (- 1, db, [])
           | Some found_url \<Rightarrow>
               (let dest_lpkg = bounded_copy 256 (''/tmp/'' @ target @ ''.lpkg'');
                    sig_url = bounded_copy 512 (found_url @ ''.sig'');
                    dest_sig = bounded_copy 256 (''/tmp/'' @ target @ ''.lpkg.sig'')
                in if \<not> li_curl io found_url dest_lpkg then (- 1, db, [])
                   else if \<not> li_curl io sig_url dest_sig
                   then (- 1, db, [Fetched found_url dest_lpkg, Unlinked dest_lpkg])
                   else (case install_local_lpkg io dest_lpkg db of
                           (ret, db1, acts) \<Rightarrow>
                             (ret, db1, [Fetched found_url dest_lpkg, Fetched sig_url dest_sig] @ acts @
                                        [Unlinked dest_lpkg, Unlinked dest_sig])))))"

text \<open>The shift of the array elements behind the removed one.\<close>

definition handle_remove :: "lpkg_io \<Rightarrow> string \<Rightarrow> lpkg list \<Rightarrow> int \<times> lpkg list \<times> lpkg_action list" where
  "handle_remove io name db =
     (case db_index name db of
        None \<Rightarrow> (- 1, db, [])
      | Some idx \<Rightarrow>
          (let acts = map Unlinked (pk_files (db ! idx));
               db1 = take idx db @ drop (Suc idx) db
           in case db_save_installed (li_save io) db1 of
                (rc, None) \<Rightarrow> (- 1, db1, acts)
              | (rc, Some text) \<Rightarrow> (0, db1, acts @ [Saved text])))"

definition pad_right :: "nat \<Rightarrow> string \<Rightarrow> string" where
  "pad_right n s = s @ replicate (n - length s) (CHR '' '')"

definition handle_list :: "lpkg list \<Rightarrow> string" where
  "handle_list db =
     (if db = [] then ''No packages currently installed.'' @ [LF]
      else ''Installed packages:'' @ [LF] @
           concat (map (\<lambda>p. ''  '' @ pad_right 20 (pk_name p) @ '' '' @ pad_right 10 (pk_version p) @ '' '' @
                            pk_description p @ [LF]) db))"

abbreviation (input) REPO_URL :: string where "REPO_URL \<equiv> ''http://repo.mahina.os/index.toml''"

definition handle_update :: "lpkg_io \<Rightarrow> int \<times> lpkg_action list" where
  "handle_update io = (if \<not> li_curl io REPO_URL INDEX_PATH then (- 1, []) else (0, [Fetched REPO_URL INDEX_PATH]))"

abbreviation (input) DB_PATH :: string where "DB_PATH \<equiv> ''/var/lib/lpkg/installed.toml''"

text \<open>\<open>main\<close>: the exit status and the actions.\<close>

definition lpkg_main :: "lpkg_io \<Rightarrow> string list \<Rightarrow> int \<times> lpkg_action list" where
  "lpkg_main io argv =
     (if length argv < 2 then (1, [])
      else
        (let db = db_load_installed MAX_DB_PKGS (li_read io DB_PATH);
             cmd = argv ! 1;
             status = (\<lambda>rc. if rc = 0 then 0 else 1 :: int)
         in if cmd = ''install''
            then if length argv < 3 then (1, [])
                 else (case handle_install io (argv ! 2) db of (rc, _, acts) \<Rightarrow> (status rc, acts))
            else if cmd = ''remove''
            then if length argv < 3 then (1, [])
                 else (case handle_remove io (argv ! 2) db of (rc, _, acts) \<Rightarrow> (status rc, acts))
            else if cmd = ''list'' then (0, [])
            else if cmd = ''update'' then (case handle_update io of (rc, acts) \<Rightarrow> (status rc, acts))
            else (1, [])))"

section \<open>The database file\<close>

text \<open>A text of complete lines is delivered line by line.\<close>

definition unlines :: "string list \<Rightarrow> string" where
  "unlines ls = concat (map (\<lambda>l. l @ [LF]) ls)"

lemma unlines_simps [simp]:
  "unlines [] = []" "unlines (l # ls) = l @ [LF] @ unlines ls" "unlines (a @ b) = unlines a @ unlines b"
  by (simp_all add: unlines_def)

lemma fgets_chunks_line:
  assumes "LF \<notin> set l" "length l < n - 1"
  shows "fgets_chunks n (l @ LF # rest) = (l @ [LF]) # fgets_chunks n rest"
proof -
  have t: "takeWhile (\<lambda>c. c \<noteq> LF) (l @ LF # rest) = l" using assms(1) by (induction l) auto
  then have "fgets_chunk n (l @ LF # rest) = l @ [LF]" using assms(2) by (simp add: fgets_chunk_def)
  then show ?thesis using assms(2) by (simp add: fgets_chunks.simps [of n "l @ LF # rest"] Let_def)
qed

lemma fgets_chunks_unlines:
  assumes "list_all (\<lambda>l. LF \<notin> set l \<and> length l < n - 1) ls"
  shows "fgets_chunks n (unlines ls) = map (\<lambda>l. l @ [LF]) ls"
  using assms by (induction ls) (simp_all add: fgets_chunks_line, simp add: fgets_chunks.simps)

definition plain :: "string \<Rightarrow> bool" where
  "plain s \<longleftrightarrow> NUL \<notin> set s \<and> LF \<notin> set s \<and> DQUOTE \<notin> set s"

lemma plain_simps [simp]:
  "plain []" "plain (a @ b) \<longleftrightarrow> plain a \<and> plain b"
  "plain (c # s) \<longleftrightarrow> c \<noteq> NUL \<and> c \<noteq> LF \<and> c \<noteq> DQUOTE \<and> plain s"
  by (auto simp: plain_def)

definition quote :: "string \<Rightarrow> string" where
  "quote s = [DQUOTE] @ s @ [DQUOTE]"

fun file_lines :: "string list \<Rightarrow> string list" where
  "file_lines [] = []"
| "file_lines (f # fs) = (''  '' @ quote f @ (if fs \<noteq> [] then '','' else [])) # file_lines fs"

definition pkg_lines :: "lpkg \<Rightarrow> string list" where
  "pkg_lines p =
     [''[[package]]'', ''name = '' @ quote (pk_name p), ''version = '' @ quote (pk_version p),
      ''description = '' @ quote (pk_description p), ''files = [''] @ file_lines (pk_files p) @ ['']'', []]"

definition header_lines :: "string list" where
  "header_lines = [''# /var/lib/lpkg/installed.toml '' @ [CHR 0xE2, CHR 0x80, CHR 0x94] @ '' Managed by lpkg'', []]"

lemma render_files_lines: "render_files fs = unlines (file_lines fs)"
  by (induction fs rule: render_files.induct) (simp_all add: quote_def)

lemma render_db_lines: "render_db pkgs = unlines (header_lines @ concat (map pkg_lines pkgs))"
proof -
  have "render_pkg p = unlines (pkg_lines p)" for p
    by (simp add: render_pkg_def pkg_lines_def render_files_lines quote_def)
  then have "concat (map render_pkg pkgs) = unlines (concat (map pkg_lines pkgs))" by (induction pkgs) simp_all
  then show ?thesis by (simp add: render_db_def header_lines_def)
qed

text \<open>A package whose record can be written and read back.\<close>

definition plain_pkg :: "lpkg \<Rightarrow> bool" where
  "plain_pkg p \<longleftrightarrow>
     plain (pk_name p) \<and> length (pk_name p) < LPKG_MAX_NAME \<and>
     plain (pk_version p) \<and> length (pk_version p) < LPKG_MAX_VER \<and>
     plain (pk_description p) \<and> length (pk_description p) < 256 \<and>
     length (pk_files p) \<le> MAX_FILES \<and>
     list_all (\<lambda>f. plain f \<and> length f < 256 \<and> (\<exists>g. f = CHR ''/'' # g)) (pk_files p)"

lemma strip_eol_LF: "strip_eol (l @ [LF]) = strip_eol l"
  by (simp add: strip_eol_def)

lemma strip_eol_id: "l = [] \<or> last l \<noteq> LF \<and> last l \<noteq> CR \<Longrightarrow> strip_eol l = l"
  by (cases l rule: rev_cases) (auto simp: strip_eol_def)

lemma dropWhile_snoc_false: "\<not> P c \<Longrightarrow> dropWhile P (l @ [c]) = dropWhile P l @ [c]"
  by (induction l) auto

lemma strip_line_LF:
  assumes "NUL \<notin> set l" shows "strip_line (l @ [LF]) = strip_eol (dropWhile (\<lambda>c. c = CHR '' '' \<or> c = CHR 0x09) l)"
proof -
  have "cstr (l @ [LF]) = l @ [LF]" using assms by (intro cstr_id) auto
  then show ?thesis by (simp add: strip_line_def dropWhile_snoc_false strip_eol_LF)
qed

text \<open>What the reader sees of each line.\<close>

definition read_line :: "string \<Rightarrow> string" where
  "read_line l = strip_line (l @ [LF])"

lemma read_line_eq:
  "NUL \<notin> set l \<Longrightarrow> read_line l = strip_eol (dropWhile (\<lambda>c. c = CHR '' '' \<or> c = CHR 0x09) l)"
  by (simp add: read_line_def strip_line_LF)

fun file_items :: "string list \<Rightarrow> string list" where
  "file_items [] = []"
| "file_items (f # fs) = (quote f @ (if fs \<noteq> [] then '','' else [])) # file_items fs"

definition pkg_items :: "lpkg \<Rightarrow> string list" where
  "pkg_items p =
     [''[[package]]'', ''name = '' @ quote (pk_name p), ''version = '' @ quote (pk_version p),
      ''description = '' @ quote (pk_description p), ''files = [''] @ file_items (pk_files p) @ ['']'', []]"

lemma strip_lines_pkg:
  assumes "plain_pkg p" shows "map read_line (pkg_lines p) = pkg_items p"
proof -
  have f: "map read_line (file_lines fs) = file_items fs" if "list_all plain fs" for fs
    using that
    by (induction fs) (auto simp: read_line_eq strip_eol_id quote_def plain_def)
  have "list_all plain (pk_files p)" using assms by (auto simp: plain_pkg_def list_all_iff)
  from f [OF this] assms show ?thesis
    by (simp add: pkg_lines_def pkg_items_def read_line_eq strip_eol_id quote_def plain_pkg_def plain_def)
qed

lemma lines_short:
  assumes "plain_pkg p" shows "list_all (\<lambda>l. LF \<notin> set l \<and> length l < 511) (pkg_lines p)"
proof -
  have "list_all (\<lambda>l. LF \<notin> set l \<and> length l < 511) (file_lines fs)"
    if "list_all (\<lambda>f. plain f \<and> length f < 256) fs" for fs
    using that by (induction fs) (auto simp: quote_def plain_def)
  with assms show ?thesis by (auto simp: pkg_lines_def plain_pkg_def quote_def plain_def list_all_iff)
qed

lemma quoted_from_quote:
  assumes "length pre + 1 = n" "DQUOTE \<notin> set s" shows "quoted_from n (pre @ DQUOTE # s @ DQUOTE # rest) = Some s"
proof -
  have "split_chr DQUOTE (s @ DQUOTE # rest) = Some (s, rest)" using assms(2) by (induction s) auto
  then show ?thesis using assms(1) by (auto simp: quoted_from_def)
qed

lemma db_fields:
  assumes "plain s"
  shows "length s < 64 \<Longrightarrow> db_field (''name = '' @ quote s) cur = cur\<lparr>pk_name := s\<rparr>"
    and "length s < 32 \<Longrightarrow> db_field (''version = '' @ quote s) cur = cur\<lparr>pk_version := s\<rparr>"
    and "length s < 256 \<Longrightarrow> db_field (''description = '' @ quote s) cur = cur\<lparr>pk_description := s\<rparr>"
  using assms quoted_from_quote [of "''name = ''" 8 s "[]"] quoted_from_quote [of "''version = ''" 11 s "[]"]
    quoted_from_quote [of "''description = ''" 15 s "[]"]
  by (simp_all add: db_field_def strncmp_eq_def quote_def plain_def bounded_copy_def)

lemma db_field_file:
  assumes "plain s" "length s < 256" "s = CHR ''/'' # g" "length (pk_files cur) < 256"
  shows "db_field (quote s @ c) cur = cur\<lparr>pk_files := pk_files cur @ [s]\<rparr>"
  using assms quoted_from_quote [of "[]" 1 s c]
  by (simp add: db_field_def strncmp_eq_def quote_def plain_def bounded_copy_def)

lemma db_field_other: "db_field ''files = ['' cur = cur" "db_field '']'' cur = cur" "db_field [] cur = cur"
  by (simp_all add: db_field_def strncmp_eq_def)

lemma db_load_file_items:
  assumes "list_all (\<lambda>f. plain f \<and> length f < 256 \<and> (\<exists>g. f = CHR ''/'' # g)) fs" "length (pk_files p) + length fs \<le> 256"
  shows "db_load_lines n (file_items fs @ rest) (pkgs @ [p]) =
    db_load_lines n rest (pkgs @ [p\<lparr>pk_files := pk_files p @ fs\<rparr>])"
  using assms
proof (induction fs arbitrary: p)
  case (Cons f fs)
  then have "db_field (quote f @ c) p = p\<lparr>pk_files := pk_files p @ [f]\<rparr>" for c
    using db_field_file [of f _ p c] by auto
  with Cons.IH [of "p\<lparr>pk_files := pk_files p @ [f]\<rparr>"] Cons.prems show ?case
    by (auto simp: quote_def)
qed simp

lemma db_load_pkg_items:
  assumes "plain_pkg p" "length pkgs < n"
  shows "db_load_lines n (pkg_items p @ rest) pkgs = db_load_lines n rest (pkgs @ [p])"
proof -
  note f = assms(1) [unfolded plain_pkg_def]
  have e: "\<lparr>pk_name = pk_name p, pk_version = pk_version p, pk_description = pk_description p,
      pk_files = pk_files p\<rparr> = p" by (cases p) simp
  show ?thesis
    using f assms(2) db_load_file_items [of "pk_files p" "\<lparr>pk_name = pk_name p, pk_version = pk_version p,
        pk_description = pk_description p, pk_files = []\<rparr>" n "['']'', []] @ rest" pkgs]
    by (simp add: pkg_items_def db_fields [simplified] db_field_other zero_lpkg_def e)
qed

lemma db_load_items:
  assumes "list_all plain_pkg pkgs" "length acc + length pkgs \<le> n"
  shows "db_load_lines n (concat (map pkg_items pkgs)) acc = acc @ pkgs"
  using assms by (induction pkgs arbitrary: acc) (simp_all add: db_load_pkg_items)

lemma db_load_rendered:
  assumes "list_all plain_pkg pkgs" "length pkgs \<le> n"
  shows "db_load_installed n (Some (render_db pkgs)) = pkgs"
proof -
  let ?ls = "header_lines @ concat (map pkg_lines pkgs)"
  have "list_all (\<lambda>l. LF \<notin> set l \<and> length l < 511) header_lines" by (simp add: header_lines_def)
  moreover have "list_all (\<lambda>l. LF \<notin> set l \<and> length l < 511) (concat (map pkg_lines pkgs))"
    using assms(1) lines_short by (auto simp: list_all_iff)
  ultimately have c: "fgets_chunks 512 (render_db pkgs) = map (\<lambda>l. l @ [LF]) ?ls"
    unfolding render_db_lines by (intro fgets_chunks_unlines) simp
  have h: "map read_line header_lines = header_lines"
    by (simp add: header_lines_def read_line_eq strip_eol_id)
  have "map read_line (concat (map pkg_lines pkgs)) = concat (map pkg_items pkgs)"
    using assms(1) by (induction pkgs) (simp_all add: strip_lines_pkg)
  with c h have "map strip_line (fgets_chunks 512 (render_db pkgs)) = header_lines @ concat (map pkg_items pkgs)"
    by (simp add: comp_def flip: read_line_def)
  moreover have "db_load_lines n (header_lines @ rest) [] = db_load_lines n rest []" for rest
    by (simp add: header_lines_def)
  ultimately show ?thesis using db_load_items [OF assms(1), of "[]" n] assms(2) by (simp add: db_load_installed_def)
qed

text \<open>
  The package database survives writing and reading. Whatever list of packages is saved, loading
  the file gives the same list: names, versions, descriptions and file lists, as long as they fit the
  record and contain no quote, line end or NUL, and paths are absolute.
\<close>

theorem db_roundtrip:
  assumes "list_all plain_pkg pkgs" "length pkgs \<le> n"
    and "length (render_db pkgs) \<le> room"
  shows "db_load_installed n (snd (db_save_installed (Some room) pkgs)) = pkgs"
  using db_load_rendered [OF assms(1,2)] assms(3) by (simp add: db_save_installed_def)

definition example_pkg :: lpkg where
  "example_pkg = \<lparr>pk_name = ''luna'', pk_version = ''0.3'', pk_description = ''luna package'',
     pk_files = [''/usr/bin/luna'', ''/etc/luna/a b.toml'']\<rparr>"

theorem db_roundtrip_witness:
  "db_load_installed 2 (snd (db_save_installed (Some 4096) [example_pkg, zero_lpkg])) = [example_pkg, zero_lpkg]"
  by (rule db_roundtrip) (simp_all add: plain_pkg_def example_pkg_def zero_lpkg_def render_db_def render_pkg_def)

text \<open>A full disk: the step reports success, and the next run finds no package.\<close>

theorem full_disk_reports_success:
  "fst (db_save_installed (Some 0) pkgs) = 0 \<and> db_load_installed n (snd (db_save_installed (Some 0) pkgs)) = []"
  by (simp add: db_save_installed_def db_load_installed_def fgets_chunks.simps)

section \<open>Installation\<close>

lemma verified:
  assumes "verify_signature io path sig_path"
  shows "\<exists>pf pubkey sf sig data. li_read io PUBKEY_PATH = Some pf \<and> load_value 32 128 (li_junk io) pf = Some pubkey \<and>
    li_read io sig_path = Some sf \<and> load_value 64 256 (li_junk io) sf = Some sig \<and>
    li_read io path = Some data \<and> data \<noteq> [] \<and> li_verify io sig data pubkey"
  using assms by (auto simp: verify_signature_def split: if_splits option.splits)

lemma install_local_extracts:
  assumes "install_local_lpkg io path db = (rc, db', acts)"
  shows "set acts \<inter> range Extracted \<subseteq> {Extracted path}"
    and "set acts \<inter> range Extracted \<noteq> {} \<or> rc = 0 \<Longrightarrow> verify_signature io path (bounded_copy 512 (path @ ''.sig''))"
  using assms by (auto simp: install_local_lpkg_def db_save_installed_def Let_def split: if_splits prod.splits option.splits)

text \<open>
  C4: nothing is unpacked that was not signed. Whenever a run of the package manager hands an
  archive to \<open>tar\<close> for unpacking, the trusted public key could be read, the file next to the archive held a signature, and
  libsodium accepted that signature for the content of the archive under that key. Without a public
  key file every installation is refused.
\<close>

theorem only_signed_packages_extracted:
  assumes "lpkg_main io argv = (rc, acts)" "Extracted path \<in> set acts"
  shows "\<exists>pf pubkey sf sig data. li_read io PUBKEY_PATH = Some pf \<and> load_value 32 128 (li_junk io) pf = Some pubkey \<and>
    li_read io (bounded_copy 512 (path @ ''.sig'')) = Some sf \<and> load_value 64 256 (li_junk io) sf = Some sig \<and>
    li_read io path = Some data \<and> data \<noteq> [] \<and> li_verify io sig data pubkey"
proof -
  have i: "verify_signature io path (bounded_copy 512 (path @ ''.sig''))"
    if "install_local_lpkg io p db = (r, db', as)" "Extracted path \<in> set as" for p db r db' as
    using install_local_extracts [OF that(1)] that(2) by auto
  have h: "verify_signature io path (bounded_copy 512 (path @ ''.sig''))"
    if "handle_install io target db = (r, db', as)" "Extracted path \<in> set as" for target db r db' as
    using that i by (auto simp: handle_install_def Let_def split: if_splits option.splits prod.splits)
  have "\<not> Extracted path \<in> set as" if "handle_remove io name db = (r, db', as)" for name db r db' as
    using that by (auto simp: handle_remove_def db_save_installed_def Let_def split: if_splits option.splits)
  with assms h have "verify_signature io path (bounded_copy 512 (path @ ''.sig''))"
    by (auto simp: lpkg_main_def handle_update_def Let_def split: if_splits prod.splits)
  from verified [OF this] show ?thesis .
qed

definition example_io :: lpkg_io where
  "example_io = \<lparr>li_exists = \<lambda>_. True,
     li_read = (\<lambda>p. if p = PUBKEY_PATH then Some (replicate 32 (CHR ''k''))
                    else if p = ''/tmp/luna-0.3.lpkg.sig'' then Some (replicate 64 (CHR ''s''))
                    else if p = ''/tmp/luna-0.3.lpkg'' then Some ''archive'' else None),
     li_sodium = True, li_alloc = True, li_junk = [],
     li_verify = (\<lambda>sig data key. sig = replicate 64 (CHR ''s'') \<and> data = ''archive'' \<and> key = replicate 32 (CHR ''k'')),
     li_extract = \<lambda>_. True, li_tar = \<lambda>_. Some (''usr/'' @ [LF] @ ''usr/bin/luna'' @ [LF]), li_save = Some 65536,
     li_curl = \<lambda>_ _. False\<rparr>"

lemma example_install:
  "\<exists>db. lpkg_main example_io [''lpkg'', ''install'', ''/tmp/luna-0.3.lpkg''] =
     (0, [Extracted ''/tmp/luna-0.3.lpkg'', Saved db])"
  by (simp add: lpkg_main_def handle_install_def install_local_lpkg_def verify_signature_def example_io_def
      load_value_def strip_eol_def bounded_copy_def db_load_installed_def db_index_def db_save_installed_def
      guess_package_def split_last_chr_def Let_def)

theorem only_signed_packages_extracted_witness:
  "\<exists>pf pubkey sf sig data. li_read example_io PUBKEY_PATH = Some pf \<and>
     load_value 32 128 (li_junk example_io) pf = Some pubkey \<and>
     li_read example_io (bounded_copy 512 (''/tmp/luna-0.3.lpkg'' @ ''.sig'')) = Some sf \<and>
     load_value 64 256 (li_junk example_io) sf = Some sig \<and>
     li_read example_io ''/tmp/luna-0.3.lpkg'' = Some data \<and> data \<noteq> [] \<and> li_verify example_io sig data pubkey"
proof -
  obtain db where "lpkg_main example_io [''lpkg'', ''install'', ''/tmp/luna-0.3.lpkg''] =
     (0, [Extracted ''/tmp/luna-0.3.lpkg'', Saved db])" using example_install by blast
  from only_signed_packages_extracted [OF this] show ?thesis by simp
qed

section \<open>The database as a map\<close>

definition db_map :: "lpkg list \<Rightarrow> string \<rightharpoonup> lpkg" where
  "db_map db = map_of (map (\<lambda>p. (pk_name p, p)) db)"

definition db_ok :: "lpkg list \<Rightarrow> bool" where
  "db_ok db \<longleftrightarrow> distinct (map pk_name db) \<and> length db \<le> MAX_DB_PKGS"

text \<open>The record an installation makes for an archive.\<close>

definition installed_pkg :: "lpkg_io \<Rightarrow> string \<Rightarrow> lpkg" where
  "installed_pkg io path =
     (case guess_package path of
        (name, version) \<Rightarrow>
          get_tar_file_list io path
            \<lparr>pk_name = name, pk_version = version, pk_description = bounded_copy 256 (name @ '' package''), pk_files = []\<rparr>)"

lemma guess_package_short:
  "guess_package path = (n, v) \<Longrightarrow> length n < LPKG_MAX_NAME \<and> length v < LPKG_MAX_VER"
  by (auto simp: guess_package_def bounded_copy_def Let_def split: option.splits)

lemma get_tar_simps [simp]:
  "pk_name (get_tar_file_list io path p) = pk_name p"
  "pk_version (get_tar_file_list io path p) = pk_version p"
  "pk_description (get_tar_file_list io path p) = pk_description p"
  by (simp_all add: get_tar_file_list_def split: option.split)

lemma installed_pkg_name: "pk_name (installed_pkg io path) = fst (guess_package path)"
  by (simp add: installed_pkg_def split: prod.split)

lemma install_local_success:
  assumes "install_local_lpkg io path db = (0, db', acts)"
  shows "db' = (case db_index (pk_name (installed_pkg io path)) db of
      Some i \<Rightarrow> db[i := installed_pkg io path] | None \<Rightarrow> db @ [installed_pkg io path])"
    and "db_index (pk_name (installed_pkg io path)) db = None \<Longrightarrow> length db < MAX_DB_PKGS"
    and "\<exists>room. li_save io = Some room \<and> acts = [Extracted path, Saved (take room (render_db db'))]"
proof -
  obtain n v where g: "guess_package path = (n, v)" by fastforce
  have b: "bounded_copy 64 n = n" "bounded_copy 32 v = v"
    using guess_package_short [OF g] by (simp_all add: bounded_copy_def)
  have p: "pk_name (installed_pkg io path) = n" using g by (simp add: installed_pkg_name)
  have "db' = (case db_index n db of Some i \<Rightarrow> db[i := installed_pkg io path] | None \<Rightarrow> db @ [installed_pkg io path]) \<and>
     (db_index n db = None \<longrightarrow> length db < MAX_DB_PKGS) \<and>
     (\<exists>room. li_save io = Some room \<and> acts = [Extracted path, Saved (take room (render_db db'))])"
    using assms g b
    by (auto simp: install_local_lpkg_def installed_pkg_def db_save_installed_def zero_lpkg_def Let_def
        split: if_splits option.splits)
  then show "db' = (case db_index (pk_name (installed_pkg io path)) db of
      Some i \<Rightarrow> db[i := installed_pkg io path] | None \<Rightarrow> db @ [installed_pkg io path])"
    and "db_index (pk_name (installed_pkg io path)) db = None \<Longrightarrow> length db < MAX_DB_PKGS"
    and "\<exists>room. li_save io = Some room \<and> acts = [Extracted path, Saved (take room (render_db db'))]" using p by auto
qed

lemma db_index_Some: "db_index n db = Some i \<Longrightarrow> i < length db \<and> pk_name (db ! i) = n"
  unfolding db_index_def by (drule first_index_Some) simp

lemma db_index_None: "db_index n db = None \<longleftrightarrow> n \<notin> pk_name ` set db"
  by (auto simp: db_index_def first_index_None)

lemma db_map_None: "db_map db n = None \<longleftrightarrow> n \<notin> pk_name ` set db"
  by (simp add: db_map_def map_of_eq_None_iff image_image)

lemma db_map_Some:
  assumes "distinct (map pk_name db)" shows "db_map db n = Some p \<longleftrightarrow> p \<in> set db \<and> pk_name p = n"
proof -
  have "distinct (map fst (map (\<lambda>p. (pk_name p, p)) db))" using assms by (simp add: comp_def)
  from map_of_eq_Some_iff [OF this] show ?thesis by (auto simp: db_map_def)
qed

lemma db_map_eqI:
  assumes "distinct (map pk_name db)" "\<And>n p. m n = Some p \<longleftrightarrow> p \<in> set db \<and> pk_name p = n"
  shows "db_map db = m"
proof (rule ext)
  fix n
  have "db_map db n = Some p \<longleftrightarrow> m n = Some p" for p using db_map_Some [OF assms(1)] assms(2) by blast
  then show "db_map db n = m n" by (metis option.exhaust)
qed

lemma map_update_same: "i < length xs \<Longrightarrow> f x = f (xs ! i) \<Longrightarrow> map f (xs[i := x]) = map f xs"
  by (simp add: map_update list_update_same_conv)

lemma db_map_update:
  assumes "distinct (map pk_name db)" "i < length db" "pk_name (db ! i) = pk_name p"
  shows "db_map (db[i := p]) = (db_map db)(pk_name p \<mapsto> p)"
proof (rule db_map_eqI)
  show "distinct (map pk_name (db[i := p]))" using assms by (simp add: map_update_same)
next
  fix n q
  have s: "set (db[i := p]) = insert p (set db - {db ! i})"
    using assms(1,2) by (simp add: set_update_distinct distinct_map)
  have "q = db ! i" if "q \<in> set db" "pk_name q = pk_name p"
    using assms that by (auto simp: distinct_map inj_on_def)
  then show "((db_map db)(pk_name p \<mapsto> p)) n = Some q \<longleftrightarrow> q \<in> set (db[i := p]) \<and> pk_name q = n"
    unfolding s using assms db_map_Some [OF assms(1)] by (auto split: if_splits)
qed

lemma db_map_snoc:
  assumes "distinct (map pk_name db)" "pk_name p \<notin> pk_name ` set db"
  shows "db_map (db @ [p]) = (db_map db)(pk_name p \<mapsto> p)"
proof (rule db_map_eqI)
  fix n q
  have "pk_name q \<noteq> pk_name p" if "q \<in> set db" using assms(2) imageI [OF that, of pk_name] by auto
  then show "((db_map db)(pk_name p \<mapsto> p)) n = Some q \<longleftrightarrow> q \<in> set (db @ [p]) \<and> pk_name q = n"
    using db_map_Some [OF assms(1)] by auto
qed (use assms in auto)

lemma db_map_delete:
  assumes "distinct (map pk_name db)" "i < length db"
  shows "distinct (map pk_name (take i db @ drop (Suc i) db)) \<and>
    db_map (take i db @ drop (Suc i) db) = (db_map db)(pk_name (db ! i) := None)"
proof -
  have e: "db = take i db @ db ! i # drop (Suc i) db" using assms(2) by (rule id_take_nth_drop)
  then have d: "distinct (map pk_name (take i db @ db ! i # drop (Suc i) db))" using assms(1) by metis
  have d': "distinct (map pk_name (take i db @ drop (Suc i) db))" using d by auto
  have s: "set db = insert (db ! i) (set (take i db @ drop (Suc i) db))" using arg_cong [OF e, of set] by auto
  have o: "pk_name q \<noteq> pk_name (db ! i)" if "q \<in> set (take i db @ drop (Suc i) db)" for q
  proof -
    have "pk_name (db ! i) \<notin> pk_name ` set (take i db @ drop (Suc i) db)" using d by (simp add: image_Un)
    with imageI [OF that, of pk_name] show ?thesis by metis
  qed
  have "db_map (take i db @ drop (Suc i) db) = (db_map db)(pk_name (db ! i) := None)"
  proof (rule db_map_eqI [OF d'])
    fix n q
    show "((db_map db)(pk_name (db ! i) := None)) n = Some q \<longleftrightarrow>
        q \<in> set (take i db @ drop (Suc i) db) \<and> pk_name q = n"
      using db_map_Some [OF assms(1), of n q] s o [of q] by auto
  qed
  with d' show ?thesis by simp
qed

lemma db_commands:
  assumes "db_ok db"
  shows "install_local_lpkg io path db = (0, db', acts) \<Longrightarrow>
      db_ok db' \<and> db_map db' = (db_map db)(pk_name (installed_pkg io path) \<mapsto> installed_pkg io path)"
    and "db_map db name = Some p \<Longrightarrow> handle_remove io name db = (rc, db'', acts') \<Longrightarrow>
      db_ok db'' \<and> db_map db'' = (db_map db)(name := None) \<and>
      acts' = map Unlinked (pk_files p) @ (case li_save io of None \<Rightarrow> [] | Some room \<Rightarrow> [Saved (take room (render_db db''))])"
    and "db_map db name = None \<Longrightarrow> handle_remove io name db = (- 1, db, [])"
proof -
  have d: "distinct (map pk_name db)" "length db \<le> 128" using assms by (simp_all add: db_ok_def)
  show "db_ok db' \<and> db_map db' = (db_map db)(pk_name (installed_pkg io path) \<mapsto> installed_pkg io path)"
    if "install_local_lpkg io path db = (0, db', acts)"
  proof (cases "db_index (pk_name (installed_pkg io path)) db")
    case None
    with install_local_success [OF that] d db_map_snoc [OF d(1), of "installed_pkg io path"] show ?thesis
      by (auto simp: db_ok_def db_index_None)
  next
    case (Some i)
    from db_index_Some [OF this] install_local_success(1) [OF that] Some d
      db_map_update [OF d(1), of i "installed_pkg io path"]
    show ?thesis by (simp add: db_ok_def map_update_same)
  qed
next
  assume p: "db_map db name = Some p" and r: "handle_remove io name db = (rc, db'', acts')"
  have d: "distinct (map pk_name db)" "length db \<le> 128" using assms by (simp_all add: db_ok_def)
  have m: "p \<in> set db" "pk_name p = name" using p db_map_Some [OF d(1)] by auto
  then obtain i where i: "db_index name db = Some i"
    using db_index_None [of name db] by (cases "db_index name db") auto
  note s = db_index_Some [OF i]
  with m d(1) have "db ! i = p" by (auto simp: distinct_map inj_on_def)
  with r i db_map_delete [OF d(1)] s d(2)
  show "db_ok db'' \<and> db_map db'' = (db_map db)(name := None) \<and>
      acts' = map Unlinked (pk_files p) @ (case li_save io of None \<Rightarrow> [] | Some room \<Rightarrow> [Saved (take room (render_db db''))])"
    by (auto simp: handle_remove_def db_save_installed_def db_ok_def Let_def split: if_splits option.splits)
next
  assume "db_map db name = None"
  then show "handle_remove io name db = (- 1, db, [])"
    by (simp add: db_map_None db_index_None [symmetric] handle_remove_def)
qed

text \<open>
  C17: the commands act on the map from names to packages the database stands for. A successful
  installation enters the record made from the archive under its name, replacing an older one;
  removing an installed package deletes its entry and unlinks exactly its files; a command on a
  package that is not installed changes nothing. Names stay unique and the table within its bound.
\<close>

theorem db_commands_refine:
  assumes "db_ok db"
  shows "(\<forall>io path db' acts. install_local_lpkg io path db = (0, db', acts) \<longrightarrow>
        db_ok db' \<and> db_map db' = (db_map db)(pk_name (installed_pkg io path) \<mapsto> installed_pkg io path)) \<and>
    (\<forall>io name p rc db' acts. db_map db name = Some p \<longrightarrow> handle_remove io name db = (rc, db', acts) \<longrightarrow>
        db_ok db' \<and> db_map db' = (db_map db)(name := None) \<and>
        acts = map Unlinked (pk_files p) @ (case li_save io of None \<Rightarrow> [] | Some room \<Rightarrow> [Saved (take room (render_db db'))])) \<and>
    (\<forall>io name. db_map db name = None \<longrightarrow> handle_remove io name db = (- 1, db, []))"
  using db_commands [OF assms] by blast

theorem db_commands_refine_witness:
  "db_ok [example_pkg] \<and>
   (\<exists>db' acts. install_local_lpkg example_io ''/tmp/luna-0.3.lpkg'' [example_pkg] = (0, db', acts) \<and>
      db_map db' = (db_map [example_pkg])(''luna'' \<mapsto> installed_pkg example_io ''/tmp/luna-0.3.lpkg'')) \<and>
   (\<exists>rc db' acts. handle_remove example_io ''luna'' [example_pkg] = (rc, db', acts) \<and>
      db_map db' = (db_map [example_pkg])(''luna'' := None)) \<and>
   handle_remove example_io ''nox'' [example_pkg] = (- 1, [example_pkg], [])"
proof -
  have ok: "db_ok [example_pkg]" by (simp add: db_ok_def)
  note r = db_commands_refine [OF ok]
  obtain db' acts where "install_local_lpkg example_io ''/tmp/luna-0.3.lpkg'' [example_pkg] = (0, db', acts)"
    by (simp add: install_local_lpkg_def verify_signature_def example_io_def load_value_def strip_eol_def
        bounded_copy_def db_index_def db_save_installed_def guess_package_def split_last_chr_def Let_def example_pkg_def)
  moreover have "pk_name (installed_pkg example_io ''/tmp/luna-0.3.lpkg'') = ''luna''"
    by (simp add: installed_pkg_name guess_package_def split_last_chr_def bounded_copy_def)
  moreover obtain rc db'' acts' where "handle_remove example_io ''luna'' [example_pkg] = (rc, db'', acts')"
    by (metis prod_cases3)
  moreover have "db_map [example_pkg] ''luna'' = Some example_pkg" "db_map [example_pkg] ''nox'' = None"
    by (simp_all add: db_map_def example_pkg_def)
  ultimately show ?thesis
    using ok conjunct1 [OF r, rule_format, of example_io "''/tmp/luna-0.3.lpkg''" db' acts]
      conjunct1 [OF conjunct2 [OF r], rule_format, of "''luna''" example_pkg example_io rc db'' acts']
      conjunct2 [OF conjunct2 [OF r], rule_format, of "''nox''" example_io]
    by simp
qed

section \<open>What an installation leaves for the next run\<close>

lemma set_split_chr: "split_chr c s = Some (a, b) \<Longrightarrow> set a \<subseteq> set s \<and> set b \<subseteq> set s"
  by (induction s arbitrary: a b) (auto split: if_splits)

lemma set_split_last_chr: "split_last_chr c s = Some (a, b) \<Longrightarrow> set a \<subseteq> set s \<and> set b \<subseteq> set s"
  by (auto simp: split_last_chr_def dest!: set_split_chr)

lemma plain_mono: "plain s \<Longrightarrow> set t \<subseteq> set s \<Longrightarrow> plain t"
  by (auto simp: plain_def)

lemma set_bounded_copy: "set (bounded_copy n s) \<subseteq> set s"
  by (simp add: bounded_copy_def set_take_subset)

lemma guess_package_plain:
  assumes "plain path" "guess_package path = (n, v)" shows "plain n \<and> plain v"
proof -
  define base where "base = (case split_last_chr CHR ''/'' path of None \<Rightarrow> path | Some (_, b) \<Rightarrow> b)"
  define name_buf where "name_buf = bounded_copy 128 base"
  define stem where "stem = (case split_last_chr CHR ''.'' name_buf of None \<Rightarrow> name_buf | Some (a, _) \<Rightarrow> a)"
  have "set base \<subseteq> set path" by (auto simp: base_def split: option.splits dest: set_split_last_chr)
  moreover have "set name_buf \<subseteq> set base" by (simp add: name_buf_def set_bounded_copy)
  moreover have "set stem \<subseteq> set name_buf" by (auto simp: stem_def split: option.splits dest: set_split_last_chr)
  ultimately have p: "plain stem" using plain_mono [OF assms(1)] by blast
  have c: "plain (bounded_copy m s)" if "plain s" for m s using plain_mono [OF that set_bounded_copy] .
  have "(n, v) = (case split_chr CHR ''-'' stem of
           Some (n, v) \<Rightarrow> (bounded_copy LPKG_MAX_NAME n, bounded_copy LPKG_MAX_VER v)
         | None \<Rightarrow> (bounded_copy LPKG_MAX_NAME stem, ''1.0''))"
    unfolding assms(2) [symmetric] guess_package_def Let_def base_def name_buf_def stem_def ..
  then show ?thesis
    using p c plain_mono [OF p] set_split_chr [of "CHR ''-''" stem]
    by (auto split: option.splits)
qed

lemma fgets_chunk_shape: "\<exists>l. LF \<notin> set l \<and> set l \<subseteq> set buf \<and> (fgets_chunk n buf = l \<or> fgets_chunk n buf = l @ [LF])"
proof -
  let ?l = "takeWhile (\<lambda>c. c \<noteq> LF) buf"
  have "LF \<notin> set ?l" "set ?l \<subseteq> set buf" by (auto dest: set_takeWhileD)
  moreover from this have "LF \<notin> set (take k ?l)" "set (take k ?l) \<subseteq> set buf" for k
    using set_take_subset [of k ?l] by blast+
  moreover have "fgets_chunk n buf = ?l @ [LF] \<or> fgets_chunk n buf = take (n - 1) ?l"
    by (simp add: fgets_chunk_def Let_def)
  ultimately show ?thesis by metis
qed

lemma chunk_line:
  assumes "c \<in> set (fgets_chunks n buf)"
  shows "\<exists>l. LF \<notin> set l \<and> set l \<subseteq> set buf \<and> (c = l \<or> c = l @ [LF])"
  using assms
proof (induction n buf rule: fgets_chunks.induct)
  case (1 n buf)
  show ?case
  proof (cases "buf = [] \<or> n \<le> 1 \<or> c = fgets_chunk n buf")
    case True
    with 1(2) fgets_chunk_shape [of buf n] show ?thesis by (auto simp: fgets_chunks.simps [of n buf])
  next
    case False
    with 1(2) have "c \<in> set (fgets_chunks n (drop (length (fgets_chunk n buf)) buf))"
      by (auto simp: fgets_chunks.simps [of n buf] Let_def)
    with 1(1) [OF _ refl] False obtain l where l: "LF \<notin> set l" "c = l \<or> c = l @ [LF]"
      "set l \<subseteq> set (drop (length (fgets_chunk n buf)) buf)" by auto
    moreover have "set (drop (length (fgets_chunk n buf)) buf) \<subseteq> set buf" by (rule set_drop_subset)
    ultimately have "set l \<subseteq> set buf" by (metis order_trans)
    with l show ?thesis by auto
  qed
qed

lemma set_strip_eol: "set (strip_eol s) \<subseteq> set s"
  by (auto simp: strip_eol_def dest: set_dropWhileD)

lemma tar_line_plain:
  assumes "c \<in> set (fgets_chunks n out)" "NUL \<notin> set out" "DQUOTE \<notin> set out"
  shows "plain (strip_eol (cstr c))"
proof -
  obtain l where l: "LF \<notin> set l" "set l \<subseteq> set out" "c = l \<or> c = l @ [LF]" using chunk_line [OF assms(1)] by blast
  have "NUL \<notin> set c" using l assms(2) by auto
  then have "strip_eol (cstr c) = strip_eol l" using l(3) by (auto simp: cstr_id strip_eol_LF)
  moreover have "set (strip_eol l) \<subseteq> set l" by (rule set_strip_eol)
  ultimately show ?thesis using l assms(2,3) by (auto simp: plain_def)
qed

lemma tar_files_plain:
  assumes "\<And>c. c \<in> set cs \<Longrightarrow> plain (strip_eol (cstr c))" "length files \<le> MAX_FILES"
    "list_all (\<lambda>f. plain f \<and> length f < 256 \<and> (\<exists>g. f = CHR ''/'' # g)) files"
  shows "length (tar_files cs files) \<le> MAX_FILES \<and>
    list_all (\<lambda>f. plain f \<and> length f < 256 \<and> (\<exists>g. f = CHR ''/'' # g)) (tar_files cs files)"
  using assms
proof (induction cs arbitrary: files)
  case (Cons c cs)
  have "plain (bounded_copy 256 (CHR ''/'' # strip_eol (cstr c)))"
    using plain_mono [OF _ set_bounded_copy, of "CHR ''/'' # strip_eol (cstr c)" 256] Cons.prems(1) [of c] by simp
  then have "list_all (\<lambda>f. plain f \<and> length f < 256 \<and> (\<exists>g. f = CHR ''/'' # g))
      (files @ [bounded_copy 256 (CHR ''/'' # strip_eol (cstr c))])"
    using Cons.prems(3) by (simp add: bounded_copy_def)
  with Cons.IH Cons.prems show ?case by (simp add: Let_def)
qed simp

lemma installed_pkg_plain:
  assumes "plain path" "\<And>out. li_tar io path = Some out \<Longrightarrow> NUL \<notin> set out \<and> DQUOTE \<notin> set out"
  shows "plain_pkg (installed_pkg io path)"
proof -
  obtain n v where g: "guess_package path = (n, v)" by fastforce
  note s = guess_package_short [OF g] and p = guess_package_plain [OF assms(1) g]
  have "length (pk_files (installed_pkg io path)) \<le> 256 \<and> list_all (\<lambda>f. plain f \<and> length f < 256 \<and>
      (\<exists>g. f = CHR ''/'' # g)) (pk_files (installed_pkg io path))"
  proof (cases "li_tar io path")
    case (Some out)
    with assms(2) tar_line_plain have "plain (strip_eol (cstr c))" if "c \<in> set (fgets_chunks 256 out)" for c
      using that by blast
    from tar_files_plain [OF this, of "fgets_chunks 256 out" "[]"] Some g show ?thesis
      by (simp add: installed_pkg_def get_tar_file_list_def)
  qed (use g in \<open>simp add: installed_pkg_def get_tar_file_list_def\<close>)
  moreover have "plain (bounded_copy 256 (n @ '' package''))"
    using plain_mono [OF _ set_bounded_copy, of "n @ '' package''" 256] p by simp
  moreover have "length (bounded_copy 256 x) < 256" for x by (simp add: bounded_copy_def)
  ultimately show ?thesis
    using s p g by (simp add: plain_pkg_def installed_pkg_def)
qed

text \<open>
  C16: what an installation records is what the next run finds, when the disk takes the whole
  database (write errors are not reported), the path of the archive has no quote, line end or NUL, its
  file names no quote or NUL, and the stored packages fit their records and have none of them either:
  then a successful installation leaves a database from which the next run loads exactly the table in
  memory, with the new package under its name.
\<close>

theorem install_persists:
  assumes "db_ok db" "list_all plain_pkg db" "plain path"
    "\<And>out. li_tar io path = Some out \<Longrightarrow> NUL \<notin> set out \<and> DQUOTE \<notin> set out"
    "install_local_lpkg io path db = (0, db', acts)"
    "\<And>room. li_save io = Some room \<Longrightarrow> length (render_db db') \<le> room"
  shows "\<exists>saved. acts = [Extracted path, Saved saved] \<and> db_load_installed MAX_DB_PKGS (Some saved) = db' \<and>
    db_map db' (fst (guess_package path)) = Some (installed_pkg io path)"
proof -
  note i = install_local_success [OF assms(5)]
  have pp: "plain_pkg (installed_pkg io path)" by (rule installed_pkg_plain [OF assms(3,4)])
  let ?n = "pk_name (installed_pkg io path)"
  have "list_all plain_pkg db' \<and> length db' \<le> 128 \<and> db_map db' ?n = Some (installed_pkg io path)"
  proof (cases "db_index ?n db")
    case None
    with i assms(1,2) pp db_map_snoc [of db "installed_pkg io path"] show ?thesis
      by (simp add: db_ok_def db_index_None)
  next
    case (Some j)
    note s = db_index_Some [OF this]
    have "list_all plain_pkg (db[j := installed_pkg io path])"
      using assms(2) pp set_update_subset_insert [of db j] by (fastforce simp: list_all_iff)
    with i Some s assms(1) db_map_update [of db j "installed_pkg io path"] show ?thesis
      by (simp add: db_ok_def)
  qed
  moreover from i(3) assms(6) have "acts = [Extracted path, Saved (render_db db')]" by force
  ultimately show ?thesis using db_load_rendered by (simp add: installed_pkg_name)
qed

theorem install_persists_witness:
  "\<exists>db' saved. install_local_lpkg example_io ''/tmp/luna-0.3.lpkg'' [] = (0, db', [Extracted ''/tmp/luna-0.3.lpkg'', Saved saved]) \<and>
     db_load_installed MAX_DB_PKGS (Some saved) = db' \<and>
     db_map db' ''luna'' = Some (installed_pkg example_io ''/tmp/luna-0.3.lpkg'')"
proof -
  let ?p = "''/tmp/luna-0.3.lpkg''"
  obtain db' acts where i: "install_local_lpkg example_io ?p [] = (0, db', acts)"
    by (simp add: install_local_lpkg_def verify_signature_def example_io_def load_value_def strip_eol_def
        bounded_copy_def db_index_def db_save_installed_def guess_package_def split_last_chr_def Let_def)
  have "NUL \<notin> set out \<and> DQUOTE \<notin> set out" if "li_tar example_io ?p = Some out" for out
    using that by (auto simp: example_io_def)
  moreover have "length (render_db db') \<le> room" if "li_save example_io = Some room" for room
    using that install_local_success(1) [OF i]
    by (simp add: example_io_def db_index_def installed_pkg_def get_tar_file_list_def guess_package_def split_last_chr_def
        bounded_copy_def render_db_def render_pkg_def fgets_chunks.simps fgets_chunk_def cstr_def strip_eol_def)
  ultimately show ?thesis using install_persists [OF _ _ _ _ i] i
    by (simp add: db_ok_def guess_package_def split_last_chr_def bounded_copy_def)
qed

section \<open>Keys and signatures\<close>

definition hex_digit :: "nat \<Rightarrow> char" where
  "hex_digit d = char_of (if d < 10 then 48 + d else 87 + d)"

definition to_hex :: "string \<Rightarrow> string" where
  "to_hex s = concat (map (\<lambda>c. [hex_digit (of_char c div 16), hex_digit (of_char c mod 16)]) s)"

lemma hex2val_digit: "d < 16 \<Longrightarrow> hex2val (hex_digit d) = int d"
proof -
  assume "d < 16"
  then have "d \<in> {0..<16}" by simp
  then show ?thesis
    by (simp add: hex2val_def hex_digit_def Let_def)
qed

lemma hex_pairs_to_hex: "hex_pairs (to_hex s) = Some s"
proof (induction s)
  case (Cons c s)
  have "(of_char c :: nat) div 16 < 16" by (rule less_mult_imp_div_less) simp
  moreover have "nat (16 * int (m div 16) + int (m mod 16)) = m" for m :: nat
  proof -
    have "16 * int (m div 16) + int (m mod 16) = int (16 * (m div 16) + m mod 16)" by (simp only: of_nat_add of_nat_mult of_nat_numeral)
    then show ?thesis by (simp only: mult_div_mod_eq nat_int)
  qed
  ultimately show ?case using Cons by (simp add: to_hex_def hex2val_digit del: of_nat_of_char)
qed (simp add: to_hex_def)

lemma hex_digit_plain: "d < 16 \<Longrightarrow> hex_digit d \<noteq> NUL \<and> hex_digit d \<noteq> LF \<and> hex_digit d \<noteq> CR"
  using hex2val_digit [of d] by (auto simp: hex2val_def)

lemma to_hex_plain: "c \<in> set (to_hex s) \<Longrightarrow> c \<noteq> NUL \<and> c \<noteq> LF \<and> c \<noteq> CR"
proof -
  have "(of_char x :: nat) div 16 < 16" for x :: char by (rule less_mult_imp_div_less) simp
  moreover assume "c \<in> set (to_hex s)"
  ultimately show ?thesis using hex_digit_plain by (auto simp: to_hex_def)
qed

lemma length_to_hex [simp]: "length (to_hex s) = 2 * length s"
  by (induction s) (simp_all add: to_hex_def)

lemma value_forms_cases:
  assumes "length v = n" "0 < n" "2 * n + length eol < buf_size" "set eol \<subseteq> {LF, CR}"
  shows "load_value n buf_size junk (to_hex v @ eol) = Some v"
    and "load_value n buf_size junk (v @ eol) = (if last v \<in> {LF, CR} then None else Some v)"
    and "load_value n buf_size junk file \<noteq> None \<Longrightarrow>
      length (strip_eol (take (buf_size - 1) file)) \<in> {n, 2 * n}"
proof -
  have e: "strip_eol (s @ eol) = strip_eol s" for s
    using assms(4) by (induction eol rule: rev_induct) (auto simp: strip_eol_def simp flip: append_assoc)
  have "to_hex v = [] \<or> last (to_hex v) \<in> set (to_hex v)" by (cases "to_hex v = []") auto
  then have h: "strip_eol (to_hex v) = to_hex v" "cstr (to_hex v) = to_hex v"
    using to_hex_plain [of "last (to_hex v)" v] to_hex_plain [of NUL v]
    by (blast intro: strip_eol_id cstr_id)+
  show "load_value n buf_size junk (to_hex v @ eol) = Some v"
    using assms h by (simp add: load_value_def Let_def e hex2bin_def hex_pairs_to_hex)
  have l: "length (strip_eol v) < n" if lv: "last v \<in> {LF, CR}"
  proof -
    obtain w c where "v = w @ [c]" "c = LF \<or> c = CR" using assms(1,2) lv by (cases v rule: rev_cases) auto
    then have "strip_eol v = strip_eol w" "length w < n" using assms(1) by (auto simp: strip_eol_def)
    moreover have "length (strip_eol w) \<le> length w"
      using dropWhile_length [of "\<lambda>c. c = LF \<or> c = CR" "rev w"] by (simp add: strip_eol_def)
    ultimately show ?thesis by simp
  qed
  have "strip_eol v = v" if "last v \<notin> {LF, CR}" using that by (intro strip_eol_id) auto
  with assms l show "load_value n buf_size junk (v @ eol) = (if last v \<in> {LF, CR} then None else Some v)"
    by (auto simp: load_value_def Let_def e)
  show "length (strip_eol (take (buf_size - 1) file)) \<in> {n, 2 * n}" if "load_value n buf_size junk file \<noteq> None"
    using that by (auto simp: load_value_def Let_def split: if_splits)
qed

text \<open>
  A key or signature is read the same from both its forms. For a value of the right length, the
  hexadecimal text, with or without line ends behind it, gives the value; so do the raw bytes,
  unless the last of them is a line end, when the file is refused. Nothing but these two lengths is
  ever accepted.
\<close>

theorem value_forms:
  assumes "length v = n" "0 < n" "2 * n + length eol < buf_size" "set eol \<subseteq> {LF, CR}"
  shows "load_value n buf_size junk (to_hex v @ eol) = Some v \<and>
    load_value n buf_size junk (v @ eol) = (if last v \<in> {LF, CR} then None else Some v) \<and>
    (\<forall>file. load_value n buf_size junk file \<noteq> None \<longrightarrow>
       length (strip_eol (take (buf_size - 1) file)) \<in> {n, 2 * n})"
  using value_forms_cases [OF assms] by blast

theorem value_forms_witness:
  "load_value 2 128 [] (''6b0a'' @ [CR, LF]) = Some [CHR ''k'', LF] \<and>
   load_value 2 128 [] ([CHR ''k'', LF] @ [LF]) = None \<and> load_value 2 128 [] (''kk'' @ [LF]) = Some ''kk''"
proof -
  have "to_hex [CHR ''k'', LF] = ''6b0a''" by code_simp
  then show ?thesis
    using value_forms [of "[CHR ''k'', LF]" 2 "[CR, LF]" 128 "[]"]
      value_forms [of "[CHR ''k'', LF]" 2 "[LF]" 128 "[]"] value_forms [of "''kk''" 2 "[LF]" 128 "[]"]
    by simp
qed

text \<open>
  A signature file of 128 bytes that contains a NUL is accepted as hexadecimal although only the part
  before the NUL is decoded: the rest of the value is what the uninitialised array held.
\<close>

theorem short_hex_uses_uninitialised_bytes:
  assumes "length v < n" "2 * length v + length pad = 2 * n" "2 * n < buf_size"
    "pad \<noteq> []" "hd pad = NUL" "last pad \<notin> {LF, CR}"
  shows "load_value n buf_size junk (to_hex v @ pad) = Some (v @ drop (length v) (take n junk))"
proof -
  have "strip_eol (to_hex v @ pad) = to_hex v @ pad" using assms(4,6) by (intro strip_eol_id) auto
  moreover have "cstr (to_hex v @ pad) = to_hex v"
  proof -
    obtain w where "pad = NUL # w" using assms(4,5) by (cases pad) auto
    with to_hex_plain [of NUL v] show ?thesis unfolding cstr_def by (simp add: takeWhile_tail) (auto intro!: takeWhile_eq_all_conv [THEN iffD2])
  qed
  ultimately show ?thesis using assms by (simp add: load_value_def Let_def hex2bin_def hex_pairs_to_hex)
qed

text \<open>
  The name is cut at the first dash, so a package whose name contains one is recorded, and later
  looked up and removed, under the first part of it.
\<close>

theorem dashed_name_is_cut:
  assumes "CHR ''/'' \<notin> set (a @ b @ v)" "CHR ''-'' \<notin> set a" "CHR ''.'' \<notin> set ext" "CHR ''/'' \<notin> set ext"
    "length (a @ b @ v @ ext) < 124" "length a < LPKG_MAX_NAME"
  shows "fst (guess_package (a @ ''-'' @ b @ ''-'' @ v @ ''.'' @ ext)) = a"
proof -
  have s: "split_chr c (x @ c # y) = Some (x, y)" if "c \<notin> set x" for c x y
    using that by (induction x) auto
  have n: "split_chr c x = None" if "c \<notin> set x" for c x using that by (induction x) auto
  let ?p = "a @ CHR ''-'' # b @ CHR ''-'' # v @ CHR ''.'' # ext"
  have "split_last_chr CHR ''/'' ?p = None" using assms(1,4) n [of "CHR ''/''" "rev ?p"] by (auto simp: split_last_chr_def)
  moreover have "bounded_copy 128 ?p = ?p" using assms(5) by (simp add: bounded_copy_def)
  moreover have "split_last_chr CHR ''.'' ?p = Some (a @ CHR ''-'' # b @ CHR ''-'' # v, ext)"
    using assms(3) s [of "CHR ''.''" "rev ext" "rev (a @ CHR ''-'' # b @ CHR ''-'' # v)"] by (simp add: split_last_chr_def)
  ultimately show ?thesis
    using s [OF assms(2)] assms(6) by (simp add: guess_package_def bounded_copy_def)
qed

section \<open>Extraction\<close>

unbundle bit_operations_syntax

text \<open>
  \<open>extract_package\<close>: the arguments of the \<open>tar\<close> it runs, and its result from what \<open>fork\<close> returns and the
  status \<open>waitpid\<close> reports (\<open>None\<close>: it fails). This is what the field \<open>li_extract\<close> stands for.
\<close>

definition extract_argv :: "string \<Rightarrow> string \<Rightarrow> string list" where
  "extract_argv lpkg_path dest_dir = [''tar'', ''-xf'', lpkg_path, ''-C'', dest_dir]"

definition extract_package :: "int \<Rightarrow> u32 option \<Rightarrow> int" where
  "extract_package pid status =
     (if pid < 0 then - 1
      else
        (case status of
           None \<Rightarrow> - 1
         | Some s \<Rightarrow> if s AND 0x7F = 0 \<and> drop_bit 8 s AND 0xFF = 0 then 0 else - 1))"

text \<open>Downloads, in the same way; the field \<open>li_curl\<close> stands for this.\<close>

definition curl_argv :: "string \<Rightarrow> string \<Rightarrow> string list" where
  "curl_argv url dest_path = [''curl'', ''-s'', ''-L'', ''-o'', dest_path, url]"

definition run_curl :: "int \<Rightarrow> u32 option \<Rightarrow> int" where
  "run_curl pid status =
     (if pid < 0 then - 1
      else
        (case status of
           None \<Rightarrow> - 1
         | Some s \<Rightarrow> if s AND 0x7F = 0 \<and> drop_bit 8 s AND 0xFF = 0 then 0 else - 1))"

text \<open>A status as the kernel builds it, from an exit code or a signal.\<close>

definition wait_status_word :: "u8 \<Rightarrow> u8 \<Rightarrow> u32" where
  "wait_status_word code sig = push_bit 8 (ucast code) OR ucast sig"

lemma extract_package_ok:
  assumes "0 \<le> pid" "\<not> bit sig 7"
  shows "extract_package pid (Some (wait_status_word code sig)) = 0 \<longleftrightarrow> code = 0 \<and> sig = 0"
proof -
  let ?s = "wait_status_word code sig"
  have lo: "?s AND 0x7F = ucast sig"
  proof (rule bit_word_eqI)
    fix n assume "n < LENGTH(32)"
    have m: "(0x7F :: u32) = mask 7" by (simp add: mask_eq_exp_minus_1)
    have "n < 7 \<or> n = 7 \<or> 8 \<le> n" by linarith
    then show "bit (?s AND 0x7F) n \<longleftrightarrow> bit (ucast sig :: u32) n"
      unfolding m using assms(2) by (auto simp: wait_status_word_def bit_simps dest: bit_imp_le_length)
  qed
  have hi: "drop_bit 8 ?s AND 0xFF = ucast code"
  proof (rule bit_word_eqI)
    fix n assume "n < LENGTH(32)"
    have m: "(0xFF :: u32) = mask 8" by (simp add: mask_eq_exp_minus_1)
    show "bit (drop_bit 8 ?s AND 0xFF) n \<longleftrightarrow> bit (ucast code :: u32) n"
      unfolding m using \<open>n < LENGTH(32)\<close>
      by (auto simp: wait_status_word_def bit_simps dest: bit_imp_le_length)
  qed
  have u: "w = 0" if "(ucast w :: u32) = 0" for w :: u8
  proof (rule bit_word_eqI)
    fix n assume "n < LENGTH(8)"
    then show "bit w n \<longleftrightarrow> bit (0 :: u8) n" using arg_cong [OF that, of "\<lambda>v. bit v n"] by (simp add: bit_simps)
  qed
  with lo hi assms(1) show ?thesis by (auto simp: extract_package_def dest: u)
qed

lemma run_curl_ok:
  assumes "0 \<le> pid" "\<not> bit sig 7"
  shows "run_curl pid (Some (wait_status_word code sig)) = 0 \<longleftrightarrow> code = 0 \<and> sig = 0"
  using extract_package_ok [OF assms, of code] by (simp only: run_curl_def extract_package_def)

end
