(* ===== verification/Luna_Ai.thy ===== *)
theory Luna_Ai
  imports Mahina_Prelude "HOL-Library.Multiset"
begin

text \<open>
  The assistant daemon \<open>luna-ai-d\<close>: the presence state machine (\<open>presence.c\<close>), the prompt path
  with its JSON text functions, the HTTP request to the local model server and the streaming of its
  response (\<open>inference.c\<close>), and the table of clients, the commands and the events of \<open>main.c\<close>.

  What the kernel answers is an argument: the outcome of each socket call, the bytes the model server
  sends and, for every \<open>read\<close>, how many of them it delivers at most. A write that would read behind
  its buffer is \<open>None\<close>. Shown are the round trip of a response through the daemon, that the cuts of the
  stream do not matter, and that no connection is lost or closed twice.
\<close>

section \<open>Presence\<close>

datatype ai_mode = MODE_AMBIENT | MODE_DEVSHELL | MODE_FOCUS | MODE_STUDY | MODE_CREATIVE

fun ai_mode_to_string :: "ai_mode \<Rightarrow> string" where
  "ai_mode_to_string MODE_AMBIENT = ''AMBIENT''"
| "ai_mode_to_string MODE_DEVSHELL = ''DEVSHELL''"
| "ai_mode_to_string MODE_FOCUS = ''FOCUS''"
| "ai_mode_to_string MODE_STUDY = ''STUDY''"
| "ai_mode_to_string MODE_CREATIVE = ''CREATIVE''"

definition ai_mode_from_string :: "string \<Rightarrow> ai_mode" where
  "ai_mode_from_string str =
     (if str = ''AMBIENT'' then MODE_AMBIENT
      else if str = ''DEVSHELL'' then MODE_DEVSHELL
      else if str = ''FOCUS'' then MODE_FOCUS
      else if str = ''STUDY'' then MODE_STUDY
      else if str = ''CREATIVE'' then MODE_CREATIVE
      else MODE_AMBIENT)"

definition tolower :: "char \<Rightarrow> char" where
  "tolower c = (if 65 \<le> (of_char c :: nat) \<and> (of_char c :: nat) \<le> 90 then char_of ((of_char c :: nat) + 32) else c)"

abbreviation (input) contains :: "string \<Rightarrow> string \<Rightarrow> bool" where "contains s n \<equiv> split_str n s \<noteq> None"

text \<open>\<open>presence_update_active_app\<close>: the new value of \<open>g_current_mode\<close>.\<close>

definition presence_update_active_app :: "string \<Rightarrow> ai_mode" where
  "presence_update_active_app app_name =
     (if app_name = [] then MODE_AMBIENT
      else
        (let buf = map tolower (take 127 app_name) in
         if contains buf ''terminal'' \<or> contains buf ''shell'' \<or> contains buf ''code'' then MODE_DEVSHELL
         else if contains buf ''tasks'' \<or> contains buf ''calc'' \<or> contains buf ''math'' then MODE_FOCUS
         else if contains buf ''text'' \<or> contains buf ''writer'' \<or> contains buf ''draw'' \<or> contains buf ''paint''
         then MODE_CREATIVE
         else if contains buf ''browser'' \<or> contains buf ''study'' \<or> contains buf ''web'' then MODE_STUDY
         else MODE_AMBIENT))"

section \<open>JSON text\<close>

definition escape_char :: "char \<Rightarrow> string" where
  "escape_char c =
     (if c = DQUOTE then [BSLASH, DQUOTE]
      else if c = BSLASH then [BSLASH, BSLASH]
      else if c = LF then [BSLASH, CHR ''n'']
      else if c = CR then [BSLASH, CHR ''r'']
      else if c = CHR 0x09 then [BSLASH, CHR ''t'']
      else [c])"

text \<open>The loop of \<open>escape_json_string\<close>; \<open>d\<close> is the number of characters already written.\<close>

fun escape_from :: "nat \<Rightarrow> nat \<Rightarrow> string \<Rightarrow> string" where
  "escape_from dst_size d [] = []"
| "escape_from dst_size d (c # cs) =
     (if d + 4 < dst_size then escape_char c @ escape_from dst_size (d + length (escape_char c)) cs else [])"

definition escape_json_string :: "nat \<Rightarrow> string \<Rightarrow> string" where
  "escape_json_string dst_size src = escape_from dst_size 0 src"

definition skip_blanks :: "string \<Rightarrow> string" where
  "skip_blanks = dropWhile (\<lambda>c. c = CHR '' '' \<or> c = CHR 0x09)"

text \<open>The text behind \<open>"key":\<close> and white space, in the first place where that occurs.\<close>

definition after_key :: "string \<Rightarrow> string \<Rightarrow> string option" where
  "after_key json key =
     map_option (\<lambda>(_, rest). skip_blanks rest)
       (split_str (bounded_copy 64 ([DQUOTE] @ key @ [DQUOTE] @ '':'')) json)"

text \<open>The loops that copy the value: with escapes (\<open>inference.c\<close>) and without (\<open>main.c\<close>).\<close>

fun unescape_into :: "nat \<Rightarrow> string \<Rightarrow> string" where
  "unescape_into room [] = []"
| "unescape_into room (c # cs) =
     (if c = DQUOTE \<or> room = 0 then []
      else if c = BSLASH
      then (case cs of
              [] \<Rightarrow> c # unescape_into (room - 1) cs
            | e # rest \<Rightarrow>
                (if e = CHR ''n'' then LF else if e = CHR ''t'' then CHR 0x09 else e)
                  # unescape_into (room - 1) rest)
      else c # unescape_into (room - 1) cs)"

definition extract_json_str_field :: "string \<Rightarrow> string \<Rightarrow> nat \<Rightarrow> string option" where
  "extract_json_str_field json key out_size =
     (case after_key json key of
        None \<Rightarrow> None
      | Some pos \<Rightarrow>
          (case pos of
             c # rest \<Rightarrow> if c = DQUOTE then Some (unescape_into (out_size - 1) rest) else None
           | [] \<Rightarrow> None))"

definition extract_json_str :: "string \<Rightarrow> string \<Rightarrow> nat \<Rightarrow> string option" where
  "extract_json_str json key out_size =
     (case after_key json key of
        None \<Rightarrow> None
      | Some pos \<Rightarrow>
          (case pos of
             c # rest \<Rightarrow> if c = DQUOTE then Some (take (out_size - 1) (takeWhile (\<lambda>x. x \<noteq> DQUOTE) rest)) else None
           | [] \<Rightarrow> None))"

section \<open>Inference\<close>

text \<open>
  A message to the client: what \<open>snprintf\<close> put into the buffer of 4096 bytes, written with the
  length the text would have had. A longer text makes the write read behind the buffer (\<open>None\<close>); of
  exactly 4096 characters the last one is the terminating NUL. The result of these writes is not
  looked at, so the model records the buffers that are handed to \<open>write\<close>, one per call; how much of
  each the kernel takes for the client's non-blocking socket has no influence on the daemon.
\<close>

definition chunk_text :: "string \<Rightarrow> string" where
  "chunk_text s =
     ''{'' @ [DQUOTE] @ ''type'' @ [DQUOTE] @ '':'' @ [DQUOTE] @ ''chunk'' @ [DQUOTE] @ '','' @ [DQUOTE] @ ''text'' @
     [DQUOTE] @ '':'' @ [DQUOTE] @ s @ [DQUOTE] @ ''}'' @ [LF]"

definition write_formatted :: "nat \<Rightarrow> string \<Rightarrow> string option" where
  "write_formatted buf_size s =
     (if length s < buf_size then Some s
      else if length s = buf_size then Some (take (buf_size - 1) s @ [NUL])
      else None)"

definition done_text :: string where
  "done_text = ''{'' @ [DQUOTE] @ ''type'' @ [DQUOTE] @ '':'' @ [DQUOTE] @ ''done'' @ [DQUOTE] @ ''}'' @ [LF]"

definition done_mark :: string where
  "done_mark = [DQUOTE] @ ''done'' @ [DQUOTE] @ '':true''"

text \<open>The buffers that one line of the response makes the daemon write to the client.\<close>

definition response_line :: "string \<Rightarrow> string list option" where
  "response_line line =
     (case line of
        [] \<Rightarrow> Some []
      | c # _ \<Rightarrow>
          if c \<noteq> CHR ''{'' then Some []
          else
            (let fin = (if contains line done_mark then [done_text] else []) in
             case extract_json_str_field line ''response'' 2048 of
               None \<Rightarrow> Some fin
             | Some response_text \<Rightarrow>
                 map_option (\<lambda>m. m # fin) (write_formatted 4096 (chunk_text (escape_json_string 4096 response_text)))))"

text \<open>
  The loop over the complete lines in the buffer; also what is behind the last of them. \<open>strchr\<close>
  looks up to the first NUL only.
\<close>

definition next_line :: "string \<Rightarrow> (string \<times> string) option" where
  "next_line buf = map_option (\<lambda>(line, _). (line, drop (length line + 1) buf)) (split_chr LF (cstr buf))"

lemma next_line_SomeD: "next_line buf = Some (line, rest) \<Longrightarrow> length rest < length buf"
  using length_cstr_le [of buf] by (auto simp: next_line_def split_chr_Some)

function response_lines :: "string \<Rightarrow> (string list \<times> string) option" where
  "response_lines buf =
     (case next_line buf of
        None \<Rightarrow> Some ([], buf)
      | Some (line, rest) \<Rightarrow>
          (case response_line line of
             None \<Rightarrow> None
           | Some out \<Rightarrow> map_option (\<lambda>(o', r). (out @ o', r)) (response_lines rest)))"
  by pat_completeness auto
termination
  by (relation "measure length") (auto dest: next_line_SomeD)

declare response_lines.simps [simp del]

abbreviation (input) RX_SIZE :: nat where "RX_SIZE \<equiv> 8192"

definition http_head_end :: string where
  "http_head_end = [CR, LF, CR, LF]"

text \<open>What follows the HTTP headers, once their end is in the buffer.\<close>

definition http_body :: "string \<Rightarrow> string option" where
  "http_body buf =
     map_option (\<lambda>(head, _). drop (length head + 4) buf) (split_str http_head_end (cstr buf))"

text \<open>
  The read loop: the stream of bytes the server sends and, for each \<open>read\<close>, the most it delivers.
  The loop ends when nothing is left, when a call delivers nothing, or when the buffer is full. The
  state is the buffer and whether the headers have been passed.
\<close>

primrec response_loop :: "nat list \<Rightarrow> string \<Rightarrow> string \<Rightarrow> bool \<Rightarrow> string list option" where
  "response_loop [] stream buf headers_passed = Some []"
| "response_loop (most # sizes) stream buf headers_passed =
     (let n = min (min most (RX_SIZE - length buf - 1)) (length stream) in
      if n = 0 then Some []
      else
        (let buf1 = buf @ take n stream; stream1 = drop n stream in
         case (if headers_passed then Some buf1 else http_body buf1) of
           None \<Rightarrow> response_loop sizes stream1 (if length buf1 \<ge> RX_SIZE - 1 then [] else buf1) False
         | Some start \<Rightarrow>
             (case response_lines start of
                None \<Rightarrow> None
              | Some (out, rest) \<Rightarrow> map_option ((@) out) (response_loop sizes stream1 rest True))))"

text \<open>
  What the kernel answers in \<open>inference_prompt\<close>, and the error texts. \<open>ii_write\<close> is the result of the
  write to the server: negative, or how much of the request was taken.
\<close>

record inference_io =
  ii_model :: "string option"
  ii_socket :: bool
  ii_errno :: string
  ii_connect :: bool
  ii_write :: int
  ii_sizes :: "nat list"
  ii_stream :: string

definition error_text :: "string \<Rightarrow> string" where
  "error_text t =
     ''{'' @ [DQUOTE] @ ''type'' @ [DQUOTE] @ '':'' @ [DQUOTE] @ ''error'' @ [DQUOTE] @ '','' @ [DQUOTE] @ ''text'' @
     [DQUOTE] @ '':'' @ [DQUOTE] @ t @ [DQUOTE] @ ''}'' @ [LF]"

definition prompt_payload :: "string \<Rightarrow> string \<Rightarrow> string" where
  "prompt_payload model escaped =
     ''{'' @ [DQUOTE] @ ''model'' @ [DQUOTE] @ '':'' @ [DQUOTE] @ model @ [DQUOTE] @ '','' @ [DQUOTE] @ ''prompt'' @
     [DQUOTE] @ '':'' @ [DQUOTE] @ escaped @ [DQUOTE] @ '','' @ [DQUOTE] @ ''stream'' @ [DQUOTE] @ '':true}''"

definition http_request :: "string \<Rightarrow> nat \<Rightarrow> string" where
  "http_request payload payload_len =
     ''POST /api/generate HTTP/1.1'' @ [CR, LF] @ ''Host: localhost:11434'' @ [CR, LF] @
     ''Content-Type: application/json'' @ [CR, LF] @ ''Content-Length: '' @ show_nat payload_len @ [CR, LF] @
     ''Connection: close'' @ [CR, LF, CR, LF] @ payload"

text \<open>The result, the bytes the server was sent and the buffers written to the client.\<close>

definition inference_prompt :: "inference_io \<Rightarrow> string \<Rightarrow> (int \<times> string \<times> string list) option" where
  "inference_prompt io prompt =
     (let escaped = escape_json_string 4096 prompt;
          model = (case ii_model io of None \<Rightarrow> ''llama3'' | Some m \<Rightarrow> m);
          full = prompt_payload model escaped;
          payload = bounded_copy 8192 full
      in if \<not> ii_socket io
         then Some (- 1, [], [bounded_copy 128 (error_text (''socket() failed: '' @ ii_errno io))])
         else if \<not> ii_connect io
         then Some (- 1, [], [error_text ''Ollama connection failed. Is Ollama running on port 11434?''])
         else
           (case write_formatted 16384 (http_request payload (length full)) of
              None \<Rightarrow> None
            | Some req \<Rightarrow>
                if ii_write io < 0 then Some (- 1, [], [error_text ''HTTP write failed''])
                else map_option (\<lambda>out. (0, take (nat (ii_write io)) req, out)) (response_loop (ii_sizes io) (ii_stream io) [] False)))"

section \<open>The daemon\<close>

text \<open>
  The globals of \<open>main.c\<close> and \<open>presence.c\<close>, with the buffers handed to \<open>write\<close> for which descriptor
  and the descriptors closed.
\<close>

record ai_state =
  g_clients :: "int list"
  g_current_mode :: ai_mode
  ai_sent :: "(int \<times> string) list"
  ai_closed :: "int list"

abbreviation (input) MAX_CLIENTS :: nat where "MAX_CLIENTS \<equiv> 10"
abbreviation (input) BUF_SIZE :: nat where "BUF_SIZE \<equiv> 2048"

definition add_client :: "int \<Rightarrow> ai_state \<Rightarrow> ai_state" where
  "add_client fd st =
     (if length (g_clients st) < MAX_CLIENTS then st\<lparr>g_clients := g_clients st @ [fd]\<rparr>
      else st\<lparr>ai_closed := ai_closed st @ [fd]\<rparr>)"

definition remove_client :: "int \<Rightarrow> ai_state \<Rightarrow> ai_state" where
  "remove_client fd st =
     (case first_index (\<lambda>c. c = fd) (g_clients st) of
        None \<Rightarrow> st
      | Some i \<Rightarrow> st\<lparr>ai_closed := ai_closed st @ [fd],
                     g_clients := butlast ((g_clients st)[i := last (g_clients st)])\<rparr>)"

definition mode_text :: "ai_mode \<Rightarrow> string" where
  "mode_text mode =
     ''{'' @ [DQUOTE] @ ''type'' @ [DQUOTE] @ '':'' @ [DQUOTE] @ ''mode'' @ [DQUOTE] @ '','' @ [DQUOTE] @ ''mode'' @
     [DQUOTE] @ '':'' @ [DQUOTE] @ ai_mode_to_string mode @ [DQUOTE] @ ''}'' @ [LF]"

definition ai_send :: "int \<Rightarrow> string \<Rightarrow> ai_state \<Rightarrow> ai_state" where
  "ai_send fd s st = st\<lparr>ai_sent := ai_sent st @ [(fd, s)]\<rparr>"

definition broadcast_mode :: "ai_mode \<Rightarrow> ai_state \<Rightarrow> ai_state" where
  "broadcast_mode mode st = st\<lparr>ai_sent := ai_sent st @ map (\<lambda>fd. (fd, mode_text mode)) (g_clients st)\<rparr>"

text \<open>The fixed replies are written with a constant length.\<close>

definition handle_command :: "int \<Rightarrow> string \<Rightarrow> inference_io \<Rightarrow> ai_state \<Rightarrow> ai_state option" where
  "handle_command fd buf io st =
     (case extract_json_str buf ''cmd'' 64 of
        None \<Rightarrow> Some (ai_send fd (take 52 (error_text ''invalid json: missing cmd'')) st)
      | Some cmd \<Rightarrow>
          if cmd = ''get_mode'' then Some (ai_send fd (mode_text (g_current_mode st)) st)
          else if cmd = ''set_active_app''
          then (case extract_json_str buf ''app'' 128 of
                  Some app \<Rightarrow>
                    (let old_mode = g_current_mode st;
                         new_mode = presence_update_active_app app;
                         st1 = st\<lparr>g_current_mode := new_mode\<rparr>
                     in Some (if old_mode \<noteq> new_mode then broadcast_mode new_mode st1
                              else ai_send fd (mode_text new_mode) st1))
                | None \<Rightarrow> Some (ai_send fd (take 44 (error_text ''missing app field'')) st))
          else if cmd = ''prompt''
          then (case extract_json_str buf ''text'' 2048 of
                  Some t \<Rightarrow>
                    map_option (\<lambda>(_, _, out). st\<lparr>ai_sent := ai_sent st @ map (Pair fd) out\<rparr>) (inference_prompt io t)
                | None \<Rightarrow> Some (ai_send fd (take 45 (error_text ''missing text field'')) st))
          else Some (ai_send fd (take 41 (error_text ''unknown command'')) st))"

text \<open>\<open>handle_client_data\<close>: the argument is what \<open>read\<close> delivered, \<open>None\<close> when it returned 0 or less.\<close>

definition handle_client_data :: "int \<Rightarrow> string option \<Rightarrow> inference_io \<Rightarrow> ai_state \<Rightarrow> ai_state option" where
  "handle_client_data fd answer io st =
     (case answer of
        None \<Rightarrow> Some (remove_client fd st)
      | Some bytes \<Rightarrow> handle_command fd (cstr (take (BUF_SIZE - 1) bytes)) io st)"

datatype ai_event = AiAccept int | AiHangup int | AiInput int "string option" inference_io

fun ai_event_step :: "ai_event \<Rightarrow> ai_state \<Rightarrow> ai_state option" where
  "ai_event_step (AiAccept client_fd) st = Some (if client_fd \<ge> 0 then add_client client_fd st else st)"
| "ai_event_step (AiHangup fd) st = Some (remove_client fd st)"
| "ai_event_step (AiInput fd answer io) st = handle_client_data fd answer io st"

definition ai_start :: ai_state where
  "ai_start = \<lparr>g_clients = [], g_current_mode = MODE_AMBIENT, ai_sent = [], ai_closed = []\<rparr>"

section \<open>Splitting text\<close>

lemma split_str_here: "split_str n (n @ b) = Some ([], b)"
proof (cases "n @ b")
  case (Cons x xs)
  then have "take (length n) (x # xs) = n" "drop (length n) (x # xs) = b" by (simp_all flip: Cons)
  with Cons show ?thesis by simp
qed simp

lemma split_str_occurs: "split_str n (a @ n @ b) \<noteq> None"
  by (induction a) (auto simp: split_str_here)

lemma split_str_append:
  assumes "split_str n s = Some (a, b)" shows "split_str n (s @ t) = Some (a, b @ t)"
  using assms
proof (induction s arbitrary: a)
  case Nil
  then show ?case using split_str_here [of "[]" t] by (simp split: if_splits)
next
  case (Cons x xs)
  show ?case
  proof (cases "take (length n) (x # xs) = n")
    case True
    with Cons.prems have "x # xs = n @ b" "a = []"
      using append_take_drop_id [of "length n" "x # xs"] by auto
    then show ?thesis using split_str_here [of n "b @ t"] by (metis append.assoc)
  next
    case False
    with Cons.prems obtain a' where a': "split_str n xs = Some (a', b)" "a = x # a'" by auto
    have "xs = a' @ n @ b" using split_str_Some [OF a'(1)] .
    then have "length n \<le> length (x # xs)" by simp
    then have "take (length n) ((x # xs) @ t) = take (length n) (x # xs)" by (subst take_append) simp
    then have "take (length n) (x # xs @ t) = take (length n) (x # xs)" by simp
    with False Cons.IH [OF a'(1)] a'(2) show ?thesis by simp
  qed
qed

lemma split_str_prefix_None:
  assumes "split_str n (s @ t) = Some (a, b)" and "split_str n s = None"
  shows "length s < length a + length n"
proof (rule ccontr)
  assume "\<not> ?thesis"
  moreover have "s @ t = (a @ n) @ b" using split_str_Some [OF assms(1)] by simp
  ultimately obtain u where "s = (a @ n) @ u" by (auto simp: append_eq_append_conv2)
  with split_str_occurs [of n a u] assms(2) show False by simp
qed

section \<open>The response stream\<close>

lemma next_line_no_NUL: "NUL \<notin> set buf \<Longrightarrow> next_line buf = split_chr LF buf"
  by (cases "split_chr LF buf") (auto simp: next_line_def cstr_id split_chr_Some)

lemma http_body_no_NUL: "NUL \<notin> set buf \<Longrightarrow> http_body buf = map_option snd (split_str http_head_end buf)"
  by (cases "split_str http_head_end buf")
    (auto simp: http_body_def cstr_id http_head_end_def dest!: split_str_Some)

lemma split_chr_append_Some: "split_chr c s = Some (a, b) \<Longrightarrow> split_chr c (s @ t) = Some (a, b @ t)"
  by (auto simp: split_chr_Some)

lemma response_lines_no_LF: "NUL \<notin> set buf \<Longrightarrow> LF \<notin> set buf \<Longrightarrow> response_lines buf = Some ([], buf)"
  using split_chr_None [of LF buf] by (simp add: response_lines.simps [of buf] next_line_no_NUL)

text \<open>Lines may be processed piece by piece.\<close>

lemma response_lines_append:
  assumes "NUL \<notin> set (a @ b)"
  shows "response_lines (a @ b) =
           (case response_lines a of
              None \<Rightarrow> None
            | Some (out, r) \<Rightarrow> map_option (\<lambda>(o', r'). (out @ o', r')) (response_lines (r @ b)))"
  using assms
proof (induction a rule: response_lines.induct)
  case (1 a)
  show ?case
  proof (cases "split_chr LF a")
    case None
    with "1.prems" have "response_lines a = Some ([], a)"
      by (simp add: response_lines.simps [of a] next_line_no_NUL)
    then show ?thesis by (simp add: option.map_ident case_prod_unfold)
  next
    case (Some p)
    obtain line rest where p: "p = (line, rest)" by (cases p)
    with Some have s: "split_chr LF a = Some (line, rest)" by simp
    with "1.prems" have nl: "next_line a = Some (line, rest)" "next_line (a @ b) = Some (line, rest @ b)"
      by (simp_all add: next_line_no_NUL split_chr_append_Some)
    from s "1.prems" have nn: "NUL \<notin> set (rest @ b)" by (auto simp: split_chr_Some)
    show ?thesis
    proof (cases "response_line line")
      case None
      with nl show ?thesis by (simp add: response_lines.simps [of a] response_lines.simps [of "a @ b"])
    next
      case (Some out)
      note ih = "1.IH" [OF nl(1) refl Some nn]
      show ?thesis
        unfolding response_lines.simps [of a] response_lines.simps [of "a @ b"] nl
        using ih Some by (auto split: option.splits simp: option.map_comp o_def case_prod_unfold)
    qed
  qed
qed

text \<open>Every line of the text, and what follows the last one, fits into the buffer.\<close>

fun lines_fit :: "nat \<Rightarrow> string \<Rightarrow> bool" where
  "lines_fit k [] \<longleftrightarrow> True"
| "lines_fit k (c # cs) \<longleftrightarrow> (if c = LF then lines_fit 8190 cs else 0 < k \<and> lines_fit (k - 1) cs)"

lemma lines_fit_append: "LF \<notin> set a \<Longrightarrow> lines_fit k (a @ b) \<longleftrightarrow> length a \<le> k \<and> lines_fit (k - length a) b"
proof (induction a arbitrary: k)
  case (Cons c a)
  from Cons.prems have c: "c \<noteq> LF" "LF \<notin> set a" by auto
  show ?case
  proof (cases k)
    case (Suc j)
    with Cons.IH [of j] c show ?thesis by simp
  qed (use c in simp)
qed simp

lemma response_lines_rest:
  assumes "response_lines a = Some (out, r)" and "NUL \<notin> set a"
  shows "LF \<notin> set r \<and> (lines_fit 8190 (a @ b) \<longrightarrow> lines_fit 8190 (r @ b)) \<and> NUL \<notin> set r"
  using assms
proof (induction a arbitrary: out rule: response_lines.induct)
  case (1 a)
  show ?case
  proof (cases "split_chr LF a")
    case None
    with "1.prems" show ?thesis
      by (auto simp: response_lines.simps [of a] next_line_no_NUL split_chr_None)
  next
    case (Some p)
    obtain line rest where p: "p = (line, rest)" by (cases p)
    with Some "1.prems" have nl: "next_line a = Some (line, rest)" by (simp add: next_line_no_NUL)
    from Some p have a: "a = line @ LF # rest" "LF \<notin> set line" by (simp_all add: split_chr_Some)
    from "1.prems"(1) nl obtain o1 o2 where o: "response_line line = Some o1" "response_lines rest = Some (o2, r)"
      by (auto simp: response_lines.simps [of a] split: option.splits)
    have "NUL \<notin> set rest" using "1.prems"(2) a(1) by simp
    note ih = "1.IH" [OF nl refl o(1) o(2) this]
    have "lines_fit 8190 (rest @ b)" if "lines_fit 8190 (a @ b)"
      using lines_fit_append [OF a(2), of 8190 "LF # rest @ b"] that a(1) by simp
    with ih show ?thesis by blast
  qed
qed

text \<open>Behind the headers the loop sends what the whole remaining text asks for.\<close>

lemma response_loop_body:
  assumes "\<forall>n \<in> set sizes. 0 < n" "length stream \<le> length sizes" "NUL \<notin> set (buf @ stream)"
    and "LF \<notin> set buf" "lines_fit 8190 (buf @ stream)"
  shows "response_loop sizes stream buf True = map_option fst (response_lines (buf @ stream))"
  using assms
proof (induction sizes arbitrary: stream buf)
  case Nil
  then have "response_lines (buf @ stream) = Some ([], buf)"
    by (simp add: response_lines_no_LF)
  then show ?case by simp
next
  case (Cons most sizes)
  define n where "n = min (min most (RX_SIZE - length buf - 1)) (length stream)"
  show ?case
  proof (cases "stream = []")
    case True
    with Cons.prems have "response_lines (buf @ stream) = Some ([], buf)"
      by (simp add: response_lines_no_LF)
    with True show ?thesis by simp
  next
    case False
    from Cons.prems(4,5) have "length buf \<le> 8190" by (simp add: lines_fit_append)
    with False Cons.prems(1) have n0: "n \<noteq> 0" by (auto simp: n_def)
    define buf1 where "buf1 = buf @ take n stream"
    define stream1 where "stream1 = drop n stream"
    have all: "buf @ stream = buf1 @ stream1" by (simp add: buf1_def stream1_def)
    have nn: "NUL \<notin> set (buf1 @ stream1)" using Cons.prems(3) unfolding all .
    have step: "response_loop (most # sizes) stream buf True =
        (case response_lines buf1 of None \<Rightarrow> None
         | Some (out, rest) \<Rightarrow> map_option ((@) out) (response_loop sizes stream1 rest True))"
      using n0 by (simp only: response_loop.simps Let_def n_def [symmetric] buf1_def [symmetric] stream1_def [symmetric]
          if_True if_False option.case)
    show ?thesis
    proof (cases "response_lines buf1")
      case None
      then show ?thesis unfolding step all using nn by (simp add: response_lines_append)
    next
      case (Some p)
      obtain out rest where p: "p = (out, rest)" by (cases p)
      have b1: "NUL \<notin> set buf1" using nn by simp
      note r = response_lines_rest [OF Some [unfolded p] b1, of stream1]
      have len: "length stream1 \<le> length sizes"
        using Cons.prems(2) n0 by (auto simp: stream1_def)
      have "response_loop sizes stream1 rest True = map_option fst (response_lines (rest @ stream1))"
        using Cons.prems(1,5) r nn len unfolding all by (intro Cons.IH) auto
      then show ?thesis unfolding step all using nn Some p
        by (simp add: response_lines_append option.map_comp o_def case_prod_unfold)
    qed
  qed
qed

lemma response_loop_head:
  assumes "\<forall>n \<in> set sizes. 0 < n" "length stream \<le> length sizes" "NUL \<notin> set (buf @ stream)"
    and "split_str http_head_end (buf @ stream) = Some (head, body)" "split_str http_head_end buf = None"
    and "length head \<le> 8187" "lines_fit 8190 body"
  shows "response_loop sizes stream buf False = map_option fst (response_lines body)"
  using assms
proof (induction sizes arbitrary: stream buf)
  case (Cons most sizes)
  define n where "n = min (min most (RX_SIZE - length buf - 1)) (length stream)"
  define buf1 where "buf1 = buf @ take n stream"
  define stream1 where "stream1 = drop n stream"
  have all: "buf @ stream = buf1 @ stream1" by (simp add: buf1_def stream1_def)
  have nn: "NUL \<notin> set (buf1 @ stream1)" using Cons.prems(3) unfolding all .
  then have b1: "NUL \<notin> set buf1" by simp
  note sp = Cons.prems(4) [unfolded all]
  have l4: "length http_head_end = 4" by (simp add: http_head_end_def)
  have short: "length s < 8191" if "split_str http_head_end s = None" "s @ t = buf1 @ stream1" for s t
    using split_str_prefix_None [of http_head_end s t head body] that sp Cons.prems(6) l4 by simp
  from Cons.prems(4,5) have "stream \<noteq> []" by auto
  moreover have "length buf < 8191" using short [OF Cons.prems(5)] all by simp
  ultimately have n0: "n \<noteq> 0" using Cons.prems(1) by (auto simp: n_def)
  have len: "length stream1 \<le> length sizes"
    using Cons.prems(2) n0 by (auto simp: stream1_def)
  have step: "response_loop (most # sizes) stream buf False =
        (case http_body buf1 of
           None \<Rightarrow> response_loop sizes stream1 (if length buf1 \<ge> RX_SIZE - 1 then [] else buf1) False
         | Some start \<Rightarrow>
             (case response_lines start of None \<Rightarrow> None
              | Some (out, rest) \<Rightarrow> map_option ((@) out) (response_loop sizes stream1 rest True)))"
    using n0 by (simp only: response_loop.simps Let_def n_def [symmetric] buf1_def [symmetric] stream1_def [symmetric]
          if_True if_False option.case)
  show ?case
  proof (cases "split_str http_head_end buf1")
    case None
    then have "response_loop sizes stream1 buf1 False = map_option fst (response_lines body)"
      using Cons.prems(1,6,7) sp nn len by (intro Cons.IH) auto
    with None short [OF None refl] b1 show ?thesis unfolding step by (simp add: http_body_no_NUL)
  next
    case (Some p)
    obtain h start where p: "p = (h, start)" by (cases p)
    with Some have "split_str http_head_end (buf1 @ stream1) = Some (h, start @ stream1)"
      by (simp add: split_str_append)
    with sp have body: "body = start @ stream1" by simp
    have hb: "http_body buf1 = Some start" using Some p b1 by (simp add: http_body_no_NUL)
    have ns: "NUL \<notin> set (start @ stream1)"
      using split_str_Some [OF Some [unfolded p]] nn by auto
    show ?thesis
    proof (cases "response_lines start")
      case None
      then show ?thesis unfolding step hb body using ns by (simp add: response_lines_append)
    next
      case (Some q)
      obtain out rest where q: "q = (out, rest)" by (cases q)
      have "NUL \<notin> set start" using ns by simp
      note r = response_lines_rest [OF Some [unfolded q] this, of stream1]
      have "response_loop sizes stream1 rest True = map_option fst (response_lines (rest @ stream1))"
        using Cons.prems(1,7) r ns len unfolding body by (intro response_loop_body) auto
      then show ?thesis unfolding step hb body using ns Some q
        by (simp add: response_lines_append option.map_comp o_def case_prod_unfold)
    qed
  qed
qed simp

section \<open>Escaping\<close>

definition json_escape :: "string \<Rightarrow> string" where
  "json_escape t = concat (map escape_char t)"

lemma json_escape_simps [simp]: "json_escape [] = []" "json_escape (c # cs) = escape_char c @ json_escape cs"
  by (simp_all add: json_escape_def)

lemma length_escape_char: "length (escape_char c) = 1 \<or> length (escape_char c) = 2"
  by (simp add: escape_char_def)

lemma escape_from_all: "d + length (json_escape t) + 4 \<le> dst_size \<Longrightarrow> escape_from dst_size d t = json_escape t"
proof (induction t arbitrary: d)
  case (Cons c cs)
  have "d + 4 < dst_size" using Cons.prems length_escape_char [of c] by auto
  with Cons show ?case by simp
qed simp

lemma length_escape_from: "d + 2 < dst_size \<Longrightarrow> d + length (escape_from dst_size d t) + 2 < dst_size"
proof (induction t arbitrary: d)
  case (Cons c cs)
  show ?case
  proof (cases "d + 4 < dst_size")
    case True
    with Cons.IH [of "d + length (escape_char c)"] length_escape_char [of c] show ?thesis by auto
  qed (use Cons.prems in simp)
qed simp

lemma escape_no_LF: "LF \<notin> set (json_escape t)"
  by (induction t) (auto simp: escape_char_def)

lemma unescape_escape:
  "CR \<notin> set t \<Longrightarrow> length t \<le> room \<Longrightarrow> unescape_into room (json_escape t @ DQUOTE # post) = t"
proof (induction t arbitrary: room)
  case (Cons c cs)
  obtain k where "room = Suc k" using Cons.prems by (cases room) auto
  with Cons show ?case by (auto simp: escape_char_def)
qed simp

text \<open>
  How JSON writes a character, without the escapes for carriage return, backspace and form feed and
  those by code: itself, unless it is a control character, quote or backslash, or by one of the
  escapes for quote, backslash, slash, new line and tabulator.
\<close>

definition json_char :: "char \<Rightarrow> string \<Rightarrow> bool" where
  "json_char c e \<longleftrightarrow>
     e = [c] \<and> 32 \<le> (of_char c :: nat) \<and> c \<noteq> DQUOTE \<and> c \<noteq> BSLASH \<or>
     e = [BSLASH, c] \<and> (c = DQUOTE \<or> c = BSLASH \<or> c = CHR ''/'') \<or>
     c = LF \<and> e = [BSLASH, CHR ''n''] \<or> c = CHR 0x09 \<and> e = [BSLASH, CHR ''t'']"

lemma unescape_json:
  "list_all2 json_char t es \<Longrightarrow> length t \<le> room \<Longrightarrow> unescape_into room (concat es @ DQUOTE # post) = t"
proof (induction t es arbitrary: room rule: list_all2_induct)
  case (Cons c cs e es)
  obtain k where "room = Suc k" using Cons.prems by (cases room) auto
  with Cons show ?case by (auto simp: json_char_def)
qed simp

lemma json_no_CR: "list_all2 json_char t es \<Longrightarrow> CR \<notin> set t"
  by (induction t es rule: list_all2_induct) (auto simp: json_char_def)

lemma after_key_chunk: "after_key (chunk_text s) ''text'' = Some (DQUOTE # s @ [DQUOTE] @ ''}'' @ [LF])"
  by (simp add: after_key_def chunk_text_def bounded_copy_def skip_blanks_def)

text \<open>
  C28: a line of the model server whose response is a text of at most 2047 characters, in a JSON
  encoding that uses no escapes but those for quote, backslash, slash, new line and tabulator, and
  that takes at most 4068 characters when the daemon escapes it again: the daemon writes one line to
  the client, from which its own field reader recovers exactly that text, followed by the final
  message when the line says that the response is complete.
\<close>

theorem relay_roundtrip:
  assumes "after_key line ''response'' = Some (DQUOTE # concat es @ DQUOTE # post)" and "list_all2 json_char t es"
    and "take 1 line = ''{''" and "length t \<le> 2047" and "length (json_escape t) \<le> 4068"
  shows "\<exists>m. response_line line = Some ((m @ [LF]) # (if contains line done_mark then [done_text] else [])) \<and>
           LF \<notin> set m \<and> extract_json_str_field (m @ [LF]) ''text'' 2048 = Some t"
proof -
  let ?m = "butlast (chunk_text (json_escape t))"
  have m: "chunk_text (json_escape t) = ?m @ [LF]" by (simp add: chunk_text_def butlast_append)
  have x: "extract_json_str_field line ''response'' 2048 = Some t"
    using assms(1,2,4) by (simp add: extract_json_str_field_def unescape_json)
  have e: "escape_json_string 4096 t = json_escape t"
    unfolding escape_json_string_def using assms(5) by (intro escape_from_all) simp
  have w: "write_formatted 4096 (chunk_text (json_escape t)) = Some (?m @ [LF])"
    using assms(5) m by (simp add: write_formatted_def chunk_text_def)
  from assms(3) obtain rest where l: "line = CHR ''{'' # rest" by (cases line) auto
  have "response_line line = Some ((?m @ [LF]) # (if contains line done_mark then [done_text] else []))"
    unfolding response_line_def using x e w by (simp add: l Let_def)
  moreover have "LF \<notin> set ?m" using escape_no_LF [of t] by (auto simp: chunk_text_def butlast_append)
  moreover have "extract_json_str_field (?m @ [LF]) ''text'' 2048 = Some t"
    using json_no_CR [OF assms(2)] assms(4) unfolding m [symmetric]
    by (simp add: extract_json_str_field_def after_key_chunk unescape_escape)
  ultimately show ?thesis by blast
qed

theorem relay_roundtrip_witness:
  "\<exists>m. response_line (''{'' @ [DQUOTE] @ ''response'' @ [DQUOTE] @ '':'' @ [DQUOTE] @ ''a'' @ [BSLASH, DQUOTE] @ [BSLASH] @ ''/b'' @ [DQUOTE] @ ''}'') =
         Some [m @ [LF]] \<and> LF \<notin> set m \<and>
       extract_json_str_field (m @ [LF]) ''text'' 2048 = Some (''a'' @ [DQUOTE] @ ''/b'')"
proof -
  let ?line = "''{'' @ [DQUOTE] @ ''response'' @ [DQUOTE] @ '':'' @ [DQUOTE] @ ''a'' @ [BSLASH, DQUOTE] @ [BSLASH] @ ''/b'' @ [DQUOTE] @ ''}''"
  let ?es = "[''a'', [BSLASH, DQUOTE], [BSLASH, CHR ''/''], ''b'']"
  have "after_key ?line ''response'' = Some (DQUOTE # concat ?es @ DQUOTE # ''}'')"
    by (simp add: after_key_def bounded_copy_def skip_blanks_def)
  moreover have "list_all2 json_char (''a'' @ [DQUOTE] @ ''/b'') ?es" by (simp add: json_char_def)
  moreover have "\<not> contains ?line done_mark" by (simp add: done_mark_def)
  ultimately show ?thesis
    using relay_roundtrip [of ?line ?es "''}''" "''a'' @ [DQUOTE] @ ''/b''"] by (simp add: escape_char_def)
qed

text \<open>
  The limit on the escaped text matters: for a response of many quotes the length that \<open>snprintf\<close>
  returns exceeds the buffer, and the write reads behind it.
\<close>

lemma length_json_escape_quotes: "length (json_escape (replicate k DQUOTE)) = 2 * k"
  by (induction k) (simp_all add: escape_char_def)

theorem quotes_overread:
  assumes "after_key line ''response'' = Some (DQUOTE # json_escape (replicate 2040 DQUOTE) @ DQUOTE # post)"
    and "take 1 line = ''{''"
  shows "response_line line = None"
proof -
  let ?t = "replicate 2040 DQUOTE"
  have x: "extract_json_str_field line ''response'' 2048 = Some ?t"
    using assms(1) by (simp add: extract_json_str_field_def unescape_escape)
  have "escape_json_string 4096 ?t = json_escape ?t"
    unfolding escape_json_string_def by (intro escape_from_all) (simp add: length_json_escape_quotes)
  moreover have "4096 < length (chunk_text (json_escape ?t))"
    by (simp add: chunk_text_def length_json_escape_quotes)
  ultimately have w: "write_formatted 4096 (chunk_text (escape_json_string 4096 ?t)) = None"
    by (simp add: write_formatted_def)
  from assms(2) obtain rest where l: "line = CHR ''{'' # rest" by (cases line) auto
  show ?thesis unfolding response_line_def x l using w by (simp add: Let_def x [unfolded l])
qed

text \<open>A carriage return does not survive: it is escaped as in JSON but read back as a letter.\<close>

theorem carriage_return_lost: "unescape_into 2047 (json_escape [CR] @ [DQUOTE]) = ''r''"
  by (simp add: escape_char_def)

section \<open>A prompt from end to end\<close>

lemma length_escape_json: "length (escape_json_string 4096 s) < 4094"
  using length_escape_from [of 0 4096 s] by (simp add: escape_json_string_def)

text \<open>The model asked for: the one of the environment, or the default.\<close>

definition model_name :: "inference_io \<Rightarrow> string" where
  "model_name io = (case ii_model io of None \<Rightarrow> ''llama3'' | Some m \<Rightarrow> m)"


definition sample_answer :: inference_io where
  "sample_answer =
     \<lparr>ii_model = None, ii_socket = True, ii_errno = [], ii_connect = True, ii_write = 16000,
      ii_sizes = replicate 50 7,
      ii_stream = ''HTTP 200'' @ http_head_end @ ''{'' @ [DQUOTE] @ ''response'' @ [DQUOTE] @ '':'' @ [DQUOTE] @ ''Hi'' @
        [DQUOTE] @ '','' @ done_mark @ ''}'' @ [LF]\<rparr>"


section \<open>The table of clients\<close>

text \<open>The descriptors that \<open>accept\<close> delivered in a sequence of events.\<close>

fun ai_accepted :: "ai_event \<Rightarrow> int list" where
  "ai_accepted (AiAccept fd) = (if fd \<ge> 0 then [fd] else [])"
| "ai_accepted _ = []"

primrec ai_run :: "ai_event list \<Rightarrow> ai_state \<Rightarrow> ai_state option" where
  "ai_run [] st = Some st"
| "ai_run (e # es) st = (case ai_event_step e st of None \<Rightarrow> None | Some st1 \<Rightarrow> ai_run es st1)"

definition ai_table_ok :: "int list \<Rightarrow> ai_state \<Rightarrow> bool" where
  "ai_table_ok accepted st \<longleftrightarrow>
     length (g_clients st) \<le> MAX_CLIENTS \<and> mset (g_clients st) + mset (ai_closed st) = mset accepted"

lemma mset_remove_at:
  assumes "i < length xs" shows "add_mset (xs ! i) (mset (butlast (xs[i := last xs]))) = mset xs"
proof -
  obtain ys z where xs: "xs = ys @ [z]" using assms by (cases xs rule: rev_cases) auto
  show ?thesis
  proof (cases "i < length ys")
    case True
    then show ?thesis
      unfolding xs using mset_update [of i ys z] by (simp add: nth_append list_update_append mset_update)
  next
    case False
    with assms xs have "i = length ys" by simp
    then show ?thesis by (simp add: xs)
  qed
qed

lemma ai_sends_table [simp]:
  "g_clients (ai_send fd s st) = g_clients st" "ai_closed (ai_send fd s st) = ai_closed st"
  "g_clients (broadcast_mode m st) = g_clients st" "ai_closed (broadcast_mode m st) = ai_closed st"
  by (simp_all add: ai_send_def broadcast_mode_def)

lemma handle_command_table:
  "handle_command fd buf io st = Some st' \<Longrightarrow> g_clients st' = g_clients st \<and> ai_closed st' = ai_closed st"
  by (auto simp: handle_command_def Let_def split: option.splits if_splits)

lemma remove_client_table:
  assumes "ai_table_ok acc st" shows "ai_table_ok acc (remove_client fd st)"
proof (cases "first_index (\<lambda>c. c = fd) (g_clients st)")
  case None
  with assms show ?thesis by (simp add: remove_client_def)
next
  case (Some i)
  then have "i < length (g_clients st)" "g_clients st ! i = fd" by (auto dest: first_index_Some)
  with mset_remove_at [of i "g_clients st"]
  have m: "mset (g_clients st) = add_mset fd (mset (butlast ((g_clients st)[i := last (g_clients st)])))" by simp
  from assms show ?thesis unfolding remove_client_def ai_table_ok_def Some by (auto simp: m)
qed

lemma ai_event_step_table:
  assumes "ai_table_ok acc st" "ai_event_step e st = Some st'"
  shows "ai_table_ok (acc @ ai_accepted e) st'"
proof (cases e)
  case (AiAccept fd)
  with assms show ?thesis by (auto simp: ai_table_ok_def add_client_def split: if_splits)
next
  case (AiHangup fd)
  with assms show ?thesis by (auto simp: remove_client_table)
next
  case (AiInput fd answer io)
  show ?thesis
  proof (cases answer)
    case None
    with assms AiInput show ?thesis by (auto simp: handle_client_data_def remove_client_table)
  next
    case (Some bytes)
    with assms AiInput have "handle_command fd (cstr (take (BUF_SIZE - 1) bytes)) io st = Some st'"
      by (simp add: handle_client_data_def)
    with assms(1) AiInput show ?thesis by (auto simp: ai_table_ok_def dest: handle_command_table)
  qed
qed

lemma ai_run_table:
  "ai_table_ok acc st \<Longrightarrow> ai_run es st = Some st' \<Longrightarrow> ai_table_ok (acc @ concat (map ai_accepted es)) st'"
proof (induction es arbitrary: acc st)
  case (Cons e es)
  then obtain st1 where "ai_event_step e st = Some st1" "ai_run es st1 = Some st'"
    by (auto split: option.splits)
  with Cons.IH [of "acc @ ai_accepted e" st1] Cons.prems(1) ai_event_step_table show ?case by simp
qed simp

text \<open>
  C29: the daemon serves at most ten clients, and every connection it accepted is either in its table or
  was closed, exactly once.
\<close>

theorem connections_balanced:
  assumes "ai_run es ai_start = Some st"
  shows "length (g_clients st) \<le> MAX_CLIENTS \<and>
         mset (g_clients st) + mset (ai_closed st) = mset (concat (map ai_accepted es))"
  using ai_run_table [of "[]" ai_start es st] assms by (simp add: ai_table_ok_def ai_start_def)

theorem connections_balanced_witness:
  "\<exists>st. ai_run [AiAccept 4, AiAccept 5, AiHangup 4] ai_start = Some st \<and>
        mset (g_clients st) + mset (ai_closed st) = {#4, 5#}"
proof -
  obtain st where st: "ai_run [AiAccept 4, AiAccept 5, AiHangup 4] ai_start = Some st" by simp
  with connections_balanced [OF st] show ?thesis by simp
qed

end
