(* ===== verification/Daemon_Sockets.thy ===== *)
theory Daemon_Sockets
  imports Lgp_Main Init_Console Luna_Ai "HOL-Library.Sublist"
begin

text \<open>
  The descriptors the daemons live on: the control socket of luna-init (\<open>ctl.c\<close>), its signal descriptor and
  that of the compositor (\<open>signal.c\<close>, \<open>util/signal.c\<close>), the set-up and the clean-up around the event loop of
  \<open>main.c\<close>, the connection of \<open>luna-init-ctl\<close> and the start of the assistant daemon. Each operation yields its
  result and the system calls that took effect, in order; the locales \<open>opener\<close> and \<open>listener\<close> state what such
  a pair of set-up and clean-up owes its caller.
\<close>

section \<open>Descriptors, socket files and watches\<close>

text \<open>
  The part of the kernel's state these programs build up: the open descriptors, the latest first; the mode of
  the socket file; the descriptors that listen; which \<open>epoll\<close> descriptor watches which other one. A call is
  recorded when it succeeded. Closing a descriptor ends its watches.
\<close>

record net =
  nt_open :: "int list"
  nt_file :: "nat option"
  nt_listening :: "int list"
  nt_watched :: "(int \<times> int) list"

datatype sys_call =
    SysOpen int
  | SysBind nat
  | SysChmod nat
  | SysListen int
  | SysWatch int int
  | SysSetup int
  | SysUnlink
  | SysClose int

fun sys_step :: "sys_call \<Rightarrow> net \<Rightarrow> net" where
  "sys_step (SysOpen fd) n = n\<lparr>nt_open := fd # nt_open n\<rparr>"
| "sys_step (SysBind mode) n = n\<lparr>nt_file := Some mode\<rparr>"
| "sys_step (SysChmod mode) n = n\<lparr>nt_file := map_option (\<lambda>_. mode) (nt_file n)\<rparr>"
| "sys_step (SysListen fd) n = n\<lparr>nt_listening := fd # nt_listening n\<rparr>"
| "sys_step (SysWatch ep fd) n = n\<lparr>nt_watched := (ep, fd) # nt_watched n\<rparr>"
| "sys_step (SysSetup fd) n = n"
| "sys_step SysUnlink n = n\<lparr>nt_file := None\<rparr>"
| "sys_step (SysClose fd) n =
     n\<lparr>nt_open := remove1 fd (nt_open n), nt_listening := removeAll fd (nt_listening n),
       nt_watched := filter (\<lambda>(e, f). e \<noteq> fd \<and> f \<noteq> fd) (nt_watched n)\<rparr>"

definition sys_run :: "sys_call list \<Rightarrow> net \<Rightarrow> net" where
  "sys_run calls n = fold sys_step calls n"

lemma sys_run_simps [simp]:
  "sys_run [] n = n" "sys_run (c # cs) n = sys_run cs (sys_step c n)" "sys_run (cs @ ds) n = sys_run ds (sys_run cs n)"
  by (simp_all add: sys_run_def)

section \<open>The control socket of luna-init\<close>

text \<open>
  The answers of the calls; \<open>li_mode\<close> is the mode the kernel gives the file at \<open>bind\<close>. The result is the
  descriptor and the calls that took effect.
\<close>

record listen_io =
  li_socket :: int
  li_bind :: bool
  li_mode :: nat
  li_chmod :: bool
  li_listen :: bool

definition ctl_server_init :: "listen_io \<Rightarrow> int \<times> sys_call list" where
  "ctl_server_init io =
     (let fd = li_socket io;
          bound = [SysUnlink, SysOpen fd, SysBind (li_mode io)] @ (if li_chmod io then [SysChmod 384] else [])
      in if fd < 0 then (- 1, [SysUnlink])
         else if \<not> li_bind io then (- 1, [SysUnlink, SysOpen fd, SysClose fd])
         else if \<not> li_listen io then (- 1, bound @ [SysClose fd])
         else (fd, bound @ [SysListen fd]))"

definition ctl_server_close :: "int \<Rightarrow> sys_call list" where
  "ctl_server_close server_fd = (if server_fd \<ge> 0 then [SysClose server_fd] else []) @ [SysUnlink]"

text \<open>
  One connection: \<open>client\<close> is the answer of \<open>accept4\<close>. A command that shuts the machine down does not return
  to close the connection.
\<close>

definition ctl_accept ::
    "int \<Rightarrow> ctl_io \<Rightarrow> char list option \<Rightarrow> supervisor \<Rightarrow> (ctl_effect \<times> sys_call list) option" where
  "ctl_accept client io bytes sv =
     (if client < 0 then Some (\<lparr>ce_sup = sv, ce_writes = [], ce_kills = [], ce_shutdown = None\<rparr>, [])
      else map_option
        (\<lambda>e. (e, [SysOpen client, SysSetup client] @ (if ce_shutdown e = None then [SysClose client] else [])))
        (ctl_server_accept io bytes sv))"

text \<open>The client's side in \<open>luna-init-ctl\<close>.\<close>

definition connect_to_daemon :: "int \<Rightarrow> bool \<Rightarrow> int \<times> sys_call list" where
  "connect_to_daemon fd connected =
     (if fd < 0 then (- 1, []) else if \<not> connected then (- 1, [SysOpen fd, SysClose fd]) else (fd, [SysOpen fd]))"

section \<open>Signals\<close>

text \<open>The answers of \<open>sigprocmask\<close> and \<open>signalfd\<close>; the signals blocked for the process, and the calls.\<close>

definition init_signals :: "int list" where
  "init_signals = [SIGCHLD, SIGTERM, SIGINT, SIGHUP, SIGUSR1, SIGUSR2]"

definition signal_init :: "bool \<Rightarrow> int \<Rightarrow> int \<times> int list \<times> sys_call list" where
  "signal_init masked sfd =
     (if \<not> masked then (- 1, [], []) else if sfd < 0 then (- 1, init_signals, []) else (sfd, init_signals, [SysOpen sfd]))"

definition signal_close :: "int \<Rightarrow> sys_call list" where
  "signal_close sigfd = (if sigfd \<ge> 0 then [SysClose sigfd] else [])"

definition lgp_signals :: "u32 list" where
  "lgp_signals = [15, 2, 1]"

definition lgp_signal_init :: "bool \<Rightarrow> int \<Rightarrow> int \<times> u32 list \<times> sys_call list" where
  "lgp_signal_init masked sfd =
     (if \<not> masked then (- 1, [], []) else if sfd = - 1 then (- 1, lgp_signals, []) else (sfd, lgp_signals, [SysOpen sfd]))"

section \<open>The event loop of luna-init\<close>

text \<open>
  The descriptors \<open>main\<close> sets up before its loop: \<open>epoll\<close> and signals at stage 1, where a failure panics, then the
  control socket, the watch on the service directory and the timer, which it does without when they fail.
  A panic does not return.
\<close>

record init_fds =
  if_epfd :: int
  if_sigfd :: int
  if_ctl :: int
  if_inotify :: int
  if_timer :: int

record init_fd_io =
  fi_epoll :: int
  fi_masked :: bool
  fi_signalfd :: int
  fi_ctl :: listen_io
  fi_inotify :: int
  fi_timer :: int

definition init_stage1 :: "init_fd_io \<Rightarrow> ((int \<times> int) option) \<times> sys_call list" where
  "init_stage1 io =
     (let epfd = fi_epoll io in
      if epfd < 0 then (None, [])
      else case signal_init (fi_masked io) (fi_signalfd io) of
        (sigfd, _, calls) \<Rightarrow>
          if sigfd < 0 then (None, SysOpen epfd # calls)
          else (Some (epfd, sigfd), SysOpen epfd # calls @ [SysWatch epfd sigfd]))"

definition watch_optional :: "int \<Rightarrow> int \<Rightarrow> sys_call list" where
  "watch_optional epfd fd = (if fd \<ge> 0 then [SysOpen fd, SysSetup fd, SysWatch epfd fd] else [])"

definition init_register :: "init_fd_io \<Rightarrow> int \<times> int \<Rightarrow> init_fds \<times> sys_call list" where
  "init_register io = (\<lambda>(epfd, sigfd).
     case ctl_server_init (fi_ctl io) of
       (ctl_fd, calls) \<Rightarrow>
         (\<lparr>if_epfd = epfd, if_sigfd = sigfd, if_ctl = ctl_fd, if_inotify = fi_inotify io, if_timer = fi_timer io\<rparr>,
          calls @ (if ctl_fd \<ge> 0 then [SysWatch epfd ctl_fd] else []) @
          watch_optional epfd (fi_inotify io) @ watch_optional epfd (fi_timer io)))"

definition init_teardown :: "init_fds \<Rightarrow> sys_call list" where
  "init_teardown f =
     (if if_timer f \<ge> 0 then [SysClose (if_timer f)] else []) @
     (if if_inotify f \<ge> 0 then [SysClose (if_inotify f)] else []) @
     ctl_server_close (if_ctl f) @ signal_close (if_sigfd f) @ [SysClose (if_epfd f)]"

section \<open>The socket of the assistant daemon\<close>

record ai_listen_io =
  al_listen :: listen_io
  al_epoll :: int
  al_watch :: bool

text \<open>The descriptors of the socket and of \<open>epoll\<close>; on \<open>None\<close> the program has exited with 1.\<close>

definition ai_listen :: "ai_listen_io \<Rightarrow> (int \<times> int) option \<times> sys_call list" where
  "ai_listen aio =
     (let io = al_listen aio; fd = li_socket io; epoll_fd = al_epoll aio;
          bound = [SysUnlink, SysOpen fd, SysBind (li_mode io)];
          listening = bound @ [SysListen fd] @ (if li_chmod io then [SysChmod 438] else [])
      in if fd < 0 then (None, [SysUnlink])
         else if \<not> li_bind io then (None, [SysUnlink, SysOpen fd, SysClose fd])
         else if \<not> li_listen io then (None, bound @ [SysClose fd])
         else if epoll_fd < 0 then (None, listening @ [SysClose fd])
         else if \<not> al_watch aio then (None, listening @ [SysOpen epoll_fd, SysClose epoll_fd, SysClose fd])
         else (Some (fd, epoll_fd), listening @ [SysOpen epoll_fd, SysWatch epoll_fd fd]))"

text \<open>
  A new connection: non-blocking, entered into the table and watched. When the table is full \<open>add_client\<close> has
  closed it and adding it to \<open>epoll\<close> fails.
\<close>

definition set_nonblocking :: "int \<Rightarrow> sys_call list" where
  "set_nonblocking fd = [SysSetup fd]"

definition ai_accept :: "int \<Rightarrow> int \<Rightarrow> ai_state \<Rightarrow> ai_state \<times> sys_call list" where
  "ai_accept epoll_fd client_fd st =
     (if client_fd < 0 then (st, [])
      else (add_client client_fd st,
            [SysOpen client_fd] @ set_nonblocking client_fd @
            (if length (g_clients st) < 10 then [SysWatch epoll_fd client_fd] else [SysClose client_fd])))"

text \<open>The program from its start to its end, where \<open>epoll_wait\<close> fails: exit code, state and calls.\<close>

definition ai_main :: "ai_listen_io \<Rightarrow> ai_event list \<Rightarrow> (int \<times> ai_state \<times> sys_call list) option" where
  "ai_main aio events =
     (case ai_listen aio of
        (None, calls) \<Rightarrow> Some (1, ai_start, calls)
      | (Some (listen_fd, epoll_fd), calls) \<Rightarrow>
          map_option (\<lambda>st. (0, st, calls @ [SysClose epoll_fd, SysClose listen_fd, SysUnlink]))
            (ai_run events ai_start))"

section \<open>What is opened is closed\<close>

text \<open>
  The contract of a set-up and its clean-up: the set-up leaves exactly the descriptors of its result open,
  also when it gives up half-way, and the clean-up of such a result closes exactly those.
\<close>

locale opener =
  fixes start :: "'io \<Rightarrow> 'h \<times> sys_call list" and stop :: "'h \<Rightarrow> sys_call list" and fds :: "'h \<Rightarrow> int list"
    and wf :: "'io \<Rightarrow> bool"
  assumes opens: "wf io \<Longrightarrow> nt_open (sys_run (snd (start io)) n) = fds (fst (start io)) @ nt_open n"
    and closes: "nt_open n = fds h @ rest \<Longrightarrow> nt_open (sys_run (stop h) n) = rest"
begin

lemma balanced:
  assumes "wf io"
  shows "nt_open (sys_run (snd (start io) @ stop (fst (start io))) n) = nt_open n"
  using closes [OF opens [OF assms]] by simp

text \<open>Any number of runs one after the other use up no descriptors.\<close>

lemma runs_balanced:
  assumes "list_all wf ios"
  shows "nt_open (sys_run (concat (map (\<lambda>io. snd (start io) @ stop (fst (start io))) ios)) n) = nt_open n"
  using assms by (induction ios arbitrary: n) (use balanced in auto)

end

text \<open>A service moreover listens on a socket file, and its clean-up removes both.\<close>

locale listener = opener start stop fds wf
  for start :: "'io \<Rightarrow> 'h \<times> sys_call list" and stop :: "'h \<Rightarrow> sys_call list" and fds :: "'h \<Rightarrow> int list" and wf :: "'io \<Rightarrow> bool" +
  fixes socket :: "'h \<Rightarrow> int option"
  assumes listens: "wf io \<Longrightarrow> socket (fst (start io)) = Some s \<Longrightarrow>
      s \<in> set (nt_listening (sys_run (snd (start io)) n)) \<and> nt_file (sys_run (snd (start io)) n) \<noteq> None"
    and holds: "socket h = Some s \<Longrightarrow> s \<in> set (fds h)"
    and stops: "socket h = Some s \<Longrightarrow> s \<notin> set (nt_listening (sys_run (stop h) n)) \<and> nt_file (sys_run (stop h) n) = None"
begin

lemma service_cycle:
  assumes "wf io" "socket (fst (start io)) = Some s"
  shows "s \<in> set (nt_open (sys_run (snd (start io)) n)) \<and> s \<in> set (nt_listening (sys_run (snd (start io)) n)) \<and>
    nt_open (sys_run (snd (start io) @ stop (fst (start io))) n) = nt_open n \<and>
    s \<notin> set (nt_listening (sys_run (snd (start io) @ stop (fst (start io))) n)) \<and>
    nt_file (sys_run (snd (start io) @ stop (fst (start io))) n) = None"
  using listens [OF assms, of n] holds [OF assms(2)] stops [OF assms(2)] balanced [OF assms(1), of n]
    opens [OF assms(1), of n] by auto

end

definition fd_list :: "int \<Rightarrow> int list" where
  "fd_list fd = (if fd \<ge> 0 then [fd] else [])"

interpretation ctl_socket: listener ctl_server_init ctl_server_close fd_list "\<lambda>_. True" "\<lambda>fd. if fd \<ge> 0 then Some fd else None"
  by unfold_locales
     (auto simp: ctl_server_init_def ctl_server_close_def fd_list_def Let_def split: if_splits)

interpretation ctl_connection: opener "\<lambda>(fd, ok). connect_to_daemon fd ok" "\<lambda>fd. if fd \<ge> 0 then [SysClose fd] else []" fd_list "\<lambda>_. True"
  by unfold_locales (auto simp: connect_to_daemon_def fd_list_def split: if_splits)

interpretation init_signalfd: opener "\<lambda>(ok, fd). case signal_init ok fd of (r, _, calls) \<Rightarrow> (r, calls)" signal_close fd_list "\<lambda>_. True"
  by unfold_locales (auto simp: signal_init_def signal_close_def fd_list_def split: if_splits)

definition ai_unlisten :: "(int \<times> int) option \<Rightarrow> sys_call list" where
  "ai_unlisten h = (case h of None \<Rightarrow> [] | Some (listen_fd, epoll_fd) \<Rightarrow> [SysClose epoll_fd, SysClose listen_fd, SysUnlink])"

interpretation ai_socket: listener ai_listen ai_unlisten "\<lambda>h. case h of None \<Rightarrow> [] | Some (l, e) \<Rightarrow> [e, l]" "\<lambda>_. True" "map_option fst"
  by unfold_locales (auto simp: ai_listen_def ai_unlisten_def Let_def split: option.splits if_splits)

text \<open>The whole set-up of luna-init, when stage 1 did not panic.\<close>

definition init_setup :: "init_fd_io \<Rightarrow> init_fds \<times> sys_call list" where
  "init_setup io =
     (case init_stage1 io of
        (Some h, calls) \<Rightarrow> (case init_register io h of (f, calls2) \<Rightarrow> (f, calls @ calls2))
      | (None, calls) \<Rightarrow> (\<lparr>if_epfd = - 1, if_sigfd = - 1, if_ctl = - 1, if_inotify = - 1, if_timer = - 1\<rparr>, calls))"

definition init_fd_list :: "init_fds \<Rightarrow> int list" where
  "init_fd_list f = fd_list (if_timer f) @ fd_list (if_inotify f) @ fd_list (if_ctl f) @ fd_list (if_sigfd f) @ [if_epfd f]"

lemma init_stage1_cases:
  "fst (init_stage1 io) = (if 0 \<le> fi_epoll io \<and> fi_masked io \<and> 0 \<le> fi_signalfd io then Some (fi_epoll io, fi_signalfd io) else None)"
  by (simp add: init_stage1_def signal_init_def Let_def)

lemma ctl_init_open:
  "nt_open (sys_run (snd (ctl_server_init io)) n) = fd_list (fst (ctl_server_init io)) @ nt_open n"
  using ctl_socket.opens by simp

interpretation init_loop: opener init_setup init_teardown init_fd_list "\<lambda>io. fst (init_stage1 io) \<noteq> None"
proof unfold_locales
  fix io :: init_fd_io and n assume "fst (init_stage1 io) \<noteq> None"
  then have s1: "init_stage1 io = (Some (fi_epoll io, fi_signalfd io),
      [SysOpen (fi_epoll io), SysOpen (fi_signalfd io), SysWatch (fi_epoll io) (fi_signalfd io)])"
    and h: "0 \<le> fi_signalfd io"
    by (auto simp: init_stage1_def signal_init_def Let_def split: if_splits)
  obtain c calls where c: "ctl_server_init (fi_ctl io) = (c, calls)" by fastforce
  then have "nt_open (sys_run calls n) = fd_list c @ nt_open n" for n using ctl_init_open [of "fi_ctl io" n] by simp
  with c s1 h show "nt_open (sys_run (snd (init_setup io)) n) = init_fd_list (fst (init_setup io)) @ nt_open n"
    by (simp add: init_setup_def init_register_def init_fd_list_def fd_list_def watch_optional_def)
next
  fix n :: net and h rest assume "nt_open n = init_fd_list h @ rest"
  then show "nt_open (sys_run (init_teardown h) n) = rest"
    by (simp add: init_teardown_def init_fd_list_def fd_list_def ctl_server_close_def signal_close_def)
qed

section \<open>At every moment\<close>

text \<open>A condition that holds before, between and after the calls of a sequence.\<close>

fun always :: "(net \<Rightarrow> bool) \<Rightarrow> sys_call list \<Rightarrow> net \<Rightarrow> bool" where
  "always P [] n \<longleftrightarrow> P n"
| "always P (c # cs) n \<longleftrightarrow> P n \<and> always P cs (sys_step c n)"

lemma always_start: "always P cs n \<Longrightarrow> P n"
  by (cases cs) auto

lemma always_append [simp]: "always P (cs @ ds) n \<longleftrightarrow> always P cs n \<and> always P ds (sys_run cs n)"
  by (induction cs arbitrary: n) (auto dest: always_start)

lemma always_prefix: "always P calls n \<Longrightarrow> prefix pre calls \<Longrightarrow> P (sys_run pre n)"
  by (auto simp: prefix_def dest: always_start)

text \<open>Whenever something listens, the socket file has the mode \<open>m\<close>.\<close>

definition reachable_as :: "nat \<Rightarrow> net \<Rightarrow> bool" where
  "reachable_as m n \<longleftrightarrow> (nt_listening n \<noteq> [] \<longrightarrow> nt_file n = Some m)"

definition ctl_mode :: "listen_io \<Rightarrow> nat" where
  "ctl_mode io = (if li_chmod io then 384 else li_mode io)"

lemma ctl_init_mode:
  assumes "nt_listening n = []"
  shows "always (reachable_as (ctl_mode io)) (snd (ctl_server_init io)) n"
  using assms by (simp add: ctl_server_init_def reachable_as_def ctl_mode_def Let_def)

lemma watch_optional_simps [simp]:
  "nt_listening (sys_run (watch_optional e f) n) = nt_listening n" "nt_file (sys_run (watch_optional e f) n) = nt_file n"
  "always (reachable_as m) (watch_optional e f) n \<longleftrightarrow> reachable_as m n"
  by (simp_all add: watch_optional_def reachable_as_def)

text \<open>What the control socket leaves for the event loop.\<close>

lemma ctl_init_result:
  assumes "ctl_server_init io = (fd, calls)" "nt_listening n = []"
  shows "nt_listening (sys_run calls n) = fd_list fd" and "0 \<le> fd \<Longrightarrow> nt_file (sys_run calls n) = Some (ctl_mode io)"
  using assms by (auto simp: ctl_server_init_def fd_list_def ctl_mode_def Let_def split: if_splits)

lemma teardown_result:
  assumes "reachable_as m n" "nt_listening n = fd_list (if_ctl f)"
  shows "always (reachable_as m) (init_teardown f) n" "nt_listening (sys_run (init_teardown f) n) = []"
    "nt_file (sys_run (init_teardown f) n) = None"
  using assms
  by (auto simp: init_teardown_def ctl_server_close_def signal_close_def fd_list_def reachable_as_def split: if_splits)

text \<open>The calls of \<open>main\<close> from stage 1 to its return: a panic at stage 1 never reaches the clean-up.\<close>

definition init_life :: "init_fd_io \<Rightarrow> sys_call list" where
  "init_life io =
     snd (init_setup io) @ (if fst (init_stage1 io) = None then [] else init_teardown (fst (init_setup io)))"

lemma init_setup_calls:
  assumes "fst (init_stage1 io) \<noteq> None" "nt_listening n = []"
    "init_setup io = (f, cs)"
  shows "if_epfd f = fi_epoll io" "if_ctl f = fst (ctl_server_init (fi_ctl io))"
    "always (reachable_as (ctl_mode (fi_ctl io))) cs n" "nt_listening (sys_run cs n) = fd_list (if_ctl f)"
    "0 \<le> if_ctl f \<Longrightarrow> (if_epfd f, if_ctl f) \<in> set (nt_watched (sys_run cs n))"
proof -
  let ?e = "fi_epoll io" and ?s = "fi_signalfd io"
  let ?c1 = "[SysOpen ?e, SysOpen ?s, SysWatch ?e ?s]"
  have s1: "init_stage1 io = (Some (?e, ?s), ?c1)"
    using assms(1) by (auto simp: init_stage1_def signal_init_def Let_def split: if_splits)
  obtain c calls where c: "ctl_server_init (fi_ctl io) = (c, calls)" by fastforce
  have f: "f = \<lparr>if_epfd = ?e, if_sigfd = ?s, if_ctl = c, if_inotify = fi_inotify io, if_timer = fi_timer io\<rparr>"
    and cs: "cs = ?c1 @ calls @ (if c \<ge> 0 then [SysWatch ?e c] else []) @
        watch_optional ?e (fi_inotify io) @ watch_optional ?e (fi_timer io)"
    using assms(3) by (simp_all add: init_setup_def s1 init_register_def c)
  show "if_epfd f = ?e" "if_ctl f = fst (ctl_server_init (fi_ctl io))" by (simp_all add: f c)
  have l: "nt_listening (sys_run ?c1 n) = []" using assms(2) by simp
  note r = ctl_init_result [OF c l]
  have "always (reachable_as (ctl_mode (fi_ctl io))) calls (sys_run ?c1 n)" using ctl_init_mode [OF l] c by (metis snd_conv)
  then show "always (reachable_as (ctl_mode (fi_ctl io))) cs n"
    using r assms(2) by (auto simp: cs reachable_as_def fd_list_def split: if_splits)
  show "nt_listening (sys_run cs n) = fd_list (if_ctl f)" using r(1) by (simp add: cs f)
  show "(if_epfd f, if_ctl f) \<in> set (nt_watched (sys_run cs n))" if "0 \<le> if_ctl f"
    using that by (simp add: cs f watch_optional_def)
qed

lemma init_life_mode:
  assumes "nt_listening n = []"
  shows "always (reachable_as (ctl_mode (fi_ctl io))) (init_life io) n \<and>
    nt_listening (sys_run (init_life io) n) = []"
proof (cases "fst (init_stage1 io) = None")
  case True
  then show ?thesis using assms
    by (auto simp: init_life_def init_setup_def init_stage1_def signal_init_def reachable_as_def Let_def
        split: if_splits option.splits)
next
  case False
  obtain f cs where s: "init_setup io = (f, cs)" by fastforce
  note u = init_setup_calls [OF False assms s]
  have "reachable_as (ctl_mode (fi_ctl io)) (sys_run cs n)" using always_prefix [OF u(3)] by blast
  from teardown_result(1,2) [OF this u(4)] u(3) False show ?thesis by (auto simp: init_life_def s)
qed


definition sample_fd_io :: init_fd_io where
  "sample_fd_io = \<lparr>fi_epoll = 4, fi_masked = True, fi_signalfd = 5,
     fi_ctl = \<lparr>li_socket = 6, li_bind = True, li_mode = 493, li_chmod = True, li_listen = True\<rparr>, fi_inotify = - 1, fi_timer = 7\<rparr>"


text \<open>
  The result of \<open>chmod\<close> is not looked at: when it fails the control socket listens all the same,
  with the mode the file was created with.
\<close>

lemma chmod_failure_ignored:
  assumes "\<not> li_chmod io" "0 \<le> li_socket io" "li_bind io" "li_listen io"
  shows "nt_listening (sys_run (snd (ctl_server_init io)) n) = li_socket io # nt_listening n \<and>
    nt_file (sys_run (snd (ctl_server_init io)) n) = Some (li_mode io)"
  using assms by (simp add: ctl_server_init_def Let_def)

section \<open>Connections, signals and the assistant\<close>

text \<open>A connection is closed again unless its command ends the machine.\<close>

lemma ctl_accept_closes:
  "ctl_accept client io bytes sv = Some (e, calls) \<Longrightarrow> ce_shutdown e = None \<Longrightarrow> nt_open (sys_run calls n) = nt_open n"
  by (auto simp: ctl_accept_def split: if_splits)

text \<open>
  Both programs block exactly the signals their readers act on: a blocked signal is never dropped, and one
  with an action never takes its default effect.
\<close>

lemma signals_handled:
  "signo \<in> set (fst (snd (signal_init True fd))) \<longleftrightarrow> fst (signal_read (Some (signo, pid)) sv) \<noteq> SIGNAL_ACTION_NONE"
  "sig \<in> set (fst (snd (lgp_signal_init True fd))) \<longleftrightarrow> lgp_signal_read (Some sig) \<noteq> LGP_SIGNAL_NONE"
  by (auto simp: signal_init_def init_signals_def signal_read_def lgp_signal_init_def lgp_signals_def lgp_signal_read_def)

text \<open>The daemon's own descriptors, whatever its clients do.\<close>

lemma ai_main_balanced:
  assumes "ai_main aio events = Some (code, st, calls)"
  shows "nt_open (sys_run calls n) = nt_open n"
proof -
  obtain h cs where h: "ai_listen aio = (h, cs)" by fastforce
  then have "calls = cs @ ai_unlisten h"
    using assms by (auto simp: ai_main_def ai_unlisten_def split: option.splits)
  with ai_socket.balanced [of aio n] h show ?thesis by simp
qed

text \<open>Every connection the kernel hands over is in the table and watched, or closed again at once.\<close>

lemma ai_accept_watched:
  assumes "0 \<le> c"
  shows "ai_event_step (AiAccept c) st = Some (fst (ai_accept ep c st))"
    and "nt_open (sys_run (snd (ai_accept ep c st)) n) =
      drop (length (g_clients st)) (g_clients (fst (ai_accept ep c st))) @ nt_open n"
    and "x \<in> set (drop (length (g_clients st)) (g_clients (fst (ai_accept ep c st)))) \<Longrightarrow>
      (ep, x) \<in> set (nt_watched (sys_run (snd (ai_accept ep c st)) n))"
  using assms by (auto simp: ai_accept_def add_client_def set_nonblocking_def split: if_splits)

end
