(* ===== verification/Splash_Descriptors.thy ===== *)
theory Splash_Descriptors
  imports Daemon_Sockets Luna_Splash
begin

text \<open>
  The descriptors of the splash program: what \<open>main.c\<close>, \<open>render.c\<close> and \<open>ipc.c\<close> of \<open>luna-splash\<close> open before the
  loop and close at the label \<open>cleanup\<close>, which every failure jumps to. The contract is the one of
  \<open>Daemon_Sockets\<close>; it fails on one path, where the frame buffer is closed twice.
\<close>

section \<open>Setting up\<close>

text \<open>
  The answers of the calls \<open>main\<close> makes before its loop; \<open>sf_pipe\<close> is the descriptor of the argument \<open>--fd\<close>,
  negative without one, and \<open>sf_frames\<close> says whether \<open>frames_init\<close> found any. The pipe is inherited: it
  counts as opened first.
\<close>

record splash_fd_io =
  sf_pipe :: int
  sf_tty :: int
  sf_fb :: int
  sf_render :: render_io
  sf_epoll :: int
  sf_masked :: bool
  sf_signalfd :: int
  sf_frames :: bool
  sf_timer :: int

record splash_fds =
  sh_tty :: int
  sh_fb :: int
  sh_ipc :: int
  sh_epfd :: int
  sh_sigfd :: int
  sh_timer :: int

definition splash_signals :: "int list" where
  "splash_signals = [15, 2]"

definition setup_signals :: "bool \<Rightarrow> int \<Rightarrow> int \<times> int list \<times> sys_call list" where
  "setup_signals masked sfd =
     (if \<not> masked then (- 1, [], []) else (sfd, splash_signals, if sfd \<ge> 0 then [SysOpen sfd] else []))"

text \<open>\<open>render_init\<close> seen from its descriptor: on failure \<open>fb_fd\<close> keeps the number it has closed.\<close>

definition render_open :: "int \<Rightarrow> render_io \<Rightarrow> bool \<times> sys_call list" where
  "render_open fd io =
     (if fd < 0 then (False, [])
      else if \<not> ri_fscreeninfo io \<or> \<not> ri_vscreeninfo io \<or> ri_mmap io = None then (False, [SysOpen fd, SysClose fd])
      else (True, [SysOpen fd]))"

definition ipc_init :: "int \<Rightarrow> int" where
  "ipc_init fd = (if fd < 0 then - 1 else fd)"

definition splash_open_loop :: "splash_fd_io \<Rightarrow> splash_fds \<Rightarrow> splash_fds \<times> sys_call list" where
  "splash_open_loop io h =
     (let epfd = sf_epoll io in
      if epfd < 0 then (h, [])
      else
        (case setup_signals (sf_masked io) (sf_signalfd io) of
           (sigfd, _, calls) \<Rightarrow>
             if sigfd < 0 then (h\<lparr>sh_epfd := epfd\<rparr>, SysOpen epfd # calls)
             else
               (h\<lparr>sh_epfd := epfd, sh_sigfd := sigfd, sh_timer := (if sf_frames io then sf_timer io else - 1)\<rparr>,
                SysOpen epfd # calls @ [SysWatch epfd sigfd] @
                (if sf_pipe io \<ge> 0 then [SysWatch epfd (sf_pipe io)] else []) @
                (if sf_frames io then watch_optional epfd (sf_timer io) else []))))"

definition splash_open :: "splash_fd_io \<Rightarrow> splash_fds \<times> sys_call list" where
  "splash_open io =
     (let h = \<lparr>sh_tty = sf_tty io, sh_fb = sf_fb io, sh_ipc = - 1, sh_epfd = - 1, sh_sigfd = - 1, sh_timer = - 1\<rparr>;
          inherited = (if sf_pipe io \<ge> 0 then [SysOpen (sf_pipe io)] else []);
          tty = (if sf_tty io \<ge> 0 then [SysOpen (sf_tty io), SysSetup (sf_tty io)] else [])
      in case render_open (sf_fb io) (sf_render io) of
           (False, calls) \<Rightarrow> (h, inherited @ tty @ calls)
         | (True, calls) \<Rightarrow>
             (case splash_open_loop io (h\<lparr>sh_ipc := ipc_init (sf_pipe io)\<rparr>) of
                (h', calls') \<Rightarrow> (h', inherited @ tty @ calls @ calls')))"

section \<open>Cleaning up\<close>

definition close_open :: "int \<Rightarrow> sys_call list" where
  "close_open fd = (if fd \<ge> 0 then [SysClose fd] else [])"

definition ipc_cleanup :: "int \<Rightarrow> sys_call list" where
  "ipc_cleanup ipc_fd = close_open ipc_fd"

text \<open>The memory of the shadow and the mapping is released before, which is not seen here.\<close>

definition render_cleanup :: "int \<Rightarrow> sys_call list" where
  "render_cleanup fb_fd = close_open fb_fd"

definition splash_cleanup :: "splash_fds \<Rightarrow> sys_call list" where
  "splash_cleanup h =
     close_open (sh_timer h) @ close_open (sh_sigfd h) @ close_open (sh_epfd h) @ ipc_cleanup (sh_ipc h) @
     render_cleanup (sh_fb h) @ (if sh_tty h \<ge> 0 then [SysSetup (sh_tty h), SysClose (sh_tty h)] else [])"

section \<open>The contract\<close>

definition splash_fd_list :: "splash_fds \<Rightarrow> int list" where
  "splash_fd_list h = fd_list (sh_timer h) @ fd_list (sh_sigfd h) @ fd_list (sh_epfd h) @ fd_list (sh_fb h) @
     fd_list (sh_tty h) @ fd_list (sh_ipc h)"

lemma close_open_first: "nt_open n = fd_list fd @ rest \<Longrightarrow> nt_open (sys_run (close_open fd) n) = rest"
  by (simp add: close_open_def fd_list_def split: if_splits)

lemma close_last_three:
  assumes "nt_open n = fd_list fb @ fd_list tty @ fd_list ipc @ rest"
  shows "nt_open (sys_run (close_open ipc @ close_open fb @ (if tty \<ge> 0 then [SysSetup tty, SysClose tty] else [])) n) = rest"
  using assms by (auto simp: close_open_def fd_list_def split: if_splits)

text \<open>With a usable frame buffer the program closes all it has, the inherited pipe included, on every path.\<close>

interpretation splash_fds: opener splash_open splash_cleanup splash_fd_list "\<lambda>io. fst (render_open (sf_fb io) (sf_render io))"
proof unfold_locales
  fix io :: splash_fd_io and n assume "fst (render_open (sf_fb io) (sf_render io))"
  then have r: "render_open (sf_fb io) (sf_render io) = (True, [SysOpen (sf_fb io)])" "0 \<le> sf_fb io"
    by (auto simp: render_open_def split: if_splits)
  show "nt_open (sys_run (snd (splash_open io)) n) = splash_fd_list (fst (splash_open io)) @ nt_open n"
    using r(2) by (simp add: splash_open_def r(1) splash_open_loop_def setup_signals_def splash_fd_list_def fd_list_def
        ipc_init_def watch_optional_def Let_def)
next
  fix n :: net and h rest assume "nt_open n = splash_fd_list h @ rest"
  then have "nt_open (sys_run (close_open (sh_timer h) @ close_open (sh_sigfd h) @ close_open (sh_epfd h)) n) =
      fd_list (sh_fb h) @ fd_list (sh_tty h) @ fd_list (sh_ipc h) @ rest"
    by (simp only: splash_fd_list_def append_assoc sys_run_simps close_open_first)
  from close_last_three [OF this] show "nt_open (sys_run (splash_cleanup h) n) = rest"
    by (simp only: splash_cleanup_def ipc_cleanup_def render_cleanup_def append_assoc sys_run_simps)
qed

lemma splash_tty: "sh_tty (fst (splash_open io)) = sf_tty io"
  by (simp add: splash_open_def splash_open_loop_def Let_def split: prod.split bool.split)

text \<open>Whatever failed, the terminal is put back into text mode last, and its descriptor closed.\<close>

lemma terminal_restored:
  assumes "0 \<le> sf_tty io"
  shows "\<exists>calls. snd (splash_open io) @ splash_cleanup (fst (splash_open io)) = calls @ [SysSetup (sf_tty io), SysClose (sf_tty io)]"
  using assms by (simp add: splash_cleanup_def splash_tty)

text \<open>
  A frame buffer that opens but cannot be used is closed twice: by \<open>render_init\<close>, which leaves the number in
  \<open>fb_fd\<close>, and by \<open>render_cleanup\<close>. The inherited pipe is not closed on this path.
\<close>

lemma unusable_framebuffer_closed_twice:
  assumes "0 \<le> sf_fb io" "\<not> fst (render_open (sf_fb io) (sf_render io))" "sf_tty io \<noteq> sf_fb io"
  shows "count_list (snd (splash_open io) @ splash_cleanup (fst (splash_open io))) (SysClose (sf_fb io)) = 2"
    and "0 \<le> sf_pipe io \<Longrightarrow> SysClose (sf_pipe io) \<in> set (snd (splash_open io) @ splash_cleanup (fst (splash_open io))) \<Longrightarrow>
      sf_pipe io = sf_fb io \<or> sf_pipe io = sf_tty io"
proof -
  have r: "render_open (sf_fb io) (sf_render io) = (False, [SysOpen (sf_fb io), SysClose (sf_fb io)])"
    using assms(1,2) by (auto simp: render_open_def split: if_splits)
  show "count_list (snd (splash_open io) @ splash_cleanup (fst (splash_open io))) (SysClose (sf_fb io)) = 2"
    using assms(1,3)
    by (simp add: splash_open_def r splash_cleanup_def close_open_def ipc_cleanup_def render_cleanup_def)
  show "0 \<le> sf_pipe io \<Longrightarrow> SysClose (sf_pipe io) \<in> set (snd (splash_open io) @ splash_cleanup (fst (splash_open io))) \<Longrightarrow>
      sf_pipe io = sf_fb io \<or> sf_pipe io = sf_tty io"
    by (auto simp: splash_open_def r splash_cleanup_def close_open_def ipc_cleanup_def render_cleanup_def split: if_splits)
qed

text \<open>The two blocked signals are the two that end the loop.\<close>

lemma splash_signals_end:
  "splash_step stbi_load font md pipe_fd (SpSignal (Some signo)) sp = Some (sp\<lparr>sp_running := False\<rparr>)
     \<longleftrightarrow> signo \<in> set (fst (snd (setup_signals True fd))) \<or> \<not> sp_running sp"
  by (cases sp) (auto simp: splash_step_def setup_signals_def splash_signals_def)

end
