(* ===== verification/Spec2Isabelle.thy ===== *)
theory Spec2Isabelle
  imports Toml_Print Service_Files Init_Console Luna_Splash_Inv Lgp_Devices Lgp_Log
    Lgp_Isolation Lpkg Splash_Descriptors
begin

text \<open>
  A verification library for the C programs of MahinaOS.

  \<^bold>\<open>The program.\<close> MahinaOS is a small Linux user land. \<open>luna-init\<close> is process 1: it reads the service
  files of a directory with its own TOML reader, orders them by their dependencies, starts and
  supervises them, answers the command line client \<open>luna-init-ctl\<close> on a socket and shuts the system
  down; while it boots, \<open>luna-splash\<close> shows the progress it reports through a pipe. \<open>lgp-compositor\<close> is the display server: clients connect to its socket, negotiate
  capabilities, create surfaces and commit shared buffers, the window manager moves and focuses them,
  input devices are read and routed, and every frame is composed in software. \<open>lpkg\<close> installs signed
  packages and \<open>luna-ai-d\<close> relays prompts to a local model server. The programs are single threaded
  event loops; they share files and sockets but no memory. All paths below are relative to
  \<open>src/src\<close>.

  \<^bold>\<open>Conventions\<close> (\<open>Mahina_Prelude\<close>). A C string is the list of its characters up to the NUL, a byte
  buffer a list of characters or of \<open>8 word\<close>. Where the code does unsigned or wrapping arithmetic the
  model uses machine words; signed arithmetic is on \<open>int\<close> with the range written out where the code
  relies on it. A function that may read or write outside an object, or overflow a signed integer,
  returns an \<open>option\<close> and \<open>None\<close> is the undefined behaviour, with one exception: the shift of a byte into
  the sign bit of \<open>int\<close> in the decoders of \<open>tlv.c\<close> and \<open>hello.c\<close>, undefined in ISO C, is read as two's
  complement, as clang, the compiler of the build, translates it; a function that reports an error returns a
  sum with the error on the left. What the kernel or a library answers (the outcome of a call, the
  bytes of a file or a socket, the clock) is an argument, gathered in a record per operation
  (\<open>pump_io\<close>, \<open>stop_io\<close>, \<open>ctl_io\<close>, \<open>lgp_kernel\<close>, \<open>lpkg_io\<close>, \<open>inference_io\<close>,
  \<open>render_io\<close>, \<open>splash_sys\<close>); nothing is assumed of it but what a theorem names. Calls of the loggers are
  left out; the two loggers themselves are modelled.

  \<^bold>\<open>luna-init.\<close>
  \<^item> \<open>Toml\<close> models \<open>luna-init/toml.c\<close>: the line parser, values, arrays, table headers, the file loader
    and all lookups. It is total, never reads outside the line, and respects the fixed table sizes. The
    locale \<open>typed_lookup\<close> states what the three lookups share.
  \<^item> \<open>Toml_Print\<close> adds a printer and proves that the reader inverts it.
  \<^item> \<open>Service\<close> models \<open>service.c\<close>: the service record, the parser of one file, the directory scanner and
    the lookups by name (locale \<open>name_lookup\<close>).
  \<^item> \<open>Depgraph\<close> models \<open>depgraph.c\<close>: the construction of the graph, the cycle check and the topological
    sort, proved against the order the files declare.
  \<^item> \<open>Service_Files\<close> follows a service file from its text to its place in the graph.
  \<^item> \<open>Supervisor\<close> models \<open>supervisor.c\<close>: readiness probes, the system calls of a new process, the pump,
    start, stop and the handling of an exit. Shown are the invariant of every reachable state, the
    order of starts, that a boot completes for the services that do not wait for the compositor's socket,
    and that a stop terminates.
  \<^item> \<open>Init_Control\<close> models \<open>ctl.c\<close>, \<open>signal.c\<close>, \<open>reaper.c\<close>, \<open>shutdown.c\<close>, the event loop of \<open>main.c\<close> and
    \<open>luna-init-ctl/main.c\<close>. Every iteration of the loop is a sequence of supervisor steps, so the
    supervisor's invariants hold in it.
  \<^item> \<open>Init_Log\<close> models \<open>log.c\<close>: entries, the two modes and the change between them.
  \<^item> \<open>Init_Boot\<close> models \<open>mount.c\<close>, \<open>hostname.c\<close>, \<open>splash.c\<close>, the stages of \<open>main.c\<close> before the loop and
    \<open>shutdown_run\<close>. A boot panics for exactly three reasons and ends in a reachable state of the event
    loop otherwise; a shutdown undoes the first sixteen mounts in reverse order.
  \<^item> \<open>Init_Console\<close> models the shells of \<open>panic.c\<close> and \<open>console.c\<close> and the client \<open>luna-init-ctl\<close> talking to
    the control socket.

  \<^bold>\<open>luna-splash.\<close>
  \<^item> \<open>Splash_Ipc\<close> models \<open>ipc.c\<close>: the messages of luna-init arrive unchanged however they are cut.
  \<^item> \<open>Luna_Splash\<close> models \<open>render.c\<close>, \<open>frames.c\<close> and \<open>main.c\<close>; \<open>Luna_Splash_Inv\<close> shows that no access leaves
    the frame buffer, its shadow or a frame (one instance of \<open>safe_loop\<close> per kind of loop), what
    the progress bar shows, and that the fade ends in black.
  \<^item> \<open>Splash_Descriptors\<close> follows its descriptors and the mode of the terminal from start to exit.

  \<^bold>\<open>lgp-compositor.\<close>
  \<^item> \<open>Lgp_Wire\<close> models \<open>protocol/tlv.c\<close>, \<open>surface.c\<close> and \<open>wm.c\<close>: framing and payloads, with one locale
    (\<open>payload_codec\<close>) for all decoders.
  \<^item> \<open>Lgp_Client\<close> models \<open>ipc/client.c\<close>, \<open>protocol/caps.c\<close>, \<open>protocol/hello.c\<close>, the queue of passed
    descriptors and the read path of \<open>main.c\<close>.
  \<^item> \<open>Surface_Manager\<close> models the surface table of \<open>scene/surface.c\<close>; the locale \<open>slot_guard\<close> says that a
    request changes only slots of its session. The table is refined to a map from ids to surfaces.
  \<^item> \<open>Canvas\<close> holds memory as bytes, the contract of a loop over it (locale \<open>safe_loop\<close>) and the pictures
    in it, for the compositor and the splash program;
    \<open>Composite\<close> models composition and the cursor on bytes and proves them equal to a reference picture.
  \<^item> \<open>Lgp_Server\<close> models the state and all message handlers of \<open>main.c\<close> and \<open>kms/page_flip.c\<close>;
    \<open>Lgp_Server_Inv\<close> proves the server invariant for each of them through the locale
    \<open>message_handler\<close>.
  \<^item> \<open>Lgp_Input\<close> models \<open>input/input.c\<close>, \<open>mouse.c\<close> and \<open>keyboard.c\<close> (locale \<open>input_driver\<close>), \<open>Lgp_Main\<close> the
    event loop with \<open>util/signal.c\<close> and the reachable states, \<open>Lgp_Setup\<close> the start (\<open>config/args.c\<close>,
    \<open>ipc/socket_server.c\<close>, \<open>drm/connector.c\<close>, \<open>kms/dumb_buffer.c\<close>), \<open>Lgp_Devices\<close> the graphics device
    (\<open>drm/device.c\<close>, \<open>kms/crtc.c\<close>) and the libinput back end, \<open>Lgp_Log\<close> the logger (\<open>logging/log.c\<close>).
  \<^item> \<open>Lgp_Isolation\<close> says what clients of ordinary users can do to the server: every handler meets the
    contract of the locale \<open>isolating_handler\<close>, so no frame of theirs touches the surfaces of other
    sessions or the other clients, and the only fault they can cause is a buffer with too short a file.

  \<^bold>\<open>lpkg\<close> (\<open>Lpkg\<close>) models \<open>lpkg/main.c\<close>, \<open>db.c\<close>, \<open>verify.c\<close> and \<open>pkg.c\<close>: only archives whose signature libsodium
  accepts are unpacked, the database survives writing and reading unless the disk is full, which the code
  does not notice, and the commands act on a map.

  \<^bold>\<open>luna-ai-d\<close> (\<open>Luna_Ai\<close>) models \<open>presence.c\<close>, \<open>inference.c\<close> and \<open>main.c\<close>: responses are handed to
  the client unchanged however the stream is cut, and no connection is lost.

  \<^bold>\<open>Across the programs.\<close>
  \<^item> \<open>Daemon_Sockets\<close> models the descriptors around the event loops: the control socket (\<open>ctl.c\<close>), the signal
    descriptors (\<open>signal.c\<close>, \<open>util/signal.c\<close>), the set-up and clean-up in the two \<open>main.c\<close> of luna-init and
    luna-ai-d and the connection of \<open>luna-init-ctl\<close>. The locales \<open>opener\<close> and \<open>listener\<close> state what set-up and
    clean-up owe: what was opened is closed on every path, and the control socket is never open to others unless
    \<open>chmod\<close> fails, which the code ignores.
  \<^item> \<open>Lgp_Test_Client\<close> models \<open>lgp-compositor/test_client.c\<close> and its session with the server, which fails.

  \<^bold>\<open>Loops.\<close> Loops over data are recursive functions with termination proofs. Loops that wait for the
  kernel (the event loops, the wait of a stop, the read loops) recurse over the list of the kernel's
  answers; where a result is claimed, the hypothesis says which answers suffice, for instance a clock
  that passes the timeout or at least as many reads as bytes.

  \<^bold>\<open>Hypotheses on the outside.\<close> \<open>event_fresh\<close>: the allocator returns an address that is not in
  use. \<open>framebuffer_ok\<close>: the mapping of the front buffer has the size the
  driver reported; \<open>sys_ok\<close> says the same for the splash program, whose property also asks for 32 bits per
  pixel where there are frames; \<open>decoder_ok\<close>: \<open>stb_image\<close> returns as many bytes as the size it reports needs; \<open>writes_complete\<close>: the
  kernel takes a short reply whole, for the session of the test client. Nothing is assumed of the files behind committed buffers; \<open>padded\<close> compares
  them with longer ones. Every theorem with such a hypothesis has an instance in which it holds.

  \<^bold>\<open>Not modelled.\<close> Infinities and NaN in the pointer position of libinput, whose sums are real numbers
  with an arbitrary rounding; the texts of banners and log messages; the vendored \<open>stb_image.h\<close> (an argument
  of the splash program, as is the table in \<open>font8x16.h\<close>) and Unity; \<open>tools/gen_video.c\<close>, which draws a test
  video with floating-point trigonometry whose rounding the library does not fix; the unit tests and
  fuzzers; the crates in Rust.
\<close>

end
